(* ===== verification/Prelude.thy ===== *)
theory Prelude
  imports Main "HOL-Library.Word" "HOL-Library.Multiset"
begin

text \<open>
  Shared vocabulary of the development: machine integer types, the outcome of a fallible
  Rust function, and generic lemmas on words, lists and multisets used by all components.

  Integers: \<open>usize\<close>, \<open>uintptr_t\<close> and \<open>u64\<close> are \<open>64 word\<close> (both targets of
  src/hfo2/src/arch/mod.rs are 64-bit); \<open>+\<close>, \<open>-\<close> and shifts wrap, which is the behaviour of
  the release profile (overflow checks off).
\<close>

unbundle bit_operations_syntax

type_synonym u8 = "8 word"
type_synonym u16 = "16 word"
type_synonym u32 = "32 word"
type_synonym u64 = "64 word"
type_synonym usize = "64 word"

section \<open>Outcomes of fallible code\<close>

text \<open>
  \<open>Result<T, E>\<close> together with the third way a Rust function can end: a panic
  (\<open>panic!\<close>, \<open>unwrap\<close> on an error, slice index out of range), which with \<open>panic = "abort"\<close>
  (src/hfo2/Cargo.toml) stops the hypervisor.
\<close>

datatype ('a, 'e) outcome = Ok 'a | Err 'e | Panic

type_synonym 'a res = "('a, unit) outcome"

primrec is_ok :: "('a, 'e) outcome \<Rightarrow> bool" where
  "is_ok (Ok x) = True"
| "is_ok (Err e) = False"
| "is_ok Panic = False"

lemma is_ok_iff: "is_ok r \<longleftrightarrow> (\<exists>x. r = Ok x)"
  by (cases r) auto

section \<open>Words\<close>

named_theorems unat_simps \<open>readings of word operations as natural numbers\<close>

lemma unat_and_mask [unat_simps]: "unat (w AND mask n) = unat w mod 2 ^ n"
  for w :: "'a::len word"
  by (simp only: unsigned_take_bit_eq take_bit_eq_mod [symmetric] take_bit_eq_mask [symmetric])

lemma and_not_mask_minus: "w AND NOT (mask n) = w - (w AND mask n)" for w :: "'a::len word"
proof -
  have "(w AND NOT (mask n)) AND (w AND mask n) = 0"
    by (rule bit_word_eqI) (auto simp: bit_simps)
  then have "(w AND NOT (mask n)) + (w AND mask n) = (w AND NOT (mask n)) OR (w AND mask n)"
    by (rule disjunctive_add_eq_or)
  also have "\<dots> = w"
    by (rule bit_word_eqI) (auto simp: bit_simps)
  finally show ?thesis
    by (simp add: eq_diff_eq)
qed

lemma unat_and_not_mask [unat_simps]: "unat (w AND NOT (mask n)) = unat w div 2 ^ n * 2 ^ n"
  for w :: "'a::len word"
proof -
  have "w AND mask n \<le> w" by (simp add: word_and_le2)
  then have "unat (w AND NOT (mask n)) = unat w - unat (w AND mask n)"
    by (simp add: and_not_mask_minus unat_sub)
  then show ?thesis by (simp add: unat_and_mask minus_mod_eq_div_mult)
qed

lemma unat_drop_bit [unat_simps]: "unat (drop_bit n w) = unat w div 2 ^ n" for w :: "'a::len word"
  by (simp only: unat_drop_bit_eq drop_bit_eq_div [symmetric])

lemma unat_push_bit [unat_simps]: "unat (push_bit n w) = (unat w * 2 ^ n) mod 2 ^ LENGTH('a)"
  for w :: "'a::len word"
  by (simp only: unsigned_push_bit_eq take_bit_eq_mod [symmetric] push_bit_eq_mult [symmetric])

lemma unat_add_no_wrap: "unat a + unat b < 2 ^ LENGTH('a) \<Longrightarrow> unat (a + b) = unat a + unat b"
  for a b :: "'a::len word"
  by (simp add: unat_word_ariths)

lemma unat_mult_no_wrap: "unat a * unat b < 2 ^ LENGTH('a) \<Longrightarrow> unat (a * b) = unat a * unat b"
  for a b :: "'a::len word"
  by (simp add: unat_word_ariths)

lemma push_bit_1_minus_1: "push_bit n 1 - 1 = (mask n :: 'a::len word)"
  by (simp add: mask_eq_decr_exp push_bit_eq_mult)

lemma unat_push_bit_1: "n < LENGTH('a) \<Longrightarrow> unat (push_bit n 1 :: 'a::len word) = 2 ^ n"
  unfolding unat_push_bit by simp

lemma word_eq_unatI: "unat a = unat b \<Longrightarrow> a = b" for a b :: "'a::len word"
  by (simp add: word_unat_eq_iff)

lemma unat_lt64: "unat w < 2 ^ 64" for w :: u64
  using unsigned_less [of w] by simp

end
