(* ===== verification/Addr.thy ===== *)
theory Addr
  imports Prelude
begin

text \<open>
  Address arithmetic: the constants of src/hfo2/src/page.rs, the opaque address types of
  src/hfo2/src/addr.rs, the rounding helpers of src/hfo2/src/utils.rs and
  src/hfo2/src/std.rs, and the module \<open>addr\<close> of src/hfo2/src/mm.rs.

  A page table level is a \<open>u8\<close> in the source and a \<open>nat\<close> here: the levels in use are at
  most 4, and the only arithmetic on them that could wrap is \<open>level - 1\<close> at level 0, which
  the model of the page tables turns into a panic.
\<close>

section \<open>Constants and address types\<close>

definition PAGE_BITS :: nat where "PAGE_BITS = 12"
definition PAGE_SIZE :: usize where "PAGE_SIZE = push_bit PAGE_BITS 1"
definition PAGE_LEVEL_BITS :: nat where "PAGE_LEVEL_BITS = 9"

text \<open>\<open>PAGE_SIZE / mem::size_of::<PageTableEntry>()\<close>, an entry being one \<open>pte_t = u64\<close>.\<close>

definition PTE_PER_PAGE :: nat where "PTE_PER_PAGE = unat PAGE_SIZE div 8"

record paddr_t =
  pa :: usize

record ipaddr_t =
  ipa :: usize

record vaddr_t =
  va :: usize

definition pa_init :: "usize \<Rightarrow> paddr_t" where "pa_init p = \<lparr>pa = p\<rparr>"
definition pa_addr :: "paddr_t \<Rightarrow> usize" where "pa_addr p = pa p"
definition pa_add :: "paddr_t \<Rightarrow> usize \<Rightarrow> paddr_t" where "pa_add p n = pa_init (pa_addr p + n)"

definition pa_difference :: "paddr_t \<Rightarrow> paddr_t \<Rightarrow> usize" where
  "pa_difference s e = pa_addr e - pa_addr s"

definition ipa_init :: "usize \<Rightarrow> ipaddr_t" where "ipa_init i = \<lparr>ipa = i\<rparr>"
definition ipa_addr :: "ipaddr_t \<Rightarrow> usize" where "ipa_addr i = ipa i"

definition ipa_add :: "ipaddr_t \<Rightarrow> usize \<Rightarrow> ipaddr_t" where
  "ipa_add i n = ipa_init (ipa_addr i + n)"

definition va_init :: "usize \<Rightarrow> vaddr_t" where "va_init v = \<lparr>va = v\<rparr>"
definition va_addr :: "vaddr_t \<Rightarrow> usize" where "va_addr v = va v"
definition va_from_pa :: "paddr_t \<Rightarrow> vaddr_t" where "va_from_pa p = va_init (pa_addr p)"
definition ipa_from_pa :: "paddr_t \<Rightarrow> ipaddr_t" where "ipa_from_pa p = ipa_init (pa_addr p)"
definition pa_from_va :: "vaddr_t \<Rightarrow> paddr_t" where "pa_from_va v = pa_init (va_addr v)"
definition pa_from_ipa :: "ipaddr_t \<Rightarrow> paddr_t" where "pa_from_ipa i = pa_init (ipa_addr i)"

lemmas addr_defs = pa_init_def pa_addr_def pa_add_def pa_difference_def ipa_init_def ipa_addr_def
  ipa_add_def va_init_def va_addr_def va_from_pa_def ipa_from_pa_def pa_from_va_def pa_from_ipa_def

lemma pa_addr_init [simp]: "pa_addr (pa_init p) = p"
  by (simp add: addr_defs)

lemma ipa_addr_init [simp]: "ipa_addr (ipa_init p) = p"
  by (simp add: addr_defs)

lemma pa_from_ipa_from_pa [simp]: "pa_from_ipa (ipa_from_pa p) = p"
  by (simp add: addr_defs)

section \<open>Rounding (utils.rs, std.rs)\<close>

definition is_aligned :: "usize \<Rightarrow> usize \<Rightarrow> bool" where
  "is_aligned v a \<longleftrightarrow> v AND (a - 1) = 0"

text \<open>
  Division by zero panics; \<open>div_ceil\<close> and \<open>round_up\<close> are only called with a positive divisor
  and are given here for that case (HOL's \<open>x div 0 = 0\<close> is never used).
\<close>

definition div_ceil :: "usize \<Rightarrow> usize \<Rightarrow> usize" where "div_ceil a b = (a + b - 1) div b"
definition div_floor :: "usize \<Rightarrow> usize \<Rightarrow> usize" where "div_floor a b = a div b"
definition round_up :: "usize \<Rightarrow> usize \<Rightarrow> usize" where "round_up a b = div_ceil a b * b"
definition round_down :: "usize \<Rightarrow> usize \<Rightarrow> usize" where "round_down a b = div_floor a b * b"

section \<open>Page table addresses (mm.rs, module addr)\<close>

definition round_down_to_page :: "usize \<Rightarrow> usize" where
  "round_down_to_page addr = addr AND NOT (PAGE_SIZE - 1)"

definition round_up_to_page :: "usize \<Rightarrow> usize" where
  "round_up_to_page addr = round_down_to_page (addr + PAGE_SIZE - 1)"

definition entry_size :: "nat \<Rightarrow> usize" where
  "entry_size level = push_bit (PAGE_BITS + level * PAGE_LEVEL_BITS) 1"

definition start_of_next_block :: "usize \<Rightarrow> usize \<Rightarrow> usize" where
  "start_of_next_block addr block_size = (addr + block_size) AND NOT (block_size - 1)"

definition level_end :: "usize \<Rightarrow> nat \<Rightarrow> usize" where
  "level_end addr level =
     (let offset = PAGE_BITS + (level + 1) * PAGE_LEVEL_BITS
      in push_bit offset (drop_bit offset addr + 1))"

definition index :: "usize \<Rightarrow> nat \<Rightarrow> usize" where
  "index addr level =
     (let v = drop_bit (PAGE_BITS + level * PAGE_LEVEL_BITS) addr
      in v AND (push_bit PAGE_LEVEL_BITS 1 - 1))"

section \<open>Readings as natural numbers\<close>

text \<open>\<open>esize l\<close> is the number of bytes an entry at level \<open>l\<close> covers.\<close>

definition esize :: "nat \<Rightarrow> nat" where
  "esize l = 2 ^ (12 + 9 * l)"

lemma esize_pos [simp]: "0 < esize l"
  by (simp add: esize_def)

lemma esize_neq_0 [simp]: "esize l \<noteq> 0"
  by (simp add: esize_def)

lemma le_mult_esize: "x \<le> x * esize l"
  using esize_pos [of l] by (cases "esize l") auto

lemma esize_Suc: "esize (Suc l) = 512 * esize l"
  by (simp add: esize_def power_add)

lemma esize_0: "esize 0 = 4096"
  by (simp add: esize_def)

lemma esize_dvd: "l \<le> m \<Longrightarrow> esize l dvd esize m"
  unfolding esize_def by (rule le_imp_power_dvd) simp

lemma esize_mono: "l \<le> m \<Longrightarrow> esize l \<le> esize m"
  unfolding esize_def by (rule power_increasing) simp_all

lemma page_dvd_esize: "4096 dvd esize l"
  using esize_dvd [of 0 l] by (simp add: esize_0)

lemma PAGE_SIZE_mask: "PAGE_SIZE - 1 = mask 12"
  by (simp add: PAGE_SIZE_def PAGE_BITS_def mask_eq_decr_exp)

lemma unat_PAGE_SIZE [simp]: "unat PAGE_SIZE = 4096"
  by (simp add: PAGE_SIZE_def PAGE_BITS_def)

lemma PTE_PER_PAGE_eq: "PTE_PER_PAGE = 512"
  by (simp add: PTE_PER_PAGE_def)

lemma entry_size_mask: "entry_size l - 1 = mask (12 + 9 * l)"
  unfolding entry_size_def PAGE_BITS_def PAGE_LEVEL_BITS_def push_bit_1_minus_1
  by (simp add: mult.commute)

lemma unat_entry_size: "l \<le> 5 \<Longrightarrow> unat (entry_size l) = esize l"
  unfolding entry_size_def esize_def PAGE_BITS_def PAGE_LEVEL_BITS_def
  by (subst unat_push_bit_1) (simp_all add: mult.commute)

lemma unat_index: "unat (index a l) = unat a div esize l mod 512"
  by (simp add: index_def Let_def push_bit_1_minus_1 unat_and_mask unat_drop_bit
      PAGE_BITS_def PAGE_LEVEL_BITS_def esize_def mult.commute del: push_bit_of_1)

lemma index_less: "unat (index a l) < PTE_PER_PAGE"
  by (simp add: unat_index PTE_PER_PAGE_eq)

lemma unat_round_down_to_page: "unat (round_down_to_page a) = unat a div 4096 * 4096"
  using unat_and_not_mask [of a 12] by (simp add: round_down_to_page_def PAGE_SIZE_mask)

lemma unat_round_up_to_page:
  assumes "unat a + 4095 < 2 ^ 64"
  shows "unat (round_up_to_page a) = (unat a + 4095) div 4096 * 4096"
proof -
  have "a + PAGE_SIZE - 1 = a + 4095"
    by (simp add: PAGE_SIZE_def PAGE_BITS_def)
  then have "unat (a + PAGE_SIZE - 1) = unat a + 4095"
    using assms by (simp only: unat_word_ariths) simp
  then show ?thesis
    by (simp add: round_up_to_page_def unat_round_down_to_page)
qed

lemma unat_start_of_next_block:
  assumes "l \<le> 5" "unat a + esize l < 2 ^ 64"
  shows "unat (start_of_next_block a (entry_size l)) = (unat a div esize l + 1) * esize l"
proof -
  have "unat (a + entry_size l) = unat a + esize l"
    using assms by (simp add: unat_add_no_wrap unat_entry_size)
  then show ?thesis
    by (simp add: start_of_next_block_def entry_size_mask unat_and_not_mask div_add_self2 flip: esize_def)
qed

lemma unat_level_end:
  assumes "(unat a div esize (Suc l) + 1) * esize (Suc l) < 2 ^ 64"
  shows "unat (level_end a l) = (unat a div esize (Suc l) + 1) * esize (Suc l)"
proof -
  let ?n = "PAGE_BITS + (l + 1) * PAGE_LEVEL_BITS"
  have n: "2 ^ ?n = esize (Suc l)"
    by (simp add: esize_def PAGE_BITS_def PAGE_LEVEL_BITS_def mult.commute)
  have le: "unat a div esize (Suc l) + 1 \<le> (unat a div esize (Suc l) + 1) * esize (Suc l)"
    by (rule le_mult_esize)
  have d: "unat (drop_bit ?n a) = unat a div esize (Suc l)"
    by (simp only: unat_drop_bit n)
  have "unat (drop_bit ?n a) + unat (1 :: usize) < 2 ^ LENGTH(64)"
    unfolding d using le assms by simp
  then have "unat (drop_bit ?n a + 1) = unat a div esize (Suc l) + 1"
    by (simp only: unat_add_no_wrap d) simp
  then show ?thesis
    using assms by (simp only: level_end_def Let_def unat_push_bit n) simp
qed

lemma is_aligned_page: "is_aligned v PAGE_SIZE \<longleftrightarrow> 4096 dvd unat v"
  using unat_and_mask [of v 12]
  by (simp add: is_aligned_def PAGE_SIZE_mask dvd_eq_mod_eq_0 flip: unat_eq_zero)

lemma entry_aligned: "b AND (entry_size l - 1) = 0 \<longleftrightarrow> esize l dvd unat b"
  using unat_and_mask [of b "12 + 9 * l"]
  by (simp add: entry_size_mask dvd_eq_mod_eq_0 esize_def flip: unat_eq_zero)

end
