(* ===== verification/Arch.thy ===== *)
theory Arch
  imports Addr
begin

text \<open>
  Page mapping modes and the architecture layer under the page tables: the \<open>Stage\<close> trait of
  src/hfo2/src/mm.rs and the \<open>arch_mm_*\<close> functions it and \<open>PageTableEntry\<close> call, as a record
  of functions; the locales that state what the page table code relies on; the aarch64
  implementation (src/src/arch/aarch64/mm.c) and the host-test implementation
  (src/src/arch/fake/mm.c) as instances.
\<close>

section \<open>Modes\<close>

text \<open>\<open>Mode\<close> and \<open>Flags\<close> are bit sets over \<open>u32\<close>; they are represented by their bits.\<close>

type_synonym mode = u32

definition MODE_R :: mode where "MODE_R = 0x01"
definition MODE_W :: mode where "MODE_W = 0x02"
definition MODE_X :: mode where "MODE_X = 0x04"
definition MODE_D :: mode where "MODE_D = 0x08"
definition MODE_INVALID :: mode where "MODE_INVALID = 0x10"
definition MODE_UNOWNED :: mode where "MODE_UNOWNED = 0x20"
definition MODE_SHARED :: mode where "MODE_SHARED = 0x40"

text \<open>All the bits that \<open>Mode\<close> declares (what \<open>from_bits_truncate\<close> keeps).\<close>

definition MODE_ALL :: mode where "MODE_ALL = 0x7f"

lemmas mode_defs = MODE_R_def MODE_W_def MODE_X_def MODE_D_def MODE_INVALID_def
  MODE_UNOWNED_def MODE_SHARED_def MODE_ALL_def

definition mode_contains :: "mode \<Rightarrow> mode \<Rightarrow> bool" where
  "mode_contains m f \<longleftrightarrow> m AND f = f"

definition mode_intersects :: "mode \<Rightarrow> mode \<Rightarrow> bool" where
  "mode_intersects m f \<longleftrightarrow> m AND f \<noteq> 0"

definition valid_owned_exclusive :: "mode \<Rightarrow> bool" where
  "valid_owned_exclusive m \<longleftrightarrow>
     \<not> mode_intersects m (MODE_INVALID OR MODE_UNOWNED OR MODE_SHARED)"

section \<open>The stage record\<close>

datatype stage_kind = Stage1 | Stage2

record stage =
  kind :: stage_kind
  absent_pte :: "nat \<Rightarrow> u64"
  table_pte :: "nat \<Rightarrow> paddr_t \<Rightarrow> u64"
  block_pte :: "nat \<Rightarrow> paddr_t \<Rightarrow> u64 \<Rightarrow> u64"
  is_block_allowed :: "nat \<Rightarrow> bool"
  pte_is_present :: "u64 \<Rightarrow> nat \<Rightarrow> bool"
  pte_is_valid :: "u64 \<Rightarrow> nat \<Rightarrow> bool"
  pte_is_block :: "u64 \<Rightarrow> nat \<Rightarrow> bool"
  pte_is_table :: "u64 \<Rightarrow> nat \<Rightarrow> bool"
  clear_pa :: "paddr_t \<Rightarrow> paddr_t"
  block_from_pte :: "u64 \<Rightarrow> nat \<Rightarrow> paddr_t"
  table_from_pte :: "u64 \<Rightarrow> nat \<Rightarrow> paddr_t"
  pte_attrs :: "u64 \<Rightarrow> nat \<Rightarrow> u64"
  combine_table_entry_attrs :: "u64 \<Rightarrow> u64 \<Rightarrow> u64"
  max_level :: nat
  root_table_count :: nat
  mode_to_attrs :: "mode \<Rightarrow> u64"
  attrs_to_mode :: "u64 \<Rightarrow> mode res"

text \<open>\<open>Stage::ptable_addr_space_end\<close>.\<close>

definition ptable_addr_space_end :: "stage \<Rightarrow> usize" where
  "ptable_addr_space_end S =
     (let root_level = max_level S + 1
      in word_of_nat (root_table_count S) * entry_size root_level)"

text \<open>
  Attribute words: \<open>attrs_ok\<close> are the ones an entry can carry, \<open>attrs_present\<close> the ones that
  make a block present, \<open>attrs_valid\<close> the ones that make it valid for the hardware. All read the
  word as an entry at level 0.
\<close>

definition attrs_ok :: "stage \<Rightarrow> u64 \<Rightarrow> bool" where
  "attrs_ok S at \<longleftrightarrow> pte_attrs S at 0 = at"

definition attrs_present :: "stage \<Rightarrow> u64 \<Rightarrow> bool" where
  "attrs_present S at \<longleftrightarrow> pte_is_present S at 0"

definition attrs_valid :: "stage \<Rightarrow> u64 \<Rightarrow> bool" where
  "attrs_valid S at \<longleftrightarrow> pte_is_valid S at 0"

text \<open>Addresses an entry at level \<open>l\<close> may hold: aligned to the entry and below \<open>2 ^ 48\<close>.\<close>

definition frame_at :: "nat \<Rightarrow> usize \<Rightarrow> bool" where
  "frame_at l p \<longleftrightarrow> esize l dvd unat p \<and> unat p < 2 ^ 48"

section \<open>Frames\<close>

lemma frame_end:
  assumes "frame_at l p" "l \<le> 4"
  shows "unat p + esize l \<le> 2 ^ 48"
proof -
  obtain k where k: "unat p = esize l * k"
    using assms(1) by (auto simp: frame_at_def elim: dvdE)
  have e: "2 ^ 48 = esize l * 2 ^ (36 - 9 * l)"
    using assms(2) by (simp add: esize_def flip: power_add)
  have "esize l * k < esize l * 2 ^ (36 - 9 * l)"
    using assms(1) k unfolding frame_at_def e by metis
  then have "k < 2 ^ (36 - 9 * l)"
    by simp
  then have "esize l * Suc k \<le> esize l * 2 ^ (36 - 9 * l)"
    by (intro mult_le_mono2) simp
  then show ?thesis
    using k e by simp
qed

lemma unat_offset:
  assumes "i < 512" "l \<le> 4"
  shows "unat (word_of_nat i * entry_size l :: usize) = i * esize l"
proof -
  have "unat (word_of_nat i :: usize) = i"
    using assms(1) by (simp add: unat_of_nat)
  moreover have "esize l \<le> 2 ^ 48"
    using esize_mono [OF assms(2)] by (simp add: esize_def)
  then have "i * esize l < 512 * 2 ^ 48"
    using assms(1) by (intro mult_less_le_imp_less) simp_all
  ultimately show ?thesis
    using assms(2) by (subst unat_mult_no_wrap) (simp_all add: unat_entry_size)
qed

lemma frame_child:
  assumes "frame_at (Suc l) p" "i < 512" "l < 4"
  shows "unat (p + word_of_nat i * entry_size l) = unat p + i * esize l"
    and "frame_at l (p + word_of_nat i * entry_size l)"
proof -
  have o: "unat (word_of_nat i * entry_size l :: usize) = i * esize l"
    using assms by (intro unat_offset) simp_all
  have "i * esize l < 512 * esize l"
    using assms(2) by simp
  then have lt: "unat p + i * esize l < 2 ^ 48"
    using frame_end [OF assms(1)] assms(3) unfolding esize_Suc by linarith
  then show u: "unat (p + word_of_nat i * entry_size l) = unat p + i * esize l"
    by (subst unat_add_no_wrap) (simp_all add: o)
  have "esize l dvd unat p"
    using assms(1) esize_dvd [of l "Suc l"] by (auto simp: frame_at_def intro: dvd_trans)
  then show "frame_at l (p + word_of_nat i * entry_size l)"
    using lt by (simp add: frame_at_def u)
qed

lemma frame_0: "frame_at l p \<Longrightarrow> frame_at 0 p"
  using esize_dvd [of 0 l] by (auto simp: frame_at_def intro: dvd_trans)

section \<open>What the page table code relies on\<close>

text \<open>
  The first locale is the codec of entries: what the classification functions answer on the
  three kinds of entries that the page table code writes.
\<close>

locale pte_codec =
  fixes S :: stage
  assumes absent_not_present [simp]: "l \<le> 3 \<Longrightarrow> \<not> pte_is_present S (absent_pte S l) l"
    and absent_not_valid [simp]: "l \<le> 3 \<Longrightarrow> \<not> pte_is_valid S (absent_pte S l) l"
    and absent_not_table [simp]: "l \<le> 3 \<Longrightarrow> \<not> pte_is_table S (absent_pte S l) l"
    and absent_not_block [simp]: "l \<le> 3 \<Longrightarrow> \<not> pte_is_block S (absent_pte S l) l"
    and absent_attrs: "l \<le> 3 \<Longrightarrow> \<not> attrs_present S (pte_attrs S (absent_pte S l) l)"
    and absent_attrs_ok: "l \<le> 3 \<Longrightarrow> attrs_ok S (pte_attrs S (absent_pte S l) l)"
    and table_is_table: "0 < l \<Longrightarrow> l \<le> 3 \<Longrightarrow> frame_at 0 p \<Longrightarrow> pte_is_table S (table_pte S l (pa_init p)) l"
    and table_is_present: "0 < l \<Longrightarrow> l \<le> 3 \<Longrightarrow> frame_at 0 p \<Longrightarrow> pte_is_present S (table_pte S l (pa_init p)) l"
    and table_is_valid: "0 < l \<Longrightarrow> l \<le> 3 \<Longrightarrow> frame_at 0 p \<Longrightarrow> pte_is_valid S (table_pte S l (pa_init p)) l"
    and table_not_block: "0 < l \<Longrightarrow> l \<le> 3 \<Longrightarrow> frame_at 0 p \<Longrightarrow> \<not> pte_is_block S (table_pte S l (pa_init p)) l"
    and table_from_table: "0 < l \<Longrightarrow> l \<le> 3 \<Longrightarrow> frame_at 0 p \<Longrightarrow>
      table_from_pte S (table_pte S l (pa_init p)) l = pa_init p"
    and block_not_table: "l \<le> 3 \<Longrightarrow> is_block_allowed S l \<Longrightarrow> frame_at l p \<Longrightarrow> attrs_ok S at \<Longrightarrow>
      \<not> pte_is_table S (block_pte S l (pa_init p) at) l"
    and block_is_block: "l \<le> 3 \<Longrightarrow> is_block_allowed S l \<Longrightarrow> frame_at l p \<Longrightarrow> attrs_ok S at \<Longrightarrow>
      attrs_present S at \<Longrightarrow> pte_is_block S (block_pte S l (pa_init p) at) l"
    and block_is_present: "l \<le> 3 \<Longrightarrow> is_block_allowed S l \<Longrightarrow> frame_at l p \<Longrightarrow> attrs_ok S at \<Longrightarrow>
      pte_is_present S (block_pte S l (pa_init p) at) l \<longleftrightarrow> attrs_present S at"
    and block_is_valid: "l \<le> 3 \<Longrightarrow> is_block_allowed S l \<Longrightarrow> frame_at l p \<Longrightarrow> attrs_ok S at \<Longrightarrow>
      pte_is_valid S (block_pte S l (pa_init p) at) l \<longleftrightarrow> attrs_valid S at"
    and valid_present: "attrs_valid S at \<Longrightarrow> attrs_present S at"
    and block_attrs: "l \<le> 3 \<Longrightarrow> is_block_allowed S l \<Longrightarrow> frame_at l p \<Longrightarrow> attrs_ok S at \<Longrightarrow>
      pte_attrs S (block_pte S l (pa_init p) at) l = at"
    and block_from_block: "l \<le> 3 \<Longrightarrow> is_block_allowed S l \<Longrightarrow> frame_at l p \<Longrightarrow> attrs_ok S at \<Longrightarrow>
      block_from_pte S (block_pte S l (pa_init p) at) l = pa_init p"
    and combine_attrs: "0 < l \<Longrightarrow> l \<le> 3 \<Longrightarrow> frame_at 0 p \<Longrightarrow> attrs_ok S at \<Longrightarrow>
      combine_table_entry_attrs S (pte_attrs S (table_pte S l (pa_init p)) l) at = at"
    and clear_pa_round: "unat (pa_addr a) < 2 ^ 48 \<Longrightarrow>
      unat (pa_addr (clear_pa S a)) = unat (pa_addr a) div 4096 * 4096"
    and mode_attrs_ok: "attrs_ok S (mode_to_attrs S m)"
    and block_allowed_0 [simp]: "is_block_allowed S 0"
    and block_allowed_down: "is_block_allowed S (Suc l) \<Longrightarrow> is_block_allowed S l"

text \<open>
  Splitting and merging blocks uses entries where addresses or whole entries are expected
  (\<open>populate_table\<close> adds offsets to the raw entry, \<open>defrag\<close> asks whether an attribute word is
  a present entry): two more laws.
\<close>

locale pte_split = pte_codec +
  assumes block_split: "l < 3 \<Longrightarrow> is_block_allowed S (Suc l) \<Longrightarrow> frame_at (Suc l) p \<Longrightarrow> attrs_ok S at \<Longrightarrow>
      i < 512 \<Longrightarrow>
      block_pte S l (pa_init (block_pte S (Suc l) (pa_init p) at + word_of_nat i * entry_size l)) at =
      block_pte S l (pa_init (p + word_of_nat i * entry_size l)) at"
    and attrs_as_pte: "l \<le> 3 \<Longrightarrow> attrs_ok S at \<Longrightarrow> pte_is_present S at l \<longleftrightarrow> attrs_present S at"

locale mm_stage = pte_split +
  assumes max_level_le: "max_level S \<le> 3"
    and root_count_pos: "0 < root_table_count S"
    and root_count_le: "root_table_count S \<le> 255"
    and addr_space_le: "root_table_count S * esize (max_level S + 1) \<le> 2 ^ 48"

end
