(* ===== verification/Slist.thy ===== *)
theory Slist
  imports Prelude "HOL-Library.Monad_Syntax"
begin

text \<open>
  The intrusive singly linked list of src/hfo2/src/slist.rs. A \<open>ListEntry\<close> is one \<open>next\<close> cell;
  the store of all cells is a function from the address of an entry to the address of the next
  one, 0 being the null pointer. A \<open>List\<close> is the address of its head entry. \<open>entry_of\<close> and
  \<open>element_of\<close> are the identity on addresses for both element types in use (\<open>Chunk\<close> and \<open>Entry\<close>
  begin with their \<open>ListEntry\<close>).

  The second half of the theory shows that on a well-linked store the operations implement the
  operations on lists that the page pools are written with, and leave other lists alone.
\<close>

section \<open>The pointer operations\<close>

type_synonym links = "usize \<Rightarrow> usize"

definition List_new :: "usize \<Rightarrow> links \<Rightarrow> links" where
  "List_new head nx = nx(head := 0)"

definition List_push :: "usize \<Rightarrow> usize \<Rightarrow> links \<Rightarrow> links" where
  "List_push head entry nx =
     (let nx = nx(entry := nx head)
      in nx(head := entry))"

definition List_pop :: "usize \<Rightarrow> links \<Rightarrow> usize option \<times> links" where
  "List_pop head nx =
     (let h = nx head
      in if h = 0 then (None, nx)
         else (Some h, nx(head := nx h)))"

text \<open>
  The loop of \<open>pop_if_some\<close> from a given \<open>prev\<close> and \<open>curr\<close>; it need not end on a cyclic store,
  so not returning is \<open>None\<close>.
\<close>

partial_function (option) pop_if_some_loop ::
  "(usize \<Rightarrow> 'r option) \<Rightarrow> usize \<Rightarrow> usize \<Rightarrow> links \<Rightarrow> ((usize \<times> 'r) option \<times> links) option" where
  "pop_if_some_loop cond prev cur nx =
     (if cur = 0 then Some (None, nx)
      else case cond cur of
             Some result \<Rightarrow> Some (Some (cur, result), nx(prev := nx cur))
           | None \<Rightarrow> pop_if_some_loop cond cur (nx cur) nx)"

definition List_pop_if_some ::
  "(usize \<Rightarrow> 'r option) \<Rightarrow> usize \<Rightarrow> links \<Rightarrow> ((usize \<times> 'r) option \<times> links) option" where
  "List_pop_if_some cond head nx = pop_if_some_loop cond head (nx head) nx"

text \<open>
  The loop \<open>while let Some(entry) = pool.entry_list.pop() { fallback.entry_list.push(entry) }\<close> of
  \<open>MPool::drop\<close>.
\<close>

partial_function (option) List_drain :: "usize \<Rightarrow> usize \<Rightarrow> links \<Rightarrow> links option" where
  "List_drain src dst nx =
     (case List_pop src nx of
        (None, nx) \<Rightarrow> Some nx
      | (Some entry, nx) \<Rightarrow> List_drain src dst (List_push dst entry nx))"

section \<open>The list operations\<close>

primrec list_pop :: "'a list \<Rightarrow> ('a \<times> 'a list) option" where
  "list_pop [] = None"
| "list_pop (x # xs) = Some (x, xs)"

primrec list_pop_if_some :: "('a \<Rightarrow> 'r option) \<Rightarrow> 'a list \<Rightarrow> (('a \<times> 'r) \<times> 'a list) option" where
  "list_pop_if_some cond [] = None"
| "list_pop_if_some cond (x # xs) =
     (case cond x of
        Some r \<Rightarrow> Some ((x, r), xs)
      | None \<Rightarrow> map_option (\<lambda>(y, ys). (y, x # ys)) (list_pop_if_some cond xs))"

lemma list_pop_if_some_mset:
  "list_pop_if_some cond xs = Some ((x, r), ys) \<Longrightarrow> mset xs = add_mset x (mset ys)"
  by (induction xs arbitrary: ys) (auto split: option.splits)

lemma list_pop_if_some_distinct:
  "list_pop_if_some cond xs = Some (e, ys) \<Longrightarrow> set ys \<subseteq> set xs \<and> (distinct xs \<longrightarrow> distinct ys)"
  by (induction xs arbitrary: ys) (auto split: option.splits)

lemma list_pop_if_some_cond:
  "list_pop_if_some cond xs = Some ((x, r), ys) \<Longrightarrow> cond x = Some r"
  by (induction xs arbitrary: ys) (auto split: option.splits)

lemma list_pop_if_some_None:
  "list_pop_if_some cond xs = None \<longleftrightarrow> (\<forall>x \<in> set xs. cond x = None)"
  by (induction xs) (auto split: option.splits)

section \<open>Well-linked stores\<close>

primrec chain :: "links \<Rightarrow> usize \<Rightarrow> usize list \<Rightarrow> bool" where
  "chain nx p [] \<longleftrightarrow> nx p = 0"
| "chain nx p (x # xs) \<longleftrightarrow> nx p = x \<and> x \<noteq> 0 \<and> chain nx x xs"

definition linked :: "links \<Rightarrow> usize \<Rightarrow> usize list \<Rightarrow> bool" where
  "linked nx head xs \<longleftrightarrow> chain nx head xs \<and> distinct (head # xs)"

lemma chain_upd [simp]: "a \<noteq> p \<Longrightarrow> a \<notin> set xs \<Longrightarrow> chain (nx(a := b)) p xs = chain nx p xs"
  by (induction xs arbitrary: p) auto

lemma chain_unique: "chain nx p xs \<Longrightarrow> chain nx p ys \<Longrightarrow> xs = ys"
proof (induction xs arbitrary: p ys)
  case Nil
  then show ?case by (cases ys) auto
next
  case (Cons x xs)
  then show ?case by (cases ys) auto
qed

lemma pop_if_some_chain:
  assumes "chain nx p xs" "distinct (p # xs)"
  shows "case list_pop_if_some cond xs of
      None \<Rightarrow> pop_if_some_loop cond p (nx p) nx = Some (None, nx)
    | Some (e, ys) \<Rightarrow> \<exists>nx'. pop_if_some_loop cond p (nx p) nx = Some (Some e, nx')
        \<and> chain nx' p ys \<and> (\<forall>a. a \<notin> set (p # xs) \<longrightarrow> nx' a = nx a)"
  using assms
proof (induction xs arbitrary: p)
  case Nil
  then show ?case by (simp add: pop_if_some_loop.simps)
next
  case (Cons x xs)
  then have p: "nx p = x" "x \<noteq> 0" "p \<noteq> x" "chain nx x xs" "p \<notin> set xs" "x \<notin> set xs" "distinct xs"
    by auto
  show ?case
  proof (cases "cond x")
    case None
    show ?thesis
    proof (cases "list_pop_if_some cond xs")
      case None': None
      then show ?thesis
        using Cons.IH [OF p(4)] p None
        by (subst pop_if_some_loop.simps) (simp add: pop_if_some_loop.simps [of _ p])
    next
      case (Some r)
      obtain e ys where r: "r = (e, ys)" by fastforce
      obtain nx' where *: "pop_if_some_loop cond x (nx x) nx = Some (Some e, nx')" "chain nx' x ys"
        "\<forall>a. a \<notin> set (x # xs) \<longrightarrow> nx' a = nx a"
        using Cons.IH [OF p(4)] p Some r by auto
      moreover have "pop_if_some_loop cond p (nx p) nx = pop_if_some_loop cond x (nx x) nx"
        using p None by (subst pop_if_some_loop.simps) simp
      moreover have "nx' p = x"
        using * p by simp
      ultimately show ?thesis
        using Some r None p(2) by auto
    qed
  next
    case (Some r)
    then have "pop_if_some_loop cond p (nx p) nx = Some (Some (x, r), nx(p := nx x))"
      using p by (subst pop_if_some_loop.simps) simp
    moreover have "chain (nx(p := nx x)) p xs"
      using p by (cases xs) auto
    ultimately show ?thesis
      using Some by auto
  qed
qed

lemma List_push_linked:
  "linked nx h xs \<Longrightarrow> x \<noteq> 0 \<Longrightarrow> x \<notin> set (h # xs) \<Longrightarrow> linked (List_push h x nx) h (x # xs)"
  by (cases xs) (auto simp: linked_def List_push_def Let_def)

lemma List_push_other:
  "linked nx h xs \<Longrightarrow> g \<notin> set (h # xs) \<Longrightarrow> x \<notin> set (h # xs) \<Longrightarrow> linked (List_push g x nx) h xs"
  by (auto simp: linked_def List_push_def Let_def)

lemma List_pop_linked:
  "linked nx h (x # xs) \<Longrightarrow> \<exists>nx'. List_pop h nx = (Some x, nx') \<and> linked nx' h xs"
  by (cases xs) (auto simp: linked_def List_pop_def Let_def)

lemma List_pop_empty: "linked nx h [] \<Longrightarrow> List_pop h nx = (None, nx)"
  by (simp add: linked_def List_pop_def)

lemma List_pop_other:
  "linked nx h xs \<Longrightarrow> g \<notin> set (h # xs) \<Longrightarrow> linked (snd (List_pop g nx)) h xs"
  by (auto simp: linked_def List_pop_def Let_def)

section \<open>Properties\<close>

text \<open>
  C28. On a well-linked list, \<open>pop_if_some\<close> terminates, removes and returns exactly the first
  element that satisfies the condition (with the value the condition computed), leaves the rest
  of the list linked in the same order, and writes no cell outside the list; when no element
  qualifies it changes nothing.
\<close>

theorem List_pop_if_some_refines:
  assumes "linked nx h xs"
  shows "\<exists>r nx'. List_pop_if_some cond h nx = Some (r, nx')
    \<and> r = map_option fst (list_pop_if_some cond xs)
    \<and> linked nx' h (case list_pop_if_some cond xs of None \<Rightarrow> xs | Some (_, ys) \<Rightarrow> ys)
    \<and> (\<forall>a. a \<notin> set (h # xs) \<longrightarrow> nx' a = nx a)"
proof (cases "list_pop_if_some cond xs")
  case None
  then show ?thesis
    using pop_if_some_chain [of nx h xs cond] assms by (simp add: linked_def List_pop_if_some_def)
next
  case (Some r)
  obtain x v ys where r: "r = ((x, v), ys)" by (cases r) auto
  have "distinct ys" "set ys \<subseteq> set xs"
    using assms Some r by (auto simp: linked_def dest: list_pop_if_some_distinct)
  then show ?thesis
    using pop_if_some_chain [of nx h xs cond] assms Some r
    by (auto simp: linked_def List_pop_if_some_def)
qed

theorem List_pop_if_some_refines_witness:
  "linked ((\<lambda>_. 0)(1 := 2, 2 := 3)) 1 [2, 3]
   \<and> (\<exists>nx'. List_pop_if_some (\<lambda>e. if e = 3 then Some () else None) 1 ((\<lambda>_. 0)(1 := 2, 2 := 3))
        = Some (Some (3, ()), nx') \<and> linked nx' 1 [2])"
proof -
  have l: "linked ((\<lambda>_. 0)(1 := 2, 2 := 3)) 1 [2, 3]"
    by (simp add: linked_def)
  show ?thesis
    using l List_pop_if_some_refines [OF l, of "\<lambda>e. if e = 3 then Some () else None"] by auto
qed

text \<open>
  C29. Draining one list into another, as \<open>MPool::drop\<close> does with its entries and chunks,
  terminates and moves every element: the source ends empty and the destination holds the
  elements of the source, last popped first, before its own.
\<close>

theorem List_drain_moves_all:
  assumes "linked nx src xs" "linked nx dst ys" "set (src # xs) \<inter> set (dst # ys) = {}"
  shows "\<exists>nx'. List_drain src dst nx = Some nx' \<and> linked nx' src [] \<and> linked nx' dst (rev xs @ ys)"
  using assms
proof (induction xs arbitrary: nx ys)
  case Nil
  then show ?case
    by (subst List_drain.simps) (simp add: List_pop_empty)
next
  case (Cons x xs)
  obtain nx1 where pop: "List_pop src nx = (Some x, nx1)" "linked nx1 src xs"
    using List_pop_linked [OF Cons.prems(1)] by auto
  have "linked nx1 dst ys"
    using List_pop_other [OF Cons.prems(2), of src] Cons.prems(3) pop by auto
  then have "linked (List_push dst x nx1) dst (x # ys)"
    using Cons.prems by (intro List_push_linked) (auto simp: linked_def)
  moreover have "linked (List_push dst x nx1) src xs"
    using pop(2) Cons.prems by (intro List_push_other) (auto simp: linked_def)
  ultimately show ?case
    using Cons.IH [of "List_push dst x nx1" "x # ys"] Cons.prems pop(1)
    by (subst List_drain.simps) (auto simp: linked_def)
qed

theorem List_drain_moves_all_witness:
  "\<exists>nx'. List_drain 1 9 ((\<lambda>_. 0)(1 := 2, 2 := 3)) = Some nx' \<and> linked nx' 1 [] \<and> linked nx' 9 [3, 2]"
  using List_drain_moves_all [of "(\<lambda>_. 0)(1 := 2, 2 := 3)" 1 "[2, 3]" 9 "[]"]
  by (simp add: linked_def)

end
