(* ===== verification/Mpool.thy ===== *)
theory Mpool
  imports Slist Addr
begin

text \<open>
  Pages (src/hfo2/src/page.rs) and the page pools of src/hfo2/src/mpool.rs.

  A \<open>Page\<close> is the address of its \<open>RawPage\<close>, \<open>Pages\<close> an address and a number of pages. The two
  linked lists of a \<open>Pool\<close> are lists (theory Slist relates them to the pointers); the \<open>size\<close>
  field that a \<open>Chunk\<close> keeps in its first page is paired with the address of the chunk. An
  \<open>MPool\<close> owns its pool and refers to an optional fallback. Locks only serialise these
  operations and are not part of the state.

  The lemmas show that no operation loses, invents or duplicates a page.
\<close>

section \<open>Pages\<close>

type_synonym page = usize
type_synonym pages = "usize \<times> usize"

definition Pages_from_raw_u8 :: "usize \<Rightarrow> usize \<Rightarrow> pages res" where
  "Pages_from_raw_u8 ptr sz =
     (let new_begin = round_up ptr PAGE_SIZE;
          new_end = round_down (ptr + sz) PAGE_SIZE
      in if new_begin \<ge> new_end \<or> new_end - new_begin < PAGE_SIZE then Err ()
         else Ok (new_begin, (new_end - new_begin) div PAGE_SIZE))"

section \<open>Pool\<close>

record pool =
  chunk_list :: "(usize \<times> usize) list"
  entry_list :: "usize list"

definition Pool_new :: pool where
  "Pool_new = \<lparr>chunk_list = [], entry_list = []\<rparr>"

definition Pool_alloc :: "pool \<Rightarrow> page res \<times> pool" where
  "Pool_alloc p =
     (case list_pop (entry_list p) of
        Some (entry, entries) \<Rightarrow> (Ok entry, p\<lparr>entry_list := entries\<rparr>)
      | None \<Rightarrow>
         (case list_pop (chunk_list p) of
            None \<Rightarrow> (Err (), p)
          | Some ((chunk, sz), chunks) \<Rightarrow>
              (Ok chunk,
               p\<lparr>chunk_list := (if sz > 1 then (chunk + PAGE_SIZE, sz - 1) # chunks
                                else chunks)\<rparr>)))"

text \<open>The closure that \<open>alloc_pages\<close> passes to \<open>pop_if_some\<close>.\<close>

definition chunk_fits :: "usize \<Rightarrow> usize \<Rightarrow> usize \<times> usize \<Rightarrow> (usize \<times> usize \<times> usize \<times> usize) option" where
  "chunk_fits sz align chunk =
     (let chunk_size = snd chunk;
          chunk_start = fst chunk;
          chunk_end = chunk_start + chunk_size * PAGE_SIZE;
          start = round_up chunk_start (align * PAGE_SIZE);
          end = start + sz * PAGE_SIZE
      in if chunk_start \<le> start \<and> start \<le> end \<and> end \<le> chunk_end
         then Some (chunk_start, chunk_end, start, end)
         else None)"

text \<open>
  \<open>round_up\<close> divides by \<open>align * PAGE_SIZE\<close>, which panics when that product is zero; the closure
  only runs when there is a chunk.
\<close>

definition Pool_alloc_pages :: "pool \<Rightarrow> usize \<Rightarrow> usize \<Rightarrow> pages res \<times> pool" where
  "Pool_alloc_pages p sz align =
     (if sz = 1 \<and> align = 1 then
        (case Pool_alloc p of
           (Ok page, p') \<Rightarrow> (Ok (page, 1), p')
         | (Err e, p') \<Rightarrow> (Err e, p')
         | (Panic, p') \<Rightarrow> (Panic, p'))
      else if align * PAGE_SIZE = 0 \<and> chunk_list p \<noteq> [] then (Panic, p)
      else
        case list_pop_if_some (chunk_fits sz align) (chunk_list p) of
          None \<Rightarrow> (Err (), p)
        | Some (((chunk, _), (chunk_start, chunk_end, start, end)), chunks) \<Rightarrow>
            let chunks = (if chunk_start < start
                          then (chunk, (start - chunk_start) div PAGE_SIZE) # chunks else chunks);
                chunks = (if end < chunk_end
                          then (end, (chunk_end - end) div PAGE_SIZE) # chunks else chunks)
            in (Ok (start, sz), p\<lparr>chunk_list := chunks\<rparr>))"

definition Pool_free :: "pool \<Rightarrow> page \<Rightarrow> pool" where
  "Pool_free p page = p\<lparr>entry_list := page # entry_list p\<rparr>"

definition Pool_free_pages :: "pool \<Rightarrow> pages \<Rightarrow> pool" where
  "Pool_free_pages p pages = p\<lparr>chunk_list := pages # chunk_list p\<rparr>"

section \<open>MPool\<close>

datatype mpool = MPool (mp_pool: pool) (mp_fallback: "mpool option")

definition MPool_new :: mpool where
  "MPool_new = MPool Pool_new None"

text \<open>\<open>new_from\<close> returns the new pool and what is left of \<open>from\<close>.\<close>

definition MPool_new_from :: "mpool \<Rightarrow> mpool \<times> mpool" where
  "MPool_new_from from =
     (MPool (mp_pool from) (mp_fallback from), MPool Pool_new (mp_fallback from))"

definition MPool_new_with_fallback :: "mpool option \<Rightarrow> mpool" where
  "MPool_new_with_fallback fallback = MPool (mp_pool MPool_new) fallback"

fun MPool_alloc :: "mpool \<Rightarrow> page res \<times> mpool" where
  "MPool_alloc (MPool p None) =
     (case Pool_alloc p of
        (Ok result, p') \<Rightarrow> (Ok result, MPool p' None)
      | (_, p') \<Rightarrow> (Err (), MPool p' None))"
| "MPool_alloc (MPool p (Some fallback)) =
     (case Pool_alloc p of
        (Ok result, p') \<Rightarrow> (Ok result, MPool p' (Some fallback))
      | (_, p') \<Rightarrow> (let (r, fallback') = MPool_alloc fallback in (r, MPool p' (Some fallback'))))"

fun MPool_alloc_pages :: "mpool \<Rightarrow> usize \<Rightarrow> usize \<Rightarrow> pages res \<times> mpool" where
  "MPool_alloc_pages (MPool p None) cnt align =
     (case Pool_alloc_pages p cnt align of
        (Ok result, p') \<Rightarrow> (Ok result, MPool p' None)
      | (Panic, p') \<Rightarrow> (Panic, MPool p' None)
      | (Err e, p') \<Rightarrow> (Err (), MPool p' None))"
| "MPool_alloc_pages (MPool p (Some fallback)) cnt align =
     (case Pool_alloc_pages p cnt align of
        (Ok result, p') \<Rightarrow> (Ok result, MPool p' (Some fallback))
      | (Panic, p') \<Rightarrow> (Panic, MPool p' (Some fallback))
      | (Err e, p') \<Rightarrow>
          (let (r, fallback') = MPool_alloc_pages fallback cnt align
           in (r, MPool p' (Some fallback'))))"

definition MPool_free :: "mpool \<Rightarrow> page \<Rightarrow> mpool" where
  "MPool_free mp page = MPool (Pool_free (mp_pool mp) page) (mp_fallback mp)"

definition MPool_free_pages :: "mpool \<Rightarrow> pages \<Rightarrow> mpool" where
  "MPool_free_pages mp pages = MPool (Pool_free_pages (mp_pool mp) pages) (mp_fallback mp)"

text \<open>
  \<open>Drop\<close>: each list is popped until empty and pushed onto the fallback's list. The result is
  the dropped pool itself (its memory may be used again by \<open>mpool_fini\<close>) with its fallback.
\<close>

fun drain :: "'a list \<Rightarrow> 'a list \<Rightarrow> 'a list" where
  "drain [] ys = ys"
| "drain (x # xs) ys = drain xs (x # ys)"

definition MPool_drop :: "mpool \<Rightarrow> mpool" where
  "MPool_drop mp =
     (case mp_fallback mp of
        None \<Rightarrow> mp
      | Some (MPool fp ffb) \<Rightarrow>
          MPool Pool_new
            (Some (MPool \<lparr>chunk_list = drain (chunk_list (mp_pool mp)) (chunk_list fp),
                          entry_list = drain (entry_list (mp_pool mp)) (entry_list fp)\<rparr> ffb)))"

section \<open>The C interface\<close>

text \<open>
  Pointers to pools are replaced by the pools they point to. \<open>mpool_init_from\<close> returns the new
  pool and \<open>from\<close>; \<open>mpool_fini\<close> the finished pool and its former fallback; null is 0.
\<close>

definition mpool_init :: "usize \<Rightarrow> mpool res" where
  "mpool_init esz = (if PAGE_SIZE = esz then Ok MPool_new else Panic)"

definition mpool_init_from :: "mpool \<Rightarrow> mpool \<times> mpool" where
  "mpool_init_from from =
     (let (p, from') = MPool_new_from from in (p, MPool (mp_pool from') None))"

definition mpool_init_with_fallback :: "mpool option \<Rightarrow> mpool" where
  "mpool_init_with_fallback fallback = MPool_new_with_fallback fallback"

definition mpool_fini :: "mpool \<Rightarrow> mpool \<times> mpool option" where
  "mpool_fini p = (let p' = MPool_drop p in (MPool (mp_pool p') None, mp_fallback p'))"

definition mpool_add_chunk :: "mpool \<Rightarrow> usize \<Rightarrow> usize \<Rightarrow> bool \<times> mpool" where
  "mpool_add_chunk p begin sz =
     (case Pages_from_raw_u8 begin sz of
        Ok pages \<Rightarrow> (True, MPool_free_pages p pages)
      | _ \<Rightarrow> (False, p))"

definition mpool_alloc :: "mpool \<Rightarrow> usize \<times> mpool" where
  "mpool_alloc p = (case MPool_alloc p of (Ok page, p') \<Rightarrow> (page, p') | (_, p') \<Rightarrow> (0, p'))"

definition mpool_alloc_contiguous :: "mpool \<Rightarrow> usize \<Rightarrow> usize \<Rightarrow> usize res \<times> mpool" where
  "mpool_alloc_contiguous p cnt align =
     (case MPool_alloc_pages p cnt align of
        (Ok pages, p') \<Rightarrow> (Ok (fst pages), p')
      | (Err _, p') \<Rightarrow> (Ok 0, p')
      | (Panic, p') \<Rightarrow> (Panic, p'))"

definition mpool_free :: "mpool \<Rightarrow> usize \<Rightarrow> mpool" where
  "mpool_free p ptr = MPool_free p ptr"

section \<open>The pages of a pool\<close>

definition chunk_pages :: "usize \<Rightarrow> nat \<Rightarrow> usize list" where
  "chunk_pages a n = map (\<lambda>i. a + word_of_nat i * PAGE_SIZE) [0..<n]"

definition pool_pages :: "pool \<Rightarrow> usize multiset" where
  "pool_pages p = mset (entry_list p) + (\<Sum>(a, n) \<leftarrow> chunk_list p. mset (chunk_pages a (unat n)))"

fun mpool_pages :: "mpool \<Rightarrow> usize multiset" where
  "mpool_pages (MPool p None) = pool_pages p"
| "mpool_pages (MPool p (Some fallback)) = pool_pages p + mpool_pages fallback"

text \<open>
  A chunk is page aligned, not empty, and does not reach the end of the address space.
\<close>

definition chunk_ok :: "usize \<times> usize \<Rightarrow> bool" where
  "chunk_ok c \<longleftrightarrow> 4096 dvd unat (fst c) \<and> snd c \<noteq> 0 \<and> unat (fst c) + unat (snd c) * 4096 < 2 ^ 64"

definition pool_ok :: "pool \<Rightarrow> bool" where
  "pool_ok p \<longleftrightarrow> list_all chunk_ok (chunk_list p)"

fun mpool_ok :: "mpool \<Rightarrow> bool" where
  "mpool_ok (MPool p None) \<longleftrightarrow> pool_ok p"
| "mpool_ok (MPool p (Some fallback)) \<longleftrightarrow> pool_ok p \<and> mpool_ok fallback"

lemma chunk_pages_0 [simp]: "chunk_pages a 0 = []"
  by (simp add: chunk_pages_def)

lemma chunk_pages_add:
  "chunk_pages a (m + n) = chunk_pages a m @ chunk_pages (a + word_of_nat m * PAGE_SIZE) n"
  by (induction n) (simp_all add: chunk_pages_def distrib_right add.assoc)

lemma chunk_pages_1 [simp]: "chunk_pages a (Suc 0) = [a]"
  by (simp add: chunk_pages_def)

lemma length_chunk_pages [simp]: "length (chunk_pages a n) = n"
  by (simp add: chunk_pages_def)

lemma chunk_pages_Suc: "chunk_pages a (Suc n) = a # chunk_pages (a + PAGE_SIZE) n"
  using chunk_pages_add [of a 1 n] by simp

lemma chunk_pages_split_first:
  assumes "n \<noteq> 0"
  shows "mset (chunk_pages a (unat n)) =
    add_mset a (if n > 1 then mset (chunk_pages (a + PAGE_SIZE) (unat (n - 1))) else {#})"
proof -
  have u: "unat n = Suc (unat (n - 1))"
    using assms by (simp add: unat_minus_one unat_gt_0)
  have "n > 1 \<longleftrightarrow> unat (n - 1) \<noteq> 0"
    unfolding word_less_nat_alt u by simp
  then show ?thesis
    by (cases "n > 1") (simp_all add: u chunk_pages_Suc del: unat_eq_zero)
qed


lemma add_PAGE_SIZE_ok:
  assumes "chunk_ok (a, n)" "n > 1"
  shows "chunk_ok (a + PAGE_SIZE, n - 1)"
proof -
  have n: "unat n = Suc (unat (n - 1))" "n - 1 \<noteq> 0"
    using assms by (auto simp: chunk_ok_def unat_minus_one unat_gt_0)
  have "unat a + 4096 < 2 ^ 64"
    using assms(1) n by (simp add: chunk_ok_def del: unat_eq_zero)
  then have "unat (a + PAGE_SIZE) = unat a + 4096"
    by (subst unat_add_no_wrap) simp_all
  then show ?thesis
    using assms(1) n by (simp add: chunk_ok_def del: unat_eq_zero)
qed

lemma Pool_alloc_conserves:
  assumes "pool_ok p"
  shows "case Pool_alloc p of
      (Ok page, p') \<Rightarrow> pool_ok p' \<and> pool_pages p = add_mset page (pool_pages p')
    | (Err _, p') \<Rightarrow> p' = p \<and> pool_pages p = {#}
    | (Panic, _) \<Rightarrow> False"
proof (cases "entry_list p")
  case (Cons e es)
  then show ?thesis
    using assms by (simp add: Pool_alloc_def pool_ok_def pool_pages_def)
next
  case Nil
  show ?thesis
  proof (cases "chunk_list p")
    case Nil': Nil
    then show ?thesis
      using Nil by (simp add: Pool_alloc_def pool_pages_def)
  next
    case (Cons c cs)
    obtain a n where c: "c = (a, n)" by fastforce
    have "chunk_ok (a, n)" "n \<noteq> 0" "list_all chunk_ok cs"
      using assms Cons c by (auto simp: pool_ok_def chunk_ok_def)
    then show ?thesis
      using Nil Cons c add_PAGE_SIZE_ok [of a n] chunk_pages_split_first [of n a]
      by (auto simp: Pool_alloc_def pool_ok_def pool_pages_def)
  qed
qed

lemma unat_add_le: "s \<le> s + x \<Longrightarrow> unat (s + x) = unat s + unat x" for s x :: usize
  using unat_plus_if_size [of s x] unat_lt64 [of x] by (auto simp: word_le_nat_alt word_size split: if_splits)

lemma unat_mult_PAGE_SIZE: "unat n * 4096 < 2 ^ 64 \<Longrightarrow> unat (n * PAGE_SIZE) = unat n * 4096" for n :: usize
  by (subst unat_mult_no_wrap) simp_all

lemma round_up_dvd: "unat b dvd unat (round_up a b)"
proof -
  have "unat ((a + b - 1) div b) * unat b \<le> unat (a + b - 1)"
    by (simp add: unat_div)
  then have "unat ((a + b - 1) div b * b) = unat ((a + b - 1) div b) * unat b"
    using unat_lt64 [of "a + b - 1"] by (intro unat_mult_no_wrap) simp
  then show ?thesis
    by (simp add: round_up_def div_ceil_def)
qed

lemma dvd_mult_PAGE_SIZE: "4096 dvd unat (n * PAGE_SIZE)" for n :: usize
  by (simp add: unat_word_ariths dvd_mod)

lemma page_offset:
  assumes "a \<le> s" "4096 dvd unat a" "4096 dvd unat s"
  shows "unat ((s - a) div PAGE_SIZE) * 4096 = unat s - unat a"
    and "a + word_of_nat (unat ((s - a) div PAGE_SIZE)) * PAGE_SIZE = s"
proof -
  have d: "4096 dvd unat s - unat a"
    using assms by simp
  show u: "unat ((s - a) div PAGE_SIZE) * 4096 = unat s - unat a"
    using assms d by (simp add: unat_div unat_sub)
  have "unat ((s - a) div PAGE_SIZE * PAGE_SIZE) = unat (s - a)"
    using u assms(1) unat_lt64 [of s] by (subst unat_mult_PAGE_SIZE) (simp_all add: unat_sub)
  then show "a + word_of_nat (unat ((s - a) div PAGE_SIZE)) * PAGE_SIZE = s"
    by (simp add: word_unat_eq_iff [symmetric])
qed

text \<open>What a successful \<open>chunk_fits\<close> says about the chunk, in pages.\<close>

lemma chunk_fits_pages:
  assumes "chunk_ok (a, n)" "unat sz * 4096 < 2 ^ 64"
    and fits: "chunk_fits sz align (a, n) = Some (cs, ce, s, e)"
  shows "cs = a" "e = s + word_of_nat (unat sz) * PAGE_SIZE" "a \<le> s" "e \<le> ce"
    "4096 dvd unat s" "4096 dvd unat e" "4096 dvd unat ce" "unat ce = unat a + unat n * 4096"
    "unat e = unat s + unat sz * 4096" "unat (align * PAGE_SIZE) dvd unat s"
proof -
  have f: "cs = a" "ce = a + n * PAGE_SIZE" "s = round_up a (align * PAGE_SIZE)"
    "e = s + sz * PAGE_SIZE" "a \<le> s" "s \<le> e" "e \<le> ce"
    using fits by (auto simp: chunk_fits_def Let_def split: if_splits)
  have n: "unat (n * PAGE_SIZE) = unat n * 4096"
    using assms(1) by (intro unat_mult_PAGE_SIZE) (simp add: chunk_ok_def)
  have z: "unat (sz * PAGE_SIZE) = unat sz * 4096"
    using assms(2) by (rule unat_mult_PAGE_SIZE)
  show ce: "unat ce = unat a + unat n * 4096"
    using assms(1) n unfolding f(2) by (subst unat_add_no_wrap) (simp_all add: chunk_ok_def)
  show e: "unat e = unat s + unat sz * 4096"
    using f(6) unat_add_le [of s "sz * PAGE_SIZE"] by (simp add: f(4) z)
  show al: "unat (align * PAGE_SIZE) dvd unat s"
    unfolding f(3) by (rule round_up_dvd)
  show s: "4096 dvd unat s"
    using dvd_mult_PAGE_SIZE [of align] al by (rule dvd_trans)
  show "4096 dvd unat e" "4096 dvd unat ce"
    using s assms(1) by (simp_all add: e ce chunk_ok_def)
  show "cs = a" "e = s + word_of_nat (unat sz) * PAGE_SIZE" "a \<le> s" "e \<le> ce"
    using f by simp_all
qed

lemma chunk_fits_split:
  assumes "chunk_ok (a, n)" "unat sz * 4096 < 2 ^ 64"
    and fits: "chunk_fits sz align (a, n) = Some (cs, ce, s, e)"
  shows "chunk_pages a (unat n) = chunk_pages a (unat ((s - a) div PAGE_SIZE)) @ chunk_pages s (unat sz)
      @ chunk_pages e (unat ((ce - e) div PAGE_SIZE))"
    and "a < s \<Longrightarrow> chunk_ok (a, (s - a) div PAGE_SIZE)"
    and "e < ce \<Longrightarrow> chunk_ok (e, (ce - e) div PAGE_SIZE)"
proof -
  note f = chunk_fits_pages [OF assms]
  have a: "4096 dvd unat a" "unat a + unat n * 4096 < 2 ^ 64"
    using assms(1) by (simp_all add: chunk_ok_def)
  define k j where "k = unat ((s - a) div PAGE_SIZE)" and "j = unat ((ce - e) div PAGE_SIZE)"
  have k: "k * 4096 = unat s - unat a" "a + word_of_nat k * PAGE_SIZE = s"
    unfolding k_def using page_offset [OF f(3) a(1) f(5)] by simp_all
  have j: "j * 4096 = unat ce - unat e"
    unfolding j_def using page_offset [OF f(4) f(6) f(7)] by simp
  have le: "unat a \<le> unat s" "unat e \<le> unat ce"
    using f(3,4) by (simp_all add: word_le_nat_alt)
  have "unat n = k + (unat sz + j)"
    using k(1) j le f(8,9) by linarith
  then show "chunk_pages a (unat n) = chunk_pages a (unat ((s - a) div PAGE_SIZE)) @ chunk_pages s (unat sz)
      @ chunk_pages e (unat ((ce - e) div PAGE_SIZE))"
    unfolding k_def [symmetric] j_def [symmetric]
    using k(2) f(2) by (simp add: chunk_pages_add)
  show "chunk_ok (a, (s - a) div PAGE_SIZE)" if "a < s"
    using that a k(1) le f(8,9) by (auto simp: chunk_ok_def word_less_nat_alt k_def unat_gt_0)
  show "chunk_ok (e, (ce - e) div PAGE_SIZE)" if "e < ce"
    using that a j le f(6,8,9) by (auto simp: chunk_ok_def word_less_nat_alt j_def unat_gt_0)
qed

lemma Pool_alloc_pages_conserves:
  assumes "pool_ok p" "unat sz * 4096 < 2 ^ 64"
  shows "case Pool_alloc_pages p sz align of
      (Ok (s, m), p') \<Rightarrow> m = sz \<and> pool_ok p' \<and> pool_pages p = mset (chunk_pages s (unat sz)) + pool_pages p'
    | (_, p') \<Rightarrow> p' = p"
proof (cases "sz = 1 \<and> align = 1")
  case True
  then show ?thesis
    using Pool_alloc_conserves [OF assms(1)]
    by (auto simp: Pool_alloc_pages_def split: outcome.splits prod.splits)
next
  case False
  show ?thesis
  proof (cases "list_pop_if_some (chunk_fits sz align) (chunk_list p)")
    case None
    then show ?thesis
      using False by (auto simp: Pool_alloc_pages_def)
  next
    case (Some r)
    obtain a n cs ce s e chunks where r: "r = (((a, n), (cs, ce, s, e)), chunks)"
      by (metis prod.exhaust)
    have m: "mset (chunk_list p) = add_mset (a, n) (mset chunks)"
      using Some unfolding r by (rule list_pop_if_some_mset)
    have fits: "chunk_fits sz align (a, n) = Some (cs, ce, s, e)"
      using Some unfolding r by (rule list_pop_if_some_cond)
    have set: "set (chunk_list p) = insert (a, n) (set chunks)"
      using m by (metis set_mset_add_mset_insert set_mset_mset)
    have sum: "(\<Sum>(a, n) \<leftarrow> chunk_list p. mset (chunk_pages a (unat n))) =
        mset (chunk_pages a (unat n)) + (\<Sum>(a, n) \<leftarrow> chunks. mset (chunk_pages a (unat n)))"
      using m by (simp flip: sum_mset_sum_list)
    have ok: "chunk_ok (a, n)" "list_all chunk_ok chunks"
      using assms(1) set by (auto simp: pool_ok_def list_all_iff)
    note sp = chunk_fits_split [OF ok(1) assms(2) fits] and pp = chunk_fits_pages [OF ok(1) assms(2) fits]
    have nil: "\<not> a < s \<Longrightarrow> unat ((s - a) div PAGE_SIZE) = 0" "\<not> e < ce \<Longrightarrow> unat ((ce - e) div PAGE_SIZE) = 0"
      using pp(3,4) by (auto simp: not_less dest!: antisym)
    show ?thesis
      using False Some r ok sp nil pp(1)
      by (auto simp: Pool_alloc_pages_def Let_def pool_ok_def pool_pages_def sum simp del: unat_eq_zero)
  qed
qed
section \<open>MPool operations conserve pages\<close>

lemma MPool_alloc_conserves:
  assumes "mpool_ok mp"
  shows "case MPool_alloc mp of
      (Ok page, mp') \<Rightarrow> mpool_ok mp' \<and> mpool_pages mp = add_mset page (mpool_pages mp')
    | (Err _, mp') \<Rightarrow> mp' = mp \<and> mpool_pages mp = {#}
    | (Panic, _) \<Rightarrow> False"
  using assms
proof (induction mp rule: MPool_alloc.induct)
  case (1 p)
  then show ?case
    using Pool_alloc_conserves [of p] by (auto split: outcome.splits prod.splits)
next
  case (2 p fallback)
  obtain r p' where a: "Pool_alloc p = (r, p')" by fastforce
  show ?case
    using 2 Pool_alloc_conserves [of p] a by (cases r) (auto split: outcome.splits prod.splits)
qed

lemma MPool_alloc_pages_conserves:
  assumes "mpool_ok mp" "unat sz * 4096 < 2 ^ 64"
  shows "case MPool_alloc_pages mp sz align of
      (Ok (s, m), mp') \<Rightarrow> m = sz \<and> mpool_ok mp' \<and> mpool_pages mp = mset (chunk_pages s (unat sz)) + mpool_pages mp'
    | (_, mp') \<Rightarrow> mp' = mp"
  using assms
proof (induction mp sz align rule: MPool_alloc_pages.induct)
  case (1 p cnt align)
  then show ?case
    using Pool_alloc_pages_conserves [of p cnt align] by (auto split: outcome.splits prod.splits)
next
  case (2 p fallback cnt align)
  obtain r p' where a: "Pool_alloc_pages p cnt align = (r, p')" by fastforce
  show ?case
    using 2 Pool_alloc_pages_conserves [of p cnt align] a
    by (cases r) (auto split: outcome.splits prod.splits)
qed

lemma mpool_ok_free [simp]: "mpool_ok (MPool_free mp page) = mpool_ok mp"
  by (cases mp rule: mpool_ok.cases) (auto simp: MPool_free_def Pool_free_def pool_ok_def)

lemma mpool_pages_free [simp]: "mpool_pages (MPool_free mp page) = add_mset page (mpool_pages mp)"
  by (cases mp rule: mpool_ok.cases) (auto simp: MPool_free_def Pool_free_def pool_pages_def)

lemma mpool_ok_free_pages [simp]: "mpool_ok (MPool_free_pages mp ps) \<longleftrightarrow> chunk_ok ps \<and> mpool_ok mp"
  by (cases mp rule: mpool_ok.cases) (auto simp: MPool_free_pages_def Pool_free_pages_def pool_ok_def)

lemma mpool_pages_free_pages [simp]:
  "mpool_pages (MPool_free_pages mp (a, n)) = mset (chunk_pages a (unat n)) + mpool_pages mp"
  by (cases mp rule: mpool_ok.cases)
    (auto simp: MPool_free_pages_def Pool_free_pages_def pool_pages_def)

lemma drain_rev: "drain xs ys = rev xs @ ys"
  by (induction xs arbitrary: ys) auto

text \<open>
  A client of the pool: its state is the pool and the multiset of pages it holds.
\<close>

inductive pool_step :: "mpool \<times> usize multiset \<Rightarrow> mpool \<times> usize multiset \<Rightarrow> bool" where
  alloc: "MPool_alloc mp = (Ok page, mp') \<Longrightarrow> pool_step (mp, held) (mp', add_mset page held)"
| alloc_pages: "MPool_alloc_pages mp sz align = (Ok (s, n), mp') \<Longrightarrow> unat sz * 4096 < 2 ^ 64 \<Longrightarrow>
    pool_step (mp, held) (mp', mset (chunk_pages s (unat n)) + held)"
| free: "pool_step (mp, add_mset page held) (MPool_free mp page, held)"
| free_pages: "chunk_ok (a, n) \<Longrightarrow>
    pool_step (mp, mset (chunk_pages a (unat n)) + held) (MPool_free_pages mp (a, n), held)"
| drop: "pool_step (MPool p (Some fb), held) (the (mp_fallback (MPool_drop (MPool p (Some fb)))), held)"

inductive_cases pool_stepE: "pool_step (mp, held) s'"

lemma pool_step_conserves:
  assumes "pool_step s s'" "mpool_ok (fst s)"
  shows "mpool_ok (fst s') \<and> mpool_pages (fst s') + snd s' = mpool_pages (fst s) + snd s"
  using assms
proof (induction rule: pool_step.induct)
  case (alloc mp page mp' held)
  then show ?case
    using MPool_alloc_conserves [of mp] by simp
next
  case (alloc_pages mp sz align s n mp' held)
  then show ?case
    using MPool_alloc_pages_conserves [of mp sz align] by (auto simp: ac_simps)
next
  case (drop p fb held)
  obtain fp ffb where "fb = MPool fp ffb" by (cases fb)
  then show ?case
    using drop by (cases ffb) (auto simp: MPool_drop_def pool_ok_def pool_pages_def drain_rev ac_simps
        simp flip: rev_map)
qed auto

lemma Pool_alloc_pages_aligned:
  assumes "pool_ok p" "unat cnt * 4096 < 2 ^ 64" "unat align * 4096 < 2 ^ 64"
    and "Pool_alloc_pages p cnt align = (Ok (start, n), p')"
    and "\<forall>page \<in># pool_pages p. 4096 dvd unat page"
  shows "unat align * 4096 dvd unat start"
proof (cases "cnt = 1 \<and> align = 1")
  case True
  then have "start \<in># pool_pages p"
    using Pool_alloc_conserves [OF assms(1)] assms(4)
    by (auto simp: Pool_alloc_pages_def split: outcome.splits prod.splits)
  then show ?thesis
    using True assms(5) by simp
next
  case False
  then obtain a k cs ce e chunks where
    r: "list_pop_if_some (chunk_fits cnt align) (chunk_list p) = Some (((a, k), (cs, ce, start, e)), chunks)"
    using assms(4) by (auto simp: Pool_alloc_pages_def Let_def split: if_splits option.splits prod.splits)
  have "(a, k) \<in> set (chunk_list p)"
    using list_pop_if_some_mset [OF r] by (metis set_mset_mset union_single_eq_member)
  then have "chunk_ok (a, k)"
    using assms(1) by (auto simp: pool_ok_def list_all_iff)
  from chunk_fits_pages(10) [OF this assms(2) list_pop_if_some_cond [OF r]] show ?thesis
    using assms(3) by (simp add: unat_mult_PAGE_SIZE)
qed

lemma MPool_alloc_pages_aligned:
  assumes "mpool_ok mp" "unat cnt * 4096 < 2 ^ 64" "unat align * 4096 < 2 ^ 64"
    and "MPool_alloc_pages mp cnt align = (Ok (start, n), mp')"
    and "\<forall>page \<in># mpool_pages mp. 4096 dvd unat page"
  shows "unat align * 4096 dvd unat start"
  using assms
proof (induction mp cnt align arbitrary: mp' rule: MPool_alloc_pages.induct)
  case (1 p cnt align)
  then show ?case
    using Pool_alloc_pages_aligned [of p cnt align] by (auto split: outcome.splits prod.splits)
next
  case (2 p fallback cnt align)
  show ?case
    using 2 Pool_alloc_pages_aligned [of p cnt align] by (auto split: outcome.splits prod.splits)
qed

lemma chunk_pages_mem:
  assumes "unat a + k * 4096 < 2 ^ 64" "4096 dvd unat a"
  shows "x \<in> set (chunk_pages a k) \<longleftrightarrow> 4096 dvd unat x \<and> unat a \<le> unat x \<and> unat x + 4096 \<le> unat a + k * 4096"
proof
  assume "x \<in> set (chunk_pages a k)"
  then obtain i where i: "i < k" "x = a + word_of_nat i * PAGE_SIZE"
    by (auto simp: chunk_pages_def)
  have le: "Suc i * 4096 \<le> k * 4096"
    using i(1) by (intro mult_le_mono1) simp
  have "unat (word_of_nat i :: usize) = i"
    using le assms(1) by (simp add: unat_of_nat)
  then have "unat (word_of_nat i * PAGE_SIZE) = i * 4096"
    using le assms(1) by (subst unat_mult_no_wrap) simp_all
  then have "unat x = unat a + i * 4096"
    using le assms(1) unfolding i(2) by (subst unat_add_no_wrap) simp_all
  then show "4096 dvd unat x \<and> unat a \<le> unat x \<and> unat x + 4096 \<le> unat a + k * 4096"
    using le assms(2) by simp
next
  assume x: "4096 dvd unat x \<and> unat a \<le> unat x \<and> unat x + 4096 \<le> unat a + k * 4096"
  have "a \<le> x" using x by (simp add: word_le_nat_alt)
  note o = page_offset [OF this assms(2)]
  have "unat ((x - a) div PAGE_SIZE) < k"
    using o(1) x by linarith
  then show "x \<in> set (chunk_pages a k)"
    using o(2) x by (auto simp: chunk_pages_def image_iff intro!: bexI [of _ "unat ((x - a) div PAGE_SIZE)"])
qed

lemma round_page:
  assumes "unat a + 4096 < 2 ^ 64"
  shows "unat (round_up a PAGE_SIZE) = (unat a + 4095) div 4096 * 4096"
    and "unat (round_down a PAGE_SIZE) = unat a div 4096 * 4096"
proof -
  have e: "a + PAGE_SIZE - 1 = a + 4095"
    by (simp add: PAGE_SIZE_def PAGE_BITS_def)
  have "unat (a + 4095) = unat a + 4095"
    using assms by (subst unat_add_no_wrap) simp_all
  then have d: "unat ((a + 4095) div PAGE_SIZE) = (unat a + 4095) div 4096"
    by (simp add: unat_div)
  show "unat (round_up a PAGE_SIZE) = (unat a + 4095) div 4096 * 4096"
    unfolding round_up_def div_ceil_def e
    using d assms div_times_less_eq_dividend [of "unat a + 4095" 4096] by (subst unat_mult_PAGE_SIZE) simp_all
  show "unat (round_down a PAGE_SIZE) = unat a div 4096 * 4096"
    unfolding round_down_def div_floor_def
    using assms div_times_less_eq_dividend [of "unat a" 4096]
    by (subst unat_mult_PAGE_SIZE) (simp_all add: unat_div)
qed

lemma Pages_from_raw_u8_no_panic: "Pages_from_raw_u8 ptr sz \<noteq> Panic"
  by (simp add: Pages_from_raw_u8_def Let_def)

lemma page_bounds:
  fixes p x e :: nat
  assumes "4096 dvd x"
  shows "p \<le> x \<longleftrightarrow> (p + 4095) div 4096 * 4096 \<le> x" and "x + 4096 \<le> e \<longleftrightarrow> x + 4096 \<le> e div 4096 * 4096"
proof -
  obtain k where x: "x = k * 4096"
    using assms by (auto elim!: dvdE simp: mult.commute)
  show "p \<le> x \<longleftrightarrow> (p + 4095) div 4096 * 4096 \<le> x"
    unfolding x using less_eq_div_iff_mult_less_eq [of 4096 "Suc k" "p + 4095"] by auto
  show "x + 4096 \<le> e \<longleftrightarrow> x + 4096 \<le> e div 4096 * 4096"
    unfolding x using less_eq_div_iff_mult_less_eq [of 4096 "Suc k" e] by auto
qed

lemma Pages_from_raw_u8_inside:
  assumes "unat ptr + unat sz + 4096 < 2 ^ 64"
  shows "case Pages_from_raw_u8 ptr sz of
      Ok (a, n) \<Rightarrow> chunk_ok (a, n) \<and> (\<forall>x. x \<in> set (chunk_pages a (unat n)) \<longleftrightarrow>
        4096 dvd unat x \<and> unat ptr \<le> unat x \<and> unat x + 4096 \<le> unat ptr + unat sz)
    | _ \<Rightarrow> \<not> (\<exists>x. 4096 dvd x \<and> unat ptr \<le> x \<and> x + 4096 \<le> unat ptr + unat sz)"
proof -
  define b e where "b = round_up ptr PAGE_SIZE" and "e = round_down (ptr + sz) PAGE_SIZE"
  have s: "unat (ptr + sz) = unat ptr + unat sz"
    using assms by (subst unat_add_no_wrap) simp_all
  have be: "unat b = (unat ptr + 4095) div 4096 * 4096" "unat e = (unat ptr + unat sz) div 4096 * 4096"
    unfolding b_def e_def using assms round_page(1) [of ptr] round_page(2) [of "ptr + sz"] s by simp_all
  then have al: "4096 dvd unat b" "4096 dvd unat e" by simp_all
  have in_range: "4096 dvd x \<Longrightarrow> unat ptr \<le> x \<and> x + 4096 \<le> unat ptr + unat sz \<longleftrightarrow> unat b \<le> x \<and> x + 4096 \<le> unat e" for x
    using page_bounds [of x] be by simp
  show ?thesis
  proof (cases "b \<ge> e \<or> e - b < PAGE_SIZE")
    case True
    then have "unat e < unat b + 4096"
      by (auto simp: word_le_nat_alt word_less_nat_alt unat_sub_if' split: if_splits)
    then have "\<not> (4096 dvd x \<and> unat ptr \<le> x \<and> x + 4096 \<le> unat ptr + unat sz)" for x
      using in_range [of x] by linarith
    moreover have "Pages_from_raw_u8 ptr sz = Err ()"
      using True unfolding Pages_from_raw_u8_def Let_def b_def e_def by simp
    ultimately show ?thesis by simp
  next
    case False
    then have "b \<le> e" and lt: "unat b < unat e"
      by (auto simp: not_le word_less_nat_alt word_le_nat_alt)
    note o = page_offset(1) [OF this(1) al]
    then have n: "unat b + unat ((e - b) div PAGE_SIZE) * 4096 = unat e" using lt by linarith
    moreover have "(e - b) div PAGE_SIZE \<noteq> 0"
      using o lt by (metis less_numeral_extra(3) mult_is_0 unat_0 zero_less_diff)
    ultimately have "chunk_ok (b, (e - b) div PAGE_SIZE)"
      using al unat_lt64 [of e] by (simp add: chunk_ok_def)
    moreover have "x \<in> set (chunk_pages b (unat ((e - b) div PAGE_SIZE))) \<longleftrightarrow>
        4096 dvd unat x \<and> unat ptr \<le> unat x \<and> unat x + 4096 \<le> unat ptr + unat sz" for x
      using chunk_pages_mem [of b "unat ((e - b) div PAGE_SIZE)" x] al(1) n unat_lt64 [of e]
        in_range [of "unat x"] by metis
    ultimately show ?thesis
      using False unfolding Pages_from_raw_u8_def Let_def b_def e_def by simp
  qed
qed

section \<open>Properties\<close>

text \<open>
  C18. No sequence of allocations, frees and drops of a pool loses or invents a page: the pages
  in the pool (and its fallbacks) together with the pages held by its clients are always the
  pages there were at the start, so a page is never handed out twice.
\<close>

theorem pool_run_conserves:
  assumes "pool_step\<^sup>*\<^sup>* (mp, held) (mp', held')" "mpool_ok mp"
  shows "mpool_ok mp' \<and> mpool_pages mp' + held' = mpool_pages mp + held"
  using assms(1)
proof (induction rule: rtranclp_induct2)
  case refl
  then show ?case using assms(2) by simp
next
  case (step mp1 held1 mp2 held2)
  then show ?case
    using pool_step_conserves [OF step(2)] by simp
qed

definition demo_pool :: mpool where
  "demo_pool = MPool \<lparr>chunk_list = [(0x10000, 3)], entry_list = []\<rparr> (Some (MPool \<lparr>chunk_list = [], entry_list = [0x8000]\<rparr> None))"

theorem pool_run_conserves_witness:
  "mpool_pages (snd (MPool_alloc demo_pool)) + {#0x10000#} = mpool_pages demo_pool
   \<and> fst (MPool_alloc demo_pool) = Ok 0x10000 \<and> mpool_pages demo_pool = {#0x8000, 0x10000, 0x11000, 0x12000#}"
proof -
  have ok: "mpool_ok demo_pool"
    by (simp add: demo_pool_def pool_ok_def chunk_ok_def)
  have a: "MPool_alloc demo_pool = (Ok 0x10000, snd (MPool_alloc demo_pool))"
    by (simp add: demo_pool_def Pool_alloc_def)
  have run: "pool_step\<^sup>*\<^sup>* (demo_pool, {#}) (snd (MPool_alloc demo_pool), {#0x10000#})"
    using pool_step.alloc [OF a, of "{#}"] by simp
  have "fst (MPool_alloc demo_pool) = Ok 0x10000"
    by (subst a) simp
  moreover have "mpool_pages demo_pool = {#0x8000, 0x10000, 0x11000, 0x12000#}"
    by (simp add: demo_pool_def pool_pages_def chunk_pages_def PAGE_SIZE_def PAGE_BITS_def upt_rec)
  ultimately show ?thesis
    using pool_run_conserves [OF run ok] by simp
qed

text \<open>
  C27. A pool hands out a page as long as it or one of its fallbacks has a page left: \<open>alloc\<close>
  fails exactly when no page is left, and then changes nothing.
\<close>

theorem MPool_alloc_complete:
  assumes "mpool_ok mp"
  shows "((\<exists>page mp'. MPool_alloc mp = (Ok page, mp') \<and> page \<in># mpool_pages mp)
    \<longleftrightarrow> mpool_pages mp \<noteq> {#})
    \<and> (mpool_pages mp = {#} \<longrightarrow> MPool_alloc mp = (Err (), mp))"
proof -
  obtain r mp' where "MPool_alloc mp = (r, mp')" by fastforce
  then show ?thesis
    using MPool_alloc_conserves [OF assms] by (cases r) auto
qed

theorem MPool_alloc_complete_witness:
  "mpool_ok demo_pool \<and> (\<exists>page mp'. MPool_alloc demo_pool = (Ok page, mp') \<and> page \<in># mpool_pages demo_pool)"
proof -
  have ok: "mpool_ok demo_pool" and ne: "mpool_pages demo_pool \<noteq> {#}"
    by (simp_all add: demo_pool_def pool_ok_def chunk_ok_def pool_pages_def)
  show ?thesis
    using ok ne MPool_alloc_complete [OF ok] by blast
qed

text \<open>
  A successful \<open>alloc_pages\<close> returns the number of pages asked for, at an address aligned to
  \<open>align\<close> pages, and takes exactly those contiguous pages out of the pool or its fallbacks.
\<close>

lemma MPool_alloc_pages_sound:
  assumes "mpool_ok mp" "unat cnt * 4096 < 2 ^ 64" "unat align * 4096 < 2 ^ 64"
    and "MPool_alloc_pages mp cnt align = (Ok (start, n), mp')"
    and "\<forall>page \<in># mpool_pages mp. 4096 dvd unat page"
  shows "n = cnt \<and> unat align * 4096 dvd unat start
    \<and> mpool_pages mp = mset (chunk_pages start (unat cnt)) + mpool_pages mp'"
proof -
  have "unat align * 4096 dvd unat start"
    by (rule MPool_alloc_pages_aligned [OF assms])
  moreover have "n = cnt \<and> mpool_pages mp = mset (chunk_pages start (unat cnt)) + mpool_pages mp'"
    using MPool_alloc_pages_conserves [OF assms(1,2), of align] by (simp add: assms(4))
  ultimately show ?thesis by blast
qed

text \<open>
  \<open>mpool_add_chunk\<close> adds exactly the whole pages of a memory range, as one well-formed chunk,
  and returns whether the range contains a page.
\<close>

lemma mpool_add_chunk_inside:
  assumes "unat begin + unat sz + 4096 < 2 ^ 64" "mpool_add_chunk mp begin sz = (r, mp')" "mpool_ok mp"
  shows "mpool_ok mp' \<and> (\<exists>new. mpool_pages mp' = new + mpool_pages mp \<and> (r \<longleftrightarrow> new \<noteq> {#})
    \<and> (\<forall>x. x \<in># new \<longleftrightarrow> 4096 dvd unat x \<and> unat begin \<le> unat x \<and> unat x + 4096 \<le> unat begin + unat sz))"
proof (cases "Pages_from_raw_u8 begin sz")
  case (Ok ps)
  obtain a n where ps: "ps = (a, n)" by fastforce
  have "n \<noteq> 0 \<Longrightarrow> mset (chunk_pages a (unat n)) \<noteq> {#}"
    by (metis length_chunk_pages list.size(3) mset_zero_iff unat_eq_zero)
  moreover have "r" "mp' = MPool_free_pages mp (a, n)"
    using assms(2) Ok ps by (simp_all add: mpool_add_chunk_def)
  moreover have "chunk_ok (a, n)" and
    mem: "\<forall>x. x \<in> set (chunk_pages a (unat n)) \<longleftrightarrow> 4096 dvd unat x \<and> unat begin \<le> unat x \<and> unat x + 4096 \<le> unat begin + unat sz"
    using Pages_from_raw_u8_inside [OF assms(1)] Ok ps by simp_all
  ultimately show ?thesis
    using assms(3) by (intro conjI exI [of _ "mset (chunk_pages a (unat n))"]) (auto simp: chunk_ok_def mem)
next
  case (Err e)
  then have "\<not> r" "mp' = mp"
    using assms(2) by (simp_all add: mpool_add_chunk_def)
  moreover have "\<not> (4096 dvd unat x \<and> unat begin \<le> unat x \<and> unat x + 4096 \<le> unat begin + unat sz)" for x :: usize
    using Pages_from_raw_u8_inside [OF assms(1)] Err by auto
  ultimately show ?thesis
    using assms(3) by (intro conjI exI [of _ "{#}"]) simp_all
next
  case Panic
  then show ?thesis by (simp add: Pages_from_raw_u8_no_panic)
qed

end
