(* ===== verification/Page_Table.thy ===== *)
theory Page_Table
  imports Arch Mpool
begin

text \<open>
  The page tables of src/hfo2/src/mm.rs.

  A table is owned by the entry that points to it, so the tables form trees: a \<open>pte\<close> carries
  its raw word and the entries of the table it owns (none unless it is a table entry). The
  memory of a sub-table lives in the page that the raw word names; \<open>pte_pages\<close> collects those
  pages.

  Every operation works on a \<open>menv\<close>: the memory pool, the flag \<open>stage2_invalidate\<close> of the
  memory manager, and the log of what the hardware can observe (writes of entries that are
  reachable from a root, and TLB invalidations), in order.

  Recursion over the levels is recursion on the level; \<open>level - 1\<close> at level 0, which would
  underflow, is a panic.
\<close>

section \<open>State\<close>

datatype pte = PTE (inner: u64) (sub: "pte list")

type_synonym table = "pte list"

datatype event =
    PteWrite usize nat u64 u64  \<comment> \<open>address, level, old and new entry\<close>
  | PteDefrag nat u64 u64       \<comment> \<open>the same by \<open>defrag\<close>, which does not know the address\<close>
  | Tlbi usize usize            \<comment> \<open>range of addresses\<close>

record menv =
  mpool :: mpool
  stage2_invalidate :: bool
  trace :: "event list"

definition emit :: "event \<Rightarrow> menv \<Rightarrow> menv" where
  "emit ev env = env\<lparr>trace := trace env @ [ev]\<rparr>"

text \<open>Stage 1 always invalidates; stage 2 only once \<open>mm_vm_enable_invalidation\<close> was called.\<close>

definition invalidate_tlb :: "stage \<Rightarrow> usize \<Rightarrow> usize \<Rightarrow> menv \<Rightarrow> menv" where
  "invalidate_tlb S b e env =
     (if kind S = Stage1 \<or> stage2_invalidate env then emit (Tlbi b e) env else env)"

definition FLAG_COMMIT :: u32 where "FLAG_COMMIT = 1"
definition FLAG_UNMAP :: u32 where "FLAG_UNMAP = 2"
definition FLAG_STAGE1 :: u32 where "FLAG_STAGE1 = 4"

definition flags_contains :: "u32 \<Rightarrow> u32 \<Rightarrow> bool" where
  "flags_contains flags f \<longleftrightarrow> flags AND f = f"

section \<open>PageTableEntry\<close>

definition pte_absent :: "stage \<Rightarrow> nat \<Rightarrow> pte" where
  "pte_absent S level = PTE (absent_pte S level) []"

definition pte_block :: "stage \<Rightarrow> nat \<Rightarrow> paddr_t \<Rightarrow> u64 \<Rightarrow> pte" where
  "pte_block S level begin attrs = PTE (block_pte S level begin attrs) []"

text \<open>\<open>PageTableEntry::table\<close>; the node is its page and its entries.\<close>

definition pte_table :: "stage \<Rightarrow> nat \<Rightarrow> page \<Rightarrow> table \<Rightarrow> pte" where
  "pte_table S level page entries = PTE (table_pte S level (pa_init page)) entries"

definition is_present :: "stage \<Rightarrow> pte \<Rightarrow> nat \<Rightarrow> bool" where
  "is_present S pte level = pte_is_present S (inner pte) level"

definition is_valid :: "stage \<Rightarrow> pte \<Rightarrow> nat \<Rightarrow> bool" where
  "is_valid S pte level = pte_is_valid S (inner pte) level"

definition is_block :: "stage \<Rightarrow> pte \<Rightarrow> nat \<Rightarrow> bool" where
  "is_block S pte level = pte_is_block S (inner pte) level"

definition is_table :: "stage \<Rightarrow> pte \<Rightarrow> nat \<Rightarrow> bool" where
  "is_table S pte level = pte_is_table S (inner pte) level"

definition attrs :: "stage \<Rightarrow> pte \<Rightarrow> nat \<Rightarrow> u64" where
  "attrs S pte level = pte_attrs S (inner pte) level"

definition as_block :: "stage \<Rightarrow> pte \<Rightarrow> nat \<Rightarrow> paddr_t res" where
  "as_block S pte level =
     (if is_block S pte level then Ok (block_from_pte S (inner pte) level) else Err ())"

definition as_table :: "stage \<Rightarrow> pte \<Rightarrow> nat \<Rightarrow> table res" where
  "as_table S pte level = (if is_table S pte level then Ok (sub pte) else Err ())"

text \<open>
  \<open>drop\<close>: the sub-tables are freed first, then the page of the table. The entries at level 0 of a
  well-formed table are never tables themselves, so \<open>level - 1\<close> does not underflow.
\<close>

fun pte_drop :: "stage \<Rightarrow> nat \<Rightarrow> pte \<Rightarrow> mpool \<Rightarrow> mpool" where
  "pte_drop S level (PTE w entries) mp =
     (if pte_is_table S w level
      then MPool_free (fold (pte_drop S (level - 1)) entries mp) (pa_addr (table_from_pte S w level))
      else mp)"

definition drop_in :: "stage \<Rightarrow> nat \<Rightarrow> pte \<Rightarrow> menv \<Rightarrow> menv" where
  "drop_in S level pte env = env\<lparr>mpool := pte_drop S level pte (mpool env)\<rparr>"

text \<open>
  \<open>replace\<close>. In the break-before-make branch the old entry is overwritten by
  \<open>ptr::write(self, absent)\<close>, so what \<open>mem::replace\<close> then returns, and drops, is the absent
  entry and not the old one.
\<close>

definition pte_replace :: "stage \<Rightarrow> pte \<Rightarrow> pte \<Rightarrow> usize \<Rightarrow> nat \<Rightarrow> menv \<Rightarrow> pte \<times> menv" where
  "pte_replace S pte new_pte begin level env =
     (let (pte, env) =
        (if is_valid S pte level \<and> is_valid S new_pte level
         then (pte_absent S level,
               invalidate_tlb S begin (begin + entry_size level)
                 (emit (PteWrite begin level (inner pte) (absent_pte S level)) env))
         else (pte, env));
        old_pte = pte;
        env = emit (PteWrite begin level (inner old_pte) (inner new_pte)) env
      in (new_pte, drop_in S level old_pte env))"

definition populate_table :: "stage \<Rightarrow> pte \<Rightarrow> usize \<Rightarrow> nat \<Rightarrow> menv \<Rightarrow> unit res \<times> pte \<times> menv" where
  "populate_table S pte begin level env =
     (if is_table S pte level then (Ok (), pte, env)
      else
        case MPool_alloc (mpool env) of
          (Ok page, mp) \<Rightarrow>
            let env = env\<lparr>mpool := mp\<rparr>
            in if level = 0 then (Panic, pte, env)
               else
                 let level_below = level - 1;
                     entries =
                       (if is_block S pte level
                        then map (\<lambda>i. pte_block S level_below
                               (pa_init (inner pte + word_of_nat i * entry_size level_below))
                               (attrs S pte level)) [0..<PTE_PER_PAGE]
                        else replicate PTE_PER_PAGE (pte_absent S level_below));
                     (pte, env) = pte_replace S pte (pte_table S level page entries) begin level env
                 in (Ok (), pte, env)
        | (_, mp) \<Rightarrow> (Err (), pte, env\<lparr>mpool := mp\<rparr>))"

section \<open>RawPageTable\<close>

definition is_empty :: "stage \<Rightarrow> table \<Rightarrow> nat \<Rightarrow> bool" where
  "is_empty S table level = list_all (\<lambda>pte. \<not> is_present S pte level) table"

text \<open>
  \<open>for (x, begin) in xs.iter_mut().zip(BlockIter::new(begin, end, block_size)) { f(x, begin)?; }\<close>:
  stops at the first error, leaving the later elements alone.
\<close>

fun for_blocks ::
  "(usize \<Rightarrow> 'a \<Rightarrow> 'e \<Rightarrow> unit res \<times> 'a \<times> 'e) \<Rightarrow> usize \<Rightarrow> usize \<Rightarrow> usize \<Rightarrow> 'a list \<Rightarrow> 'e \<Rightarrow> unit res \<times> 'a list \<times> 'e"
where
  "for_blocks f b e block_size [] env = (Ok (), [], env)"
| "for_blocks f b e block_size (x # xs) env =
     (if b \<ge> e then (Ok (), x # xs, env)
      else case f b x env of
             (Ok _, x', env') \<Rightarrow>
               let (r, xs', env'') = for_blocks f (start_of_next_block b block_size) e block_size xs env'
               in (r, x' # xs', env'')
           | (Err er, x', env') \<Rightarrow> (Err er, x' # xs, env')
           | (Panic, x', env') \<Rightarrow> (Panic, x' # xs, env'))"

text \<open>
  The body of the loop of \<open>map_level\<close> for one entry; \<open>rec\<close> is the recursive call on the
  sub-table.
\<close>

definition map_entry ::
  "stage \<Rightarrow> (usize \<Rightarrow> table \<Rightarrow> menv \<Rightarrow> unit res \<times> table \<times> menv) \<Rightarrow> usize \<Rightarrow> u64 \<Rightarrow> nat \<Rightarrow> u32
   \<Rightarrow> usize \<Rightarrow> pte \<Rightarrow> menv \<Rightarrow> unit res \<times> pte \<times> menv" where
  "map_entry S rec e at level flags begin pte env =
     (let commit = flags_contains flags FLAG_COMMIT;
          unmap = flags_contains flags FLAG_UNMAP
      in if unmap \<and> \<not> is_present S pte level then (Ok (), pte, env)
         else if \<not> unmap \<and> is_block S pte level \<and> attrs S pte level = at then (Ok (), pte, env)
         else if e - begin \<ge> entry_size level \<and> (unmap \<or> is_block_allowed S level)
                 \<and> begin AND (entry_size level - 1) = 0
         then
           (if commit
            then let new_pte = (if unmap then pte_absent S level
                                else pte_block S level (pa_init begin) at);
                     (pte, env) = pte_replace S pte new_pte begin level env
                 in (Ok (), pte, env)
            else (Ok (), pte, env))
         else
           case populate_table S pte begin level env of
             (Ok _, pte, env) \<Rightarrow>
               if \<not> is_table S pte level then (Panic, pte, env)
               else
                 (case rec begin (sub pte) env of
                    (Ok _, new_table, env) \<Rightarrow>
                      let pte = PTE (inner pte) new_table
                      in if commit \<and> unmap \<and> is_empty S new_table (level - 1)
                         then let (pte, env) = pte_replace S pte (pte_absent S level) begin level env
                              in (Ok (), pte, env)
                         else (Ok (), pte, env)
                  | (Err er, new_table, env) \<Rightarrow> (Err er, PTE (inner pte) new_table, env)
                  | (Panic, new_table, env) \<Rightarrow> (Panic, PTE (inner pte) new_table, env))
           | (Err er, pte, env) \<Rightarrow> (Err er, pte, env)
           | (Panic, pte, env) \<Rightarrow> (Panic, pte, env))"

definition map_table ::
  "stage \<Rightarrow> (usize \<Rightarrow> table \<Rightarrow> menv \<Rightarrow> unit res \<times> table \<times> menv) \<Rightarrow> usize \<Rightarrow> u64 \<Rightarrow> nat \<Rightarrow> u32
   \<Rightarrow> usize \<Rightarrow> table \<Rightarrow> menv \<Rightarrow> unit res \<times> table \<times> menv" where
  "map_table S rec e at level flags begin table env =
     (let i = unat (index begin level);
          (r, ptes, env) =
            for_blocks (map_entry S rec e at level flags) begin (min e (level_end begin level))
              (entry_size level) (drop i table) env
      in (r, take i table @ ptes, env))"

primrec map_level ::
  "stage \<Rightarrow> usize \<Rightarrow> u64 \<Rightarrow> u32 \<Rightarrow> nat \<Rightarrow> usize \<Rightarrow> table \<Rightarrow> menv \<Rightarrow> unit res \<times> table \<times> menv" where
  "map_level S e at flags 0 = map_table S (\<lambda>begin table env. (Panic, table, env)) e at 0 flags"
| "map_level S e at flags (Suc l) = map_table S (map_level S e at flags l) e at (Suc l) flags"

text \<open>
  \<open>res_reduce\<close> (utils.rs): the first element, then a fold that stops at the first error; the
  items are computed lazily, so an item after an error is not looked at.
\<close>

fun res_fold :: "('a \<Rightarrow> 'a \<Rightarrow> 'a res) \<Rightarrow> 'a \<Rightarrow> 'a res list \<Rightarrow> 'a res" where
  "res_fold f acc [] = Ok acc"
| "res_fold f acc (Ok v # vs) = (case f acc v of Ok acc' \<Rightarrow> res_fold f acc' vs | Err e \<Rightarrow> Err e | Panic \<Rightarrow> Panic)"
| "res_fold f acc (Err e # vs) = Err e"
| "res_fold f acc (Panic # vs) = Panic"

fun res_reduce :: "('a \<Rightarrow> 'a \<Rightarrow> 'a res) \<Rightarrow> 'a res list \<Rightarrow> 'a res" where
  "res_reduce f [] = Err ()"
| "res_reduce f (Ok v # vs) = res_fold f v vs"
| "res_reduce f (Err e # vs) = Err e"
| "res_reduce f (Panic # vs) = Panic"

definition same_attrs :: "u64 \<Rightarrow> u64 \<Rightarrow> u64 res" where
  "same_attrs l r = (if l = r then Ok l else Err ())"

text \<open>\<open>xs.iter().zip(BlockIter::new(begin, end, block_size)).map(f)\<close>.\<close>

fun map_blocks :: "(usize \<Rightarrow> 'a \<Rightarrow> 'b) \<Rightarrow> usize \<Rightarrow> usize \<Rightarrow> usize \<Rightarrow> 'a list \<Rightarrow> 'b list" where
  "map_blocks f b e block_size [] = []"
| "map_blocks f b e block_size (x # xs) =
     (if b \<ge> e then []
      else f b x # map_blocks f (start_of_next_block b block_size) e block_size xs)"

definition get_attrs_table ::
  "stage \<Rightarrow> (usize \<Rightarrow> table \<Rightarrow> u64 res) \<Rightarrow> usize \<Rightarrow> nat \<Rightarrow> usize \<Rightarrow> table \<Rightarrow> u64 res" where
  "get_attrs_table S rec e level begin table =
     res_reduce same_attrs
       (map_blocks
          (\<lambda>b pte. if is_table S pte level then rec b (sub pte) else Ok (attrs S pte level))
          begin (min e (level_end begin level)) (entry_size level)
          (drop (unat (index begin level)) table))"

primrec get_attrs_level :: "stage \<Rightarrow> usize \<Rightarrow> nat \<Rightarrow> usize \<Rightarrow> table \<Rightarrow> u64 res" where
  "get_attrs_level S e 0 = get_attrs_table S (\<lambda>begin table. Panic) e 0"
| "get_attrs_level S e (Suc l) = get_attrs_table S (get_attrs_level S e l) e (Suc l)"

definition table_drop :: "stage \<Rightarrow> nat \<Rightarrow> table \<Rightarrow> mpool \<Rightarrow> mpool" where
  "table_drop S level table mp = fold (pte_drop S level) table mp"

section \<open>Defragmentation\<close>

text \<open>
  \<open>Iterator::reduce\<close> comes from the crate \<open>reduce\<close>, which is not part of the sources: it is the
  parameter \<open>red\<close>. The children are defragmented in order while the iterator is consumed;
  their results are then what \<open>red\<close> combines. A merged table is overwritten by one \<open>ptr::write\<close>,
  with no TLB invalidation before or after it.
\<close>

definition defrag_merge :: "u64 res \<Rightarrow> u64 res \<Rightarrow> u64 res" where
  "defrag_merge l r = (if l = r then l else Err ())"

definition free_page_in :: "page \<Rightarrow> menv \<Rightarrow> menv" where
  "free_page_in page env = env\<lparr>mpool := MPool_free (mpool env) page\<rparr>"

fun map_state :: "('a \<Rightarrow> 's \<Rightarrow> 'b \<times> 'a \<times> 's) \<Rightarrow> 'a list \<Rightarrow> 's \<Rightarrow> 'b list \<times> 'a list \<times> 's" where
  "map_state f [] s = ([], [], s)"
| "map_state f (x # xs) s =
     (let (r, x', s') = f x s;
          (rs, xs', s'') = map_state f xs s'
      in (r # rs, x' # xs', s''))"

definition defrag_write :: "nat \<Rightarrow> pte \<Rightarrow> pte \<Rightarrow> menv \<Rightarrow> pte \<times> menv" where
  "defrag_write level pte new env = (new, emit (PteDefrag level (inner pte) (inner new)) env)"

definition defrag_with ::
  "stage \<Rightarrow> ((u64 res \<Rightarrow> u64 res \<Rightarrow> u64 res) \<Rightarrow> u64 res list \<Rightarrow> u64 res option)
   \<Rightarrow> (pte \<Rightarrow> menv \<Rightarrow> u64 res \<times> pte \<times> menv) \<Rightarrow> nat \<Rightarrow> pte \<Rightarrow> menv \<Rightarrow> u64 res \<times> pte \<times> menv" where
  "defrag_with S red rec level pte env =
     (let at = attrs S pte level
      in if is_block S pte level then (Ok at, pte, env)
         else if \<not> is_table S pte level then (Err (), pte, env)
         else
           let page = pa_addr (table_from_pte S (inner pte) level);
               (rs, table, env) = map_state rec (sub pte) env;
               pte = PTE (inner pte) table
           in case red defrag_merge rs of
                None \<Rightarrow> (Err (), pte, env)
              | Some (Err er) \<Rightarrow> (Err er, pte, env)
              | Some Panic \<Rightarrow> (Panic, pte, env)
              | Some (Ok children_attrs) \<Rightarrow>
                  if \<not> pte_is_present S children_attrs (level - 1)
                  then let (pte, env) = defrag_write level pte (pte_absent S level) (free_page_in page env)
                       in (Ok (attrs S pte level), pte, env)
                  else if \<not> is_block_allowed S level then (Err (), pte, env)
                  else
                    let block_address = block_from_pte S (inner (hd table)) (level - 1);
                        combined_attrs = combine_table_entry_attrs S at children_attrs;
                        (pte, env) = defrag_write level pte (pte_block S level block_address combined_attrs)
                          (free_page_in page env)
                    in (Ok combined_attrs, pte, env))"

text \<open>\<open>level - 1\<close> at level 0 is only reached with a table entry at level 0.\<close>

primrec pte_defrag ::
  "stage \<Rightarrow> ((u64 res \<Rightarrow> u64 res \<Rightarrow> u64 res) \<Rightarrow> u64 res list \<Rightarrow> u64 res option)
   \<Rightarrow> nat \<Rightarrow> pte \<Rightarrow> menv \<Rightarrow> u64 res \<times> pte \<times> menv" where
  "pte_defrag S red 0 = defrag_with S red (\<lambda>pte env. (Panic, pte, env)) 0"
| "pte_defrag S red (Suc l) = defrag_with S red (pte_defrag S red l) (Suc l)"

section \<open>PageTable\<close>

record ptable =
  root :: paddr_t
  tables :: "table list"

definition PageTable_new :: "stage \<Rightarrow> menv \<Rightarrow> ptable res \<times> menv" where
  "PageTable_new S env =
     (let count = word_of_nat (root_table_count S)
      in case MPool_alloc_pages (mpool env) count count of
           (Ok pages, mp) \<Rightarrow>
             (Ok \<lparr>root = pa_init (fst pages),
                  tables = replicate (root_table_count S)
                    (replicate PTE_PER_PAGE (pte_absent S (max_level S)))\<rparr>,
              env\<lparr>mpool := mp\<rparr>)
         | (Err er, mp) \<Rightarrow> (Err er, env\<lparr>mpool := mp\<rparr>)
         | (Panic, mp) \<Rightarrow> (Panic, env\<lparr>mpool := mp\<rparr>))"

definition PageTable_drop :: "stage \<Rightarrow> ptable \<Rightarrow> menv \<Rightarrow> menv" where
  "PageTable_drop S t env =
     (let mp = fold (table_drop S (max_level S)) (tables t) (mpool env)
      in env\<lparr>mpool := MPool_free_pages mp (pa_addr (root t), word_of_nat (root_table_count S))\<rparr>)"

text \<open>\<open>as_raw\<close>.\<close>

definition PageTable_as_raw :: "ptable \<Rightarrow> paddr_t" where
  "PageTable_as_raw t = root t"

text \<open>\<open>self.deref_mut()[i..]\<close> panics when \<open>i\<close> is beyond the number of root tables.\<close>

definition map_root ::
  "stage \<Rightarrow> usize \<Rightarrow> usize \<Rightarrow> u64 \<Rightarrow> nat \<Rightarrow> u32 \<Rightarrow> ptable \<Rightarrow> menv \<Rightarrow> unit res \<times> ptable \<times> menv" where
  "map_root S begin e at root_level flags t env =
     (let root_table_size = entry_size root_level;
          i = unat (index begin root_level)
      in if i > length (tables t) then (Panic, t, env)
         else
           let (r, ts, env) =
             for_blocks (map_level S e at flags (root_level - 1)) begin e root_table_size
               (drop i (tables t)) env
           in (r, t\<lparr>tables := take i (tables t) @ ts\<rparr>, env))"

definition identity_update ::
  "stage \<Rightarrow> paddr_t \<Rightarrow> paddr_t \<Rightarrow> u64 \<Rightarrow> u32 \<Rightarrow> ptable \<Rightarrow> menv \<Rightarrow> unit res \<times> ptable \<times> menv" where
  "identity_update S begin e at flags t env =
     (let root_level = max_level S + 1;
          ptable_end = ptable_addr_space_end S;
          e = min (round_up_to_page (pa_addr e)) ptable_end;
          begin = pa_addr (clear_pa S begin)
      in case map_root S begin e at root_level flags t env of
           (Ok _, t, env) \<Rightarrow>
             (case map_root S begin e at root_level (flags OR FLAG_COMMIT) t env of
                (Ok _, t, env) \<Rightarrow> (Ok (), t, invalidate_tlb S begin e env)
              | (r, t, env) \<Rightarrow> (r, t, env))
         | (r, t, env) \<Rightarrow> (r, t, env))"

definition PageTable_defrag ::
  "stage \<Rightarrow> ((u64 res \<Rightarrow> u64 res \<Rightarrow> u64 res) \<Rightarrow> u64 res list \<Rightarrow> u64 res option) \<Rightarrow> ptable \<Rightarrow> menv \<Rightarrow> ptable \<times> menv"
where
  "PageTable_defrag S red t env =
     (let level = max_level S;
          (_, ts, env) =
            map_state (\<lambda>page_table env.
                let (_, page_table, env) = map_state (pte_defrag S red level) page_table env
                in ((), page_table, env)) (tables t) env
      in (t\<lparr>tables := ts\<rparr>, env))"

definition identity_map ::
  "stage \<Rightarrow> paddr_t \<Rightarrow> paddr_t \<Rightarrow> mode \<Rightarrow> ptable \<Rightarrow> menv \<Rightarrow> unit res \<times> ptable \<times> menv" where
  "identity_map S begin e mode t env = identity_update S begin e (mode_to_attrs S mode) 0 t env"

definition PageTable_unmap :: "stage \<Rightarrow> paddr_t \<Rightarrow> paddr_t \<Rightarrow> ptable \<Rightarrow> menv \<Rightarrow> unit res \<times> ptable \<times> menv" where
  "PageTable_unmap S begin e t env =
     identity_update S begin e (mode_to_attrs S (MODE_UNOWNED OR MODE_INVALID OR MODE_SHARED))
       FLAG_UNMAP t env"

definition get_attrs :: "stage \<Rightarrow> usize \<Rightarrow> usize \<Rightarrow> ptable \<Rightarrow> u64 res" where
  "get_attrs S begin e t =
     (let max_level = max_level S;
          root_level = max_level + 1;
          root_table_size = entry_size root_level;
          ptable_end = word_of_nat (root_table_count S) * root_table_size;
          begin = round_down_to_page begin;
          e = round_up_to_page e;
          i = unat (index begin root_level)
      in if \<not> (begin \<le> e \<and> e \<le> ptable_end) then Err ()
         else if i > length (tables t) then Panic
         else
           res_reduce same_attrs
             (map_blocks (get_attrs_level S e max_level) begin e root_table_size (drop i (tables t))))"

definition get_mode :: "stage \<Rightarrow> ipaddr_t \<Rightarrow> ipaddr_t \<Rightarrow> ptable \<Rightarrow> mode res" where
  "get_mode S begin e t =
     (case get_attrs S (ipa_addr begin) (ipa_addr e) t of
        Ok at \<Rightarrow> attrs_to_mode S at
      | Err er \<Rightarrow> Err er
      | Panic \<Rightarrow> Panic)"

section \<open>The walk of the MMU\<close>

text \<open>
  What the hardware makes of a table, with a page table walk for each access: the output address and
  the attributes of the leaf, or a fault (\<open>None\<close>) when an entry on the way is not valid or the address
  is beyond the table. A stage-1 write also needs an entry that is not read-only.
\<close>

primrec translate_entry :: "stage \<Rightarrow> nat \<Rightarrow> pte \<Rightarrow> nat \<Rightarrow> (nat \<times> u64) option" where
  "translate_entry S 0 p x =
     (if is_valid S p 0
      then Some (unat (pa_addr (block_from_pte S (inner p) 0)) + x mod esize 0, attrs S p 0) else None)"
| "translate_entry S (Suc l) p x =
     (if is_table S p (Suc l) then translate_entry S l (sub p ! (x div esize l mod 512)) x
      else if is_valid S p (Suc l)
      then Some (unat (pa_addr (block_from_pte S (inner p) (Suc l))) + x mod esize (Suc l), attrs S p (Suc l))
      else None)"

definition translate :: "stage \<Rightarrow> ptable \<Rightarrow> nat \<Rightarrow> (nat \<times> u64) option" where
  "translate S t x =
     (let i = x div esize (max_level S + 1)
      in if i < length (tables t)
         then translate_entry S (max_level S) (tables t ! i ! (x div esize (max_level S) mod 512)) x
         else None)"

section \<open>MemoryManager and the C interface\<close>

text \<open>
  The linker-provided bounds of the hypervisor image (src/hfo2/src/layout.rs reads them from
  linker symbols).
\<close>

record layout =
  text_begin :: paddr_t
  text_end :: paddr_t
  rodata_begin :: paddr_t
  rodata_end :: paddr_t
  data_begin :: paddr_t
  data_end :: paddr_t

record memory_manager =
  hypervisor_ptable :: ptable
  mm_stage2_invalidate :: bool

text \<open>
  \<open>MemoryManager::new\<close>. The console driver maps its own pages first; it is the argument
  \<open>console\<close> (it depends on the platform). \<open>arch_init\<close> is the result of \<open>arch_mm_init\<close>. An
  unsuccessful mapping is unwrapped, which panics.
\<close>

definition MemoryManager_new ::
  "stage \<Rightarrow> layout \<Rightarrow> (ptable \<Rightarrow> menv \<Rightarrow> ptable \<times> menv) \<Rightarrow> bool \<Rightarrow> menv \<Rightarrow> memory_manager res \<times> menv" where
  "MemoryManager_new S lay console arch_init env =
     (case PageTable_new S env of
        (Ok t, env) \<Rightarrow>
          let (t, env) = console t env
          in (case identity_map S (text_begin lay) (text_end lay) MODE_X t env of
                (Ok _, t, env) \<Rightarrow>
                  (case identity_map S (rodata_begin lay) (rodata_end lay) MODE_R t env of
                     (Ok _, t, env) \<Rightarrow>
                       (case identity_map S (data_begin lay) (data_end lay) (MODE_R OR MODE_W) t env of
                          (Ok _, t, env) \<Rightarrow>
                            if \<not> arch_init then (Err (), env)
                            else (Ok \<lparr>hypervisor_ptable = t, mm_stage2_invalidate = False\<rparr>, env)
                        | (_, t, env) \<Rightarrow> (Panic, env))
                   | (_, t, env) \<Rightarrow> (Panic, env))
              | (_, t, env) \<Rightarrow> (Panic, env))
      | (Panic, env) \<Rightarrow> (Panic, env)
      | (Err _, env) \<Rightarrow> (Err (), env))"

definition vm_unmap_hypervisor :: "stage \<Rightarrow> layout \<Rightarrow> ptable \<Rightarrow> menv \<Rightarrow> unit res \<times> ptable \<times> menv" where
  "vm_unmap_hypervisor S lay t env =
     (case PageTable_unmap S (text_begin lay) (text_end lay) t env of
        (Ok _, t, env) \<Rightarrow>
          (case PageTable_unmap S (rodata_begin lay) (rodata_end lay) t env of
             (Ok _, t, env) \<Rightarrow> PageTable_unmap S (data_begin lay) (data_end lay) t env
           | (r, t, env) \<Rightarrow> (r, t, env))
      | (r, t, env) \<Rightarrow> (r, t, env))"

definition mm_vm_enable_invalidation :: "menv \<Rightarrow> menv" where
  "mm_vm_enable_invalidation env = env\<lparr>stage2_invalidate := True\<rparr>"

text \<open>
  The C entry points: a pointer to a table is replaced by the table, and \<open>bool\<close> results by
  whether the outcome is \<open>Ok\<close>; a panic stays a panic.
\<close>

definition ok_flag :: "'a res \<Rightarrow> bool res" where
  "ok_flag r = (case r of Ok _ \<Rightarrow> Ok True | Err _ \<Rightarrow> Ok False | Panic \<Rightarrow> Panic)"

definition mm_vm_init :: "stage \<Rightarrow> ptable \<Rightarrow> menv \<Rightarrow> bool res \<times> ptable \<times> menv" where
  "mm_vm_init S t env =
     (let (r, env) = PageTable_new S env
      in (ok_flag r, (case r of Ok t' \<Rightarrow> t' | _ \<Rightarrow> t), env))"

definition mm_vm_fini :: "stage \<Rightarrow> ptable \<Rightarrow> menv \<Rightarrow> menv" where
  "mm_vm_fini S t env = PageTable_drop S t env"

definition mm_vm_identity_map ::
  "stage \<Rightarrow> ptable \<Rightarrow> paddr_t \<Rightarrow> paddr_t \<Rightarrow> mode \<Rightarrow> menv \<Rightarrow> (bool res \<times> ipaddr_t option) \<times> ptable \<times> menv" where
  "mm_vm_identity_map S t begin e mode env =
     (let (r, t, env) = identity_map S begin e mode t env
      in ((ok_flag r, (if is_ok r then Some (ipa_from_pa begin) else None)), t, env))"

definition mm_vm_unmap :: "stage \<Rightarrow> ptable \<Rightarrow> paddr_t \<Rightarrow> paddr_t \<Rightarrow> menv \<Rightarrow> bool res \<times> ptable \<times> menv" where
  "mm_vm_unmap S t begin e env =
     (let (r, t, env) =
        identity_update S begin e (mode_to_attrs S (MODE_UNOWNED OR MODE_INVALID OR MODE_SHARED))
          FLAG_UNMAP t env
      in (ok_flag r, t, env))"

definition mm_vm_unmap_hypervisor :: "stage \<Rightarrow> layout \<Rightarrow> ptable \<Rightarrow> menv \<Rightarrow> bool res \<times> ptable \<times> menv" where
  "mm_vm_unmap_hypervisor S lay t env =
     (let (r, t, env) = vm_unmap_hypervisor S lay t env in (ok_flag r, t, env))"

definition mm_vm_get_mode :: "stage \<Rightarrow> ptable \<Rightarrow> ipaddr_t \<Rightarrow> ipaddr_t \<Rightarrow> mode \<Rightarrow> bool res \<times> mode" where
  "mm_vm_get_mode S t begin e mode =
     (let r = get_mode S begin e t in (ok_flag r, (case r of Ok m \<Rightarrow> m | _ \<Rightarrow> mode)))"

definition mm_ptable_addr_space_end :: "stage \<Rightarrow> stage \<Rightarrow> u32 \<Rightarrow> usize" where
  "mm_ptable_addr_space_end S1 S2 flags =
     (if flags_contains (flags AND 7) FLAG_STAGE1 then ptable_addr_space_end S1
      else ptable_addr_space_end S2)"

definition mm_ptable_init :: "stage \<Rightarrow> u32 \<Rightarrow> ptable \<Rightarrow> menv \<Rightarrow> bool res \<times> ptable \<times> menv" where
  "mm_ptable_init S flags t env =
     (if \<not> flags_contains (flags AND 7) FLAG_STAGE1 then (Panic, t, env) else mm_vm_init S t env)"

definition mm_vm_defrag ::
  "stage \<Rightarrow> ((u64 res \<Rightarrow> u64 res \<Rightarrow> u64 res) \<Rightarrow> u64 res list \<Rightarrow> u64 res option) \<Rightarrow> ptable \<Rightarrow> menv \<Rightarrow> ptable \<times> menv" where
  "mm_vm_defrag S red t env = PageTable_defrag S red t env"

definition mm_defrag ::
  "stage \<Rightarrow> ((u64 res \<Rightarrow> u64 res \<Rightarrow> u64 res) \<Rightarrow> u64 res list \<Rightarrow> u64 res option) \<Rightarrow> ptable \<Rightarrow> menv \<Rightarrow> ptable \<times> menv" where
  "mm_defrag S red t env = PageTable_defrag S red t env"

text \<open>The address that \<open>MemoryManager::cpu_init\<close> passes to \<open>arch_mm_enable\<close>.\<close>

definition get_raw_ptable :: "memory_manager \<Rightarrow> paddr_t" where
  "get_raw_ptable mm = PageTable_as_raw (hypervisor_ptable mm)"

text \<open>\<open>mm_identity_map\<close> and \<open>mm_identity_map_nolock\<close> differ in the lock they hold; null is 0.\<close>

definition mm_identity_map ::
  "stage \<Rightarrow> ptable \<Rightarrow> paddr_t \<Rightarrow> paddr_t \<Rightarrow> mode \<Rightarrow> menv \<Rightarrow> usize res \<times> ptable \<times> menv" where
  "mm_identity_map S t begin e mode env =
     (case identity_map S begin e mode t env of
        (Ok _, t, env) \<Rightarrow> (Ok (pa_addr begin), t, env)
      | (Err _, t, env) \<Rightarrow> (Ok 0, t, env)
      | (Panic, t, env) \<Rightarrow> (Panic, t, env))"

definition mm_identity_map_nolock ::
  "stage \<Rightarrow> ptable \<Rightarrow> paddr_t \<Rightarrow> paddr_t \<Rightarrow> mode \<Rightarrow> menv \<Rightarrow> usize res \<times> ptable \<times> menv" where
  "mm_identity_map_nolock S t begin e mode env =
     (case identity_map S begin e mode t env of
        (Ok _, t, env) \<Rightarrow> (Ok (pa_addr begin), t, env)
      | (Err _, t, env) \<Rightarrow> (Ok 0, t, env)
      | (Panic, t, env) \<Rightarrow> (Panic, t, env))"

end
