(* ===== verification/Page_Table_Correct.thy ===== *)
theory Page_Table_Correct
  imports Page_Table
begin

text \<open>
  Correctness of the page table operations of theory Page\_Table, for every stage that satisfies
  the laws of locale \<open>mm_stage\<close>.

  The specification side is: well-formed tables (\<open>wf_pte\<close>, \<open>wf_table\<close>: every entry is absent, an
  identity block or an owned table), the attributes that a table walk finds for an address
  (\<open>lookup\<close>), of which only those of a present block are observable (\<open>visible\<close>), and the pages
  that a tree of tables occupies (\<open>pte_pages\<close>).
\<close>

section \<open>Well-formed tables\<close>

inductive wf_pte :: "stage \<Rightarrow> nat \<Rightarrow> usize \<Rightarrow> pte \<Rightarrow> bool" for S where
  wf_absent: "wf_pte S l b (PTE (absent_pte S l) [])"
| wf_block: "is_block_allowed S l \<Longrightarrow> frame_at l b \<Longrightarrow> attrs_ok S at \<Longrightarrow>
    wf_pte S l b (PTE (block_pte S l (pa_init b) at) [])"
| wf_sub: "frame_at 0 page \<Longrightarrow> length ts = 512 \<Longrightarrow>
    (\<And>i. i < 512 \<Longrightarrow> wf_pte S l (b + word_of_nat i * entry_size l) (ts ! i)) \<Longrightarrow>
    wf_pte S (Suc l) b (PTE (table_pte S (Suc l) (pa_init page)) ts)"

definition wf_table :: "stage \<Rightarrow> nat \<Rightarrow> usize \<Rightarrow> table \<Rightarrow> bool" where
  "wf_table S l b ts \<longleftrightarrow>
     length ts = 512 \<and> (\<forall>i < 512. wf_pte S l (b + word_of_nat i * entry_size l) (ts ! i))"

definition wf_ptable :: "stage \<Rightarrow> ptable \<Rightarrow> bool" where
  "wf_ptable S t \<longleftrightarrow>
     chunk_ok (pa_addr (root t), word_of_nat (root_table_count S)) \<and>
     length (tables t) = root_table_count S \<and>
     (\<forall>i < root_table_count S.
        wf_table S (max_level S) (word_of_nat i * entry_size (max_level S + 1)) (tables t ! i))"

section \<open>What a walk finds\<close>

primrec lookup :: "stage \<Rightarrow> nat \<Rightarrow> pte \<Rightarrow> nat \<Rightarrow> u64" where
  "lookup S 0 p x = attrs S p 0"
| "lookup S (Suc l) p x =
     (if is_table S p (Suc l) then lookup S l (sub p ! (x div esize l mod 512)) x
      else attrs S p (Suc l))"

definition visible :: "stage \<Rightarrow> u64 \<Rightarrow> u64 option" where
  "visible S at = (if attrs_present S at then Some at else None)"

definition lookup_table :: "stage \<Rightarrow> nat \<Rightarrow> table \<Rightarrow> nat \<Rightarrow> u64" where
  "lookup_table S l ts x = lookup S l (ts ! (x div esize l mod 512)) x"

definition lookup_ptable :: "stage \<Rightarrow> ptable \<Rightarrow> nat \<Rightarrow> u64" where
  "lookup_ptable S t x = lookup_table S (max_level S) (tables t ! (x div esize (max_level S + 1))) x"

text \<open>Two entries at address \<open>b\<close> look the same to whoever walks them.\<close>

definition same_view :: "stage \<Rightarrow> nat \<Rightarrow> usize \<Rightarrow> pte \<Rightarrow> pte \<Rightarrow> bool" where
  "same_view S l b p p' \<longleftrightarrow>
     (\<forall>x. unat b \<le> x \<and> x < unat b + esize l \<longrightarrow> visible S (lookup S l p' x) = visible S (lookup S l p x))"

section \<open>The pages of a tree\<close>

fun pte_pages :: "stage \<Rightarrow> nat \<Rightarrow> pte \<Rightarrow> usize multiset" where
  "pte_pages S l (PTE w ts) =
     (if pte_is_table S w l
      then add_mset (pa_addr (table_from_pte S w l)) (\<Sum>p \<leftarrow> ts. pte_pages S (l - 1) p)
      else {#})"

definition table_pages :: "stage \<Rightarrow> nat \<Rightarrow> table \<Rightarrow> usize multiset" where
  "table_pages S l ts = (\<Sum>p \<leftarrow> ts. pte_pages S l p)"

definition ptable_pages :: "stage \<Rightarrow> ptable \<Rightarrow> usize multiset" where
  "ptable_pages S t =
     mset (chunk_pages (pa_addr (root t)) (root_table_count S))
     + (\<Sum>ts \<leftarrow> tables t. table_pages S (max_level S) ts)"

text \<open>The pool is well formed and holds only pages that a table entry can name.\<close>

definition env_ok :: "menv \<Rightarrow> bool" where
  "env_ok env \<longleftrightarrow> mpool_ok (mpool env) \<and> (\<forall>page \<in># mpool_pages (mpool env). frame_at 0 page)"

definition env_pages :: "menv \<Rightarrow> usize multiset" where
  "env_pages env = mpool_pages (mpool env)"

section \<open>Break before make\<close>

text \<open>
  An event is safe when it does not change a valid entry into another valid entry: a valid
  entry is first made invalid.
\<close>

fun bbm_safe :: "stage \<Rightarrow> event \<Rightarrow> bool" where
  "bbm_safe S (PteWrite a l old new) \<longleftrightarrow> \<not> (pte_is_valid S old l \<and> pte_is_valid S new l)"
| "bbm_safe S (PteDefrag l old new) \<longleftrightarrow> \<not> (pte_is_valid S old l \<and> pte_is_valid S new l)"
| "bbm_safe S (Tlbi b e) \<longleftrightarrow> True"

text \<open>How an operation may change the environment: the trace grows by events that satisfy \<open>P\<close>.\<close>

definition env_grows :: "(event \<Rightarrow> bool) \<Rightarrow> menv \<Rightarrow> menv \<Rightarrow> bool" where
  "env_grows P env env' \<longleftrightarrow>
     stage2_invalidate env' = stage2_invalidate env \<and>
     (\<exists>evs. trace env' = trace env @ evs \<and> list_all P evs)"

lemma env_grows_refl [simp]: "env_grows P env env"
  by (simp add: env_grows_def)

lemma env_grows_trans: "env_grows P a b \<Longrightarrow> env_grows P b c \<Longrightarrow> env_grows P a c"
  by (auto simp: env_grows_def)

lemma env_grows_mpool [simp]: "env_grows P env (env'\<lparr>mpool := mp\<rparr>) = env_grows P env env'"
  by (simp add: env_grows_def)

lemma env_grows_emit [simp]: "P ev \<Longrightarrow> env_grows P env env' \<Longrightarrow> env_grows P env (emit ev env')"
  by (auto simp: env_grows_def emit_def)

lemma env_grows_tlb [simp]: "env_grows (bbm_safe S) env env' \<Longrightarrow> env_grows (bbm_safe S) env (invalidate_tlb S b e env')"
  by (simp add: invalidate_tlb_def)

lemma mpool_emit [simp]: "mpool (emit ev env) = mpool env"
  by (simp add: emit_def)

lemma mpool_tlb [simp]: "mpool (invalidate_tlb S b e env) = mpool env"
  by (simp add: invalidate_tlb_def)

section \<open>Specification of an update pass\<close>

text \<open>
  An update pass works on the address range from \<open>b\<close> to \<open>e\<close> inside an object (an entry, a table)
  that covers \<open>lo\<close> to \<open>hi\<close>. Outside the range, and everywhere when the pass does not commit,
  nothing observable changes; a successful commit leaves the requested attributes (or nothing
  present, when unmapping) in the range.
\<close>

definition hit :: "stage \<Rightarrow> bool \<Rightarrow> u64 \<Rightarrow> u64 \<Rightarrow> bool" where
  "hit S unmap at a \<longleftrightarrow> (if unmap then \<not> attrs_present S a else a = at)"

definition view_step ::
  "stage \<Rightarrow> bool \<Rightarrow> bool \<Rightarrow> u64 \<Rightarrow> nat \<Rightarrow> nat \<Rightarrow> unit res \<Rightarrow> nat \<Rightarrow> nat \<Rightarrow> (nat \<Rightarrow> u64) \<Rightarrow> (nat \<Rightarrow> u64) \<Rightarrow> bool" where
  "view_step S commit unmap at b e r lo hi v v' \<longleftrightarrow>
     (\<forall>x. lo \<le> x \<and> x < hi \<longrightarrow>
        (\<not> (commit \<and> b \<le> x \<and> x < e) \<longrightarrow> visible S (v' x) = visible S (v x)) \<and>
        (commit \<and> r = Ok () \<and> b \<le> x \<and> x < e \<longrightarrow> hit S unmap at (v' x)))"

text \<open>
  The environment: the trace grows by events that satisfy \<open>P\<close>, and no page is duplicated (\<open>pg\<close> are the
  pages of the object). \<open>exact\<close> tells whether no page is lost either.
\<close>

definition env_step ::
  "(event \<Rightarrow> bool) \<Rightarrow> bool \<Rightarrow> menv \<Rightarrow> usize multiset \<Rightarrow> menv \<Rightarrow> usize multiset \<Rightarrow> bool" where
  "env_step P exact env pg env' pg' \<longleftrightarrow>
     env_grows P env env' \<and> env_ok env' \<and> env_pages env' + pg' \<subseteq># env_pages env + pg \<and>
     (exact \<longrightarrow> env_pages env' + pg' = env_pages env + pg)"

definition region_post ::
  "stage \<Rightarrow> bool \<Rightarrow> bool \<Rightarrow> u64 \<Rightarrow> usize \<Rightarrow> nat \<Rightarrow> (usize \<Rightarrow> 'a \<Rightarrow> bool) \<Rightarrow> ('a \<Rightarrow> nat \<Rightarrow> u64)
   \<Rightarrow> ('a \<Rightarrow> usize multiset) \<Rightarrow> (usize \<Rightarrow> 'a \<Rightarrow> bool) \<Rightarrow> usize \<Rightarrow> usize \<Rightarrow> 'a \<Rightarrow> menv
   \<Rightarrow> unit res \<Rightarrow> 'a \<Rightarrow> menv \<Rightarrow> bool" where
  "region_post S commit unmap at e L W V PG rdy base b x env r x' env' \<longleftrightarrow>
     W base x' \<and> r \<noteq> Panic \<and>
     view_step S commit unmap at (unat b) (unat e) r (unat base) (unat base + esize L) (V x) (V x') \<and>
     env_step (bbm_safe S) (unmap \<or> \<not> commit) env (PG x) env' (PG x') \<and>
     (\<not> commit \<and> r = Ok () \<longrightarrow> rdy b x') \<and> (commit \<and> rdy b x \<longrightarrow> r = Ok ())"

definition region_spec ::
  "stage \<Rightarrow> bool \<Rightarrow> bool \<Rightarrow> u64 \<Rightarrow> usize \<Rightarrow> nat \<Rightarrow> (usize \<Rightarrow> 'a \<Rightarrow> bool) \<Rightarrow> ('a \<Rightarrow> nat \<Rightarrow> u64)
   \<Rightarrow> ('a \<Rightarrow> usize multiset) \<Rightarrow> (usize \<Rightarrow> 'a \<Rightarrow> bool) \<Rightarrow> (usize \<Rightarrow> 'a \<Rightarrow> menv \<Rightarrow> unit res \<times> 'a \<times> menv) \<Rightarrow> bool" where
  "region_spec S commit unmap at e L W V PG rdy f \<longleftrightarrow>
     (\<forall>base b x env r x' env'.
        W base x \<longrightarrow> frame_at L base \<longrightarrow> unat base \<le> unat b \<longrightarrow> unat b < unat base + esize L \<longrightarrow>
        4096 dvd unat b \<longrightarrow> b < e \<longrightarrow> env_ok env \<longrightarrow> f b x env = (r, x', env') \<longrightarrow>
        region_post S commit unmap at e L W V PG rdy base b x env r x' env')"

text \<open>
  An object is ready when a pass over it needs no new table: this is what a successful pass
  without commit establishes, and what makes the second pass succeed.
\<close>

fun all_blocks :: "(usize \<Rightarrow> 'a \<Rightarrow> bool) \<Rightarrow> usize \<Rightarrow> usize \<Rightarrow> usize \<Rightarrow> 'a list \<Rightarrow> bool" where
  "all_blocks P b e block_size [] \<longleftrightarrow> True"
| "all_blocks P b e block_size (x # xs) \<longleftrightarrow>
     b \<ge> e \<or> P b x \<and> all_blocks P (start_of_next_block b block_size) e block_size xs"

definition ready_entry ::
  "stage \<Rightarrow> bool \<Rightarrow> u64 \<Rightarrow> usize \<Rightarrow> nat \<Rightarrow> (usize \<Rightarrow> table \<Rightarrow> bool) \<Rightarrow> usize \<Rightarrow> pte \<Rightarrow> bool" where
  "ready_entry S unmap at e l rdy b p \<longleftrightarrow>
     (unmap \<and> \<not> is_present S p l) \<or> (\<not> unmap \<and> is_block S p l \<and> attrs S p l = at) \<or>
     (e - b \<ge> entry_size l \<and> (unmap \<or> is_block_allowed S l) \<and> b AND (entry_size l - 1) = 0) \<or>
     (is_table S p l \<and> rdy b (sub p))"

definition ready_table ::
  "stage \<Rightarrow> bool \<Rightarrow> u64 \<Rightarrow> usize \<Rightarrow> nat \<Rightarrow> (usize \<Rightarrow> table \<Rightarrow> bool) \<Rightarrow> usize \<Rightarrow> table \<Rightarrow> bool" where
  "ready_table S unmap at e l rdy b ts \<longleftrightarrow>
     all_blocks (ready_entry S unmap at e l rdy) b (min e (level_end b l)) (entry_size l)
       (drop (unat (index b l)) ts)"

primrec ready_level :: "stage \<Rightarrow> bool \<Rightarrow> u64 \<Rightarrow> usize \<Rightarrow> nat \<Rightarrow> usize \<Rightarrow> table \<Rightarrow> bool" where
  "ready_level S unmap at e 0 = ready_table S unmap at e 0 (\<lambda>b ts. False)"
| "ready_level S unmap at e (Suc l) = ready_table S unmap at e (Suc l) (ready_level S unmap at e l)"

lemma view_step_refl [simp]: "\<not> commit \<or> e \<le> b \<Longrightarrow> view_step S commit unmap at b e r lo hi v v"
  by (auto simp: view_step_def)

lemma env_step_refl [simp]: "env_ok env \<Longrightarrow> env_step P exact env pg env pg"
  by (simp add: env_step_def)

lemma env_step_trans:
  "env_step P exact env1 pg1 env2 pg2 \<Longrightarrow> env_step P exact env2 pg2 env3 pg3 \<Longrightarrow> env_step P exact env1 pg1 env3 pg3"
  unfolding env_step_def by (auto intro: env_grows_trans subset_mset.order_trans)

lemma env_step_frame:
  "env_step P exact env1 pg1 env2 pg2 \<Longrightarrow> env_step P exact env1 (pg1 + pg) env2 (pg2 + pg)"
  unfolding env_step_def by (simp flip: add.assoc)

section \<open>Iterating over blocks\<close>

lemma block_div:
  assumes "esize L dvd unat base" "unat base \<le> unat b" "unat b < unat base + esize L"
  shows "(unat b div esize L + 1) * esize L = unat base + esize L"
proof -
  obtain q where q: "unat base = esize L * q" using assms(1) by (rule dvdE)
  have "unat b div esize L = q"
    using assms(2,3) q by (intro div_nat_eqI) (simp_all add: mult.commute)
  then show ?thesis using q by simp
qed

lemma next_block:
  assumes "frame_at L base" "L \<le> 4" "unat base \<le> unat b" "unat b < unat base + esize L"
  shows "unat (start_of_next_block b (entry_size L)) = unat base + esize L"
proof -
  have "unat base + esize L \<le> 2 ^ 48" using frame_end [OF assms(1,2)] .
  moreover have "esize L \<le> 2 ^ 48" using esize_mono [OF assms(2)] by (simp add: esize_def)
  ultimately have "unat b + esize L < 2 ^ 64" using assms(4) by simp
  then show ?thesis
    using assms block_div [of L base b] by (subst unat_start_of_next_block) (simp_all add: frame_at_def)
qed

lemma for_blocks_region:
  assumes f: "region_spec S commit unmap at e L W V PG rdy f" and L: "L \<le> 4"
    and B: "\<And>j. j < n \<Longrightarrow> unat (B j) = lo + j * esize L \<and> frame_at L (B j)"
    and c: "unat c = min (unat e) (lo + n * esize L)"
    and "k + length xs = n" "\<And>j. j < length xs \<Longrightarrow> W (B (k + j)) (xs ! j)"
    and "xs \<noteq> [] \<Longrightarrow> unat (B k) \<le> unat b \<and> unat b < unat (B k) + esize L \<and> 4096 dvd unat b"
    and "env_ok env" "for_blocks f b c (entry_size L) xs env = (r, xs', env')"
  shows "length xs' = length xs \<and> r \<noteq> Panic \<and>
    (\<forall>j < length xs. W (B (k + j)) (xs' ! j) \<and>
       view_step S commit unmap at (unat b) (unat e) r (unat (B (k + j))) (unat (B (k + j)) + esize L)
         (V (xs ! j)) (V (xs' ! j))) \<and>
    env_step (bbm_safe S) (unmap \<or> \<not> commit) env (\<Sum>x \<leftarrow> xs. PG x) env' (\<Sum>x \<leftarrow> xs'. PG x) \<and>
    (\<not> commit \<and> r = Ok () \<longrightarrow> all_blocks rdy b c (entry_size L) xs') \<and>
    (commit \<and> all_blocks rdy b c (entry_size L) xs \<longrightarrow> r = Ok ())"
  using assms(5-)
proof (induction xs arbitrary: k b env r xs' env')
  case Nil
  then show ?case by auto
next
  case (Cons x xs)
  have k: "k < n" using Cons.prems(1) by simp
  note Bk = B [OF k]
  have b: "unat (B k) \<le> unat b" "unat b < unat (B k) + esize L" "4096 dvd unat b"
    using Cons.prems(3) by simp_all
  show ?case
  proof (cases "b \<ge> c")
    case True
    have "lo + k * esize L + esize L \<le> lo + n * esize L"
      using k mult_le_mono1 [of "Suc k" n "esize L"] by simp
    then have "unat e \<le> unat b"
      using True c b Bk by (auto simp: word_le_nat_alt min_def split: if_splits)
    then show ?thesis
      using True Cons.prems by auto
  next
    case False
    then have be: "b < e"
      using c by (auto simp: word_le_nat_alt word_less_nat_alt not_le)
    obtain r1 x1 env1 where f1: "f b x env = (r1, x1, env1)" by (metis prod.exhaust)
    have W: "W (B k) x" using Cons.prems(2) [of 0] by simp
    note spec = f [unfolded region_spec_def, rule_format, OF W _ b(1,2,3) be Cons.prems(4) f1]
    then have s: "W (B k) x1" "r1 \<noteq> Panic"
      "view_step S commit unmap at (unat b) (unat e) r1 (unat (B k)) (unat (B k) + esize L) (V x) (V x1)"
      "env_step (bbm_safe S) (unmap \<or> \<not> commit) env (PG x) env1 (PG x1)"
      "\<not> commit \<and> r1 = Ok () \<longrightarrow> rdy b x1" "commit \<and> rdy b x \<longrightarrow> r1 = Ok ()"
      using Bk by (simp_all add: region_post_def)
    show ?thesis
    proof (cases r1)
      case (Ok u)
      let ?b' = "start_of_next_block b (entry_size L)"
      obtain r2 xs2 env2 where f2: "for_blocks f ?b' c (entry_size L) xs env1 = (r2, xs2, env2)"
        by (metis prod.exhaust)
      have res: "r = r2" "xs' = x1 # xs2" "env' = env2"
        using Cons.prems(5) False f1 f2 Ok by simp_all
      have b': "unat ?b' = unat (B k) + esize L"
        using next_block [of L "B k" b] Bk b L by simp
      have IH: "length xs2 = length xs \<and> r2 \<noteq> Panic \<and>
        (\<forall>j < length xs. W (B (Suc k + j)) (xs2 ! j) \<and>
           view_step S commit unmap at (unat ?b') (unat e) r2 (unat (B (Suc k + j))) (unat (B (Suc k + j)) + esize L)
             (V (xs ! j)) (V (xs2 ! j))) \<and>
        env_step (bbm_safe S) (unmap \<or> \<not> commit) env1 (\<Sum>x \<leftarrow> xs. PG x) env2 (\<Sum>x \<leftarrow> xs2. PG x) \<and>
        (\<not> commit \<and> r2 = Ok () \<longrightarrow> all_blocks rdy ?b' c (entry_size L) xs2) \<and>
        (commit \<and> all_blocks rdy ?b' c (entry_size L) xs \<longrightarrow> r2 = Ok ())"
      proof (rule Cons.IH)
        show "Suc k + length xs = n" using Cons.prems(1) by simp
        show "W (B (Suc k + j)) (xs ! j)" if "j < length xs" for j
          using Cons.prems(2) [of "Suc j"] that by simp
        show "unat (B (Suc k)) \<le> unat ?b' \<and> unat ?b' < unat (B (Suc k)) + esize L \<and> 4096 dvd unat ?b'"
          if "xs \<noteq> []"
        proof -
          have "Suc k < n" using that Cons.prems(1) by (cases xs) auto
          from B [OF this] Bk show ?thesis
            using b' page_dvd_esize [of L] by (auto simp: frame_at_def intro: dvd_trans)
        qed
        show "env_ok env1" using s(4) by (simp add: env_step_def)
      qed (rule f2)
      have view: "view_step S commit unmap at (unat b) (unat e) r2 (unat (B (k + j))) (unat (B (k + j)) + esize L)
          (V ((x # xs) ! j)) (V ((x1 # xs2) ! j))" if j: "j < length (x # xs)" for j
      proof (cases j)
        case 0
        then show ?thesis
          using s(3) Ok by (auto simp: view_step_def)
      next
        case (Suc i)
        have "k + j < n" using j Cons.prems(1) by simp
        then have "unat (B k) + esize L \<le> unat (B (k + j))"
          using B [of "k + j"] Bk Suc by simp
        then show ?thesis
          using IH j Suc b(2) b' by (auto simp: view_step_def)
      qed
      have W': "W (B (k + j)) ((x1 # xs2) ! j)" if "j < length (x # xs)" for j
        using that s(1) IH by (cases j) auto
      have "env_step (bbm_safe S) (unmap \<or> \<not> commit) env (PG x + (\<Sum>x \<leftarrow> xs. PG x)) env2 (PG x1 + (\<Sum>x \<leftarrow> xs2. PG x))"
      proof (rule env_step_trans)
        show "env_step (bbm_safe S) (unmap \<or> \<not> commit) env (PG x + (\<Sum>x \<leftarrow> xs. PG x)) env1 (PG x1 + (\<Sum>x \<leftarrow> xs. PG x))"
          by (rule env_step_frame [OF s(4)])
        show "env_step (bbm_safe S) (unmap \<or> \<not> commit) env1 (PG x1 + (\<Sum>x \<leftarrow> xs. PG x)) env2 (PG x1 + (\<Sum>x \<leftarrow> xs2. PG x))"
          using IH env_step_frame [of "bbm_safe S" "unmap \<or> \<not> commit" env1 "\<Sum>x \<leftarrow> xs. PG x" env2 "\<Sum>x \<leftarrow> xs2. PG x" "PG x1"]
          by (simp add: add.commute)
      qed
      then show ?thesis
        using view W' IH res s Ok False by auto
    next
      case (Err er)
      then have res: "r = Err er" "xs' = x1 # xs" "env' = env1"
        using Cons.prems(5) False f1 by simp_all
      have "view_step S commit unmap at (unat b) (unat e) r (unat (B (k + j))) (unat (B (k + j)) + esize L)
          (V ((x # xs) ! j)) (V ((x1 # xs) ! j))" if "j < length (x # xs)" for j
        using s(3) res(1) by (cases j) (auto simp: view_step_def)
      moreover have "W (B (k + j)) ((x1 # xs) ! j)" if "j < length (x # xs)" for j
        using Cons.prems(2) [OF that] s(1) by (cases j) auto
      ultimately show ?thesis
        using res s False Err env_step_frame [OF s(4), of "\<Sum>x \<leftarrow> xs. PG x"] by auto
    next
      case Panic
      then show ?thesis using s(2) by simp
    qed
  qed
qed

lemma whole_iff:
  assumes "b < e" "l \<le> 3"
  shows "entry_size l \<le> e - b \<longleftrightarrow> unat b + esize l \<le> unat e"
  using assms by (auto simp: word_le_nat_alt word_less_nat_alt unat_sub unat_entry_size)

lemma aligned_base:
  assumes "frame_at l base" "unat base \<le> unat b" "unat b < unat base + esize l" "esize l dvd unat b"
  shows "b = base"
proof -
  obtain q q' where q: "unat base = esize l * q" "unat b = esize l * q'"
    using assms(1,4) by (auto simp: frame_at_def elim!: dvdE)
  have "esize l * q \<le> esize l * q'" "esize l * q' < esize l * Suc q"
    using assms(2,3) q by simp_all
  then have "q' = q"
    unfolding mult_less_cancel1 mult_le_cancel1 by simp
  then show ?thesis using q by (simp add: word_unat_eq_iff)
qed

lemma unat_min: "unat (min a b) = min (unat a) (unat b)" for a b :: usize
  by (simp add: min_def word_le_nat_alt)

lemma mod_interval:
  fixes n q y :: nat
  assumes "n * q \<le> y" "y < n * q + n"
  shows "y = n * q + y mod n"
proof -
  obtain d where "y = n * q + d" "d < n"
    using assms by (metis le_Suc_ex add_less_cancel_left)
  then show ?thesis by simp
qed

lemma entry_of:
  assumes "esize (Suc l) dvd base" "base \<le> x" "x < base + esize (Suc l)"
  defines "i \<equiv> x div esize l mod 512"
  shows "base + i * esize l \<le> x" "x < base + i * esize l + esize l"
proof -
  obtain q where q: "base = esize l * (512 * q)"
    using assms(1) by (auto simp: esize_Suc elim!: dvdE)
  have x: "x div esize l * esize l \<le> x" "x < x div esize l * esize l + esize l"
    using dividend_less_div_times [of "esize l" x] by simp_all
  have "512 * q \<le> x div esize l"
    using assms(2) q by (simp add: less_eq_div_iff_mult_less_eq mult.commute)
  moreover have "x div esize l < 512 * q + 512"
    using assms(3) q by (simp add: less_mult_imp_div_less esize_Suc algebra_simps)
  ultimately have "x div esize l = 512 * q + i"
    unfolding i_def by (intro mod_interval)
  then have "x div esize l * esize l = base + i * esize l"
    using q by (simp add: algebra_simps)
  then show "base + i * esize l \<le> x" "x < base + i * esize l + esize l"
    using x by simp_all
qed

lemma level_end_base:
  assumes "frame_at (Suc l) base" "l \<le> 3" "unat base \<le> unat b" "unat b < unat base + esize (Suc l)"
  shows "unat (level_end b l) = unat base + esize (Suc l)"
proof -
  have "unat base + esize (Suc l) \<le> 2 ^ 48"
    using frame_end [OF assms(1)] assms(2) by simp
  then show ?thesis
    using block_div [OF _ assms(3,4)] assms(1) by (subst unat_level_end) (simp_all add: frame_at_def)
qed

text \<open>The whole table, of which the loop visits the entries from index \<open>k\<close> on.\<close>

lemma for_blocks_table:
  assumes f: "region_spec S commit unmap at e L W V PG rdy f" and L: "L \<le> 4"
    and B: "\<And>j. j < n \<Longrightarrow> unat (B j) = lo + j * esize L \<and> frame_at L (B j)"
    and c: "unat c = min (unat e) (lo + n * esize L)"
    and len: "length ts = n" and W: "\<And>j. j < n \<Longrightarrow> W (B j) (ts ! j)" and k: "k < n"
    and b: "unat (B k) \<le> unat b \<and> unat b < unat (B k) + esize L \<and> 4096 dvd unat b"
    and ok: "env_ok env" and res: "for_blocks f b c (entry_size L) (drop k ts) env = (r, xs', env')"
    and ts': "ts' = take k ts @ xs'"
  shows "length ts' = n \<and> r \<noteq> Panic \<and>
    (\<forall>j < n. W (B j) (ts' ! j) \<and>
       view_step S commit unmap at (unat b) (unat e) r (unat (B j)) (unat (B j) + esize L) (V (ts ! j)) (V (ts' ! j))) \<and>
    env_step (bbm_safe S) (unmap \<or> \<not> commit) env (\<Sum>x \<leftarrow> ts. PG x) env' (\<Sum>x \<leftarrow> ts'. PG x) \<and>
    (\<not> commit \<and> r = Ok () \<longrightarrow> all_blocks rdy b c (entry_size L) (drop k ts')) \<and>
    (commit \<and> all_blocks rdy b c (entry_size L) (drop k ts) \<longrightarrow> r = Ok ())"
proof -
  have W': "W (B (k + j)) (drop k ts ! j)" if "j < length (drop k ts)" for j
    using that W [of "k + j"] len by simp
  have post: "length xs' = n - k \<and> r \<noteq> Panic \<and>
    (\<forall>j < n - k. W (B (k + j)) (xs' ! j) \<and>
       view_step S commit unmap at (unat b) (unat e) r (unat (B (k + j))) (unat (B (k + j)) + esize L)
         (V (ts ! (k + j))) (V (xs' ! j))) \<and>
    env_step (bbm_safe S) (unmap \<or> \<not> commit) env (\<Sum>x \<leftarrow> drop k ts. PG x) env' (\<Sum>x \<leftarrow> xs'. PG x) \<and>
    (\<not> commit \<and> r = Ok () \<longrightarrow> all_blocks rdy b c (entry_size L) xs') \<and>
    (commit \<and> all_blocks rdy b c (entry_size L) (drop k ts) \<longrightarrow> r = Ok ())"
    using for_blocks_region [OF f L B c _ W' b ok res] len k by simp
  have nth: "ts' ! j = (if j < k then ts ! j else xs' ! (j - k))" if "j < n" for j
    using that len k by (simp add: ts' nth_append min_def)
  have "W (B j) (ts' ! j) \<and>
      view_step S commit unmap at (unat b) (unat e) r (unat (B j)) (unat (B j) + esize L) (V (ts ! j)) (V (ts' ! j))"
    if j: "j < n" for j
  proof (cases "j < k")
    case True
    have "Suc j * esize L \<le> k * esize L"
      using True by (intro mult_le_mono1) simp
    then have "unat (B j) + esize L \<le> unat b"
      using B [OF j] B [OF k] b by simp
    then show ?thesis
      using True nth [OF j] W [OF j] by (auto simp: view_step_def)
  next
    case False
    then show ?thesis
      using post nth [OF j] j by (auto dest!: spec [of _ "j - k"])
  qed
  moreover have "(\<Sum>x \<leftarrow> ts. PG x) = (\<Sum>x \<leftarrow> drop k ts. PG x) + (\<Sum>x \<leftarrow> take k ts. PG x)"
    by (metis append_take_drop_id map_append sum_list_append add.commute)
  then have "env_step (bbm_safe S) (unmap \<or> \<not> commit) env (\<Sum>x \<leftarrow> ts. PG x) env' (\<Sum>x \<leftarrow> ts'. PG x)"
    using env_step_frame [of "bbm_safe S" "unmap \<or> \<not> commit" env "\<Sum>x \<leftarrow> drop k ts. PG x" env' "\<Sum>x \<leftarrow> xs'. PG x"
        "\<Sum>x \<leftarrow> take k ts. PG x"] post by (simp add: ts' add.commute)
  ultimately show ?thesis
    using post len k by (simp add: ts')
qed

lemma flags_commit [simp]: "flags_contains (flags OR FLAG_COMMIT) FLAG_COMMIT"
  unfolding flags_contains_def by (rule bit_word_eqI) (auto simp: bit_simps)

lemma env_step_frame_left:
  "env_step P exact env1 pg1 env2 pg2 \<Longrightarrow> env_step P exact env1 (pg + pg1) env2 (pg + pg2)"
  using env_step_frame [of P exact env1 pg1 env2 pg2 pg] by (simp only: add.commute)

lemma flags_commit_unmap [simp]: "flags_contains (flags OR FLAG_COMMIT) FLAG_UNMAP = flags_contains flags FLAG_UNMAP"
proof -
  have "(flags OR FLAG_COMMIT) AND FLAG_UNMAP = flags AND FLAG_UNMAP"
    by (simp add: FLAG_COMMIT_def FLAG_UNMAP_def bit.conj_disj_distrib2)
  then show ?thesis by (simp add: flags_contains_def)
qed

definition ready_root :: "stage \<Rightarrow> bool \<Rightarrow> u64 \<Rightarrow> usize \<Rightarrow> usize \<Rightarrow> ptable \<Rightarrow> bool" where
  "ready_root S unmap at e b t \<longleftrightarrow>
     all_blocks (ready_level S unmap at e (max_level S)) b e (entry_size (max_level S + 1))
       (drop (unat (index b (max_level S + 1))) (tables t))"

definition space :: "stage \<Rightarrow> nat" where
  "space S = root_table_count S * esize (max_level S + 1)"

context mm_stage
begin

section \<open>Entries\<close>

lemma wf_level0_not_table: "wf_pte S 0 b p \<Longrightarrow> \<not> is_table S p 0"
  by (erule wf_pte.cases) (auto simp: is_table_def block_not_table)

lemma wf_cases:
  assumes "wf_pte S l b p" "l \<le> 3"
  obtains (absent) "p = pte_absent S l" "\<not> is_table S p l" "\<not> is_block S p l" "\<not> is_present S p l" "\<not> is_valid S p l"
      "\<not> attrs_present S (attrs S p l)"
  | (block) at where "p = pte_block S l (pa_init b) at" "is_block_allowed S l" "frame_at l b" "attrs_ok S at"
      "\<not> is_table S p l" "attrs S p l = at" "is_present S p l = attrs_present S at"
      "attrs_present S at \<Longrightarrow> is_block S p l" "is_valid S p l = attrs_valid S at"
  | (table) l' page ts where "l = Suc l'" "p = pte_table S l page ts" "frame_at 0 page" "wf_table S l' b ts"
      "is_table S p l" "\<not> is_block S p l" "is_present S p l" "is_valid S p l"
      "pa_addr (table_from_pte S (inner p) l) = page"
  using assms
proof cases
  case wf_absent
  then show thesis
    using absent assms(2)
    by (simp add: pte_absent_def is_table_def is_block_def is_present_def is_valid_def attrs_def absent_attrs)
next
  case (wf_block at)
  then show thesis
    using block assms(2)
    by (simp add: pte_block_def is_table_def is_block_def is_present_def is_valid_def attrs_def
        block_not_table block_attrs block_is_present block_is_block block_is_valid)
next
  case (wf_sub page ts l')
  then show thesis
    using table assms(2)
    by (simp add: pte_table_def is_table_def is_block_def is_present_def is_valid_def wf_table_def
        table_is_table table_not_block table_is_present table_is_valid table_from_table)
qed

lemma wf_pte_absent: "wf_pte S l b (pte_absent S l)"
  by (simp add: pte_absent_def wf_absent)

lemma wf_pte_block:
  "is_block_allowed S l \<Longrightarrow> frame_at l b \<Longrightarrow> attrs_ok S at \<Longrightarrow> wf_pte S l b (pte_block S l (pa_init b) at)"
  by (simp add: pte_block_def wf_block)

lemma wf_pte_table:
  "frame_at 0 page \<Longrightarrow> wf_table S l b ts \<Longrightarrow> wf_pte S (Suc l) b (pte_table S (Suc l) page ts)"
  by (simp add: pte_table_def wf_table_def wf_sub)

lemma is_table_pte_table:
  "0 < l \<Longrightarrow> l \<le> 3 \<Longrightarrow> frame_at 0 page \<Longrightarrow> is_table S (pte_table S l page ts) l"
  by (simp add: pte_table_def is_table_def table_is_table)

lemma lookup_not_table: "\<not> is_table S p l \<Longrightarrow> lookup S l p x = attrs S p l"
  by (cases l) simp_all

lemma lookup_pte_table:
  "l < 3 \<Longrightarrow> frame_at 0 page \<Longrightarrow> lookup S (Suc l) (pte_table S (Suc l) page ts) x = lookup_table S l ts x"
  by (simp add: is_table_pte_table lookup_table_def) (simp add: pte_table_def)

lemma pages_not_table: "\<not> is_table S p l \<Longrightarrow> pte_pages S l p = {#}"
  by (cases p) (simp add: is_table_def)

lemma pages_pte_table:
  "l < 3 \<Longrightarrow> frame_at 0 page \<Longrightarrow>
   pte_pages S (Suc l) (pte_table S (Suc l) page ts) = add_mset page (table_pages S l ts)"
  by (simp add: pte_table_def table_pages_def table_is_table table_from_table)

section \<open>Dropping\<close>

lemma drop_conserves:
  assumes "wf_pte S l b p" "l \<le> 3"
  shows "mpool_pages (pte_drop S l p mp) = pte_pages S l p + mpool_pages mp
    \<and> mpool_ok (pte_drop S l p mp) = mpool_ok mp"
  using assms
proof (induction arbitrary: mp rule: wf_pte.induct)
  case (wf_sub page ts l b)
  have "mpool_pages (fold (pte_drop S l) us mp) = (\<Sum>p \<leftarrow> us. pte_pages S l p) + mpool_pages mp
      \<and> mpool_ok (fold (pte_drop S l) us mp) = mpool_ok mp" if "set us \<subseteq> set ts" for us mp
    using that
  proof (induction us arbitrary: mp)
    case (Cons u us)
    then obtain i where "i < 512" "u = ts ! i"
      using wf_sub(2) by (auto simp: in_set_conv_nth)
    then show ?case
      using Cons wf_sub(4) [of i] wf_sub(5) by simp
  qed simp
  from this [of ts mp] show ?case
    using wf_sub by simp
qed (simp_all add: block_not_table)

section \<open>Replacing and populating entries\<close>

lemma pages_frames:
  assumes "wf_pte S l b p" "l \<le> 3" "page \<in># pte_pages S l p"
  shows "frame_at 0 page"
  using assms
proof (induction rule: wf_pte.induct)
  case (wf_sub pg ts l b)
  show ?case
  proof (cases "page = pg")
    case False
    then obtain p where "p \<in> set ts" "page \<in># pte_pages S l p"
      using wf_sub by (auto simp: table_is_table table_from_table set_mset_sum_list)
    then show ?thesis
      using wf_sub(2,4,5) by (auto simp: in_set_conv_nth)
  qed (use wf_sub in simp)
qed (simp_all add: block_not_table)

lemma drop_in_env:
  assumes "wf_pte S l b p" "l \<le> 3" "env_ok env"
  shows "env_ok (drop_in S l p env)" "env_pages (drop_in S l p env) = pte_pages S l p + env_pages env"
    "env_grows (bbm_safe S) env0 (drop_in S l p env) = env_grows (bbm_safe S) env0 env"
  using assms drop_conserves [OF assms(1,2)] pages_frames [OF assms(1,2)]
  by (auto simp: drop_in_def env_ok_def env_pages_def)

lemma replace_result [simp]: "fst (pte_replace S p new beg l env) = new"
  by (simp add: pte_replace_def Let_def split: prod.splits)

lemma env_ok_emit [simp]: "env_ok (emit ev env) = env_ok env"
  by (simp add: env_ok_def)

lemma env_ok_tlb [simp]: "env_ok (invalidate_tlb S b e env) = env_ok env"
  by (simp add: env_ok_def)

lemma env_pages_emit [simp]: "env_pages (emit ev env) = env_pages env"
  by (simp add: env_pages_def)

lemma env_pages_tlb [simp]: "env_pages (invalidate_tlb S b e env) = env_pages env"
  by (simp add: env_pages_def)

text \<open>
  \<open>replace\<close> gives the pages of the old entry back to the pool, except in the break-before-make
  case, where they are lost.
\<close>

lemma replace_env:
  assumes "wf_pte S l b p" "l \<le> 3" "env_ok env" "pte_replace S p new beg l env = (p', env')"
  shows "p' = new \<and> env_grows (bbm_safe S) env env' \<and> env_ok env' \<and>
    env_pages env' = env_pages env + (if is_valid S p l \<and> is_valid S new l then {#} else pte_pages S l p)"
proof (cases "is_valid S p l \<and> is_valid S new l")
  case True
  have "env_ok (drop_in S l (pte_absent S l) e)" "env_pages (drop_in S l (pte_absent S l) e) = env_pages e"
    "env_grows (bbm_safe S) env0 (drop_in S l (pte_absent S l) e) = env_grows (bbm_safe S) env0 e" if "env_ok e" for e env0
    using drop_in_env [OF wf_pte_absent assms(2) that] assms(2)
    by (simp_all add: pages_not_table is_table_def pte_absent_def)
  then show ?thesis
    using True assms by (auto simp: pte_replace_def Let_def pte_absent_def)
next
  case False
  then show ?thesis
    using assms drop_in_env [OF assms(1,2)]
    by (auto simp: pte_replace_def Let_def is_valid_def)
qed

text \<open>
  \<open>populate_table\<close> replaces an entry by an equivalent table. It only fails when there is no page
  left, and then changes nothing.
\<close>

lemma table_pages_leaves:
  "(\<And>p. p \<in> set ts \<Longrightarrow> \<not> is_table S p l) \<Longrightarrow> table_pages S l ts = {#}"
  by (induction ts) (simp_all add: table_pages_def pages_not_table)

lemma split_entries:
  assumes "is_block_allowed S (Suc l)" "frame_at (Suc l) b" "attrs_ok S at" "l < 3"
  shows "map (\<lambda>i. pte_block S l (pa_init (block_pte S (Suc l) (pa_init b) at + word_of_nat i * entry_size l)) at) [0..<512]
    = map (\<lambda>i. pte_block S l (pa_init (b + word_of_nat i * entry_size l)) at) [0..<512]"
  using assms by (auto simp: pte_block_def block_split)

lemma block_entries:
  assumes "is_block_allowed S (Suc l)" "frame_at (Suc l) b" "attrs_ok S at" "l < 3"
  defines "ts \<equiv> map (\<lambda>i. pte_block S l (pa_init (b + word_of_nat i * entry_size l)) at) [0..<512]"
  shows "wf_table S l b ts" "table_pages S l ts = {#}" "lookup_table S l ts x = at"
proof -
  have a: "is_block_allowed S l"
    using assms(1) by (rule block_allowed_down)
  have f: "frame_at l (b + word_of_nat i * entry_size l)" if "i < 512" for i
    using frame_child(2) [OF assms(2) that] assms(4) by simp
  show wf: "wf_table S l b ts"
    using a f assms(3) by (simp add: wf_table_def ts_def wf_pte_block)
  have nt: "\<not> is_table S (ts ! i) l" and at: "attrs S (ts ! i) l = at" if "i < 512" for i
    using a f [OF that] assms(3,4) that
    by (simp_all add: ts_def is_table_def attrs_def pte_block_def block_not_table block_attrs)
  show "table_pages S l ts = {#}"
    using nt wf by (intro table_pages_leaves) (auto simp: wf_table_def in_set_conv_nth)
  show "lookup_table S l ts x = at"
    using nt at by (simp add: lookup_table_def lookup_not_table)
qed

lemma absent_entries:
  assumes "l \<le> 3"
  defines "ts \<equiv> replicate 512 (pte_absent S l)"
  shows "wf_table S l b ts" "table_pages S l ts = {#}" "\<not> attrs_present S (lookup_table S l ts x)"
proof -
  show "wf_table S l b ts"
    by (simp add: wf_table_def ts_def wf_pte_absent)
  have nt: "\<not> is_table S (pte_absent S l) l"
    using assms(1) by (simp add: is_table_def pte_absent_def)
  then show "table_pages S l ts = {#}"
    by (intro table_pages_leaves) (simp add: ts_def)
  show "\<not> attrs_present S (lookup_table S l ts x)"
    using assms(1) nt by (simp add: lookup_table_def ts_def lookup_not_table attrs_def pte_absent_def absent_attrs)
qed

lemma populate_entries:
  assumes "wf_pte S (Suc l) b p" "l < 3" "frame_at (Suc l) b" "\<not> is_table S p (Suc l)"
  defines "ts \<equiv> (if is_block S p (Suc l)
     then map (\<lambda>i. pte_block S l (pa_init (inner p + word_of_nat i * entry_size l)) (attrs S p (Suc l))) [0..<512]
     else replicate 512 (pte_absent S l))"
  shows "wf_table S l b ts \<and> table_pages S l ts = {#}
    \<and> (\<forall>x. visible S (lookup_table S l ts x) = visible S (attrs S p (Suc l)))"
proof -
  have "Suc l \<le> 3" using assms(2) by simp
  with assms(1) show ?thesis
  proof (cases rule: wf_cases)
    case absent
    then show ?thesis
      using absent_entries [of l] assms(2) by (simp add: ts_def visible_def)
  next
    case (block at)
    show ?thesis
    proof (cases "is_block S p (Suc l)")
      case True
      then have "ts = map (\<lambda>i. pte_block S l (pa_init (b + word_of_nat i * entry_size l)) at) [0..<512]"
        using split_entries [OF block(2-4) assms(2)] block(1,6) by (simp add: ts_def pte_block_def)
      then show ?thesis
        using block_entries [OF block(2-4) assms(2)] block(6) by simp
    next
      case False
      then show ?thesis
        using absent_entries [of l] assms(2) block by (auto simp: ts_def visible_def)
    qed
  next
    case table
    then show ?thesis using assms(4) by simp
  qed
qed

lemma populate_table_spec:
  assumes wf: "wf_pte S (Suc l) b p" and l: "l < 3" and fr: "frame_at (Suc l) b" and ok: "env_ok env"
    and r: "populate_table S p beg (Suc l) env = (r, p', env')"
  shows "env_grows (bbm_safe S) env env' \<and> env_ok env' \<and>
    env_pages env' + pte_pages S (Suc l) p' = env_pages env + pte_pages S (Suc l) p \<and>
    (r = Ok () \<and> is_table S p' (Suc l) \<and> wf_pte S (Suc l) b p' \<and> same_view S (Suc l) b p p'
     \<or> r = Err () \<and> p' = p \<and> \<not> is_table S p (Suc l) \<and> env_pages env = {#})"
proof (cases "is_table S p (Suc l)")
  case True
  then show ?thesis
    using assms by (simp add: populate_table_def same_view_def)
next
  case False
  note np = pages_not_table [OF False]
  have mok: "mpool_ok (mpool env)"
    using ok by (simp add: env_ok_def)
  obtain a mp where al: "MPool_alloc (mpool env) = (a, mp)" by fastforce
  show ?thesis
  proof (cases a)
    case (Ok page)
    have mp: "mpool_ok mp" "mpool_pages (mpool env) = add_mset page (mpool_pages mp)"
      using MPool_alloc_conserves [OF mok] al Ok by simp_all
    then have fp: "frame_at 0 page" and ok1: "env_ok (env\<lparr>mpool := mp\<rparr>)"
      using ok by (simp_all add: env_ok_def)
    define ts where "ts = (if is_block S p (Suc l)
     then map (\<lambda>i. pte_block S l (pa_init (inner p + word_of_nat i * entry_size l)) (attrs S p (Suc l))) [0..<512]
     else replicate 512 (pte_absent S l))"
    have ts: "wf_table S l b ts" "table_pages S l ts = {#}"
      "visible S (lookup_table S l ts x) = visible S (attrs S p (Suc l))" for x
      using populate_entries [OF wf l fr False] by (simp_all add: ts_def)
    have e: "r = Ok ()" "pte_replace S p (pte_table S (Suc l) page ts) beg (Suc l) (env\<lparr>mpool := mp\<rparr>) = (p', env')"
      using r False al Ok
      by (auto simp: populate_table_def Let_def PTE_PER_PAGE_eq ts_def split: prod.splits)
    note rep = replace_env [OF wf _ ok1 e(2)]
    have p': "p' = pte_table S (Suc l) page ts" "env_grows (bbm_safe S) env env'" "env_ok env'" "env_pages env' = mpool_pages mp"
      using rep l np by (auto simp: env_pages_def split: if_splits)
         (simp_all add: env_grows_def)
    show ?thesis
      using e(1) p' l fp mp ts False
      by (auto simp: np is_table_pte_table wf_pte_table same_view_def lookup_not_table pages_pte_table env_pages_def
          lookup_pte_table simp del: lookup.simps)
  next
    case (Err x)
    then show ?thesis
      using MPool_alloc_conserves [OF mok] al r False ok by (simp add: populate_table_def env_pages_def)
  next
    case Panic
    then show ?thesis
      using MPool_alloc_conserves [OF mok] al by simp
  qed
qed

section \<open>One entry of an update pass\<close>

lemma not_present_lookup:
  assumes "wf_pte S l b p" "l \<le> 3" "\<not> is_present S p l"
  shows "\<not> is_table S p l" "\<not> attrs_present S (attrs S p l)"
  using assms by (cases rule: wf_cases; auto)+

lemma empty_lookup:
  assumes "wf_table S l b ts" "l \<le> 3" "is_empty S ts l"
  shows "\<not> attrs_present S (lookup_table S l ts x)"
proof -
  let ?i = "x div esize l mod 512"
  have "wf_pte S l (b + word_of_nat ?i * entry_size l) (ts ! ?i)" "\<not> is_present S (ts ! ?i) l"
    using assms by (auto simp: wf_table_def is_empty_def list_all_length)
  then show ?thesis
    using not_present_lookup assms(2) by (auto simp: lookup_table_def lookup_not_table)
qed


lemma map_entry_whole:
  assumes wf: "wf_pte S l b p" and fr: "frame_at l b" and l: "l \<le> 3" and ok: "env_ok env" and at: "attrs_ok S at"
    and we: "unat b + esize l \<le> unat e" and allowed: "unmap \<or> is_block_allowed S l"
    and rp: "pte_replace S p (if unmap then pte_absent S l else pte_block S l (pa_init b) at) b l env = (p', env')"
  shows "wf_pte S l b p' \<and>
    view_step S True unmap at (unat b) (unat e) (Ok ()) (unat b) (unat b + esize l) (lookup S l p) (lookup S l p') \<and>
    env_step (bbm_safe S) unmap env (pte_pages S l p) env' (pte_pages S l p')"
proof (cases unmap)
  case True
  have "\<not> is_table S (pte_absent S l) l" "\<not> is_valid S (pte_absent S l) l"
    "\<not> attrs_present S (attrs S (pte_absent S l) l)"
    using l by (simp_all add: is_table_def is_valid_def attrs_def pte_absent_def absent_attrs)
  then show ?thesis
    using replace_env [OF wf l ok rp] True we wf_pte_absent
    by (auto simp: view_step_def hit_def lookup_not_table pages_not_table env_step_def)
next
  case False
  let ?new = "pte_block S l (pa_init b) at"
  have "\<not> is_table S ?new l" "attrs S ?new l = at"
    using l fr at allowed False by (simp_all add: is_table_def attrs_def pte_block_def block_not_table block_attrs)
  then show ?thesis
    using replace_env [OF wf l ok rp] False we allowed fr at wf_pte_block
    by (auto simp: view_step_def hit_def lookup_not_table pages_not_table env_step_def)
qed


lemma map_entry_recurse:
  assumes rec: "region_spec S commit unmap at e (Suc l) (wf_table S l) (lookup_table S l) (table_pages S l) rdy rec"
    and l: "l < 3" and wf: "wf_pte S (Suc l) base p1" and tab: "is_table S p1 (Suc l)"
    and fr: "frame_at (Suc l) base" and b: "unat base \<le> unat b" "unat b < unat base + esize (Suc l)"
    and al: "4096 dvd unat b" and be: "b < e" and ok: "env_ok env1"
    and r2: "rec b (sub p1) env1 = (r2, ts', env2)"
  shows "region_post S commit unmap at e (Suc l) (wf_pte S (Suc l)) (lookup S (Suc l)) (pte_pages S (Suc l))
     (\<lambda>b p. rdy b (sub p)) base b p1 env1 r2 (PTE (inner p1) ts') env2"
    and "wf_table S l base ts'"
proof -
  have "Suc l \<le> 3" using l by simp
  with wf obtain page ts where p1: "p1 = pte_table S (Suc l) page ts" "frame_at 0 page" "wf_table S l base ts"
    using tab by (cases rule: wf_cases) auto
  have t: "sub p1 = ts" "PTE (inner p1) us = pte_table S (Suc l) page us" for us
    by (simp_all add: p1 pte_table_def)
  have post: "region_post S commit unmap at e (Suc l) (wf_table S l) (lookup_table S l) (table_pages S l) rdy
      base b ts env1 r2 ts' env2"
    using rec [unfolded region_spec_def, rule_format, OF p1(3) fr b al be ok] r2 t by simp
  then show "wf_table S l base ts'"
    by (simp add: region_post_def)
  have env: "env_step (bbm_safe S) x env1 (add_mset page A) env2 (add_mset page A')" if "env_step (bbm_safe S) x env1 A env2 A'" for x A A'
    using env_step_frame [OF that, of "{#page#}"] by simp
  show "region_post S commit unmap at e (Suc l) (wf_pte S (Suc l)) (lookup S (Suc l)) (pte_pages S (Suc l))
     (\<lambda>b p. rdy b (sub p)) base b p1 env1 r2 (PTE (inner p1) ts') env2"
    unfolding t unfolding p1(1) using post p1(2) l env
    by (simp add: region_post_def wf_pte_table lookup_pte_table pages_pte_table view_step_def del: lookup.simps)
      (simp add: pte_table_def)
qed

lemma map_entry_down:
  assumes rec: "region_spec S commit unmap at e (Suc l) (wf_table S l) (lookup_table S l) (table_pages S l) rdy rec"
    and flags: "commit = flags_contains flags FLAG_COMMIT" "unmap = flags_contains flags FLAG_UNMAP"
    and l: "l < 3" and wf: "wf_pte S (Suc l) base p"
    and fr: "frame_at (Suc l) base" and b: "unat base \<le> unat b" "unat b < unat base + esize (Suc l)"
    and al: "4096 dvd unat b" and be: "b < e" and ok: "env_ok env"
    and n1: "\<not> (unmap \<and> \<not> is_present S p (Suc l))" and n2: "\<not> (\<not> unmap \<and> is_block S p (Suc l) \<and> attrs S p (Suc l) = at)"
    and n3: "\<not> (e - b \<ge> entry_size (Suc l) \<and> (unmap \<or> is_block_allowed S (Suc l)) \<and> b AND (entry_size (Suc l) - 1) = 0)"
    and res: "map_entry S rec e at (Suc l) flags b p env = (r, p', env')"
  shows "region_post S commit unmap at e (Suc l) (wf_pte S (Suc l)) (lookup S (Suc l)) (pte_pages S (Suc l))
    (ready_entry S unmap at e (Suc l) rdy) base b p env r p' env'"
proof -
  obtain r1 p1 env1 where pop: "populate_table S p b (Suc l) env = (r1, p1, env1)" by (metis prod.exhaust)
  note spec = populate_table_spec [OF wf l fr ok pop]
  have ready: "ready_entry S unmap at e (Suc l) rdy b q \<longleftrightarrow> is_table S q (Suc l) \<and> rdy b (sub q)" if "q = p" for q
    using n1 n2 n3 that unfolding ready_entry_def by blast
  have step1: "env_step (bbm_safe S) x env (pte_pages S (Suc l) p) env1 (pte_pages S (Suc l) p1)" for x
    using spec by (simp add: env_step_def)
  show ?thesis
  proof (cases r1)
    case (Err er)
    then have "r = Err er" "p' = p" "env' = env1" "\<not> is_table S p (Suc l)" "p1 = p"
      using res pop spec n1 n2 n3 by (auto simp: map_entry_def flags [symmetric])
    then show ?thesis
      using wf step1 ready by (auto simp: region_post_def view_step_def)
  next
    case Panic
    then show ?thesis using spec by simp
  next
    case (Ok u)
    then have p1: "is_table S p1 (Suc l)" "wf_pte S (Suc l) base p1" "same_view S (Suc l) base p p1" "env_ok env1"
      using spec by auto
    have rdy1: "commit \<and> ready_entry S unmap at e (Suc l) rdy b p \<longrightarrow> rdy b (sub p1)"
      using ready [of p] pop by (auto simp: populate_table_def)
    obtain r2 ts' env2 where r2: "rec b (sub p1) env1 = (r2, ts', env2)" by (metis prod.exhaust)
    note post = map_entry_recurse [OF rec l p1(2,1) fr b al be p1(4) r2]
    let ?p2 = "PTE (inner p1) ts'"
    have tab2: "is_table S ?p2 (Suc l)" using p1(1) by (simp add: is_table_def)
    have post2: "region_post S commit unmap at e (Suc l) (wf_pte S (Suc l)) (lookup S (Suc l)) (pte_pages S (Suc l))
        (ready_entry S unmap at e (Suc l) rdy) base b p env r2 ?p2 env2"
      using post(1) p1(3) rdy1 tab2 env_step_trans [OF step1]
      by (auto simp: region_post_def view_step_def same_view_def ready_entry_def simp del: lookup.simps)
    show ?thesis
    proof (cases "r2 = Ok () \<and> commit \<and> unmap \<and> is_empty S ts' l")
      case False
      have "r = r2" "p' = ?p2" "env' = env2"
        using False res pop Ok p1(1) r2 n1 n2 n3 
        by (auto simp: map_entry_def flags [symmetric] split: outcome.splits)
      then show ?thesis using post2 by simp
    next
      case True
      obtain p3 env3 where rp: "pte_replace S ?p2 (pte_absent S (Suc l)) b (Suc l) env2 = (p3, env3)" by fastforce
      have r: "r = Ok ()" "p' = p3" "env' = env3"
        using True res pop Ok p1(1) r2 n1 n2 n3 rp
        by (auto simp: map_entry_def flags [symmetric] split: outcome.splits)
      have wf2: "wf_pte S (Suc l) base ?p2" and ok2: "env_ok env2"
        using post2 by (simp_all add: region_post_def env_step_def)
      have ab: "\<not> is_table S (pte_absent S (Suc l)) (Suc l)" "\<not> is_valid S (pte_absent S (Suc l)) (Suc l)"
        "\<not> attrs_present S (attrs S (pte_absent S (Suc l)) (Suc l))"
        using l by (simp_all add: is_table_def is_valid_def attrs_def pte_absent_def absent_attrs)
      have rep: "p3 = pte_absent S (Suc l)" "env_grows (bbm_safe S) env2 env3" "env_ok env3"
        "env_pages env3 = env_pages env2 + pte_pages S (Suc l) ?p2"
        using replace_env [OF wf2 _ ok2 rp] l ab by simp_all
      have "\<not> attrs_present S (lookup S (Suc l) ?p2 x)" for x
        using empty_lookup [OF post(2)] True l tab2 by (simp add: lookup_table_def)
      then have view: "visible S (lookup S (Suc l) p3 x) = visible S (lookup S (Suc l) ?p2 x)"
        "\<not> attrs_present S (lookup S (Suc l) p3 x)" for x
        using ab rep(1) by (simp_all add: lookup_not_table visible_def del: lookup.simps)
      have "env_step (bbm_safe S) x env2 (pte_pages S (Suc l) ?p2) env3 (pte_pages S (Suc l) p3)" for x
        using rep ab by (simp add: env_step_def pages_not_table)
      then show ?thesis
        using post2 True r view wf_pte_absent rep(1)
        by (auto simp: region_post_def view_step_def hit_def simp del: lookup.simps intro: env_step_trans)
    qed
  qed
qed

lemma page_level_whole:
  assumes "4096 dvd unat b" "4096 dvd unat e" "b < e"
  shows "e - b \<ge> entry_size 0 \<and> (unmap \<or> is_block_allowed S 0) \<and> b AND (entry_size 0 - 1) = 0"
proof -
  have "unat b + 4096 \<le> unat e"
    using assms by (auto simp: word_less_nat_alt elim!: dvdE)
  then show ?thesis
    using assms whole_iff [OF assms(3), of 0] unfolding entry_aligned by (simp add: esize_0)
qed

lemma map_entry_region:
  assumes rec: "\<And>l'. l = Suc l' \<Longrightarrow>
      region_spec S commit unmap at e l (wf_table S l') (lookup_table S l') (table_pages S l') rdy rec"
    and flags: "commit = flags_contains flags FLAG_COMMIT" "unmap = flags_contains flags FLAG_UNMAP"
    and l: "l \<le> 3" and e: "4096 dvd unat e" and at: "attrs_ok S at"
  shows "region_spec S commit unmap at e l (wf_pte S l) (lookup S l) (pte_pages S l)
    (ready_entry S unmap at e l rdy) (map_entry S rec e at l flags)"
  unfolding region_spec_def
proof (intro allI impI)
  fix base b p env r p' env'
  assume wf: "wf_pte S l base p" and fr: "frame_at l base" and b: "unat base \<le> unat b" "unat b < unat base + esize l"
    and al: "4096 dvd unat b" and be: "b < e" and ok: "env_ok env"
    and res: "map_entry S rec e at l flags b p env = (r, p', env')"
  let ?whole = "e - b \<ge> entry_size l \<and> (unmap \<or> is_block_allowed S l) \<and> b AND (entry_size l - 1) = 0"
  consider (skip_unmap) "unmap" "\<not> is_present S p l"
    | (skip_map) "\<not> unmap" "is_block S p l" "attrs S p l = at"
    | (whole) "\<not> (unmap \<and> \<not> is_present S p l)" "\<not> (\<not> unmap \<and> is_block S p l \<and> attrs S p l = at)" ?whole
    | (down) "\<not> (unmap \<and> \<not> is_present S p l)" "\<not> (\<not> unmap \<and> is_block S p l \<and> attrs S p l = at)" "\<not> ?whole"
    by blast
  then show "region_post S commit unmap at e l (wf_pte S l) (lookup S l) (pte_pages S l)
    (ready_entry S unmap at e l rdy) base b p env r p' env'"
  proof cases
    case skip_unmap
    then have "r = Ok ()" "p' = p" "env' = env"
      using res by (simp_all add: map_entry_def flags)
    then show ?thesis
      using skip_unmap wf ok not_present_lookup [OF wf l]
      by (auto simp: region_post_def view_step_def hit_def lookup_not_table ready_entry_def)
  next
    case skip_map
    then have "r = Ok ()" "p' = p" "env' = env"
      using res by (simp_all add: map_entry_def flags)
    moreover have "\<not> is_table S p l"
      using wf l skip_map(2) by (cases rule: wf_cases) auto
    ultimately show ?thesis
      using skip_map wf ok
      by (auto simp: region_post_def view_step_def hit_def lookup_not_table ready_entry_def)
  next
    case whole
    then have bb: "base = b"
      using aligned_base [OF fr b] by (simp add: entry_aligned)
    have we: "unat b + esize l \<le> unat e"
      using whole(3) whole_iff [OF be l] by simp
    show ?thesis
    proof (cases commit)
      case False
      then have "r = Ok ()" "p' = p" "env' = env"
        using res whole by (auto simp: map_entry_def flags [symmetric])
      then show ?thesis
        using False wf ok whole(3) by (simp add: region_post_def ready_entry_def)
    next
      case True
      obtain p1 env1 where rp: "pte_replace S p (if unmap then pte_absent S l else pte_block S l (pa_init b) at) b l env = (p1, env1)"
        by fastforce
      then have "r = Ok ()" "p' = p1" "env' = env1"
        using res whole True by (auto simp: map_entry_def flags [symmetric] split: if_splits)
      then show ?thesis
        using map_entry_whole [OF wf [unfolded bb] fr [unfolded bb] l ok at we _ rp] whole(3) True
        by (simp add: region_post_def bb)
    qed
  next
    case down
    obtain l' where l': "l = Suc l'"
      using down(3) page_level_whole [OF al e be] by (cases l) blast+
    show ?thesis
      using map_entry_down [OF rec [OF l', unfolded l'] flags _ wf [unfolded l'] fr [unfolded l'] b [unfolded l'] al be ok
          down [unfolded l'] res [unfolded l']] l l' by simp
  qed
qed
section \<open>Whole tables\<close>

lemma map_table_region:
  assumes f: "region_spec S commit unmap at e l (wf_pte S l) (lookup S l) (pte_pages S l)
      (ready_entry S unmap at e l rdy) (map_entry S rec e at l flags)" and l: "l \<le> 3"
  shows "region_spec S commit unmap at e (Suc l) (wf_table S l) (lookup_table S l) (table_pages S l)
    (ready_table S unmap at e l rdy) (map_table S rec e at l flags)"
  unfolding region_spec_def
proof (intro allI impI)
  fix base b ts env r ts' env'
  assume wf: "wf_table S l base ts" and fr: "frame_at (Suc l) base" and b: "unat base \<le> unat b" "unat b < unat base + esize (Suc l)"
    and al: "4096 dvd unat b" and be: "b < e" and ok: "env_ok env"
    and res: "map_table S rec e at l flags b ts env = (r, ts', env')"
  define k where "k = unat b div esize l mod 512"
  define B where "B = (\<lambda>j. base + word_of_nat j * entry_size l)"
  have k: "k < 512" "unat (index b l) = k"
    by (simp_all add: k_def unat_index)
  have dvd: "esize (Suc l) dvd unat base"
    using fr by (simp add: frame_at_def)
  have B: "unat (B j) = unat base + j * esize l \<and> frame_at l (B j)" if "j < 512" for j
    unfolding B_def using frame_child [OF fr that] l by simp
  obtain xs' where xs': "for_blocks (map_entry S rec e at l flags) b (min e (level_end b l)) (entry_size l) (drop k ts) env
      = (r, xs', env')" "ts' = take k ts @ xs'"
    using res k by (auto simp: map_table_def Let_def split: prod.splits)
  have c: "unat (min e (level_end b l)) = min (unat e) (unat base + 512 * esize l)"
    using level_end_base [OF fr l b] by (simp add: unat_min esize_Suc)
  have bk: "unat (B k) \<le> unat b \<and> unat b < unat (B k) + esize l \<and> 4096 dvd unat b"
    using entry_of [OF dvd b] B [OF k(1)] al by (simp add: k_def)
  have wfB: "length ts = 512" "\<And>j. j < 512 \<Longrightarrow> wf_pte S l (B j) (ts ! j)"
    using wf by (simp_all add: wf_table_def B_def)
  note post = for_blocks_table [OF f _ B c wfB k(1) bk ok xs']
  have "view_step S commit unmap at (unat b) (unat e) r (unat base) (unat base + esize (Suc l))
      (lookup_table S l ts) (lookup_table S l ts')"
    unfolding view_step_def
  proof (intro allI impI)
    fix x assume x: "unat base \<le> x \<and> x < unat base + esize (Suc l)"
    define i where "i = x div esize l mod 512"
    have i: "i < 512" by (simp add: i_def)
    show "(\<not> (commit \<and> unat b \<le> x \<and> x < unat e) \<longrightarrow>
          visible S (lookup_table S l ts' x) = visible S (lookup_table S l ts x)) \<and>
         (commit \<and> r = Ok () \<and> unat b \<le> x \<and> x < unat e \<longrightarrow> hit S unmap at (lookup_table S l ts' x))"
      using post i x entry_of [OF dvd, of x] B [OF i] l
      by (auto simp: view_step_def lookup_table_def i_def [symmetric])
  qed
  then show "region_post S commit unmap at e (Suc l) (wf_table S l) (lookup_table S l) (table_pages S l)
      (ready_table S unmap at e l rdy) base b ts env r ts' env'"
    using post l k by (simp add: region_post_def ready_table_def wf_table_def table_pages_def B_def)
qed

lemma map_level_region:
  assumes flags: "commit = flags_contains flags FLAG_COMMIT" "unmap = flags_contains flags FLAG_UNMAP"
    and e: "4096 dvd unat e" and at: "attrs_ok S at" and l: "l \<le> 3"
  shows "region_spec S commit unmap at e (Suc l) (wf_table S l) (lookup_table S l) (table_pages S l)
    (ready_level S unmap at e l) (map_level S e at flags l)"
  using l
proof (induction l)
  case 0
  show ?case
    using map_table_region [OF map_entry_region [OF _ flags _ e at]] by simp
next
  case (Suc l)
  then show ?case
    using map_table_region [OF map_entry_region [OF _ flags _ e at, of "Suc l"]] by simp
qed

section \<open>Updates from the root\<close>

lemma space_le: "space S \<le> 2 ^ 48"
  using addr_space_le by (simp add: space_def)

lemma unat_addr_space_end: "unat (ptable_addr_space_end S) = space S"
proof -
  have "unat (word_of_nat (root_table_count S) :: usize) = root_table_count S"
    using root_count_le by (simp add: unat_of_nat)
  moreover have "unat (entry_size (max_level S + 1)) = esize (max_level S + 1)"
    using max_level_le by (simp add: unat_entry_size)
  ultimately show ?thesis
    using space_le unfolding ptable_addr_space_end_def Let_def space_def
    by (subst unat_mult_no_wrap) simp_all
qed

lemma page_dvd_space: "4096 dvd space S"
  unfolding space_def using page_dvd_esize by simp

lemma root_frames:
  assumes "j < root_table_count S"
  shows "unat (word_of_nat j * entry_size (max_level S + 1) :: usize) = j * esize (max_level S + 1)
    \<and> frame_at (max_level S + 1) (word_of_nat j * entry_size (max_level S + 1))"
proof -
  have "j * esize (max_level S + 1) < space S"
    using assms by (simp add: space_def)
  moreover have "unat (word_of_nat j * entry_size (max_level S + 1) :: usize) = j * esize (max_level S + 1)"
    using assms root_count_le max_level_le by (intro unat_offset) simp_all
  ultimately show ?thesis
    using space_le by (simp add: frame_at_def)
qed

lemma map_root_spec:
  assumes flags: "commit = flags_contains flags FLAG_COMMIT" "unmap = flags_contains flags FLAG_UNMAP"
    and wf: "wf_ptable S t" and ok: "env_ok env" and at: "attrs_ok S at"
    and b: "4096 dvd unat b" "unat b < space S" and e: "4096 dvd unat e" "unat e \<le> space S"
    and res: "map_root S b e at (max_level S + 1) flags t env = (r, t', env')"
  shows "wf_ptable S t' \<and> r \<noteq> Panic \<and> root t' = root t \<and>
    view_step S commit unmap at (unat b) (unat e) r 0 (space S) (lookup_ptable S t) (lookup_ptable S t') \<and>
    env_step (bbm_safe S) (unmap \<or> \<not> commit) env (ptable_pages S t) env' (ptable_pages S t') \<and>
    (\<not> commit \<and> r = Ok () \<longrightarrow> ready_root S unmap at e b t') \<and>
    (commit \<and> ready_root S unmap at e b t \<longrightarrow> r = Ok ())"
proof -
  define R where "R = max_level S + 1"
  define n where "n = root_table_count S"
  define k where "k = unat b div esize R"
  define B :: "nat \<Rightarrow> usize" where "B = (\<lambda>j. word_of_nat j * entry_size R)"
  have R: "R \<le> 4" "R - 1 = max_level S" using max_level_le by (simp_all add: R_def)
  have k: "k < n"
    using b(2) by (simp add: k_def n_def R_def space_def less_mult_imp_div_less)
  then have idx: "unat (index b R) = k"
    using root_count_le by (simp add: unat_index k_def n_def)
  have wfB: "length (tables t) = n" "\<And>j. j < n \<Longrightarrow> wf_table S (max_level S) (B j) (tables t ! j)"
    using wf by (simp_all add: wf_ptable_def n_def B_def R_def)
  have B: "unat (B j) = 0 + j * esize R \<and> frame_at R (B j)" if "j < n" for j
    using root_frames that by (simp add: B_def R_def n_def)
  obtain xs' where xs': "for_blocks (map_level S e at flags (max_level S)) b e (entry_size R) (drop k (tables t)) env
      = (r, xs', env')" "t' = t\<lparr>tables := take k (tables t) @ xs'\<rparr>"
    using res idx k wfB(1) R(2) by (auto simp: map_root_def Let_def R_def split: prod.splits)
  have c: "unat e = min (unat e) (0 + n * esize R)"
    using e(2) by (simp add: space_def n_def R_def)
  have bk: "unat (B k) \<le> unat b \<and> unat b < unat (B k) + esize R \<and> 4096 dvd unat b"
    using B [OF k] b(1) dividend_less_div_times [of "esize R" "unat b"] by (simp add: k_def)
  have f: "region_spec S commit unmap at e R (wf_table S (max_level S)) (lookup_table S (max_level S))
      (table_pages S (max_level S)) (ready_level S unmap at e (max_level S)) (map_level S e at flags (max_level S))"
    using map_level_region [OF flags e(1) at, of "max_level S"] max_level_le by (simp add: R_def)
  note post = for_blocks_table [OF f R(1) B c wfB k bk ok xs'(1) refl]
  have view: "view_step S commit unmap at (unat b) (unat e) r 0 (space S) (lookup_ptable S t) (lookup_ptable S t')"
    unfolding view_step_def
  proof (intro allI impI)
    fix x assume x: "0 \<le> x \<and> x < space S"
    define i where "i = x div esize R"
    have i: "i < n"
      using x by (simp add: i_def n_def R_def space_def less_mult_imp_div_less)
    have "unat (B i) \<le> x \<and> x < unat (B i) + esize R"
      using B [OF i] dividend_less_div_times [of "esize R" x] by (simp add: i_def)
    then show "(\<not> (commit \<and> unat b \<le> x \<and> x < unat e) \<longrightarrow>
          visible S (lookup_ptable S t' x) = visible S (lookup_ptable S t x)) \<and>
         (commit \<and> r = Ok () \<and> unat b \<le> x \<and> x < unat e \<longrightarrow> hit S unmap at (lookup_ptable S t' x))"
      using post i by (auto simp: view_step_def lookup_ptable_def xs'(2) i_def R_def)
  qed
  have "env_step (bbm_safe S) (unmap \<or> \<not> commit) env (\<Sum>ts \<leftarrow> tables t. table_pages S (max_level S) ts)
      env' (\<Sum>ts \<leftarrow> take k (tables t) @ xs'. table_pages S (max_level S) ts)"
    using post by blast
  then have "env_step (bbm_safe S) (unmap \<or> \<not> commit) env (ptable_pages S t) env' (ptable_pages S t')"
    by (simp add: ptable_pages_def xs'(2) env_step_frame_left del: map_append sum_list_append)
  then show ?thesis
    using post view idx wf by (simp add: wf_ptable_def ready_root_def xs'(2) n_def B_def R_def)
qed

lemma identity_update_range:
  assumes "unat (pa_addr begin) < space S" "unat (pa_addr e) + 4095 < 2 ^ 64"
  defines "b \<equiv> pa_addr (clear_pa S begin)" and "c \<equiv> min (round_up_to_page (pa_addr e)) (ptable_addr_space_end S)"
  shows "unat b = unat (pa_addr begin) div 4096 * 4096" "unat b < space S" "4096 dvd unat b"
    "unat c = min ((unat (pa_addr e) + 4095) div 4096 * 4096) (space S)" "4096 dvd unat c" "unat c \<le> space S"
proof -
  show u: "unat b = unat (pa_addr begin) div 4096 * 4096"
    unfolding b_def using assms(1) space_le by (intro clear_pa_round) simp
  then show "4096 dvd unat b" by simp
  have "unat b \<le> unat (pa_addr begin)" by (simp add: u)
  then show "unat b < space S" using assms(1) by simp
  show c: "unat c = min ((unat (pa_addr e) + 4095) div 4096 * 4096) (space S)"
    using assms(2) by (simp add: c_def unat_min unat_round_up_to_page unat_addr_space_end)
  show "4096 dvd unat c" using page_dvd_space by (simp add: c min_def)
  show "unat c \<le> space S" by (simp add: c)
qed

lemma identity_update_spec:
  assumes flags: "\<not> flags_contains flags FLAG_COMMIT" "unmap = flags_contains flags FLAG_UNMAP"
    and wf: "wf_ptable S t" and ok: "env_ok env" and at: "attrs_ok S at"
    and range: "unat (pa_addr begin) < space S" "unat (pa_addr e) + 4095 < 2 ^ 64"
    and res: "identity_update S begin e at flags t env = (r, t', env')"
  shows "wf_ptable S t' \<and> r \<noteq> Panic \<and> root t' = root t \<and>
    view_step S (r = Ok ()) unmap at (unat (pa_addr begin) div 4096 * 4096) ((unat (pa_addr e) + 4095) div 4096 * 4096)
      r 0 (space S) (lookup_ptable S t) (lookup_ptable S t') \<and>
    env_step (bbm_safe S) (unmap \<or> r \<noteq> Ok ()) env (ptable_pages S t) env' (ptable_pages S t')"
proof -
  define b where "b = pa_addr (clear_pa S begin)"
  define c where "c = min (round_up_to_page (pa_addr e)) (ptable_addr_space_end S)"
  note bc = identity_update_range [OF range, folded b_def c_def]
  obtain r1 t1 env1 where m1: "map_root S b c at (max_level S + 1) flags t env = (r1, t1, env1)" by (metis prod.exhaust)
  note s1 = map_root_spec [OF _ flags(2) wf ok at bc(3,2,5,6) m1, of False]
  show ?thesis
  proof (cases "r1 = Ok ()")
    case False
    then have "r = r1" "t' = t1" "env' = env1"
      using res m1 by (auto simp: identity_update_def Let_def b_def c_def split: outcome.splits)
    then show ?thesis
      using s1 False flags(1) by (simp add: view_step_def env_step_def)
  next
    case True
    have ok1: "env_ok env1" and wf1: "wf_ptable S t1"
      using s1 flags(1) by (simp_all add: env_step_def)
    obtain r2 t2 env2 where m2: "map_root S b c at (max_level S + 1) (flags OR FLAG_COMMIT) t1 env1 = (r2, t2, env2)"
      by (metis prod.exhaust)
    note s2 = map_root_spec [OF _ _ wf1 ok1 at bc(3,2,5,6) m2, of True unmap]
    have r2: "r2 = Ok ()"
      using s1 s2 True flags by simp
    have "r = Ok ()" "t' = t2" "env' = invalidate_tlb S b c env2"
      using res m1 m2 True r2 by (auto simp: identity_update_def Let_def b_def c_def)
    moreover have "env_step (bbm_safe S) unmap env (ptable_pages S t) env2 (ptable_pages S t2)"
      using s1 s2 flags env_step_trans [of "bbm_safe S" unmap env "ptable_pages S t" env1 "ptable_pages S t1"]
      by (auto simp: env_step_def)
    then have "env_step (bbm_safe S) unmap env (ptable_pages S t) (invalidate_tlb S b c env2) (ptable_pages S t2)"
      by (simp add: env_step_def)
    moreover have "view_step S True unmap at (unat b) ((unat (pa_addr e) + 4095) div 4096 * 4096)
        (Ok ()) 0 (space S) (lookup_ptable S t) (lookup_ptable S t2)"
      using s1 s2 flags r2 bc(4) by (auto simp: view_step_def)
    ultimately show ?thesis
      using s1 s2 flags bc(1) by simp
  qed
qed
end

end
