(* ===== verification/Page_Table_Query.thy ===== *)
theory Page_Table_Query
  imports Page_Table_Correct
begin

text \<open>
  Correctness of the queries and of the remaining operations on page tables: \<open>get_attrs\<close> and
  \<open>get_mode\<close>, \<open>defrag\<close>, creation and disposal of a table.
\<close>

section \<open>Queries over blocks\<close>

text \<open>What a query over \<open>b\<close> to \<open>e\<close> returns on an object at \<open>base\<close>.\<close>

definition query_spec ::
  "usize \<Rightarrow> nat \<Rightarrow> (usize \<Rightarrow> 'a \<Rightarrow> bool) \<Rightarrow> ('a \<Rightarrow> nat \<Rightarrow> u64) \<Rightarrow> (usize \<Rightarrow> 'a \<Rightarrow> u64 res) \<Rightarrow> bool" where
  "query_spec e L W V f \<longleftrightarrow>
     (\<forall>base b x. W base x \<longrightarrow> frame_at L base \<longrightarrow> unat base \<le> unat b \<longrightarrow> unat b < unat base + esize L \<longrightarrow> b < e \<longrightarrow>
        f b x \<noteq> Panic \<and>
        (\<forall>a. f b x = Ok a \<longleftrightarrow> (\<forall>y. unat b \<le> y \<and> y < unat e \<and> y < unat base + esize L \<longrightarrow> V x y = a)))"

lemma res_fold_same: "res_fold same_attrs v rs = Ok a \<longleftrightarrow> v = a \<and> (\<forall>r \<in> set rs. r = Ok a)"
  by (induction same_attrs v rs rule: res_fold.induct) (auto simp: same_attrs_def)

lemma res_fold_no_panic: "Panic \<notin> set rs \<Longrightarrow> res_fold same_attrs v rs \<noteq> Panic"
  by (induction same_attrs v rs rule: res_fold.induct) (auto simp: same_attrs_def)

lemma res_reduce_same: "res_reduce same_attrs rs = Ok a \<longleftrightarrow> rs \<noteq> [] \<and> (\<forall>r \<in> set rs. r = Ok a)"
  by (cases "(same_attrs, rs)" rule: res_reduce.cases) (auto simp: res_fold_same)

lemma res_reduce_no_panic: "Panic \<notin> set rs \<Longrightarrow> res_reduce same_attrs rs \<noteq> Panic"
  by (cases "(same_attrs, rs)" rule: res_reduce.cases) (auto simp: res_fold_no_panic)

lemma map_blocks_query:
  assumes f: "query_spec e L W V f" and L: "L \<le> 4"
    and B: "\<And>j. j < n \<Longrightarrow> unat (B j) = lo + j * esize L \<and> frame_at L (B j)"
    and c: "unat c = min (unat e) (lo + n * esize L)"
    and "k + length xs = n" "\<And>j. j < length xs \<Longrightarrow> W (B (k + j)) (xs ! j)"
    and "xs \<noteq> [] \<Longrightarrow> unat (B k) \<le> unat b \<and> unat b < unat (B k) + esize L"
  shows "Panic \<notin> set (map_blocks f b c (entry_size L) xs) \<and>
    ((\<forall>r \<in> set (map_blocks f b c (entry_size L) xs). r = Ok a) \<longleftrightarrow>
     (\<forall>j < length xs. \<forall>y. unat (B (k + j)) \<le> y \<and> y < unat (B (k + j)) + esize L \<and> unat b \<le> y \<and> y < unat e \<longrightarrow>
        V (xs ! j) y = a))"
  using assms(5-)
proof (induction xs arbitrary: k b)
  case Nil
  then show ?case by simp
next
  case (Cons x xs)
  have k: "k < n" using Cons.prems(1) by simp
  note Bk = B [OF k]
  have b: "unat (B k) \<le> unat b" "unat b < unat (B k) + esize L"
    using Cons.prems(3) by simp_all
  show ?case
  proof (cases "b \<ge> c")
    case True
    have "lo + k * esize L + esize L \<le> lo + n * esize L"
      using k mult_le_mono1 [of "Suc k" n "esize L"] by simp
    then have "unat e \<le> unat b"
      using True c b Bk by (auto simp: word_le_nat_alt min_def split: if_splits)
    then show ?thesis using True by auto
  next
    case False
    then have be: "b < e"
      using c by (auto simp: word_le_nat_alt word_less_nat_alt not_le)
    let ?b' = "start_of_next_block b (entry_size L)"
    have W: "W (B k) x" using Cons.prems(2) [of 0] by simp
    have q: "f b x \<noteq> Panic" "f b x = Ok a \<longleftrightarrow>
        (\<forall>y. unat b \<le> y \<and> y < unat e \<and> y < unat (B k) + esize L \<longrightarrow> V x y = a)"
      using f [unfolded query_spec_def, rule_format, OF W _ b be] Bk by auto
    have b': "unat ?b' = unat (B k) + esize L"
      using next_block [of L "B k" b] Bk b L by simp
    have IH: "Panic \<notin> set (map_blocks f ?b' c (entry_size L) xs) \<and>
      ((\<forall>r \<in> set (map_blocks f ?b' c (entry_size L) xs). r = Ok a) \<longleftrightarrow>
       (\<forall>j < length xs. \<forall>y. unat (B (Suc k + j)) \<le> y \<and> y < unat (B (Suc k + j)) + esize L \<and> unat ?b' \<le> y \<and> y < unat e \<longrightarrow>
          V (xs ! j) y = a))"
    proof (rule Cons.IH)
      show "Suc k + length xs = n" using Cons.prems(1) by simp
      show "W (B (Suc k + j)) (xs ! j)" if "j < length xs" for j
        using Cons.prems(2) [of "Suc j"] that by simp
      show "unat (B (Suc k)) \<le> unat ?b' \<and> unat ?b' < unat (B (Suc k)) + esize L" if "xs \<noteq> []"
      proof -
        have "Suc k < n" using that Cons.prems(1) by (cases xs) auto
        from B [OF this] Bk show ?thesis using b' by simp
      qed
    qed
    have ge: "unat (B k) + esize L \<le> unat (B (Suc k + j))" if "j < length xs" for j
      using B [of "Suc k + j"] Bk that Cons.prems(1) by simp
    have all: "(\<forall>j < Suc m. P j) \<longleftrightarrow> P 0 \<and> (\<forall>j < m. P (Suc j))" for P :: "nat \<Rightarrow> bool" and m
      by (auto simp: less_Suc_eq_0_disj)
    have tail: "unat ?b' \<le> y \<longleftrightarrow> unat b \<le> y" if "j < length xs" "unat (B (Suc k + j)) \<le> y" for j y
      using ge [OF that(1)] that(2) b b' by linarith
    have "(\<forall>r \<in> set (map_blocks f b c (entry_size L) (x # xs)). r = Ok a) \<longleftrightarrow>
        f b x = Ok a \<and> (\<forall>r \<in> set (map_blocks f ?b' c (entry_size L) xs). r = Ok a)"
      using False by simp
    also have "\<dots> \<longleftrightarrow> (\<forall>y. unat (B k) \<le> y \<and> y < unat (B k) + esize L \<and> unat b \<le> y \<and> y < unat e \<longrightarrow> V x y = a) \<and>
        (\<forall>j < length xs. \<forall>y. unat (B (Suc k + j)) \<le> y \<and> y < unat (B (Suc k + j)) + esize L \<and> unat b \<le> y \<and> y < unat e \<longrightarrow>
          V (xs ! j) y = a)"
    proof -
      have "f b x = Ok a \<longleftrightarrow> (\<forall>y. unat (B k) \<le> y \<and> y < unat (B k) + esize L \<and> unat b \<le> y \<and> y < unat e \<longrightarrow> V x y = a)"
        unfolding q(2) using b(1) by (blast intro: le_trans)
      moreover have "(\<forall>r \<in> set (map_blocks f ?b' c (entry_size L) xs). r = Ok a) \<longleftrightarrow>
          (\<forall>j < length xs. \<forall>y. unat (B (Suc k + j)) \<le> y \<and> y < unat (B (Suc k + j)) + esize L \<and> unat b \<le> y \<and> y < unat e \<longrightarrow>
            V (xs ! j) y = a)"
        using IH tail by blast
      ultimately show ?thesis by blast
    qed
    also have "\<dots> \<longleftrightarrow> (\<forall>j < length (x # xs). \<forall>y. unat (B (k + j)) \<le> y \<and> y < unat (B (k + j)) + esize L \<and> unat b \<le> y \<and> y < unat e \<longrightarrow>
          V ((x # xs) ! j) y = a)"
      unfolding length_Cons all by simp
    finally show ?thesis
      using IH q(1) False by auto
  qed
qed

lemma entry_unique:
  assumes "esize (Suc l) dvd base" "base + j * esize l \<le> y \<and> y < base + j * esize l + esize l" "j < 512"
  shows "y div esize l mod 512 = j"
proof -
  obtain q where q: "base = esize l * (512 * q)"
    using assms(1) by (auto simp: esize_Suc elim!: dvdE)
  have "y div esize l = 512 * q + j"
    using assms(2) q by (intro div_nat_eqI) (simp_all add: algebra_simps)
  then show ?thesis using assms(3) by simp
qed

lemma map_blocks_nonempty: "b < c \<Longrightarrow> xs \<noteq> [] \<Longrightarrow> map_blocks f b c bs xs \<noteq> []"
  by (cases xs) auto

text \<open>The counterpart of \<open>for_blocks_table\<close> for queries.\<close>

lemma map_blocks_table:
  assumes f: "query_spec e L W V f" and L: "L \<le> 4"
    and B: "\<And>j. j < n \<Longrightarrow> unat (B j) = lo + j * esize L \<and> frame_at L (B j)"
    and c: "unat c = min (unat e) (lo + n * esize L)"
    and len: "length ts = n" and W: "\<And>j. j < n \<Longrightarrow> W (B j) (ts ! j)" and k: "k < n"
    and b: "unat (B k) \<le> unat b \<and> unat b < unat (B k) + esize L" and be: "b < e"
  shows "res_reduce same_attrs (map_blocks f b c (entry_size L) (drop k ts)) \<noteq> Panic"
    and "res_reduce same_attrs (map_blocks f b c (entry_size L) (drop k ts)) = Ok a \<longleftrightarrow>
      (\<forall>j < n. \<forall>y. unat (B j) \<le> y \<and> y < unat (B j) + esize L \<and> unat b \<le> y \<and> y < unat e \<longrightarrow> V (ts ! j) y = a)"
proof -
  have W': "W (B (k + j)) (drop k ts ! j)" if "j < length (drop k ts)" for j
    using that W [of "k + j"] len by simp
  have q: "Panic \<notin> set (map_blocks f b c (entry_size L) (drop k ts)) \<and>
      ((\<forall>r \<in> set (map_blocks f b c (entry_size L) (drop k ts)). r = Ok a) \<longleftrightarrow>
       (\<forall>j < n - k. \<forall>y. unat (B (k + j)) \<le> y \<and> y < unat (B (k + j)) + esize L \<and> unat b \<le> y \<and> y < unat e \<longrightarrow>
          V (ts ! (k + j)) y = a))" for a
    using map_blocks_query [OF f L B c _ W' b] len k by simp
  have "Suc k * esize L \<le> n * esize L"
    using k by (intro mult_le_mono1) simp
  then have "b < c"
    using b B [OF k] be c by (simp add: word_less_nat_alt)
  then have ne: "map_blocks f b c (entry_size L) (drop k ts) \<noteq> []"
    using k len by (intro map_blocks_nonempty) simp_all
  show "res_reduce same_attrs (map_blocks f b c (entry_size L) (drop k ts)) \<noteq> Panic"
    using q by (intro res_reduce_no_panic) blast
  have before: "unat (B j) + esize L \<le> unat b" if "j < k" for j
  proof -
    have "Suc j * esize L \<le> k * esize L"
      using that by (intro mult_le_mono1) simp
    then show ?thesis
      using B [of j] B [OF k] b that k by simp
  qed
  have "(\<forall>j < n - k. P (k + j)) \<longleftrightarrow> (\<forall>j < n. P j)" if "\<And>j. j < k \<Longrightarrow> P j" for P
    using that by (metis add_diff_inverse_nat diff_less_mono less_diff_conv add.commute not_less)
  from this [of "\<lambda>j. \<forall>y. unat (B j) \<le> y \<and> y < unat (B j) + esize L \<and> unat b \<le> y \<and> y < unat e \<longrightarrow> V (ts ! j) y = a"]
  show "res_reduce same_attrs (map_blocks f b c (entry_size L) (drop k ts)) = Ok a \<longleftrightarrow>
      (\<forall>j < n. \<forall>y. unat (B j) \<le> y \<and> y < unat (B j) + esize L \<and> unat b \<le> y \<and> y < unat e \<longrightarrow> V (ts ! j) y = a)"
    unfolding res_reduce_same using ne q [of a] before by fastforce
qed

context mm_stage
begin

section \<open>get\_attrs\<close>

lemma get_attrs_entry_query:
  assumes rec: "\<And>l'. l = Suc l' \<Longrightarrow> query_spec e l (wf_table S l') (lookup_table S l') rec" and l: "l \<le> 3"
  shows "query_spec e l (wf_pte S l) (lookup S l) (\<lambda>b pte. if is_table S pte l then rec b (sub pte) else Ok (attrs S pte l))"
  unfolding query_spec_def
proof (intro allI impI)
  fix base b p
  assume wf: "wf_pte S l base p" and fr: "frame_at l base" and b: "unat base \<le> unat b" "unat b < unat base + esize l"
    and be: "b < e"
  let ?r = "if is_table S p l then rec b (sub p) else Ok (attrs S p l)"
  show "?r \<noteq> Panic \<and> (\<forall>a. ?r = Ok a \<longleftrightarrow>
      (\<forall>y. unat b \<le> y \<and> y < unat e \<and> y < unat base + esize l \<longrightarrow> lookup S l p y = a))"
  proof (cases "is_table S p l")
    case True
    obtain l' page ts where t: "l = Suc l'" "p = pte_table S l page ts" "frame_at 0 page" "wf_table S l' base ts"
      using wf l True by (cases rule: wf_cases) auto
    have "sub p = ts" by (simp add: t(2) pte_table_def)
    then show ?thesis
      using rec [OF t(1), unfolded query_spec_def, rule_format, OF t(4) fr b be] True l t
      by (simp add: lookup_pte_table del: lookup.simps)
  next
    case False
    then show ?thesis
      using b be by (auto simp: lookup_not_table word_less_nat_alt)
  qed
qed

lemma get_attrs_table_query:
  assumes f: "query_spec e l (wf_pte S l) (lookup S l)
      (\<lambda>b pte. if is_table S pte l then rec b (sub pte) else Ok (attrs S pte l))" and l: "l \<le> 3"
  shows "query_spec e (Suc l) (wf_table S l) (lookup_table S l) (get_attrs_table S rec e l)"
  unfolding query_spec_def
proof (intro allI impI)
  fix base b ts
  assume wf: "wf_table S l base ts" and fr: "frame_at (Suc l) base" and b: "unat base \<le> unat b" "unat b < unat base + esize (Suc l)"
    and be: "b < e"
  define k where "k = unat b div esize l mod 512"
  define B where "B = (\<lambda>j. base + word_of_nat j * entry_size l)"
  have k: "k < 512" "unat (index b l) = k"
    by (simp_all add: k_def unat_index)
  have dvd: "esize (Suc l) dvd unat base"
    using fr by (simp add: frame_at_def)
  have B: "unat (B j) = unat base + j * esize l \<and> frame_at l (B j)" if "j < 512" for j
    unfolding B_def using frame_child [OF fr that] l by simp
  have c: "unat (min e (level_end b l)) = min (unat e) (unat base + 512 * esize l)"
    using level_end_base [OF fr l b] by (simp add: unat_min esize_Suc)
  have bk: "unat (B k) \<le> unat b \<and> unat b < unat (B k) + esize l"
    using entry_of [OF dvd b] B [OF k(1)] by (simp add: k_def)
  have wfB: "length ts = 512" "\<And>j. j < 512 \<Longrightarrow> wf_pte S l (B j) (ts ! j)"
    using wf by (simp_all add: wf_table_def B_def)
  note q = map_blocks_table [OF f _ B c wfB k(1) bk be]
  have "(\<forall>j < 512. \<forall>y. unat (B j) \<le> y \<and> y < unat (B j) + esize l \<and> unat b \<le> y \<and> y < unat e \<longrightarrow> lookup S l (ts ! j) y = a) \<longleftrightarrow>
      (\<forall>y. unat b \<le> y \<and> y < unat e \<and> y < unat base + esize (Suc l) \<longrightarrow> lookup_table S l ts y = a)" (is "?A \<longleftrightarrow> ?C") for a
  proof
    assume A: ?A
    show ?C
    proof (intro allI impI)
      fix y assume y: "unat b \<le> y \<and> y < unat e \<and> y < unat base + esize (Suc l)"
      have "y div esize l mod 512 < 512" by simp
      then show "lookup_table S l ts y = a"
        using A y b entry_of [OF dvd, of y] B by (auto simp: lookup_table_def)
    qed
  next
    assume C: ?C
    show ?A
    proof (intro allI impI)
      fix j y assume j: "j < 512" and y: "unat (B j) \<le> y \<and> y < unat (B j) + esize l \<and> unat b \<le> y \<and> y < unat e"
      have "j * esize l + esize l \<le> 512 * esize l" using j mult_le_mono1 [of "Suc j" 512 "esize l"] by simp
      moreover have "y < unat base + (j * esize l + esize l)"
        using y B [OF j] by simp
      ultimately have lt: "y < unat base + esize (Suc l)"
        unfolding esize_Suc by linarith
      have "y div esize l mod 512 = j"
        using entry_unique [OF dvd _ j] y B [OF j] by simp
      then show "lookup S l (ts ! j) y = a"
        using C y lt by (auto simp: lookup_table_def)
    qed
  qed
  then show "get_attrs_table S rec e l b ts \<noteq> Panic \<and> (\<forall>a. get_attrs_table S rec e l b ts = Ok a \<longleftrightarrow>
      (\<forall>y. unat b \<le> y \<and> y < unat e \<and> y < unat base + esize (Suc l) \<longrightarrow> lookup_table S l ts y = a))"
    using q l k(2) by (simp add: get_attrs_table_def)
qed

lemma get_attrs_level_query:
  "l \<le> 3 \<Longrightarrow> query_spec e (Suc l) (wf_table S l) (lookup_table S l) (get_attrs_level S e l)"
proof (induction l)
  case 0
  show ?case
    unfolding get_attrs_level.simps by (intro get_attrs_table_query get_attrs_entry_query) simp_all
next
  case (Suc l)
  then show ?case
    unfolding get_attrs_level.simps by (intro get_attrs_table_query get_attrs_entry_query) simp_all
qed

lemma get_attrs_spec:
  assumes wf: "wf_ptable S t" and range: "unat begin < unat e" "unat e \<le> space S"
  shows "get_attrs S begin e t \<noteq> Panic"
    and "get_attrs S begin e t = Ok a \<longleftrightarrow>
      (\<forall>y. unat begin div 4096 * 4096 \<le> y \<and> y < (unat e + 4095) div 4096 * 4096 \<longrightarrow> lookup_ptable S t y = a)"
proof -
  define R where "R = max_level S + 1"
  define n where "n = root_table_count S"
  define b where "b = round_down_to_page begin"
  define c where "c = round_up_to_page e"
  define k where "k = unat b div esize R"
  define B :: "nat \<Rightarrow> usize" where "B = (\<lambda>j. word_of_nat j * entry_size R)"
  have R: "R \<le> 4" using max_level_le by (simp add: R_def)
  have ub: "unat b = unat begin div 4096 * 4096"
    by (simp add: b_def unat_round_down_to_page)
  have uc: "unat c = (unat e + 4095) div 4096 * 4096"
    using range space_le unfolding c_def by (intro unat_round_up_to_page) simp
  obtain s where s: "space S = s * 4096"
    using page_dvd_space by (auto elim!: dvdE simp: mult.commute)
  have bc: "unat b < unat c" "unat c \<le> space S"
    using range unfolding ub uc s by (simp_all add: less_mult_imp_div_less div_le_mono)
  have sp: "space S = n * esize R" by (simp add: space_def n_def R_def)
  have k: "k < n"
    using bc by (simp add: k_def sp less_mult_imp_div_less)
  then have idx: "unat (index b R) = k"
    using root_count_le by (simp add: unat_index k_def n_def)
  have wfB: "length (tables t) = n" "\<And>j. j < n \<Longrightarrow> wf_table S (max_level S) (B j) (tables t ! j)"
    using wf by (simp_all add: wf_ptable_def n_def B_def R_def)
  have B: "unat (B j) = 0 + j * esize R \<and> frame_at R (B j)" if "j < n" for j
    using root_frames that by (simp add: B_def R_def n_def)
  have cc: "unat c = min (unat c) (0 + n * esize R)"
    using bc(2) by (simp add: sp)
  have bk: "unat (B k) \<le> unat b \<and> unat b < unat (B k) + esize R"
    using B [OF k] dividend_less_div_times [of "esize R" "unat b"] by (simp add: k_def)
  have f: "query_spec c R (wf_table S (max_level S)) (lookup_table S (max_level S)) (get_attrs_level S c (max_level S))"
    using get_attrs_level_query max_level_le by (simp add: R_def)
  note q = map_blocks_table [OF f R B cc wfB k bk, unfolded word_less_nat_alt, OF _ _ bc(1)]
  have end_eq: "unat (word_of_nat (root_table_count S) * entry_size R) = space S"
    using unat_addr_space_end by (simp add: ptable_addr_space_end_def R_def Let_def)
  have "get_attrs S begin e t = res_reduce same_attrs
      (map_blocks (get_attrs_level S c (max_level S)) b c (entry_size R) (drop k (tables t)))"
    unfolding get_attrs_def Let_def R_def [symmetric] b_def [symmetric] c_def [symmetric]
    using bc k idx wfB(1) end_eq by (simp add: word_le_nat_alt)
  moreover have "(\<forall>j < n. \<forall>y. unat (B j) \<le> y \<and> y < unat (B j) + esize R \<and> unat b \<le> y \<and> y < unat c \<longrightarrow>
       lookup_table S (max_level S) (tables t ! j) y = a) \<longleftrightarrow>
      (\<forall>y. unat b \<le> y \<and> y < unat c \<longrightarrow> lookup_ptable S t y = a)" (is "?A \<longleftrightarrow> ?C")
  proof
    assume A: ?A
    show ?C
    proof (intro allI impI)
      fix y assume y: "unat b \<le> y \<and> y < unat c"
      then have "y div esize R < n"
        using bc(2) by (simp add: sp less_mult_imp_div_less)
      moreover from B [OF this] have "unat (B (y div esize R)) \<le> y \<and> y < unat (B (y div esize R)) + esize R"
        using dividend_less_div_times [of "esize R" y] by simp
      ultimately show "lookup_ptable S t y = a"
        using A y by (auto simp: lookup_ptable_def R_def)
    qed
  next
    assume C: ?C
    show ?A
    proof (intro allI impI)
      fix j y assume "j < n" and y: "unat (B j) \<le> y \<and> y < unat (B j) + esize R \<and> unat b \<le> y \<and> y < unat c"
      then have "y div esize R = j"
        using B [of j] by (intro div_nat_eqI) (simp_all add: algebra_simps)
      then show "lookup_table S (max_level S) (tables t ! j) y = a"
        using C y by (auto simp: lookup_ptable_def R_def)
    qed
  qed
  ultimately show "get_attrs S begin e t \<noteq> Panic"
    "get_attrs S begin e t = Ok a \<longleftrightarrow>
      (\<forall>y. unat begin div 4096 * 4096 \<le> y \<and> y < (unat e + 4095) div 4096 * 4096 \<longrightarrow> lookup_ptable S t y = a)"
    using q by (simp_all add: ub uc)
qed

end

section \<open>Defragmentation\<close>

definition reduce_law :: "(('a \<Rightarrow> 'a \<Rightarrow> 'a) \<Rightarrow> 'a list \<Rightarrow> 'a option) \<Rightarrow> bool" where
  "reduce_law red \<longleftrightarrow> (\<forall>f. red f [] = None) \<and> (\<forall>f x xs. red f (x # xs) = Some (foldl f x xs))"

definition defrag_post :: "stage \<Rightarrow> nat \<Rightarrow> usize \<Rightarrow> pte \<Rightarrow> u64 res \<Rightarrow> pte \<Rightarrow> bool" where
  "defrag_post S l b p r p' \<longleftrightarrow>
     wf_pte S l b p' \<and> same_view S l b p p' \<and> r \<noteq> Panic \<and>
     (\<forall>a. r = Ok a \<longrightarrow> attrs_ok S a \<and> \<not> is_table S p' l \<and> attrs S p' l = a)"

text \<open>The writes of \<open>defrag\<close>: a table is overwritten by a block, or by an entry that is not valid.\<close>

fun defrag_event :: "stage \<Rightarrow> event \<Rightarrow> bool" where
  "defrag_event S (PteDefrag l old new) \<longleftrightarrow>
     pte_is_table S old l \<and> (pte_is_block S new l \<or> \<not> pte_is_valid S new l)"
| "defrag_event S _ \<longleftrightarrow> False"

lemma foldl_merge:
  "foldl defrag_merge x xs = Ok a \<Longrightarrow> x = Ok a \<and> (\<forall>y \<in> set xs. y = Ok a)"
proof (induction xs arbitrary: x)
  case (Cons y xs)
  have "defrag_merge x y = Ok a" "\<forall>z \<in> set xs. z = Ok a"
    using Cons.IH [of "defrag_merge x y"] Cons.prems by simp_all
  then show ?case by (auto simp: defrag_merge_def split: if_splits)
qed simp

lemma foldl_merge_no_panic:
  "x \<noteq> Panic \<Longrightarrow> foldl defrag_merge x xs \<noteq> Panic"
  by (induction xs arbitrary: x) (auto simp: defrag_merge_def)

lemma reduce_merge:
  assumes "reduce_law red" "\<And>r. r \<in> set rs \<Longrightarrow> r \<noteq> Panic"
  shows "red defrag_merge rs \<noteq> Some Panic"
    and "red defrag_merge rs = Some (Ok a) \<Longrightarrow> \<forall>r \<in> set rs. r = Ok a"
proof -
  show "red defrag_merge rs \<noteq> Some Panic"
    using assms foldl_merge_no_panic by (cases rs) (simp_all add: reduce_law_def)
  show "\<forall>r \<in> set rs. r = Ok a" if "red defrag_merge rs = Some (Ok a)"
  proof (cases rs)
    case (Cons x xs)
    then show ?thesis
      using that assms(1) foldl_merge [of x xs a] by (simp add: reduce_law_def)
  qed simp
qed

lemma map_state_spec:
  assumes "\<And>i env r x' env'. i < length xs \<Longrightarrow> env_ok env \<Longrightarrow> f (xs ! i) env = (r, x', env') \<Longrightarrow>
      Q i r x' \<and> env_step P True env (PG (xs ! i)) env' (PG x')"
    and "env_ok env" "map_state f xs env = (rs, xs', env')"
  shows "length rs = length xs \<and> length xs' = length xs \<and> (\<forall>i < length xs. Q i (rs ! i) (xs' ! i)) \<and>
    env_step P True env (\<Sum>x \<leftarrow> xs. PG x) env' (\<Sum>x \<leftarrow> xs'. PG x)"
  using assms
proof (induction xs arbitrary: Q env rs xs' env')
  case Nil
  then show ?case by simp
next
  case (Cons x xs)
  obtain r1 x1 env1 where f1: "f x env = (r1, x1, env1)" by (metis prod.exhaust)
  obtain rs2 xs2 env2 where m2: "map_state f xs env1 = (rs2, xs2, env2)" by (metis prod.exhaust)
  have res: "rs = r1 # rs2" "xs' = x1 # xs2" "env' = env2"
    using Cons.prems(3) f1 m2 by simp_all
  have s1: "Q 0 r1 x1" "env_step P True env (PG x) env1 (PG x1)"
    using Cons.prems(1) [of 0 env r1 x1 env1] Cons.prems(2) f1 by simp_all
  have IH: "length rs2 = length xs \<and> length xs2 = length xs \<and> (\<forall>i < length xs. Q (Suc i) (rs2 ! i) (xs2 ! i)) \<and>
      env_step P True env1 (\<Sum>x \<leftarrow> xs. PG x) env2 (\<Sum>x \<leftarrow> xs2. PG x)"
  proof (rule Cons.IH [OF _ _ m2])
    show "env_ok env1" using s1(2) by (simp add: env_step_def)
    show "Q (Suc i) r x' \<and> env_step P True env (PG (xs ! i)) env' (PG x')"
      if "i < length xs" "env_ok env" "f (xs ! i) env = (r, x', env')" for i env r x' env'
      using Cons.prems(1) [of "Suc i" env r x' env'] that by simp
  qed
  have "env_step P True env (PG x + (\<Sum>x \<leftarrow> xs. PG x)) env2 (PG x1 + (\<Sum>x \<leftarrow> xs2. PG x))"
    using IH by (intro env_step_trans [OF env_step_frame [OF s1(2)]] env_step_frame_left) simp
  moreover have "Q i (rs ! i) (xs' ! i)" if "i < length (x # xs)" for i
    using that IH s1(1) res by (cases i) auto
  ultimately show ?case
    using IH res by simp
qed

context mm_stage
begin

lemma same_view_refl [simp]: "same_view S l b p p"
  by (simp add: same_view_def)

lemma same_view_tables:
  assumes "l < 3" "frame_at 0 page" "frame_at (Suc l) b"
    and "\<And>i. i < 512 \<Longrightarrow> same_view S l (b + word_of_nat i * entry_size l) (ts ! i) (ts' ! i)"
  shows "same_view S (Suc l) b (pte_table S (Suc l) page ts) (pte_table S (Suc l) page ts')"
  unfolding same_view_def
proof (intro allI impI)
  fix x assume x: "unat b \<le> x \<and> x < unat b + esize (Suc l)"
  define i where "i = x div esize l mod 512"
  have i: "i < 512" by (simp add: i_def)
  have "unat (b + word_of_nat i * entry_size l) \<le> x \<and> x < unat (b + word_of_nat i * entry_size l) + esize l"
    using frame_child(1) [OF assms(3) i] entry_of [of l "unat b" x] x assms(1,3) by (simp add: i_def frame_at_def)
  then show "visible S (lookup S (Suc l) (pte_table S (Suc l) page ts') x) =
      visible S (lookup S (Suc l) (pte_table S (Suc l) page ts) x)"
    using assms(4) [OF i] assms(1,2)
    by (simp add: lookup_pte_table lookup_table_def same_view_def i_def del: lookup.simps)
qed

lemma block_result:
  assumes "wf_pte S l b p" "l \<le> 3" "is_block S p l"
  shows "defrag_post S l b p (Ok (attrs S p l)) p"
  using assms by (cases rule: wf_cases) (auto simp: defrag_post_def intro: wf_pte_block)

lemma leaves_view:
  assumes "wf_table S l b ts" "\<And>i. i < 512 \<Longrightarrow> \<not> is_table S (ts ! i) l \<and> attrs S (ts ! i) l = a"
  shows "lookup_table S l ts x = a" "table_pages S l ts = {#}"
proof -
  show "lookup_table S l ts x = a"
    using assms(2) by (simp add: lookup_table_def lookup_not_table)
  show "table_pages S l ts = {#}"
    using assms by (intro table_pages_leaves) (auto simp: wf_table_def in_set_conv_nth)
qed

lemma leaf_block_address:
  assumes "wf_table S l b ts" "l \<le> 3" "\<not> is_table S (ts ! 0) l" "attrs_present S (attrs S (ts ! 0) l)"
  shows "block_from_pte S (inner (hd ts)) l = pa_init b"
proof -
  have "hd ts = ts ! 0"
    using assms(1) by (cases ts) (auto simp: wf_table_def)
  moreover have "wf_pte S l b (ts ! 0)"
    using assms(1) by (auto simp: wf_table_def dest!: spec [of _ 0])
  ultimately show ?thesis
    using assms(2-) by (elim wf_cases) (auto simp: pte_block_def block_from_block)
qed

text \<open>
  What a table whose entries are all leaves with the attributes \<open>a\<close> is replaced by looks the
  same.
\<close>

lemma merged_entry:
  assumes "wf_table S l b ts" "l < 3" "frame_at 0 page" "frame_at (Suc l) b" "attrs_ok S a"
    and leaves: "\<And>i. i < 512 \<Longrightarrow> \<not> is_table S (ts ! i) l \<and> attrs S (ts ! i) l = a"
    and new: "new = (if attrs_present S a then pte_block S (Suc l) (pa_init b) a else pte_absent S (Suc l))"
    and "attrs_present S a \<Longrightarrow> is_block_allowed S (Suc l)"
    and same: "same_view S (Suc l) b p (pte_table S (Suc l) page ts)"
  shows "defrag_post S (Suc l) b p (Ok (attrs S new (Suc l))) new \<and> pte_pages S (Suc l) new = {#}"
proof -
  have l: "Suc l \<le> 3" using assms(2) by simp
  have new': "wf_pte S (Suc l) b new \<and> \<not> is_table S new (Suc l) \<and> attrs_ok S (attrs S new (Suc l)) \<and>
      visible S (attrs S new (Suc l)) = visible S a"
    using assms(4,5,8) l unfolding new
    by (auto simp: wf_pte_block wf_pte_absent is_table_def attrs_def visible_def pte_block_def pte_absent_def
        block_not_table block_attrs absent_attrs absent_attrs_ok intro: wf_absent wf_block)
  then show ?thesis
    using same leaves_view(1) [OF assms(1) leaves] assms(2,3)
    by (auto simp: defrag_post_def same_view_def lookup_not_table lookup_pte_table pages_not_table
        simp del: lookup.simps)
qed

lemma defrag_level_spec:
  assumes red: "reduce_law red"
    and rec: "\<And>l' b p env r p' env'. l = Suc l' \<Longrightarrow> wf_pte S l' b p \<Longrightarrow> frame_at l' b \<Longrightarrow> env_ok env \<Longrightarrow> rec p env = (r, p', env') \<Longrightarrow>
      defrag_post S l' b p r p' \<and> env_step (defrag_event S) True env (pte_pages S l' p) env' (pte_pages S l' p')"
    and wf: "wf_pte S l b p" and fr: "frame_at l b" and l: "l \<le> 3" and ok: "env_ok env"
    and res: "defrag_with S red rec l p env = (r, p', env')"
  shows "defrag_post S l b p r p' \<and> env_step (defrag_event S) True env (pte_pages S l p) env' (pte_pages S l p')"
proof (cases "is_block S p l \<or> \<not> is_table S p l")
  case True
  then show ?thesis
    using res block_result [OF wf l] wf ok by (auto simp: defrag_with_def Let_def defrag_post_def split: if_splits)
next
  case False
  obtain l' page ts where t: "l = Suc l'" "p = pte_table S l page ts" "frame_at 0 page" "wf_table S l' b ts"
      "pa_addr (table_from_pte S (inner p) l) = page"
    using wf l False by (cases rule: wf_cases) auto
  have l': "l' < 3" using l t(1) by simp
  obtain rs ts1 env1 where m: "map_state rec (sub p) env = (rs, ts1, env1)" by (metis prod.exhaust)
  have sub: "sub p = ts" "PTE (inner p) us = pte_table S (Suc l') page us" for us
    by (simp_all add: t(1,2) pte_table_def)
  have inn: "inner (pte_table S (Suc l') page us) = inner p" for us
    by (simp add: t(1,2) pte_table_def)
  have len: "length ts = 512" using t(4) by (simp add: wf_table_def)
  have post: "length rs = 512 \<and> length ts1 = 512 \<and>
      (\<forall>i < 512. defrag_post S l' (b + word_of_nat i * entry_size l') (ts ! i) (rs ! i) (ts1 ! i)) \<and>
      env_step (defrag_event S) True env (table_pages S l' ts) env1 (table_pages S l' ts1)"
    unfolding table_pages_def len [symmetric]
  proof (rule map_state_spec [OF _ ok m [unfolded sub]])
    fix i env r x' env'
    assume i: "i < length ts" and "env_ok env" "rec (ts ! i) env = (r, x', env')"
    then show "defrag_post S l' (b + word_of_nat i * entry_size l') (ts ! i) r x' \<and>
        env_step (defrag_event S) True env (pte_pages S l' (ts ! i)) env' (pte_pages S l' x')"
      using rec [OF t(1), of "b + word_of_nat i * entry_size l'"] frame_child(2) [of l' b i] fr t(1,4) l' len
      by (auto simp: wf_table_def)
  qed
  have wf1: "wf_table S l' b ts1"
    using post by (simp add: wf_table_def defrag_post_def)
  have same: "same_view S (Suc l') b p (pte_table S (Suc l') page ts1)"
    using same_view_tables [OF l' t(3), of b ts ts1] fr post by (simp add: t(1,2) defrag_post_def)
  have env1: "env_step (defrag_event S) True env (pte_pages S l p) env1 (add_mset page (table_pages S l' ts1))"
    using post env_step_frame [of "defrag_event S" True env "table_pages S l' ts" env1 "table_pages S l' ts1" "{#page#}"] l'
    by (simp add: t(1-3) pages_pte_table)
  have keep: "defrag_post S l b p (Err ()) (pte_table S (Suc l') page ts1) \<and>
      env_step (defrag_event S) True env (pte_pages S l p) env1 (pte_pages S l (pte_table S (Suc l') page ts1))"
    using same env1 wf1 t(1,3) l' by (simp add: defrag_post_def wf_pte_table pages_pte_table)
  have no_panic: "r \<noteq> Panic" if "r \<in> set rs" for r
    using that post by (auto simp: defrag_post_def in_set_conv_nth)
  show ?thesis
  proof (cases "red defrag_merge rs")
    case None
    then show ?thesis
      using res m keep False sub by (simp add: defrag_with_def Let_def)
  next
    case (Some x)
    show ?thesis
    proof (cases x)
      case (Err er)
      then show ?thesis
        using res m keep False sub Some by (simp add: defrag_with_def Let_def)
    next
      case Panic
      then show ?thesis
        using reduce_merge(1) [OF red no_panic] Some by simp
    next
      case (Ok a)
      have all: "\<forall>r \<in> set rs. r = Ok a"
        using reduce_merge(2) [OF red no_panic] Some Ok by simp
      have leaves: "attrs_ok S a \<and> \<not> is_table S (ts1 ! i) l' \<and> attrs S (ts1 ! i) l' = a" if "i < 512" for i
      proof -
        have "rs ! i = Ok a" using all post that by simp
        then show ?thesis using post that by (simp add: defrag_post_def)
      qed
      have a: "attrs_ok S a" using leaves [of 0] by simp
      have pres: "pte_is_present S a (l - 1) = attrs_present S a"
        using attrs_as_pte [OF _ a, of l'] l' t(1) by simp
      have lv: "\<not> is_table S (ts1 ! i) l' \<and> attrs S (ts1 ! i) l' = a" if "i < 512" for i
        using leaves [OF that] by simp
      have "env_ok env1" using env1 by (simp add: env_step_def)
      then have fp: "env_ok (free_page_in page env1)" "env_pages (free_page_in page env1) = add_mset page (env_pages env1)"
        "env_grows P env (free_page_in page env1) = env_grows P env env1" for P
        using t(3) by (simp_all add: free_page_in_def env_ok_def env_pages_def)
      have tab: "pte_is_table S (inner p) (Suc l')" using False t(1) by (simp add: is_table_def)
      have free: "env_step (defrag_event S) True env (pte_pages S l p)
          (emit (PteDefrag (Suc l') (inner p) (inner new)) (free_page_in page env1)) {#}"
        if "pte_is_block S (inner new) (Suc l') \<or> \<not> pte_is_valid S (inner new) (Suc l')" for new
        using env1 fp leaves_view(2) [OF wf1 lv] tab that by (simp add: env_step_def)
      have dw: "defrag_with S red rec l p env =
          (let blk = pte_block S l (block_from_pte S (inner (hd ts1)) l') (combine_table_entry_attrs S (attrs S p l) a);
               write = (\<lambda>new. emit (PteDefrag (Suc l') (inner p) (inner new)) (free_page_in page env1))
           in if \<not> attrs_present S a then (Ok (attrs S (pte_absent S l) l), pte_absent S l, write (pte_absent S l))
           else if \<not> is_block_allowed S l then (Err (), pte_table S (Suc l') page ts1, env1)
           else (Ok (combine_table_entry_attrs S (attrs S p l) a), blk, write blk))"
        using False t(5) unfolding defrag_write_def defrag_with_def Let_def m [unfolded sub(1)] sub prod.case Some Ok option.case outcome.case pres
        by (simp add: t(1) inn)
      show ?thesis
      proof (cases "attrs_present S a \<and> \<not> is_block_allowed S l")
        case True
        then show ?thesis
          using res keep unfolding dw by simp
      next
        case allowed: False
        define new where "new = (if attrs_present S a then pte_block S (Suc l') (pa_init b) a else pte_absent S (Suc l'))"
        have mrg: "defrag_post S (Suc l') b p (Ok (attrs S new (Suc l'))) new \<and> pte_pages S (Suc l') new = {#}"
          using merged_entry [OF wf1 l' t(3) _ a lv new_def _ same] allowed fr t(1) by blast
        have cmb: "combine_table_entry_attrs S (attrs S p l) a = a"
          using combine_attrs [of l page a] l t(1-3) a by (simp add: attrs_def pte_table_def)
        have blk: "attrs S (pte_block S (Suc l') (pa_init b) a) (Suc l') = a" if "is_block_allowed S l"
          using that fr a l t(1) by (simp add: attrs_def pte_block_def block_attrs)
        have "r = Ok (attrs S new l)" "p' = new" "env' = emit (PteDefrag (Suc l') (inner p) (inner new)) (free_page_in page env1)"
          using res allowed leaf_block_address [OF wf1] lv [of 0] l' cmb blk unfolding dw new_def
          by (auto simp: t(1) Let_def split: if_splits)
        moreover have "pte_is_block S (inner new) (Suc l') \<or> \<not> pte_is_valid S (inner new) (Suc l')"
          using allowed fr a l unfolding new_def t(1) by (auto simp: pte_block_def pte_absent_def block_is_block)
        ultimately show ?thesis
          using mrg free [of new] unfolding t(1) by simp
      qed
    qed
  qed
qed

lemma defrag_entry_spec:
  assumes "reduce_law red"
  shows "wf_pte S l b p \<Longrightarrow> frame_at l b \<Longrightarrow> l \<le> 3 \<Longrightarrow> env_ok env \<Longrightarrow> pte_defrag S red l p env = (r, p', env') \<Longrightarrow>
    defrag_post S l b p r p' \<and> env_step (defrag_event S) True env (pte_pages S l p) env' (pte_pages S l p')"
proof (induction l arbitrary: b p env r p' env')
  case 0
  then show ?case
    using defrag_level_spec [OF assms _ 0(1,2)] by simp
next
  case (Suc l)
  show ?case
  proof (rule defrag_level_spec [OF assms _ Suc.prems(1-4)])
    show "defrag_with S red (pte_defrag S red l) (Suc l) p env = (r, p', env')"
      using Suc.prems(5) by simp
    show "defrag_post S l' b p r p' \<and> env_step (defrag_event S) True env (pte_pages S l' p) env' (pte_pages S l' p')"
      if "Suc l = Suc l'" "wf_pte S l' b p" "frame_at l' b" "env_ok env" "pte_defrag S red l p env = (r, p', env')"
      for l' b p env r p' env'
      using Suc.IH [of b p env r p' env'] that Suc.prems(3) by simp
  qed
qed

lemma defrag_table_spec:
  assumes red: "reduce_law red" and wf: "wf_table S l b ts" and fr: "frame_at (Suc l) b" and l: "l \<le> 3" and ok: "env_ok env"
    and res: "map_state (pte_defrag S red l) ts env = (rs, ts', env')"
  shows "wf_table S l b ts' \<and>
    (\<forall>x. unat b \<le> x \<and> x < unat b + esize (Suc l) \<longrightarrow>
       visible S (lookup_table S l ts' x) = visible S (lookup_table S l ts x)) \<and>
    env_step (defrag_event S) True env (table_pages S l ts) env' (table_pages S l ts')"
proof -
  have len: "length ts = 512" using wf by (simp add: wf_table_def)
  have post: "length rs = 512 \<and> length ts' = 512 \<and>
      (\<forall>i < 512. defrag_post S l (b + word_of_nat i * entry_size l) (ts ! i) (rs ! i) (ts' ! i)) \<and>
      env_step (defrag_event S) True env (table_pages S l ts) env' (table_pages S l ts')"
    unfolding table_pages_def len [symmetric]
  proof (rule map_state_spec [OF _ ok res])
    fix i env r x' env'
    assume i: "i < length ts" and e: "env_ok env" "pte_defrag S red l (ts ! i) env = (r, x', env')"
    show "defrag_post S l (b + word_of_nat i * entry_size l) (ts ! i) r x' \<and>
        env_step (defrag_event S) True env (pte_pages S l (ts ! i)) env' (pte_pages S l x')"
      by (rule defrag_entry_spec [OF red _ _ l e]) (use frame_child(2) [OF fr, of i] wf i len l in \<open>simp_all add: wf_table_def\<close>)
  qed
  have "visible S (lookup_table S l ts' x) = visible S (lookup_table S l ts x)"
    if x: "unat b \<le> x" "x < unat b + esize (Suc l)" for x
  proof -
    define i where "i = x div esize l mod 512"
    have i: "i < 512" by (simp add: i_def)
    have "unat (b + word_of_nat i * entry_size l) \<le> x \<and> x < unat (b + word_of_nat i * entry_size l) + esize l"
      using frame_child(1) [OF fr i] entry_of [of l "unat b" x] x fr l by (simp add: i_def frame_at_def)
    moreover have "same_view S l (b + word_of_nat i * entry_size l) (ts ! i) (ts' ! i)"
      using post i by (simp add: defrag_post_def)
    ultimately show ?thesis
      by (simp add: same_view_def lookup_table_def i_def)
  qed
  then show ?thesis
    using post by (simp add: wf_table_def defrag_post_def)
qed

lemma PageTable_defrag_spec:
  assumes red: "reduce_law red" and wf: "wf_ptable S t" and ok: "env_ok env"
    and res: "PageTable_defrag S red t env = (t', env')"
  shows "wf_ptable S t' \<and> root t' = root t \<and>
    (\<forall>x < space S. visible S (lookup_ptable S t' x) = visible S (lookup_ptable S t x)) \<and>
    env_pages env' + ptable_pages S t' = env_pages env + ptable_pages S t \<and> env_ok env' \<and>
    env_grows (defrag_event S) env env'"
proof -
  let ?f = "\<lambda>page_table env. let (_, page_table, env) = map_state (pte_defrag S red (max_level S)) page_table env
                in ((), page_table, env)"
  let ?b = "\<lambda>i. word_of_nat i * entry_size (max_level S + 1) :: usize"
  obtain us ts' where m: "map_state ?f (tables t) env = (us, ts', env')" "t' = t\<lparr>tables := ts'\<rparr>"
    using res by (auto simp: PageTable_defrag_def Let_def split: prod.splits)
  have len: "length (tables t) = root_table_count S" using wf by (simp add: wf_ptable_def)
  have post: "length us = root_table_count S \<and> length ts' = root_table_count S \<and>
      (\<forall>i < root_table_count S. wf_table S (max_level S) (?b i) (ts' ! i) \<and>
        (\<forall>x. unat (?b i) \<le> x \<and> x < unat (?b i) + esize (max_level S + 1) \<longrightarrow>
          visible S (lookup_table S (max_level S) (ts' ! i) x) = visible S (lookup_table S (max_level S) (tables t ! i) x))) \<and>
      env_step (defrag_event S) True env (\<Sum>ts \<leftarrow> tables t. table_pages S (max_level S) ts) env' (\<Sum>ts \<leftarrow> ts'. table_pages S (max_level S) ts)"
    unfolding len [symmetric]
  proof (rule map_state_spec [OF _ ok m(1)])
    fix i env r x' env'
    assume i: "i < length (tables t)" and e: "env_ok env" "?f (tables t ! i) env = (r, x', env')"
    then obtain rs where ms: "map_state (pte_defrag S red (max_level S)) (tables t ! i) env = (rs, x', env')"
      by (auto simp: Let_def split: prod.splits)
    have "wf_table S (max_level S) (?b i) (tables t ! i)" "frame_at (Suc (max_level S)) (?b i)"
      using wf i len root_frames [of i] by (simp_all add: wf_ptable_def)
    from defrag_table_spec [OF red this max_level_le e(1) ms] show "(wf_table S (max_level S) (?b i) x' \<and>
        (\<forall>x. unat (?b i) \<le> x \<and> x < unat (?b i) + esize (max_level S + 1) \<longrightarrow>
          visible S (lookup_table S (max_level S) x' x) = visible S (lookup_table S (max_level S) (tables t ! i) x))) \<and>
        env_step (defrag_event S) True env (table_pages S (max_level S) (tables t ! i)) env' (table_pages S (max_level S) x')"
      by simp
  qed
  have "visible S (lookup_ptable S t' x) = visible S (lookup_ptable S t x)" if x: "x < space S" for x
  proof -
    define R i where "R = max_level S + 1" and "i = x div esize R"
    have i: "i < root_table_count S"
      using x by (simp add: i_def R_def space_def less_mult_imp_div_less)
    have "unat (?b i) \<le> x \<and> x < unat (?b i) + esize R"
      using root_frames [OF i] dividend_less_div_times [of "esize R" x] by (simp add: i_def R_def)
    then show ?thesis
      using post i by (simp add: lookup_ptable_def m(2) i_def R_def)
  qed
  moreover have "env_step (defrag_event S) True env (ptable_pages S t) env' (ptable_pages S t')"
    using post by (simp add: ptable_pages_def m(2) env_step_frame_left)
  ultimately show ?thesis
    using post wf by (simp add: wf_ptable_def m(2) env_step_def)
qed

section \<open>Creation and disposal\<close>

lemma unat_root_count: "unat (word_of_nat (root_table_count S) :: usize) = root_table_count S"
  using root_count_le by (simp add: unat_of_nat)

lemma table_pages_replicate: "table_pages S (max_level S) (replicate n (pte_absent S (max_level S))) = {#}"
  using max_level_le by (intro table_pages_leaves) (auto simp: is_table_def pte_absent_def)

lemma sum_list_replicate_empty: "sum_list (replicate n {#}) = {#}"
  by (induction n) simp_all

lemma PageTable_new_spec:
  assumes ok: "env_ok env" and res: "PageTable_new S env = (Ok t, env')"
  shows "wf_ptable S t \<and> env_ok env' \<and> env_pages env = ptable_pages S t + env_pages env' \<and>
    (\<forall>x < space S. \<not> attrs_present S (lookup_ptable S t x))"
proof -
  let ?n = "word_of_nat (root_table_count S) :: usize"
  obtain start m mp where al: "MPool_alloc_pages (mpool env) ?n ?n = (Ok (start, m), mp)"
    and t: "t = \<lparr>root = pa_init start,
       tables = replicate (root_table_count S) (replicate 512 (pte_absent S (max_level S)))\<rparr>"
    and env': "env' = env\<lparr>mpool := mp\<rparr>"
    using res by (auto simp: PageTable_new_def Let_def PTE_PER_PAGE_eq split: outcome.splits prod.splits)
  have n: "unat ?n = root_table_count S" by (rule unat_root_count)
  have mok: "mpool_ok (mpool env)" and fr: "\<forall>page \<in># mpool_pages (mpool env). frame_at 0 page"
    using ok by (simp_all add: env_ok_def)
  have cons: "mpool_ok mp" "mpool_pages (mpool env) = mset (chunk_pages start (root_table_count S)) + mpool_pages mp"
    using MPool_alloc_pages_conserves [OF mok, of ?n ?n] al n root_count_le by simp_all
  have "start \<in> set (chunk_pages start (root_table_count S))"
    using root_count_pos chunk_pages_Suc [of start "root_table_count S - 1"] by simp
  then have "frame_at 0 start"
    using cons(2) fr by (metis in_multiset_in_set mset_subset_eq_add_left mset_subset_eqD)
  then have "chunk_ok (start, ?n)"
    using n root_count_le root_count_pos by (auto simp: chunk_ok_def frame_at_def esize_0 simp flip: unat_eq_zero)
  moreover have "env_ok env'"
    using cons fr by (simp add: env_ok_def env')
  moreover have "ptable_pages S t = mset (chunk_pages start (root_table_count S))"
    by (simp add: ptable_pages_def t sum_list_replicate_empty table_pages_replicate)
  moreover have "\<not> attrs_present S (lookup_ptable S t x)" if "x < space S" for x
  proof -
    have "x div esize (max_level S + 1) < root_table_count S"
      using that by (simp add: space_def less_mult_imp_div_less)
    then show ?thesis
      using absent_entries(3) [OF max_level_le] by (simp add: lookup_ptable_def t)
  qed
  ultimately show ?thesis
    using cons(2) absent_entries(1) [OF max_level_le]
    by (simp add: wf_ptable_def t env_pages_def env')
qed

lemma table_drop_conserves:
  assumes "wf_table S l b ts" "l \<le> 3"
  shows "mpool_pages (table_drop S l ts mp) = table_pages S l ts + mpool_pages mp
    \<and> mpool_ok (table_drop S l ts mp) = mpool_ok mp"
proof -
  have "mpool_pages (fold (pte_drop S l) us mp) = (\<Sum>p \<leftarrow> us. pte_pages S l p) + mpool_pages mp
      \<and> mpool_ok (fold (pte_drop S l) us mp) = mpool_ok mp" if "set us \<subseteq> set ts" for us
    using that
  proof (induction us arbitrary: mp)
    case (Cons u us)
    then obtain i where "i < 512" "u = ts ! i"
      using assms(1) by (auto simp: in_set_conv_nth wf_table_def)
    then have "wf_pte S l (b + word_of_nat i * entry_size l) u"
      using assms(1) by (simp add: wf_table_def)
    then show ?case
      using Cons drop_conserves [of l _ u] assms(2) by simp
  qed simp
  from this [of ts] show ?thesis
    by (simp add: table_drop_def table_pages_def)
qed

lemma tables_drop_conserves:
  assumes "\<And>ts. ts \<in> set tss \<Longrightarrow> \<exists>b. wf_table S l b ts" "l \<le> 3"
  shows "mpool_pages (fold (table_drop S l) tss mp) = (\<Sum>ts \<leftarrow> tss. table_pages S l ts) + mpool_pages mp
    \<and> mpool_ok (fold (table_drop S l) tss mp) = mpool_ok mp"
  using assms(1)
proof (induction tss arbitrary: mp)
  case (Cons ts tss)
  obtain b where "wf_table S l b ts" using Cons.prems [of ts] by auto
  then show ?case
    using Cons table_drop_conserves assms(2) by simp
qed simp

lemma PageTable_drop_spec:
  assumes wf: "wf_ptable S t" and ok: "mpool_ok (mpool env)"
  shows "env_pages (PageTable_drop S t env) = ptable_pages S t + env_pages env
    \<and> mpool_ok (mpool (PageTable_drop S t env))"
proof -
  have "\<exists>b. wf_table S (max_level S) b ts" if "ts \<in> set (tables t)" for ts
    using that wf by (auto simp: wf_ptable_def in_set_conv_nth)
  from tables_drop_conserves [OF this max_level_le] show ?thesis
    using wf ok by (simp add: PageTable_drop_def Let_def env_pages_def ptable_pages_def unat_root_count wf_ptable_def)
qed

end

end
