(* ===== verification/Arch_Aarch64.thy ===== *)
theory Arch_Aarch64
  imports Arch
begin

text \<open>
  The aarch64 page table entries of src/src/arch/aarch64/mm.c: entry encoding, attribute
  encoding of both translation stages, and the choice of the stage-2 geometry made by
  \<open>arch_mm_init\<close>. The instances \<open>aarch64_stage1\<close> and \<open>aarch64_stage2\<close> are shown to satisfy the
  locales of theory Arch.
\<close>

section \<open>Entries\<close>

definition PTE_VALID :: u64 where "PTE_VALID = push_bit 0 1"
definition PTE_LEVEL0_BLOCK :: u64 where "PTE_LEVEL0_BLOCK = push_bit 1 1"
definition PTE_TABLE :: u64 where "PTE_TABLE = push_bit 1 1"

definition STAGE2_SW_OWNED :: u64 where "STAGE2_SW_OWNED = push_bit 55 1"
definition STAGE2_SW_EXCLUSIVE :: u64 where "STAGE2_SW_EXCLUSIVE = push_bit 56 1"

definition PTE_ADDR_MASK :: u64 where
  "PTE_ADDR_MASK = (push_bit 48 1 - 1) AND NOT (push_bit PAGE_BITS 1 - 1)"

definition PTE_ATTR_MASK :: u64 where
  "PTE_ATTR_MASK = NOT (PTE_ADDR_MASK OR push_bit 1 1)"

definition arch_mm_absent_pte :: "nat \<Rightarrow> u64" where
  "arch_mm_absent_pte level = 0"

definition arch_mm_table_pte :: "nat \<Rightarrow> paddr_t \<Rightarrow> u64" where
  "arch_mm_table_pte level p = pa_addr p OR PTE_TABLE OR PTE_VALID"

definition arch_mm_block_pte :: "nat \<Rightarrow> paddr_t \<Rightarrow> u64 \<Rightarrow> u64" where
  "arch_mm_block_pte level p attrs =
     (let pte = pa_addr p OR attrs
      in if level = 0 then pte OR PTE_LEVEL0_BLOCK else pte)"

definition arch_mm_is_block_allowed :: "nat \<Rightarrow> bool" where
  "arch_mm_is_block_allowed level \<longleftrightarrow> level \<le> 2"

definition arch_mm_pte_is_valid :: "u64 \<Rightarrow> nat \<Rightarrow> bool" where
  "arch_mm_pte_is_valid pte level \<longleftrightarrow> pte AND PTE_VALID \<noteq> 0"

definition arch_mm_pte_is_present :: "u64 \<Rightarrow> nat \<Rightarrow> bool" where
  "arch_mm_pte_is_present pte level \<longleftrightarrow>
     arch_mm_pte_is_valid pte level \<or> pte AND STAGE2_SW_OWNED \<noteq> 0"

definition arch_mm_pte_is_table :: "u64 \<Rightarrow> nat \<Rightarrow> bool" where
  "arch_mm_pte_is_table pte level \<longleftrightarrow>
     level \<noteq> 0 \<and> arch_mm_pte_is_valid pte level \<and> pte AND PTE_TABLE \<noteq> 0"

definition arch_mm_pte_is_block :: "u64 \<Rightarrow> nat \<Rightarrow> bool" where
  "arch_mm_pte_is_block pte level \<longleftrightarrow>
     arch_mm_is_block_allowed level \<and>
     (if level = 0 then pte AND PTE_LEVEL0_BLOCK \<noteq> 0
      else arch_mm_pte_is_present pte level \<and> \<not> arch_mm_pte_is_table pte level)"

definition pte_addr :: "u64 \<Rightarrow> u64" where
  "pte_addr pte = pte AND PTE_ADDR_MASK"

definition arch_mm_clear_pa :: "paddr_t \<Rightarrow> paddr_t" where
  "arch_mm_clear_pa p = pa_init (pte_addr (pa_addr p))"

definition arch_mm_block_from_pte :: "u64 \<Rightarrow> nat \<Rightarrow> paddr_t" where
  "arch_mm_block_from_pte pte level = pa_init (pte_addr pte)"

definition arch_mm_table_from_pte :: "u64 \<Rightarrow> nat \<Rightarrow> paddr_t" where
  "arch_mm_table_from_pte pte level = pa_init (pte_addr pte)"

definition arch_mm_pte_attrs :: "u64 \<Rightarrow> nat \<Rightarrow> u64" where
  "arch_mm_pte_attrs pte level = pte AND PTE_ATTR_MASK"

text \<open>Table attributes only apply to stage 1 translations.\<close>

definition arch_mm_combine_table_entry_attrs :: "u64 \<Rightarrow> u64 \<Rightarrow> u64" where
  "arch_mm_combine_table_entry_attrs table_attrs block_attrs =
     (let a = (if table_attrs AND push_bit 63 1 \<noteq> 0 then block_attrs OR push_bit 5 1 else block_attrs);
          b = (if table_attrs AND push_bit 62 1 \<noteq> 0 then a OR push_bit 7 1 else a);
          c = (if table_attrs AND push_bit 61 1 \<noteq> 0 then b AND NOT (push_bit 6 1) else b);
          d = (if table_attrs AND push_bit 60 1 \<noteq> 0 then c OR push_bit 54 1 else c)
      in if table_attrs AND push_bit 59 1 \<noteq> 0 then d OR push_bit 53 1 else d)"

section \<open>Attributes\<close>

definition STAGE1_XN :: u64 where "STAGE1_XN = push_bit 54 1"
definition STAGE1_AF :: u64 where "STAGE1_AF = push_bit 10 1"
definition STAGE1_SH :: "u64 \<Rightarrow> u64" where "STAGE1_SH x = push_bit 8 x"
definition STAGE1_AP :: "u64 \<Rightarrow> u64" where "STAGE1_AP x = push_bit 6 x"
definition STAGE1_ATTRINDX :: "u64 \<Rightarrow> u64" where "STAGE1_ATTRINDX x = push_bit 2 x"
definition OUTER_SHAREABLE :: u64 where "OUTER_SHAREABLE = 2"
definition STAGE1_READONLY :: u64 where "STAGE1_READONLY = 2"
definition STAGE1_READWRITE :: u64 where "STAGE1_READWRITE = 0"
definition STAGE1_DEVICEINDX :: u64 where "STAGE1_DEVICEINDX = 0"
definition STAGE1_NORMALINDX :: u64 where "STAGE1_NORMALINDX = 1"

definition arch_mm_mode_to_stage1_attrs :: "mode \<Rightarrow> u64" where
  "arch_mm_mode_to_stage1_attrs m =
     (STAGE1_AF OR STAGE1_SH OUTER_SHAREABLE)
     OR (if m AND MODE_X = 0 then STAGE1_XN else 0)
     OR (if m AND MODE_W \<noteq> 0 then STAGE1_AP STAGE1_READWRITE else STAGE1_AP STAGE1_READONLY)
     OR (if m AND MODE_D \<noteq> 0 then STAGE1_ATTRINDX STAGE1_DEVICEINDX
         else STAGE1_ATTRINDX STAGE1_NORMALINDX)
     OR (if m AND MODE_INVALID = 0 then PTE_VALID else 0)"

definition STAGE2_XN :: "u64 \<Rightarrow> u64" where "STAGE2_XN x = push_bit 53 x"
definition STAGE2_AF :: u64 where "STAGE2_AF = push_bit 10 1"
definition STAGE2_SH :: "u64 \<Rightarrow> u64" where "STAGE2_SH x = push_bit 8 x"
definition STAGE2_S2AP :: "u64 \<Rightarrow> u64" where "STAGE2_S2AP x = push_bit 6 x"
definition STAGE2_EXECUTE_ALL :: u64 where "STAGE2_EXECUTE_ALL = 0"
definition STAGE2_EXECUTE_NONE :: u64 where "STAGE2_EXECUTE_NONE = 2"
definition STAGE2_EXECUTE_MASK :: u64 where "STAGE2_EXECUTE_MASK = 3"
definition STAGE2_WRITEBACK :: u64 where "STAGE2_WRITEBACK = 3"
definition NON_SHAREABLE :: u64 where "NON_SHAREABLE = 0"
definition STAGE2_ACCESS_READ :: u64 where "STAGE2_ACCESS_READ = 1"
definition STAGE2_ACCESS_WRITE :: u64 where "STAGE2_ACCESS_WRITE = 2"

definition STAGE2_MEMATTR_NORMAL :: "u64 \<Rightarrow> u64 \<Rightarrow> u64" where
  "STAGE2_MEMATTR_NORMAL outer inner = push_bit 2 (push_bit 2 outer OR inner)"

definition arch_mm_mode_to_stage2_attrs :: "mode \<Rightarrow> u64" where
  "arch_mm_mode_to_stage2_attrs m =
     (let access = (if m AND MODE_R \<noteq> 0 then STAGE2_ACCESS_READ else 0)
                   OR (if m AND MODE_W \<noteq> 0 then STAGE2_ACCESS_WRITE else 0)
      in (STAGE2_AF OR STAGE2_SH NON_SHAREABLE)
         OR STAGE2_S2AP access
         OR (if m AND MODE_X \<noteq> 0 then STAGE2_XN STAGE2_EXECUTE_ALL
             else STAGE2_XN STAGE2_EXECUTE_NONE)
         OR STAGE2_MEMATTR_NORMAL STAGE2_WRITEBACK STAGE2_WRITEBACK
         OR (if m AND MODE_UNOWNED = 0 then STAGE2_SW_OWNED else 0)
         OR (if m AND MODE_SHARED = 0 then STAGE2_SW_EXCLUSIVE else 0)
         OR (if m AND MODE_INVALID = 0 then PTE_VALID else 0))"

definition arch_mm_stage2_attrs_to_mode :: "u64 \<Rightarrow> mode" where
  "arch_mm_stage2_attrs_to_mode attrs =
     (if attrs AND STAGE2_S2AP STAGE2_ACCESS_READ \<noteq> 0 then MODE_R else 0)
     OR (if attrs AND STAGE2_S2AP STAGE2_ACCESS_WRITE \<noteq> 0 then MODE_W else 0)
     OR (if attrs AND STAGE2_XN STAGE2_EXECUTE_MASK = STAGE2_XN STAGE2_EXECUTE_ALL
         then MODE_X else 0)
     OR (if attrs AND STAGE2_SW_OWNED = 0 then MODE_UNOWNED else 0)
     OR (if attrs AND STAGE2_SW_EXCLUSIVE = 0 then MODE_SHARED else 0)
     OR (if attrs AND PTE_VALID = 0 then MODE_INVALID else 0)"

section \<open>Geometry\<close>

text \<open>
  \<open>arch_mm_init\<close>: the number of stage-2 levels and concatenated root tables for the physical
  address range announced by \<open>id_aa64mmfr0_el1\<close>. The remaining entries of the 16-entry table
  are zero. The register values it also prepares (\<open>vtcr\<close>, \<open>tcr\<close>, \<open>mair\<close>, \<open>sctlr\<close>) are not
  modelled.
\<close>

definition pa_bits_table :: "nat list" where
  "pa_bits_table = [32, 36, 40, 42, 44, 48, 0, 0, 0, 0, 0, 0, 0, 0, 0, 0]"

definition arch_mm_init :: "u64 \<Rightarrow> (nat \<times> nat) option" where
  "arch_mm_init features =
     (let pa_bits = pa_bits_table ! unat (features AND 0xf)
      in if drop_bit 28 features AND 0xf \<noteq> 0 then None
         else if pa_bits = 0 then None
         else
           let mm_s2_max_level = (if pa_bits \<ge> 44 then 3 else if pa_bits \<ge> 35 then 2 else 1);
               extend_bits = (pa_bits - PAGE_BITS) mod PAGE_LEVEL_BITS;
               extend_bits = (if extend_bits > 4 then 0 else extend_bits)
           in Some (mm_s2_max_level, 2 ^ extend_bits))"

definition aarch64_stage1 :: stage where
  "aarch64_stage1 = \<lparr>
     kind = Stage1,
     absent_pte = arch_mm_absent_pte,
     table_pte = arch_mm_table_pte,
     block_pte = arch_mm_block_pte,
     is_block_allowed = arch_mm_is_block_allowed,
     pte_is_present = arch_mm_pte_is_present,
     pte_is_valid = arch_mm_pte_is_valid,
     pte_is_block = arch_mm_pte_is_block,
     pte_is_table = arch_mm_pte_is_table,
     clear_pa = arch_mm_clear_pa,
     block_from_pte = arch_mm_block_from_pte,
     table_from_pte = arch_mm_table_from_pte,
     pte_attrs = arch_mm_pte_attrs,
     combine_table_entry_attrs = arch_mm_combine_table_entry_attrs,
     max_level = 2,
     root_table_count = 1,
     mode_to_attrs = arch_mm_mode_to_stage1_attrs,
     attrs_to_mode = (\<lambda>_. Panic) \<rparr>"

text \<open>\<open>Mode::from_bits_truncate\<close> drops the bits that \<open>Mode\<close> does not declare.\<close>

definition aarch64_stage2 :: "nat \<Rightarrow> nat \<Rightarrow> stage" where
  "aarch64_stage2 ml rc = aarch64_stage1 \<lparr>
     kind := Stage2,
     max_level := ml,
     root_table_count := rc,
     mode_to_attrs := arch_mm_mode_to_stage2_attrs,
     attrs_to_mode := (\<lambda>attrs. Ok (arch_mm_stage2_attrs_to_mode attrs AND MODE_ALL)) \<rparr>"

section \<open>Entries, bit by bit\<close>

lemma and_push_bit_1: "w AND push_bit n 1 \<noteq> 0 \<longleftrightarrow> bit w n" for w :: "'a::len word"
  by (simp add: bit_iff_and_push_bit_not_eq_0)

lemma frame_bits:
  assumes "frame_at l p" "bit p n"
  shows "12 + 9 * l \<le> n \<and> n < 48"
proof -
  have "unat (p AND mask (12 + 9 * l)) = 0"
    using assms(1) by (simp add: unat_and_mask frame_at_def esize_def dvd_eq_mod_eq_0)
  then have low: "p AND mask (12 + 9 * l) = 0"
    by (simp only: unat_eq_zero)
  have "unat (drop_bit 48 p) = 0"
    using assms(1) by (simp add: unat_drop_bit frame_at_def del: drop_bit_eq_div)
  then have high: "drop_bit 48 p = 0"
    by (simp only: unat_eq_zero)
  have "\<not> n < 12 + 9 * l"
  proof
    assume "n < 12 + 9 * l"
    moreover have "n < 64" using assms(2) by (auto dest: bit_imp_le_length)
    ultimately have "bit (p AND mask (12 + 9 * l)) n"
      using assms(2) by (simp add: bit_simps)
    with low show False by simp
  qed
  moreover have "\<not> 48 \<le> n"
  proof
    assume "48 \<le> n"
    then have "bit (drop_bit 48 p) (n - 48)"
      using assms(2) by (simp add: bit_simps)
    with high show False by simp
  qed
  ultimately show ?thesis by simp
qed

lemma bit_PTE_ADDR_MASK: "bit PTE_ADDR_MASK n \<longleftrightarrow> 12 \<le> n \<and> n < 48"
  unfolding PTE_ADDR_MASK_def push_bit_1_minus_1 PAGE_BITS_def
  by (auto simp: bit_simps)

lemma bit_PTE_ATTR_MASK: "bit PTE_ATTR_MASK n \<longleftrightarrow> n < 64 \<and> n \<noteq> 1 \<and> \<not> (12 \<le> n \<and> n < 48)"
  unfolding PTE_ATTR_MASK_def by (auto simp: bit_simps bit_PTE_ADDR_MASK)

lemma valid_bit: "arch_mm_pte_is_valid w l \<longleftrightarrow> bit w 0"
  unfolding arch_mm_pte_is_valid_def PTE_VALID_def by (rule and_push_bit_1)

lemma present_bits: "arch_mm_pte_is_present w l \<longleftrightarrow> bit w 0 \<or> bit w 55"
  unfolding arch_mm_pte_is_present_def valid_bit STAGE2_SW_OWNED_def and_push_bit_1 by simp

lemma table_bits: "arch_mm_pte_is_table w l \<longleftrightarrow> l \<noteq> 0 \<and> bit w 0 \<and> bit w 1"
  unfolding arch_mm_pte_is_table_def valid_bit PTE_TABLE_def and_push_bit_1 by simp

lemma block_bits: "arch_mm_pte_is_block w l \<longleftrightarrow>
  l \<le> 2 \<and> (if l = 0 then bit w 1 else (bit w 0 \<or> bit w 55) \<and> \<not> (bit w 0 \<and> bit w 1))"
  unfolding arch_mm_pte_is_block_def present_bits table_bits arch_mm_is_block_allowed_def
    PTE_LEVEL0_BLOCK_def and_push_bit_1 by simp

lemma bit_attrs: "bit (arch_mm_pte_attrs w l) n \<longleftrightarrow> bit w n \<and> n \<noteq> 1 \<and> \<not> (12 \<le> n \<and> n < 48)"
  unfolding arch_mm_pte_attrs_def by (auto simp: bit_simps bit_PTE_ATTR_MASK dest: bit_imp_le_length)

lemma bit_pte_addr: "bit (pte_addr w) n \<longleftrightarrow> bit w n \<and> 12 \<le> n \<and> n < 48"
  unfolding pte_addr_def by (auto simp: bit_simps bit_PTE_ADDR_MASK)

lemma bit_table_pte: "bit (arch_mm_table_pte l p) n \<longleftrightarrow> bit (pa_addr p) n \<or> n = 0 \<or> n = 1"
  unfolding arch_mm_table_pte_def PTE_TABLE_def PTE_VALID_def bit_or_iff bit_push_bit_iff
  by (auto simp: bit_1_iff)

lemma bit_block_pte: "bit (arch_mm_block_pte l p at) n \<longleftrightarrow>
  bit (pa_addr p) n \<or> bit at n \<or> l = 0 \<and> n = 1"
  unfolding arch_mm_block_pte_def PTE_LEVEL0_BLOCK_def by (auto simp: bit_simps Let_def)

lemma attrs_ok_bits:
  assumes "arch_mm_pte_attrs at 0 = at" "bit at n"
  shows "n \<noteq> 1 \<and> \<not> (12 \<le> n \<and> n < 48)"
  using assms bit_attrs [of at 0 n] by simp

lemma combine_no_table_attrs:
  assumes "\<And>n. n \<in> {59, 60, 61, 62, 63} \<Longrightarrow> \<not> bit ta n"
  shows "arch_mm_combine_table_entry_attrs ta at = at"
  using assms unfolding arch_mm_combine_table_entry_attrs_def Let_def and_push_bit_1 by simp

lemma split_block:
  assumes "frame_at (Suc l) p" "arch_mm_pte_attrs at 0 = at" "i < 512" "l < 3"
  shows "arch_mm_block_pte l (pa_init (arch_mm_block_pte (Suc l) (pa_init p) at
           + word_of_nat i * entry_size l)) at =
         arch_mm_block_pte l (pa_init (p + word_of_nat i * entry_size l)) at"
proof -
  let ?o = "word_of_nat i * entry_size l :: usize"
  have f: "frame_at l (p + ?o)"
    using assms by (intro frame_child) simp_all
  have "at AND p = 0"
    by (rule bit_word_eqI) (auto simp: bit_simps dest!: attrs_ok_bits [OF assms(2)] frame_bits [OF assms(1)])
  then have "arch_mm_block_pte (Suc l) (pa_init p) at = at + p"
    by (simp add: arch_mm_block_pte_def disjunctive_add_eq_or or.commute)
  moreover have "at AND (p + ?o) = 0"
    by (rule bit_word_eqI) (auto simp: bit_simps dest!: attrs_ok_bits [OF assms(2)] frame_bits [OF f])
  then have "at + (p + ?o) = at OR (p + ?o)"
    by (rule disjunctive_add_eq_or)
  ultimately show ?thesis
    by (simp add: arch_mm_block_pte_def add.assoc Let_def) (simp add: or.assoc or.commute or.left_commute)
qed

section \<open>Both stages satisfy the page table contracts\<close>

lemmas aarch64_bits = valid_bit present_bits table_bits block_bits bit_attrs bit_pte_addr
  bit_table_pte bit_block_pte arch_mm_is_block_allowed_def

lemma table_entry_attrs_bits:
  assumes "frame_at 0 p" "bit (arch_mm_pte_attrs (arch_mm_table_pte l (pa_init p)) l) n"
  shows "n = 0"
  using assms by (auto simp: aarch64_bits dest: frame_bits)

lemma combine_table_entry:
  assumes "frame_at 0 p"
  shows "arch_mm_combine_table_entry_attrs (arch_mm_pte_attrs (arch_mm_table_pte l (pa_init p)) l) at = at"
  by (rule combine_no_table_attrs) (auto dest!: table_entry_attrs_bits [OF assms])

lemma block_entry_attrs:
  assumes "frame_at l p" "arch_mm_pte_attrs at 0 = at"
  shows "arch_mm_pte_attrs (arch_mm_block_pte l (pa_init p) at) l = at"
proof (rule bit_word_eqI)
  fix n
  show "bit (arch_mm_pte_attrs (arch_mm_block_pte l (pa_init p) at) l) n = bit at n"
    using frame_bits [OF assms(1), of n] attrs_ok_bits [OF assms(2), of n]
    by (auto simp: aarch64_bits)
qed

lemma block_entry_addr:
  assumes "frame_at l p" "arch_mm_pte_attrs at 0 = at"
  shows "arch_mm_block_from_pte (arch_mm_block_pte l (pa_init p) at) l = pa_init p"
proof -
  have "pte_addr (arch_mm_block_pte l (pa_init p) at) = p"
  proof (rule bit_word_eqI)
    fix n
    show "bit (pte_addr (arch_mm_block_pte l (pa_init p) at)) n = bit p n"
      using frame_bits [OF assms(1), of n] attrs_ok_bits [OF assms(2), of n]
      by (auto simp: aarch64_bits)
  qed
  then show ?thesis by (simp add: arch_mm_block_from_pte_def)
qed

lemma table_entry_addr:
  assumes "frame_at 0 p"
  shows "arch_mm_table_from_pte (arch_mm_table_pte l (pa_init p)) l = pa_init p"
proof -
  have "pte_addr (arch_mm_table_pte l (pa_init p)) = p"
  proof (rule bit_word_eqI)
    fix n
    show "bit (pte_addr (arch_mm_table_pte l (pa_init p))) n = bit p n"
      using frame_bits [OF assms, of n] by (auto simp: aarch64_bits)
  qed
  then show ?thesis by (simp add: arch_mm_table_from_pte_def)
qed

lemma clear_pa_rounds:
  assumes "unat (pa_addr a) < 2 ^ 48"
  shows "unat (pa_addr (arch_mm_clear_pa a)) = unat (pa_addr a) div 4096 * 4096"
proof -
  have h: "drop_bit 48 (pa_addr a) = 0"
    using assms unat_drop_bit [of 48 "pa_addr a"] by (simp only: flip: unat_eq_zero) simp
  have "n < 48" if "bit (pa_addr a) n" for n
    using arg_cong [OF h, of "\<lambda>w. bit w (n - 48)"] that by (cases "n < 48") (simp_all add: bit_simps)
  then have "pte_addr (pa_addr a) = pa_addr a AND NOT (mask 12)"
    by (intro bit_word_eqI) (auto simp: bit_simps bit_pte_addr not_le)
  then show ?thesis
    using unat_and_not_mask [of "pa_addr a" 12] by (simp add: arch_mm_clear_pa_def)
qed

lemma stage1_attrs_ok: "arch_mm_pte_attrs (arch_mm_mode_to_stage1_attrs m) 0 = arch_mm_mode_to_stage1_attrs m"
  unfolding arch_mm_pte_attrs_def arch_mm_mode_to_stage1_attrs_def PTE_ATTR_MASK_def PTE_ADDR_MASK_def
    PAGE_BITS_def STAGE1_AF_def STAGE1_SH_def STAGE1_AP_def STAGE1_ATTRINDX_def STAGE1_XN_def
    OUTER_SHAREABLE_def STAGE1_READONLY_def STAGE1_READWRITE_def STAGE1_DEVICEINDX_def
    STAGE1_NORMALINDX_def PTE_VALID_def
  by (simp split: if_splits)

lemma stage2_attrs_ok: "arch_mm_pte_attrs (arch_mm_mode_to_stage2_attrs m) 0 = arch_mm_mode_to_stage2_attrs m"
  unfolding arch_mm_pte_attrs_def arch_mm_mode_to_stage2_attrs_def PTE_ATTR_MASK_def PTE_ADDR_MASK_def
    PAGE_BITS_def STAGE2_AF_def STAGE2_SH_def STAGE2_S2AP_def STAGE2_MEMATTR_NORMAL_def STAGE2_XN_def
    NON_SHAREABLE_def STAGE2_EXECUTE_ALL_def STAGE2_EXECUTE_NONE_def STAGE2_WRITEBACK_def
    STAGE2_ACCESS_READ_def STAGE2_ACCESS_WRITE_def STAGE2_SW_OWNED_def STAGE2_SW_EXCLUSIVE_def
    PTE_VALID_def Let_def
  by (simp split: if_splits)

lemma attrs_of_0 [simp]: "arch_mm_pte_attrs 0 l = 0"
  by (simp add: arch_mm_pte_attrs_def)

lemma pte_split_aarch64:
  assumes "\<And>m. arch_mm_pte_attrs (f m) 0 = f m"
    and S: "S = aarch64_stage1 \<lparr> kind := k, max_level := ml, root_table_count := rc,
      mode_to_attrs := f, attrs_to_mode := g \<rparr>"
  shows "pte_split S"
  unfolding S
  apply unfold_locales
  apply (simp_all add: aarch64_stage1_def attrs_ok_def attrs_present_def attrs_valid_def assms(1))
  apply (auto simp: aarch64_bits arch_mm_absent_pte_def clear_pa_rounds block_entry_attrs block_entry_addr
   table_entry_addr split_block combine_table_entry dest: frame_bits attrs_ok_bits)
  done

lemma mm_stage_aarch64_stage1: "mm_stage aarch64_stage1"
proof -
  have "pte_split aarch64_stage1"
    by (rule pte_split_aarch64 [OF stage1_attrs_ok]) (simp add: aarch64_stage1_def)
  then show ?thesis
    by (intro mm_stage.intro) (simp_all add: mm_stage_axioms_def aarch64_stage1_def esize_def)
qed

lemma mm_stage_aarch64_stage2:
  assumes "ml \<le> 3" "0 < rc" "rc \<le> 255" "rc * esize (ml + 1) \<le> 2 ^ 48"
  shows "mm_stage (aarch64_stage2 ml rc)"
proof -
  have "pte_split (aarch64_stage2 ml rc)"
    by (rule pte_split_aarch64 [OF stage2_attrs_ok]) (simp add: aarch64_stage2_def aarch64_stage1_def)
  then show ?thesis
    using assms by (intro mm_stage.intro) (simp_all add: mm_stage_axioms_def aarch64_stage2_def)
qed

interpretation s1: mm_stage aarch64_stage1
  by (rule mm_stage_aarch64_stage1)

interpretation s2: mm_stage "aarch64_stage2 2 2"
  by (rule mm_stage_aarch64_stage2) (simp_all add: esize_def)

section \<open>Geometry and modes\<close>

lemma pa_bits_cases:
  assumes "i < 16" "pa_bits_table ! i \<noteq> 0"
  shows "(i, pa_bits_table ! i) \<in> {(0, 32), (1, 36), (2, 40), (3, 42), (4, 44), (5, 48)}"
  using assms unfolding pa_bits_table_def
  by (auto simp: nth_Cons' split: if_splits)

lemma arch_mm_init_cases:
  assumes "arch_mm_init features = Some (ml, rc)"
  shows "(pa_bits_table ! unat (features AND 0xf), ml, rc)
    \<in> {(32, 1, 4), (36, 2, 1), (40, 2, 2), (42, 2, 8), (44, 3, 1), (48, 3, 1)}"
proof -
  have "features AND 0xf = features AND mask 4" by (simp add: mask_eq_decr_exp)
  then have "unat (features AND 0xf) < 16"
    using unat_and_mask [of features 4] by simp
  from pa_bits_cases [OF this] show ?thesis
    using assms unfolding arch_mm_init_def Let_def PAGE_BITS_def PAGE_LEVEL_BITS_def
    by (auto split: if_splits)
qed

lemma and_single: "m AND push_bit i 1 = (if bit m i then push_bit i 1 else 0)" for m :: "'a::len word"
  by (rule bit_word_eqI) (auto simp: bit_simps bit_1_iff)

lemma mode_bits:
  "m AND MODE_R = (if bit m 0 then 0x01 else 0)"
  "m AND MODE_W = (if bit m 1 then 0x02 else 0)"
  "m AND MODE_X = (if bit m 2 then 0x04 else 0)"
  "m AND MODE_D = (if bit m 3 then 0x08 else 0)"
  "m AND MODE_INVALID = (if bit m 4 then 0x10 else 0)"
  "m AND MODE_UNOWNED = (if bit m 5 then 0x20 else 0)"
  "m AND MODE_SHARED = (if bit m 6 then 0x40 else 0)"
  using and_single [of m 0] and_single [of m 1] and_single [of m 2] and_single [of m 3]
    and_single [of m 4] and_single [of m 5] and_single [of m 6]
  by (simp_all add: mode_defs)

lemma mode_without_D:
  "m AND NOT MODE_D AND MODE_ALL = (m AND MODE_R) OR (m AND MODE_W) OR (m AND MODE_X)
      OR (m AND MODE_UNOWNED) OR (m AND MODE_SHARED) OR (m AND MODE_INVALID)"
proof -
  have "NOT MODE_D AND MODE_ALL = MODE_R OR MODE_W OR MODE_X OR MODE_UNOWNED OR MODE_SHARED OR MODE_INVALID"
    by (simp add: mode_defs)
  then show ?thesis
    by (simp only: and.assoc bit.conj_disj_distrib)
qed

lemmas stage2_attr_defs = STAGE2_AF_def STAGE2_SH_def STAGE2_S2AP_def STAGE2_MEMATTR_NORMAL_def
  STAGE2_XN_def NON_SHAREABLE_def STAGE2_EXECUTE_ALL_def STAGE2_EXECUTE_NONE_def
  STAGE2_EXECUTE_MASK_def STAGE2_WRITEBACK_def STAGE2_ACCESS_READ_def STAGE2_ACCESS_WRITE_def
  STAGE2_SW_OWNED_def STAGE2_SW_EXCLUSIVE_def PTE_VALID_def

lemma stage2_attrs_to_mode:
  "arch_mm_stage2_attrs_to_mode (arch_mm_mode_to_stage2_attrs m) = m AND NOT MODE_D AND MODE_ALL"
  unfolding mode_without_D arch_mm_stage2_attrs_to_mode_def arch_mm_mode_to_stage2_attrs_def
    mode_bits Let_def
  unfolding mode_defs stage2_attr_defs
  by (cases "bit m 0"; cases "bit m 1"; cases "bit m 2"; cases "bit m 4"; cases "bit m 5"; cases "bit m 6"; simp)

section \<open>Properties\<close>

text \<open>
  C30. Whenever \<open>arch_mm_init\<close> accepts the memory features of the machine, the stage-2 tables it
  chooses cover the whole physical address range announced by the hardware, stay below the
  48 bits an entry can hold, and the resulting stage satisfies every assumption of the page
  table code.
\<close>

theorem arch_mm_init_geometry:
  assumes "arch_mm_init features = Some (ml, rc)"
  shows "2 ^ (pa_bits_table ! unat (features AND 0xf)) \<le> rc * esize (ml + 1)
    \<and> rc * esize (ml + 1) \<le> 2 ^ 48 \<and> rc \<in> {1, 2, 4, 8} \<and> mm_stage (aarch64_stage2 ml rc)"
proof -
  have "2 ^ (pa_bits_table ! unat (features AND 0xf)) \<le> rc * esize (ml + 1)
    \<and> rc * esize (ml + 1) \<le> 2 ^ 48 \<and> rc \<in> {1, 2, 4, 8} \<and> ml \<le> 3"
    using arch_mm_init_cases [OF assms] by (auto simp: esize_def)
  then show ?thesis
    by (auto intro: mm_stage_aarch64_stage2)
qed

theorem arch_mm_init_geometry_witness:
  "arch_mm_init 0x101122 = Some (2, 2) \<and> (2::nat) ^ 40 \<le> 2 * esize 3 \<and> mm_stage (aarch64_stage2 2 2)"
proof -
  have "arch_mm_init 0x101122 = Some (2, 2)"
    by (simp add: arch_mm_init_def pa_bits_table_def PAGE_BITS_def PAGE_LEVEL_BITS_def)
  with arch_mm_init_geometry [OF this] show ?thesis
    by (simp add: pa_bits_table_def)
qed

text \<open>
  Stage-2 attributes remember the mode they encode: reading back the attributes of a mode
  gives that mode, without the device bit (which stage-2 attributes do not record) and without
  undeclared bits.
\<close>

lemma stage2_mode_roundtrip:
  "attrs_to_mode (aarch64_stage2 ml rc) (mode_to_attrs (aarch64_stage2 ml rc) m) =
     Ok (m AND NOT MODE_D AND MODE_ALL)"
  by (simp add: aarch64_stage2_def stage2_attrs_to_mode) (simp add: and.assoc)

end
