(* ===== verification/Page_Table_Props.thy ===== *)
theory Page_Table_Props
  imports Page_Table_Query Arch_Aarch64
begin

text \<open>
  The properties of the page tables, for the stages of the aarch64 hypervisor: its own stage-1
  tables, and the stage-2 tables with the geometry that \<open>arch_mm_init\<close> chose.
\<close>

section \<open>The stages in use\<close>

definition hf_stage :: "stage \<Rightarrow> bool" where
  "hf_stage S \<longleftrightarrow>
     S = aarch64_stage1 \<or> (\<exists>features ml rc. arch_mm_init features = Some (ml, rc) \<and> S = aarch64_stage2 ml rc)"

text \<open>The bounds of the pages that a call on the range from \<open>begin\<close> to \<open>e\<close> touches.\<close>

definition in_pages :: "paddr_t \<Rightarrow> paddr_t \<Rightarrow> nat \<Rightarrow> bool" where
  "in_pages begin e x \<longleftrightarrow>
     unat (pa_addr begin) div 4096 * 4096 \<le> x \<and> x < (unat (pa_addr e) + 4095) div 4096 * 4096"

text \<open>A stage, a table and two environments on which the properties are exercised.\<close>

definition demo_stage :: stage where
  "demo_stage = aarch64_stage2 2 2"

definition demo_table :: ptable where
  "demo_table = \<lparr>root = pa_init 0x8000, tables = replicate 2 (replicate 512 (pte_absent demo_stage 2))\<rparr>"

definition demo_env :: menv where
  "demo_env = \<lparr>mpool = MPool_new, stage2_invalidate = True, trace = []\<rparr>"

definition demo_reduce :: "('a \<Rightarrow> 'a \<Rightarrow> 'a) \<Rightarrow> 'a list \<Rightarrow> 'a option" where
  "demo_reduce f xs = (case xs of [] \<Rightarrow> None | y # ys \<Rightarrow> Some (foldl f y ys))"

lemma hf_stage_mm: "hf_stage S \<Longrightarrow> mm_stage S"
  unfolding hf_stage_def
proof (elim disjE exE conjE)
  assume "S = aarch64_stage1"
  then show ?thesis by (simp add: mm_stage_aarch64_stage1)
next
  fix features ml rc
  assume "arch_mm_init features = Some (ml, rc)" "S = aarch64_stage2 ml rc"
  then show ?thesis
    using arch_mm_init_cases [of features ml rc]
    by (auto simp: esize_def intro!: mm_stage_aarch64_stage2)
qed

lemma demo_stage_hf: "hf_stage demo_stage"
proof -
  have "arch_mm_init 0x101122 = Some (2, 2)"
    by (simp add: arch_mm_init_def pa_bits_table_def PAGE_BITS_def PAGE_LEVEL_BITS_def)
  then show ?thesis by (auto simp: hf_stage_def demo_stage_def)
qed

lemma demo_fields [simp]:
  "max_level demo_stage = 2" "root_table_count demo_stage = 2" "kind demo_stage = Stage2"
  "absent_pte demo_stage = arch_mm_absent_pte" "pte_is_present demo_stage = arch_mm_pte_is_present"
  "pte_is_valid demo_stage = arch_mm_pte_is_valid" "pte_is_block demo_stage = arch_mm_pte_is_block"
  "pte_is_table demo_stage = arch_mm_pte_is_table" "is_block_allowed demo_stage = arch_mm_is_block_allowed"
  "mode_to_attrs demo_stage = arch_mm_mode_to_stage2_attrs" "clear_pa demo_stage = arch_mm_clear_pa"
  "pte_attrs demo_stage = arch_mm_pte_attrs" "block_pte demo_stage = arch_mm_block_pte"
  by (simp_all add: demo_stage_def aarch64_stage2_def aarch64_stage1_def)

lemma demo_space: "space demo_stage = 2 ^ 40"
  by (simp add: space_def esize_def)

lemma demo_wf: "wf_ptable demo_stage demo_table"
  using mm_stage.absent_entries(1) [OF hf_stage_mm [OF demo_stage_hf], of 2]
  by (simp add: wf_ptable_def demo_table_def chunk_ok_def)

lemma demo_env_ok: "env_ok demo_env"
  by (simp add: env_ok_def demo_env_def MPool_new_def Pool_new_def pool_ok_def pool_pages_def)

lemma demo_addresses:
  "min (round_up_to_page 0x40000000) (ptable_addr_space_end demo_stage) = 0x40000000"
  "min (round_up_to_page 0x1000) (ptable_addr_space_end demo_stage) = 0x1000"
  "pa_addr (arch_mm_clear_pa (pa_init 0)) = 0"
  by (simp_all add: round_up_to_page_def round_down_to_page_def PAGE_SIZE_def PAGE_BITS_def min_def
      ptable_addr_space_end_def entry_size_def PAGE_LEVEL_BITS_def arch_mm_clear_pa_def pte_addr_def Let_def)

text \<open>Mapping the first gigabyte needs no new table; mapping one page needs two.\<close>

lemma demo_replicate: "replicate 512 p = p # replicate 511 p"
  using replicate_Suc [of 511 p] by simp

lemma demo_sizes:
  "index 0 3 = 0" "index 0 2 = 0" "entry_size 2 = 0x40000000" "entry_size 3 = 0x8000000000"
  "level_end 0 2 = 0x8000000000" "start_of_next_block 0 0x40000000 = 0x40000000"
  "start_of_next_block 0 0x8000000000 = 0x8000000000"
  by (simp_all add: index_def entry_size_def level_end_def start_of_next_block_def PAGE_BITS_def PAGE_LEVEL_BITS_def)

lemma demo_flags: "flags_contains 0 FLAG_UNMAP = False" "flags_contains 0 FLAG_COMMIT = False"
  "flags_contains FLAG_COMMIT FLAG_UNMAP = False" "flags_contains FLAG_COMMIT FLAG_COMMIT = True"
  by (simp_all add: flags_contains_def FLAG_UNMAP_def FLAG_COMMIT_def)

lemma demo_absent: "\<not> is_block demo_stage (pte_absent demo_stage 2) 2" "\<not> is_table demo_stage (pte_absent demo_stage 2) 2"
  by (simp_all add: is_block_def is_table_def pte_absent_def arch_mm_absent_pte_def block_bits table_bits)

lemma map_level_2: "map_level S e at flags 2 = map_table S (map_level S e at flags 1) e at 2 flags"
  by (simp add: numeral_2_eq_2)

lemma replicate_2: "replicate 2 x = [x, x]"
  by (simp add: numeral_2_eq_2)

lemma for_blocks_done [simp]: "e \<le> b \<Longrightarrow> for_blocks f b e bs xs env = (Ok (), xs, env)"
  by (cases xs) simp_all

lemma demo_level:
  "map_level demo_stage 0x40000000 at 0 2 0 (replicate 512 (pte_absent demo_stage 2)) env =
     (Ok (), replicate 512 (pte_absent demo_stage 2), env)"
  "fst (map_level demo_stage 0x40000000 at FLAG_COMMIT 2 0 (replicate 512 (pte_absent demo_stage 2)) env) = Ok ()"
  "map_level demo_stage 0x1000 at 0 2 0 (replicate 512 (pte_absent demo_stage 2)) demo_env =
     (Err (), replicate 512 (pte_absent demo_stage 2), demo_env)"
  unfolding map_level_2 map_table_def Let_def demo_sizes demo_replicate
  by (simp_all add: map_entry_def demo_flags demo_absent demo_sizes min_def arch_mm_is_block_allowed_def
      populate_table_def demo_env_def MPool_new_def Pool_alloc_def Pool_new_def case_prod_beta)

lemma demo_root:
  "map_root demo_stage 0 0x40000000 at 3 0 demo_table env = (Ok (), demo_table, env)"
  "fst (map_root demo_stage 0 0x40000000 at 3 FLAG_COMMIT demo_table env) = Ok ()"
  "map_root demo_stage 0 0x1000 at 3 0 demo_table demo_env = (Err (), demo_table, demo_env)"
  using demo_level [of at]
  unfolding map_root_def Let_def demo_sizes demo_table_def
  by (simp_all add: replicate_2 case_prod_beta demo_sizes split: outcome.splits)

lemma demo_map_ok: "\<exists>t' env'. identity_map demo_stage (pa_init 0) (pa_init 0x40000000) m demo_table demo_env = (Ok (), t', env')"
proof -
  obtain t1 env1 where "map_root demo_stage 0 0x40000000 (arch_mm_mode_to_stage2_attrs m) 3 FLAG_COMMIT demo_table demo_env = (Ok (), t1, env1)"
    using demo_root(2) [of "arch_mm_mode_to_stage2_attrs m" demo_env] by (metis fst_conv surj_pair)
  then show ?thesis
    unfolding identity_map_def identity_update_def Let_def demo_fields pa_addr_init demo_addresses
    by (simp add: demo_root(1))
qed

lemma demo_map_err: "identity_map demo_stage (pa_init 0) (pa_init 0x1000) MODE_R demo_table demo_env = (Err (), demo_table, demo_env)"
  using demo_root(3)
  unfolding identity_map_def identity_update_def Let_def demo_fields pa_addr_init demo_addresses
  by simp

lemma flags_0 [simp]: "\<not> flags_contains 0 FLAG_COMMIT" "\<not> flags_contains 0 FLAG_UNMAP"
  "\<not> flags_contains FLAG_UNMAP FLAG_COMMIT" "flags_contains FLAG_UNMAP FLAG_UNMAP"
  by (simp_all add: flags_contains_def FLAG_UNMAP_def FLAG_COMMIT_def)

lemma identity_map_facts:
  assumes "hf_stage S" "wf_ptable S t" "env_ok env" "unat (pa_addr begin) < space S" "unat (pa_addr e) + 4095 < 2 ^ 64"
    and "identity_map S begin e m t env = (r, t', env')"
  shows "wf_ptable S t' \<and> r \<noteq> Panic \<and> root t' = root t \<and>
    view_step S (r = Ok ()) False (mode_to_attrs S m) (unat (pa_addr begin) div 4096 * 4096)
      ((unat (pa_addr e) + 4095) div 4096 * 4096) r 0 (space S) (lookup_ptable S t) (lookup_ptable S t') \<and>
    env_step (bbm_safe S) (r \<noteq> Ok ()) env (ptable_pages S t) env' (ptable_pages S t')"
proof -
  have mm: "mm_stage S" using assms(1) by (rule hf_stage_mm)
  then have "attrs_ok S (mode_to_attrs S m)"
    by (simp add: mm_stage_def pte_split_def pte_codec.mode_attrs_ok)
  then show ?thesis
    using mm_stage.identity_update_spec [OF mm _ _ assms(2,3) _ assms(4,5), of 0 False "mode_to_attrs S m" r t' env'] assms(6)
    by (simp add: identity_map_def)
qed

lemma unmap_facts:
  assumes "hf_stage S" "wf_ptable S t" "env_ok env" "unat (pa_addr begin) < space S" "unat (pa_addr e) + 4095 < 2 ^ 64"
    and "PageTable_unmap S begin e t env = (r, t', env')"
  shows "wf_ptable S t' \<and> r \<noteq> Panic \<and> root t' = root t \<and>
    view_step S (r = Ok ()) True (mode_to_attrs S (MODE_UNOWNED OR MODE_INVALID OR MODE_SHARED))
      (unat (pa_addr begin) div 4096 * 4096) ((unat (pa_addr e) + 4095) div 4096 * 4096)
      r 0 (space S) (lookup_ptable S t) (lookup_ptable S t') \<and>
    env_step (bbm_safe S) True env (ptable_pages S t) env' (ptable_pages S t')"
proof -
  have mm: "mm_stage S" using assms(1) by (rule hf_stage_mm)
  then have "attrs_ok S (mode_to_attrs S m)" for m
    by (simp add: mm_stage_def pte_split_def pte_codec.mode_attrs_ok)
  then show ?thesis
    using mm_stage.identity_update_spec [OF mm _ _ assms(2,3) _ assms(4,5), of FLAG_UNMAP True
        "mode_to_attrs S (MODE_UNOWNED OR MODE_INVALID OR MODE_SHARED)" r t' env'] assms(6)
    by (simp add: PageTable_unmap_def)
qed

lemma demo_unmap_ok:
  "\<exists>t' env'. PageTable_unmap demo_stage (pa_init 0) (pa_init 0x40000000) demo_table demo_env = (Ok (), t', env')"
proof -
  have np: "\<not> is_present demo_stage (pte_absent demo_stage 2) 2"
    by (simp add: is_present_def pte_absent_def arch_mm_absent_pte_def present_bits)
  have "map_level demo_stage 0x40000000 at flags 2 0 (replicate 512 (pte_absent demo_stage 2)) env =
      (Ok (), replicate 512 (pte_absent demo_stage 2), env)" if "flags_contains flags FLAG_UNMAP" for at flags env
    unfolding map_level_2 map_table_def Let_def demo_sizes demo_replicate
    using that by (simp add: map_entry_def np demo_sizes min_def)
  then have "map_root demo_stage 0 0x40000000 at 3 flags demo_table env = (Ok (), demo_table, env)"
    if "flags_contains flags FLAG_UNMAP" for at flags env
    using that unfolding map_root_def Let_def demo_sizes demo_table_def
    by (simp add: replicate_2 demo_sizes)
  then show ?thesis
    unfolding PageTable_unmap_def identity_update_def Let_def demo_fields pa_addr_init demo_addresses
    by simp
qed

lemma mod_frame:
  assumes "frame_at l b" "unat b \<le> x" "x < unat b + esize l"
  shows "unat b + x mod esize l = x"
proof -
  obtain q where q: "unat b = esize l * q"
    using assms(1) by (auto simp: frame_at_def elim!: dvdE)
  then show ?thesis
    using mod_interval [of "esize l" q x] assms(2,3) by simp
qed

lemma translate_leaf:
  assumes mm: "mm_stage S" and wf: "wf_pte S l b p" and l: "l \<le> 3" and nt: "\<not> is_table S p l"
    and x: "unat b + x mod esize l = x"
  shows "(if is_valid S p l then Some (unat (pa_addr (block_from_pte S (inner p) l)) + x mod esize l, attrs S p l) else None)
    = (if attrs_valid S (attrs S p l) then Some (x, attrs S p l) else None)"
proof (rule mm_stage.wf_cases [OF mm wf l])
  fix at
  assume "p = pte_block S l (pa_init b) at" "is_block_allowed S l" "frame_at l b" "attrs_ok S at"
    "attrs S p l = at" "is_valid S p l = attrs_valid S at"
  moreover from this have "block_from_pte S (inner p) l = pa_init b"
    using mm l by (simp add: mm_stage_def pte_split_def pte_codec.block_from_block pte_block_def)
  ultimately show ?thesis
    using x by simp
next
  assume "\<not> is_valid S p l" "\<not> attrs_present S (attrs S p l)"
  then show ?thesis using mm by (auto simp: mm_stage_def pte_split_def dest: pte_codec.valid_present)
qed (use nt in auto)

lemma translate_entry_identity:
  assumes mm: "mm_stage S"
  shows "wf_pte S l b p \<Longrightarrow> l \<le> 3 \<Longrightarrow> frame_at l b \<Longrightarrow> unat b \<le> x \<Longrightarrow> x < unat b + esize l \<Longrightarrow>
    translate_entry S l p x = (if attrs_valid S (lookup S l p x) then Some (x, lookup S l p x) else None)"
proof (induction l arbitrary: b p)
  case 0
  then show ?case
    using translate_leaf [OF mm 0(1,2) mm_stage.wf_level0_not_table [OF mm 0(1)] mod_frame [OF 0(3-5)]] by simp
next
  case (Suc l)
  show ?case
  proof (cases "is_table S p (Suc l)")
    case False
    then show ?thesis
      using translate_leaf [OF mm Suc.prems(1,2) False mod_frame [OF Suc.prems(3-5)]] by simp
  next
    case True
    define i where "i = x div esize l mod 512"
    have i: "i < 512" by (simp add: i_def)
    have wf: "wf_pte S l (b + word_of_nat i * entry_size l) (sub p ! i)"
      by (rule mm_stage.wf_cases [OF mm Suc.prems(1,2)]) (use True i in \<open>auto simp: wf_table_def pte_table_def\<close>)
    have "unat (b + word_of_nat i * entry_size l) \<le> x \<and> x < unat (b + word_of_nat i * entry_size l) + esize l"
      using frame_child(1) [OF Suc.prems(3) i] entry_of [of l "unat b" x] Suc.prems by (simp add: i_def frame_at_def)
    then show ?thesis
      using Suc.IH [OF wf] frame_child(2) [OF Suc.prems(3) i] Suc.prems(2) True by (simp add: i_def)
  qed
qed

text \<open>In a well-formed table the walk of an address ends at that address, or at a fault.\<close>

lemma translate_lookup:
  assumes "hf_stage S" "wf_ptable S t" "x < space S"
  shows "translate S t x = (if attrs_valid S (lookup_ptable S t x) then Some (x, lookup_ptable S t x) else None)"
proof -
  have mm: "mm_stage S" using assms(1) by (rule hf_stage_mm)
  define l R i j where "l = max_level S" and "R = max_level S + 1" and "i = x div esize R" and "j = x div esize l mod 512"
  have l: "l \<le> 3" using mm by (simp add: l_def mm_stage.max_level_le)
  have i: "i < root_table_count S"
    using assms(3) by (simp add: i_def R_def space_def less_mult_imp_div_less)
  have j: "j < 512" by (simp add: j_def)
  define b where "b = (word_of_nat i * entry_size R :: usize)"
  have b: "unat b = i * esize R" "frame_at (Suc l) b"
    using mm_stage.root_frames [OF mm i] by (simp_all add: b_def R_def l_def)
  have "unat b \<le> x \<and> x < unat b + esize (Suc l)"
    using b(1) dividend_less_div_times [of "esize R" x] by (simp add: i_def R_def l_def)
  moreover from this have "unat (b + word_of_nat j * entry_size l) \<le> x \<and> x < unat (b + word_of_nat j * entry_size l) + esize l"
    using frame_child(1) [OF b(2) j] entry_of [of l "unat b" x] l b(2) by (simp add: j_def frame_at_def)
  moreover have "wf_pte S l (b + word_of_nat j * entry_size l) (tables t ! i ! j)"
    using assms(2) i j by (simp add: wf_ptable_def wf_table_def b_def R_def l_def)
  moreover have "i < length (tables t)" using assms(2) i by (simp add: wf_ptable_def)
  ultimately show ?thesis
    using translate_entry_identity [OF mm _ l] frame_child(2) [OF b(2) j] l
    by (simp add: translate_def lookup_ptable_def lookup_table_def i_def j_def l_def R_def)
qed

lemma translate_visible:
  assumes "hf_stage S" "wf_ptable S t" "wf_ptable S t'" "x < space S"
    and "visible S (lookup_ptable S t' x) = visible S (lookup_ptable S t x)"
  shows "translate S t' x = translate S t x"
proof -
  have "attrs_valid S a \<Longrightarrow> attrs_present S a" for a
    using hf_stage_mm [OF assms(1)] by (simp add: mm_stage_def pte_split_def pte_codec.valid_present)
  then show ?thesis
    using assms(5) unfolding translate_lookup [OF assms(1,2,4)] translate_lookup [OF assms(1,3,4)]
    by (auto simp: visible_def split: if_splits)
qed

lemma mode_valid:
  assumes "hf_stage S"
  shows "attrs_valid S (mode_to_attrs S m) \<longleftrightarrow> m AND MODE_INVALID = 0"
proof -
  have 1: "bit (arch_mm_mode_to_stage1_attrs m) 0 \<longleftrightarrow> m AND MODE_INVALID = 0"
    by (auto simp: arch_mm_mode_to_stage1_attrs_def STAGE1_AF_def STAGE1_SH_def STAGE1_XN_def STAGE1_AP_def STAGE1_ATTRINDX_def
        PTE_VALID_def bit_simps)
  have 2: "bit (arch_mm_mode_to_stage2_attrs m) 0 \<longleftrightarrow> m AND MODE_INVALID = 0"
    by (auto simp: arch_mm_mode_to_stage2_attrs_def Let_def stage2_attr_defs PTE_VALID_def bit_simps)
  show ?thesis
    using assms 1 2 by (auto simp: hf_stage_def attrs_valid_def aarch64_stage1_def aarch64_stage2_def valid_bit)
qed

lemma map_root_beyond:
  assumes "e \<le> b"
  shows "map_root S b e at R flags t env =
    (if length (tables t) < unat (index b R) then Panic else Ok (), t, env)"
  using assms by (simp add: map_root_def Let_def)

lemma update_beyond:
  assumes "hf_stage S" "wf_ptable S t" "space S \<le> unat (pa_addr begin)" "unat (pa_addr begin) < 2 ^ 48"
    and "unat (pa_addr e) + 4095 < 2 ^ 64"
  defines "b \<equiv> pa_addr (clear_pa S begin)" and "c \<equiv> min (round_up_to_page (pa_addr e)) (ptable_addr_space_end S)"
  shows "identity_update S begin e at flags t env =
    (if root_table_count S < unat (pa_addr begin) div esize (max_level S + 1) mod 512 then (Panic, t, env)
     else (Ok (), t, invalidate_tlb S b c env))"
proof -
  note mm = hf_stage_mm [OF assms(1)]
  have ub: "unat b = unat (pa_addr begin) div 4096 * 4096"
    unfolding b_def using mm assms(4) by (simp add: mm_stage_def pte_split_def pte_codec.clear_pa_round)
  have "space S div 4096 * 4096 = space S"
    using mm_stage.page_dvd_space [OF mm] by simp
  then have "space S \<le> unat b"
    using div_le_mono [OF assms(3), of 4096] by (simp add: ub)
  then have cb: "c \<le> b"
    using mm_stage.unat_addr_space_end [OF mm] by (simp add: c_def word_le_nat_alt unat_min)
  have "esize (max_level S + 1) = 4096 * (esize (max_level S + 1) div 4096)"
    using page_dvd_esize [of "max_level S + 1"] by simp
  then have "unat b div esize (max_level S + 1) = unat (pa_addr begin) div esize (max_level S + 1)"
    unfolding ub by (metis div_mult2_eq nonzero_mult_div_cancel_right zero_neq_numeral)
  moreover have "length (tables t) = root_table_count S"
    using assms(2) by (simp add: wf_ptable_def)
  ultimately show ?thesis
    unfolding identity_update_def Let_def b_def [symmetric] c_def [symmetric] map_root_beyond [OF cb]
    by (simp add: unat_index)
qed

section \<open>Properties\<close>

text \<open>
  C6. A successful \<open>identity_map\<close> gives every address of the pages in the range exactly the
  attributes of the requested mode, changes nothing observable outside the range, and keeps the
  table well formed.
\<close>

theorem identity_map_correct:
  assumes "hf_stage S" "wf_ptable S t" "env_ok env" "unat (pa_addr begin) < space S" "unat (pa_addr e) + 4095 < 2 ^ 64"
    and "identity_map S begin e m t env = (Ok (), t', env')"
  shows "wf_ptable S t' \<and> env_ok env' \<and> (\<forall>x < space S.
    if in_pages begin e x then lookup_ptable S t' x = mode_to_attrs S m
    else visible S (lookup_ptable S t' x) = visible S (lookup_ptable S t x))"
  using identity_map_facts [OF assms] by (auto simp: view_step_def hit_def in_pages_def env_step_def)

theorem identity_map_correct_witness:
  "\<exists>t' env'. identity_map demo_stage (pa_init 0) (pa_init 0x40000000) MODE_R demo_table demo_env = (Ok (), t', env')
     \<and> lookup_ptable demo_stage t' 0x1234 = mode_to_attrs demo_stage MODE_R"
proof -
  obtain t' env' where run: "identity_map demo_stage (pa_init 0) (pa_init 0x40000000) MODE_R demo_table demo_env = (Ok (), t', env')"
    using demo_map_ok by blast
  have "wf_ptable demo_stage t' \<and> env_ok env' \<and> (\<forall>x < space demo_stage.
      if in_pages (pa_init 0) (pa_init 0x40000000) x then lookup_ptable demo_stage t' x = mode_to_attrs demo_stage MODE_R
      else visible demo_stage (lookup_ptable demo_stage t' x) = visible demo_stage (lookup_ptable demo_stage demo_table x))"
    by (rule identity_map_correct [OF demo_stage_hf demo_wf demo_env_ok _ _ run]) (simp_all add: demo_space)
  then have "lookup_ptable demo_stage t' 0x1234 = mode_to_attrs demo_stage MODE_R"
    by (auto simp: demo_space in_pages_def dest!: spec [of _ "0x1234"])
  then show ?thesis using run by blast
qed

text \<open>
  C7. A failed \<open>identity_map\<close> leaves every mapping as it was: the table may have extra internal
  tables, but no address is translated differently, and no page is lost. On a range that begins
  inside the address space it never panics.
\<close>

theorem identity_map_atomic:
  assumes "hf_stage S" "wf_ptable S t" "env_ok env" "unat (pa_addr begin) < space S" "unat (pa_addr e) + 4095 < 2 ^ 64"
    and "identity_map S begin e m t env = (r, t', env')" "r \<noteq> Ok ()"
  shows "r = Err () \<and> wf_ptable S t' \<and> (\<forall>x < space S. visible S (lookup_ptable S t' x) = visible S (lookup_ptable S t x))
    \<and> env_pages env' + ptable_pages S t' = env_pages env + ptable_pages S t"
  using identity_map_facts [OF assms(1-6)] assms(7) by (cases r) (auto simp: view_step_def env_step_def)

theorem identity_map_atomic_witness:
  "identity_map demo_stage (pa_init 0) (pa_init 0x1000) MODE_R demo_table demo_env = (Err (), demo_table, demo_env)
   \<and> wf_ptable demo_stage demo_table"
proof -
  have "Err () = (Err () :: unit res) \<and> wf_ptable demo_stage demo_table \<and>
      (\<forall>x < space demo_stage. visible demo_stage (lookup_ptable demo_stage demo_table x) = visible demo_stage (lookup_ptable demo_stage demo_table x))
      \<and> env_pages demo_env + ptable_pages demo_stage demo_table = env_pages demo_env + ptable_pages demo_stage demo_table"
    by (rule identity_map_atomic [OF demo_stage_hf demo_wf demo_env_ok _ _ demo_map_err]) (simp_all add: demo_space)
  then show ?thesis using demo_map_err by blast
qed

text \<open>
  C8. A successful \<open>unmap\<close> leaves nothing present in the range, changes nothing observable
  outside it, and accounts for every page: the pages of the pool and of the table together are
  the same before and after.
\<close>

theorem unmap_correct:
  assumes "hf_stage S" "wf_ptable S t" "env_ok env" "unat (pa_addr begin) < space S" "unat (pa_addr e) + 4095 < 2 ^ 64"
    and "PageTable_unmap S begin e t env = (Ok (), t', env')"
  shows "wf_ptable S t' \<and> (\<forall>x < space S. visible S (lookup_ptable S t' x) =
      (if in_pages begin e x then None else visible S (lookup_ptable S t x)))
    \<and> env_pages env' + ptable_pages S t' = env_pages env + ptable_pages S t"
  using unmap_facts [OF assms] by (auto simp: view_step_def hit_def in_pages_def env_step_def visible_def)

theorem unmap_correct_witness:
  "\<exists>t' env'. PageTable_unmap demo_stage (pa_init 0) (pa_init 0x40000000) demo_table demo_env = (Ok (), t', env')
     \<and> visible demo_stage (lookup_ptable demo_stage t' 0x1234) = None"
proof -
  obtain t' env' where run: "PageTable_unmap demo_stage (pa_init 0) (pa_init 0x40000000) demo_table demo_env = (Ok (), t', env')"
    using demo_unmap_ok by blast
  have "wf_ptable demo_stage t' \<and> (\<forall>x < space demo_stage. visible demo_stage (lookup_ptable demo_stage t' x) =
      (if in_pages (pa_init 0) (pa_init 0x40000000) x then None else visible demo_stage (lookup_ptable demo_stage demo_table x)))
    \<and> env_pages env' + ptable_pages demo_stage t' = env_pages demo_env + ptable_pages demo_stage demo_table"
    by (rule unmap_correct [OF demo_stage_hf demo_wf demo_env_ok _ _ run]) (simp_all add: demo_space)
  then have "visible demo_stage (lookup_ptable demo_stage t' 0x1234) = None"
    by (auto simp: demo_space in_pages_def dest!: spec [of _ "0x1234"])
  then show ?thesis using run by blast
qed

text \<open>
  C19. What the hardware makes of a successful \<open>identity_map\<close>: the walk of every address of the
  range ends at that address with the attributes of the requested mode, or faults when the mode is
  invalid; every other address is translated as before.
\<close>

theorem identity_map_translates:
  assumes "hf_stage S" "wf_ptable S t" "env_ok env" "unat (pa_addr begin) < space S" "unat (pa_addr e) + 4095 < 2 ^ 64"
    and "identity_map S begin e m t env = (Ok (), t', env')"
  shows "\<forall>x < space S. translate S t' x =
    (if in_pages begin e x then (if m AND MODE_INVALID = 0 then Some (x, mode_to_attrs S m) else None)
     else translate S t x)"
proof (intro allI impI)
  fix x assume x: "x < space S"
  note f = identity_map_facts [OF assms]
  show "translate S t' x =
    (if in_pages begin e x then (if m AND MODE_INVALID = 0 then Some (x, mode_to_attrs S m) else None) else translate S t x)"
  proof (cases "in_pages begin e x")
    case True
    then have "lookup_ptable S t' x = mode_to_attrs S m"
      using f x by (auto simp: view_step_def hit_def in_pages_def)
    then show ?thesis using True translate_lookup [OF assms(1) _ x, of t'] f mode_valid [OF assms(1)] by simp
  next
    case False
    then have "visible S (lookup_ptable S t' x) = visible S (lookup_ptable S t x)"
      using f x by (auto simp: view_step_def in_pages_def)
    then show ?thesis using False translate_visible [OF assms(1,2) _ x] f by simp
  qed
qed

theorem identity_map_translates_witness:
  "\<exists>t' env'. identity_map demo_stage (pa_init 0) (pa_init 0x40000000) MODE_R demo_table demo_env = (Ok (), t', env')
     \<and> translate demo_stage t' 0x1234 = Some (0x1234, mode_to_attrs demo_stage MODE_R)
     \<and> translate demo_stage t' 0x40001234 = translate demo_stage demo_table 0x40001234"
proof -
  obtain t' env' where run: "identity_map demo_stage (pa_init 0) (pa_init 0x40000000) MODE_R demo_table demo_env = (Ok (), t', env')"
    using demo_map_ok by blast
  have "\<forall>x < space demo_stage. translate demo_stage t' x =
      (if in_pages (pa_init 0) (pa_init 0x40000000) x
       then (if MODE_R AND MODE_INVALID = 0 then Some (x, mode_to_attrs demo_stage MODE_R) else None)
       else translate demo_stage demo_table x)"
    by (rule identity_map_translates [OF demo_stage_hf demo_wf demo_env_ok _ _ run]) (simp_all add: demo_space)
  moreover have "MODE_R AND MODE_INVALID = 0" by (simp add: mode_defs)
  ultimately show ?thesis using run by (simp add: demo_space in_pages_def)
qed

lemma demo_lookup: "x < 2 ^ 40 \<Longrightarrow> lookup_ptable demo_stage demo_table x = attrs demo_stage (pte_absent demo_stage 2) 2"
  using demo_absent(2) less_mult_imp_div_less [of x 2 "2 ^ 39"] lookup.simps(2) [of demo_stage 1]
  by (simp add: lookup_ptable_def lookup_table_def demo_table_def esize_def numeral_2_eq_2 [symmetric])

text \<open>
  C20. \<open>get_attrs\<close> on a non-empty range inside the address space succeeds exactly when all the
  pages of the range have the same attributes, and returns them; it never panics.
\<close>

theorem get_attrs_correct:
  assumes "hf_stage S" "wf_ptable S t" "unat begin < unat e" "unat e \<le> space S"
  shows "(get_attrs S begin e t = Ok a \<longleftrightarrow>
      (\<forall>x. in_pages (pa_init begin) (pa_init e) x \<longrightarrow> lookup_ptable S t x = a))
    \<and> get_attrs S begin e t \<noteq> Panic"
  using mm_stage.get_attrs_spec [OF hf_stage_mm [OF assms(1)] assms(2-)] by (simp add: in_pages_def)

theorem get_attrs_correct_witness:
  "get_attrs demo_stage 0 0x1000 demo_table = Ok (attrs demo_stage (pte_absent demo_stage 2) 2)"
  using get_attrs_correct [OF demo_stage_hf demo_wf, of 0 "0x1000" "attrs demo_stage (pte_absent demo_stage 2) 2"] demo_lookup
  by (simp add: demo_space in_pages_def)

text \<open>
  C21. What was mapped can be read back: after a successful stage-2 \<open>identity_map\<close>, \<open>get_mode\<close> on any
  non-empty part of the range returns the mode that was mapped, except for the device bit, which the
  conversion of attributes to a mode does not return.
\<close>

theorem identity_map_get_mode:
  fixes ml rc
  defines "S \<equiv> aarch64_stage2 ml rc"
  assumes "hf_stage S" "wf_ptable S t" "env_ok env" "identity_map S (pa_init begin) (pa_init e) m t env = (Ok (), t', env')"
    and "unat begin \<le> unat b'" "unat b' < unat e'" "unat e' \<le> unat e" "unat e \<le> space S"
  shows "get_mode S (ipa_init b') (ipa_init e') t' = Ok (m AND NOT MODE_D AND MODE_ALL)"
proof -
  note mm = hf_stage_mm [OF assms(2)]
  have sp: "space S \<le> 2 ^ 48" by (rule mm_stage.space_le [OF mm])
  have b: "unat (pa_addr (pa_init begin)) < space S" "unat (pa_addr (pa_init e)) + 4095 < 2 ^ 64"
    using assms(6-9) sp by simp_all
  note f = identity_map_facts [OF assms(2-4) b assms(5)]
  have "lookup_ptable S t' x = mode_to_attrs S m"
    if x: "unat b' div 4096 * 4096 \<le> x" "x < (unat e' + 4095) div 4096 * 4096" for x
  proof -
    have lo: "unat begin div 4096 * 4096 \<le> x"
      using x(1) div_le_mono [OF assms(6), of 4096] by linarith
    have hi: "x < (unat e + 4095) div 4096 * 4096"
      using x(2) div_le_mono [of "unat e' + 4095" "unat e + 4095" 4096] assms(8) by linarith
    have "4096 dvd space S" unfolding space_def using page_dvd_esize by simp
    then have "(unat e + 4095) div 4096 * 4096 \<le> space S"
      using assms(9) by (auto elim!: dvdE)
    then show ?thesis
      using f lo hi by (auto simp: view_step_def hit_def)
  qed
  then have "get_attrs S b' e' t' = Ok (mode_to_attrs S m)"
    using mm_stage.get_attrs_spec(2) [OF mm, of t' b' e'] f assms(7-9) by auto
  then show ?thesis
    by (simp add: get_mode_def S_def aarch64_stage2_def stage2_attrs_to_mode) (simp add: and.assoc)
qed

theorem identity_map_get_mode_witness:
  "\<exists>t' env'. identity_map demo_stage (pa_init 0) (pa_init 0x40000000) (MODE_R OR MODE_W) demo_table demo_env = (Ok (), t', env')
     \<and> get_mode demo_stage (ipa_init 0x1000) (ipa_init 0x3000) t' = Ok (MODE_R OR MODE_W)"
proof -
  obtain t' env' where run: "identity_map demo_stage (pa_init 0) (pa_init 0x40000000) (MODE_R OR MODE_W) demo_table demo_env = (Ok (), t', env')"
    using demo_map_ok by blast
  have "get_mode demo_stage (ipa_init 0x1000) (ipa_init 0x3000) t' = Ok ((MODE_R OR MODE_W) AND NOT MODE_D AND MODE_ALL)"
    using identity_map_get_mode [of 2 2 demo_table demo_env 0 "0x40000000" "MODE_R OR MODE_W" t' env' "0x1000" "0x3000"]
      demo_stage_hf demo_wf demo_env_ok run demo_space
    by (simp flip: demo_stage_def)
  then show ?thesis using run by (simp add: mode_defs)
qed

text \<open>
  C22. Break before make. An update (\<open>identity_map\<close>, \<open>unmap\<close>) never overwrites a valid entry by a
  valid one: the entry is made invalid first. \<open>defrag\<close> writes only over tables, and the only writes
  that break the rule are those by which it merges a table into a block.
\<close>

theorem update_break_before_make:
  assumes "hf_stage S" "wf_ptable S t" "env_ok env" "unat (pa_addr begin) < space S" "unat (pa_addr e) + 4095 < 2 ^ 64"
    and "attrs_ok S at" "\<not> flags_contains flags FLAG_COMMIT"
    and "identity_update S begin e at flags t env = (r, t', env')"
    and "reduce_law red" "PageTable_defrag S red t env = (t'', env'')"
  shows "(\<exists>evs. trace env' = trace env @ evs \<and> list_all (bbm_safe S) evs) \<and>
    (\<exists>evs. trace env'' = trace env @ evs \<and> (\<forall>ev \<in> set evs. \<exists>l old new.
       ev = PteDefrag l old new \<and> pte_is_table S old l \<and> (bbm_safe S ev \<or> pte_is_block S new l)))"
proof (intro conjI)
  note mm = hf_stage_mm [OF assms(1)]
  show "\<exists>evs. trace env' = trace env @ evs \<and> list_all (bbm_safe S) evs"
    using mm_stage.identity_update_spec [OF mm assms(7) refl assms(2,3,6,4,5,8)]
    by (auto simp: env_step_def env_grows_def)
  have "env_grows (defrag_event S) env env''"
    using mm_stage.PageTable_defrag_spec [OF mm assms(9,2,3,10)] by simp
  then obtain evs where "trace env'' = trace env @ evs" "list_all (defrag_event S) evs"
    by (auto simp: env_grows_def)
  moreover have "\<exists>l old new. ev = PteDefrag l old new \<and> pte_is_table S old l \<and> (bbm_safe S ev \<or> pte_is_block S new l)"
    if "defrag_event S ev" for ev
    using that by (cases ev) auto
  ultimately show "\<exists>evs. trace env'' = trace env @ evs \<and> (\<forall>ev \<in> set evs. \<exists>l old new.
       ev = PteDefrag l old new \<and> pte_is_table S old l \<and> (bbm_safe S ev \<or> pte_is_block S new l))"
    by (auto simp: list_all_iff)
qed

lemma demo_attrs_ok: "attrs_ok demo_stage (mode_to_attrs demo_stage m)"
  using hf_stage_mm [OF demo_stage_hf] by (simp only: mm_stage_def pte_split_def pte_codec.mode_attrs_ok)

lemma demo_reduce_law: "reduce_law demo_reduce"
  by (simp add: reduce_law_def demo_reduce_def)

theorem update_break_before_make_witness:
  "\<exists>evs. trace (snd (snd (identity_update demo_stage (pa_init 0) (pa_init 0x40000000) (mode_to_attrs demo_stage MODE_R) 0 demo_table demo_env)))
     = trace demo_env @ evs \<and> list_all (bbm_safe demo_stage) evs"
proof -
  obtain r t' env' where run: "identity_update demo_stage (pa_init 0) (pa_init 0x40000000) (mode_to_attrs demo_stage MODE_R) 0 demo_table demo_env = (r, t', env')"
    by (metis surj_pair)
  obtain t2 env2 where d: "PageTable_defrag demo_stage demo_reduce demo_table demo_env = (t2, env2)" by fastforce
  from update_break_before_make [OF demo_stage_hf demo_wf demo_env_ok _ _ demo_attrs_ok _ run demo_reduce_law d] run show ?thesis
    by (simp add: demo_space)
qed

text \<open>
  Such a write does happen: a table whose entries are blocks of the same valid attributes is
  overwritten, while it is valid, by a valid block, and no TLB entry is invalidated.
\<close>

lemma map_state_same:
  "(\<And>x. x \<in> set xs \<Longrightarrow> f x s = (r, x, s)) \<Longrightarrow> map_state f xs s = (replicate (length xs) r, xs, s)"
  by (induction xs) simp_all

lemma merge_same: "foldl defrag_merge r (replicate n r) = r"
  by (induction n) (simp_all add: defrag_merge_def)

lemma defrag_without_break:
  assumes S: "hf_stage S" "reduce_law red" and wf: "wf_pte S (Suc l) b p" "is_table S p (Suc l)" and l: "l < 3"
    and fr: "frame_at (Suc l) b" and allowed: "is_block_allowed S (Suc l)"
    and leaves: "\<And>q. q \<in> set (sub p) \<Longrightarrow> is_block S q l \<and> attrs S q l = a" and a: "attrs_valid S a"
  shows "\<exists>r p' env'. pte_defrag S red (Suc l) p env = (r, p', env') \<and> is_block S p' (Suc l) \<and>
    trace env' = trace env @ [PteDefrag (Suc l) (inner p) (inner p')] \<and>
    \<not> bbm_safe S (PteDefrag (Suc l) (inner p) (inner p'))"
proof -
  note mm = hf_stage_mm [OF S(1)]
  have l3: "Suc l \<le> 3" using l by simp
  obtain page ts where p: "p = pte_table S (Suc l) page ts" "frame_at 0 page" "wf_table S l b ts" "\<not> is_block S p (Suc l)" "is_valid S p (Suc l)"
    by (rule mm_stage.wf_cases [OF mm wf(1) l3]) (use wf(2) in auto)
  have ts: "sub p = ts" "length ts = 512" using p(1,3) by (simp_all add: pte_table_def wf_table_def)
  obtain q qs where q: "ts = q # qs" using ts(2) by (cases ts) auto
  have wq: "wf_pte S l b q" using p(3) q by (auto simp: wf_table_def dest!: spec [of _ 0])
  have bq: "is_block S q l" "attrs S q l = a" using leaves [of q] ts q by auto
  obtain at where at: "q = pte_block S l (pa_init b) at" "attrs_ok S at" "frame_at l b" "is_block_allowed S l" "attrs S q l = at"
    by (rule mm_stage.wf_cases [OF mm wq]) (use bq(1) l in auto)
  have ok: "attrs_ok S a" using at bq by simp
  have blk: "block_from_pte S (inner q) l = pa_init b"
    using mm l at by (simp add: mm_stage_def pte_split_def pte_codec.block_from_block pte_block_def)
  have pr: "attrs_present S a" using mm a by (simp add: mm_stage_def pte_split_def pte_codec.valid_present)
  have pte: "pte_is_present S a l"
    using mm ok l pr by (simp add: mm_stage_def pte_split_def pte_split_axioms_def)
  have cmb: "combine_table_entry_attrs S (attrs S p (Suc l)) a = a"
    using mm ok l3 p(1,2) by (simp add: mm_stage_def pte_split_def pte_codec.combine_attrs attrs_def pte_table_def)
  have leaf: "pte_defrag S red l x env = (Ok a, x, env)" if "x \<in> set ts" for x
    using leaves [of x] that ts by (cases l) (simp_all add: defrag_with_def)
  have ms: "map_state (pte_defrag S red l) ts env = (replicate (length ts) (Ok a), ts, env)"
    by (rule map_state_same) (rule leaf)
  have "red defrag_merge (replicate (length ts) (Ok a)) = Some (Ok a)"
    using S(2) merge_same [of "Ok a"] by (simp add: q reduce_law_def)
  then have run: "pte_defrag S red (Suc l) p env =
      (Ok a, pte_block S (Suc l) (pa_init b) a,
       emit (PteDefrag (Suc l) (inner p) (inner (pte_block S (Suc l) (pa_init b) a)))
         (free_page_in (pa_addr (table_from_pte S (inner p) (Suc l))) env))"
    using p(4) wf(2) pte allowed cmb blk
    by (simp add: defrag_with_def Let_def ts ms defrag_write_def) (simp add: q)
  have "is_block S (pte_block S (Suc l) (pa_init b) a) (Suc l)" "pte_is_valid S (inner (pte_block S (Suc l) (pa_init b) a)) (Suc l)"
    using mm l3 allowed fr ok pr a
    by (simp_all add: mm_stage_def pte_split_def pte_codec.block_is_block pte_codec.block_is_valid is_block_def pte_block_def)
  then show ?thesis using run p(5) by (simp add: emit_def free_page_in_def is_valid_def)
qed

text \<open>
  C23. No update duplicates a page: after it, every page is at most as often in the pool and the
  tables as before, so a page of a table is never also free.
\<close>

theorem update_no_duplicate_page:
  assumes "hf_stage S" "wf_ptable S t" "env_ok env" "unat (pa_addr begin) < space S" "unat (pa_addr e) + 4095 < 2 ^ 64"
    and "attrs_ok S at" "\<not> flags_contains flags FLAG_COMMIT"
    and "identity_update S begin e at flags t env = (r, t', env')"
  shows "env_pages env' + ptable_pages S t' \<subseteq># env_pages env + ptable_pages S t"
  using mm_stage.identity_update_spec [OF hf_stage_mm [OF assms(1)] assms(7) refl assms(2,3,6,4,5,8)]
  by (auto simp: env_step_def)

theorem update_no_duplicate_page_witness:
  "\<exists>r t' env'. identity_update demo_stage (pa_init 0) (pa_init 0x40000000) (mode_to_attrs demo_stage MODE_R) 0 demo_table demo_env = (r, t', env')
     \<and> env_pages env' + ptable_pages demo_stage t' \<subseteq># env_pages demo_env + ptable_pages demo_stage demo_table"
proof -
  obtain r t' env' where run: "identity_update demo_stage (pa_init 0) (pa_init 0x40000000) (mode_to_attrs demo_stage MODE_R) 0 demo_table demo_env = (r, t', env')"
    by (metis surj_pair)
  from update_no_duplicate_page [OF demo_stage_hf demo_wf demo_env_ok _ _ demo_attrs_ok _ run] run show ?thesis
    by (simp add: demo_space)
qed

text \<open>
  C24. Pages are lost, however, when a table is replaced by a valid block: the break-before-make
  branch of \<open>replace\<close> overwrites the old entry before it can be dropped, so the pool does not get
  the page of the table (nor those of its sub-tables) back.
\<close>

theorem replace_loses_table:
  assumes "hf_stage S" "wf_pte S l b p" "l \<le> 3" "is_table S p l" "is_valid S new l"
  shows "mpool (snd (pte_replace S p new beg l env)) = mpool env \<and> pte_pages S l p \<noteq> {#}"
proof -
  note mm = hf_stage_mm [OF assms(1)]
  have v: "is_valid S p l"
    by (rule mm_stage.wf_cases [OF mm assms(2,3)]) (use assms(4) in simp_all)
  have ne: "pte_pages S l p \<noteq> {#}"
    using assms(4) by (cases p) (simp add: is_table_def)
  have "\<not> is_table S (pte_absent S l) l"
    using mm assms(3) by (simp add: mm_stage_def pte_split_def pte_codec.absent_not_table is_table_def pte_absent_def)
  then have "pte_drop S l (pte_absent S l) mp = mp" for mp
    by (simp add: pte_absent_def is_table_def)
  then show ?thesis
    using v ne assms(5) by (simp add: pte_replace_def Let_def drop_in_def emit_def invalidate_tlb_def)
qed

theorem replace_loses_table_witness:
  "mpool (snd (pte_replace demo_stage (pte_table demo_stage 1 0x5000 (replicate 512 (pte_absent demo_stage 0)))
       (pte_block demo_stage 1 (pa_init 0) (mode_to_attrs demo_stage MODE_R)) 0 1 demo_env)) = mpool demo_env"
proof -
  note mm = hf_stage_mm [OF demo_stage_hf]
  let ?p = "pte_table demo_stage 1 0x5000 (replicate 512 (pte_absent demo_stage 0))"
  have wf: "wf_pte demo_stage 1 0 ?p"
    using mm_stage.absent_entries(1) [OF mm, of 0 0]
    by (auto simp: pte_table_def wf_table_def frame_at_def esize_def intro!: wf_pte.wf_sub)
  have "is_table demo_stage ?p 1"
    by (simp add: pte_table_def is_table_def table_bits demo_stage_def aarch64_stage2_def aarch64_stage1_def
        arch_mm_table_pte_def PTE_TABLE_def PTE_VALID_def bit_simps)
  moreover have "is_valid demo_stage (pte_block demo_stage 1 (pa_init 0) (mode_to_attrs demo_stage MODE_R)) 1"
    by (simp add: is_valid_def pte_block_def arch_mm_pte_is_valid_def arch_mm_block_pte_def
        arch_mm_mode_to_stage2_attrs_def Let_def mode_defs stage2_attr_defs)
  ultimately show ?thesis
    using replace_loses_table [OF demo_stage_hf wf] by simp
qed

text \<open>
  C25. \<open>defrag\<close> changes no translation: every address keeps its observable attributes, the table
  stays well formed, and the pages of the tables that were merged go back to the pool. The
  combinator \<open>reduce\<close> is only assumed to fold a non-empty sequence from the left.
\<close>

theorem defrag_preserves:
  assumes "hf_stage S" "reduce_law red" "wf_ptable S t" "env_ok env" "PageTable_defrag S red t env = (t', env')"
  shows "wf_ptable S t' \<and> (\<forall>x < space S. visible S (lookup_ptable S t' x) = visible S (lookup_ptable S t x))
    \<and> env_pages env' + ptable_pages S t' = env_pages env + ptable_pages S t"
  using mm_stage.PageTable_defrag_spec [OF hf_stage_mm [OF assms(1)] assms(2-)] by auto

theorem defrag_preserves_witness:
  "\<exists>t' env'. PageTable_defrag demo_stage (\<lambda>f xs. case xs of [] \<Rightarrow> None | y # ys \<Rightarrow> Some (foldl f y ys)) demo_table demo_env = (t', env')
     \<and> visible demo_stage (lookup_ptable demo_stage t' 0x1234) = visible demo_stage (lookup_ptable demo_stage demo_table 0x1234)"
proof -
  let ?red = "\<lambda>f xs. case xs of [] \<Rightarrow> None | y # ys \<Rightarrow> Some (foldl f y ys)"
  obtain t' env' where run: "PageTable_defrag demo_stage ?red demo_table demo_env = (t', env')"
    by (metis surj_pair)
  have "reduce_law ?red" by (simp add: reduce_law_def)
  from defrag_preserves [OF demo_stage_hf this demo_wf demo_env_ok run] run show ?thesis
    by (auto simp: demo_space)
qed

text \<open>
  C26. A new page table maps nothing and owns exactly the pages taken from the pool; dropping a
  table gives all its pages back to the pool.
\<close>

theorem new_and_drop:
  assumes "hf_stage S" "env_ok env" "PageTable_new S env = (Ok t, env')"
  shows "wf_ptable S t \<and> (\<forall>x < space S. visible S (lookup_ptable S t x) = None)
    \<and> env_pages env = ptable_pages S t + env_pages env'
    \<and> env_pages (PageTable_drop S t env') = env_pages env"
proof -
  note mm = hf_stage_mm [OF assms(1)]
  note n = mm_stage.PageTable_new_spec [OF mm assms(2,3)]
  then show ?thesis
    using mm_stage.PageTable_drop_spec [OF mm, of t env'] by (auto simp: visible_def env_ok_def)
qed

theorem new_and_drop_witness:
  "\<exists>t env'. PageTable_new demo_stage (demo_env\<lparr>mpool := demo_pool\<rparr>) = (Ok t, env')
     \<and> visible demo_stage (lookup_ptable demo_stage t 0x1234) = None
     \<and> env_pages (PageTable_drop demo_stage t env') = {#0x8000, 0x10000, 0x11000, 0x12000#}"
proof -
  let ?env = "demo_env\<lparr>mpool := demo_pool\<rparr>"
  have pages: "mpool_pages demo_pool = {#0x8000, 0x10000, 0x11000, 0x12000#}"
    by (simp add: demo_pool_def pool_pages_def chunk_pages_def PAGE_SIZE_def PAGE_BITS_def upt_rec)
  have ok: "env_ok ?env"
    using pages by (simp add: env_ok_def) (simp add: demo_pool_def pool_ok_def chunk_ok_def frame_at_def esize_def)
  have "\<exists>mp'. MPool_alloc_pages demo_pool 2 2 = (Ok (0x10000, 2), mp')"
    by (simp add: demo_pool_def Pool_alloc_pages_def chunk_fits_def round_up_def div_ceil_def PAGE_SIZE_def PAGE_BITS_def)
  then obtain t env' where run: "PageTable_new demo_stage ?env = (Ok t, env')"
    by (auto simp: PageTable_new_def)
  from new_and_drop [OF demo_stage_hf ok run] run pages show ?thesis
    by (auto simp: demo_space env_pages_def)
qed

text \<open>
  C31. Mapping a range that starts beyond the end of the address space of the table does not fail: it
  maps nothing and reports success, or panics when the index of the root table is out of range.
\<close>

theorem map_beyond_space:
  assumes "hf_stage S" "wf_ptable S t" "space S \<le> unat (pa_addr begin)" "unat (pa_addr begin) < 2 ^ 48"
    and "unat (pa_addr e) + 4095 < 2 ^ 64" "identity_map S begin e m t env = (r, t', env')"
  shows "t' = t \<and> mpool env' = mpool env \<and>
    r = (if root_table_count S < unat (pa_addr begin) div esize (max_level S + 1) mod 512 then Panic else Ok ())"
  using assms(6) update_beyond [OF assms(1-5)]
  by (auto simp: identity_map_def invalidate_tlb_def emit_def split: if_splits)

theorem map_beyond_space_witness:
  "fst (identity_map demo_stage (pa_init 0x10000000000) (pa_init 0x10000001000) MODE_R demo_table demo_env) = Ok ()"
proof -
  obtain r t' env' where run: "identity_map demo_stage (pa_init 0x10000000000) (pa_init 0x10000001000) MODE_R demo_table demo_env = (r, t', env')"
    by (metis prod.exhaust)
  from map_beyond_space [OF demo_stage_hf demo_wf _ _ _ run] run show ?thesis
    by (simp add: demo_space esize_def)
qed

end
