(* ===== verification/Abi.thy ===== *)
theory Abi
  imports Arch
begin

text \<open>
  The binary interface of the hypervisor: constants of src/hfo2/src/types.rs, the return values
  of \<open>hf_vcpu_run\<close> and their 64-bit encoding (src/hfo2/src/abi.rs) with the decoder that the VMs
  use (src/inc/vmapi/hf/abi.h), and the message headers and memory sharing attributes of
  src/hfo2/src/spci.rs.
\<close>

section \<open>Identifiers and limits (types.rs)\<close>

type_synonym spci_vm_id_t = u16
type_synonym spci_vcpu_index_t = u16
type_synonym spci_vcpu_count_t = u16

text \<open>The limits of the aarch64 target.\<close>

definition MAX_CPUS :: nat where "MAX_CPUS = 8"
definition MAX_VMS :: nat where "MAX_VMS = 16"
definition HF_VM_ID_OFFSET :: spci_vm_id_t where "HF_VM_ID_OFFSET = 1"
definition HF_PRIMARY_VM_ID :: spci_vm_id_t where "HF_PRIMARY_VM_ID = HF_VM_ID_OFFSET"
definition HF_MAILBOX_SIZE :: usize where "HF_MAILBOX_SIZE = PAGE_SIZE"
definition HF_SLEEP_INDEFINITE :: u64 where "HF_SLEEP_INDEFINITE = 0xffffffffffffff"

section \<open>Results of running a vCPU (abi.rs)\<close>

datatype HfVCpuRunReturn =
    Preempted
  | Yield
  | WaitForInterrupt (ns: u64)
  | WaitForMessage (ns: u64)
  | WakeUp (wake_vm: spci_vm_id_t) (wake_vcpu: spci_vcpu_index_t)
  | Message (message_vm: spci_vm_id_t)
  | NotifyWaiters
  | RunAborted

primrec into_raw :: "HfVCpuRunReturn \<Rightarrow> u64" where
  "into_raw Preempted = 0"
| "into_raw Yield = 1"
| "into_raw (WaitForInterrupt n) = 2 OR push_bit 8 n"
| "into_raw (WaitForMessage n) = 3 OR push_bit 8 n"
| "into_raw (WakeUp vm_id vcpu) = 4 OR push_bit 32 (ucast vm_id) OR push_bit 16 (ucast vcpu)"
| "into_raw (Message vm_id) = 5 OR push_bit 8 (ucast vm_id)"
| "into_raw NotifyWaiters = 6"
| "into_raw RunAborted = 7"

text \<open>The decoder of the C headers; \<open>None\<close> is a code outside the enumeration.\<close>

definition hf_vcpu_run_return_decode :: "u64 \<Rightarrow> HfVCpuRunReturn option" where
  "hf_vcpu_run_return_decode res =
     (let code = res AND 0xff
      in if code = 0 then Some Preempted
         else if code = 1 then Some Yield
         else if code = 2 then Some (WaitForInterrupt (drop_bit 8 res))
         else if code = 3 then Some (WaitForMessage (drop_bit 8 res))
         else if code = 4 then Some (WakeUp (ucast (drop_bit 32 res)) (ucast (drop_bit 16 res AND 0xffff)))
         else if code = 5 then Some (Message (ucast (drop_bit 8 res)))
         else if code = 6 then Some NotifyWaiters
         else if code = 7 then Some RunAborted
         else None)"

datatype HfShare = Give | HfLend | Share

definition HfShare_try_from :: "usize \<Rightarrow> HfShare res" where
  "HfShare_try_from from =
     (if from = 0 then Ok Give else if from = 1 then Ok HfLend else if from = 2 then Ok Share
      else Err ())"

section \<open>SPCI (spci.rs)\<close>

definition SPCI_VERSION_MAJOR :: "32 word" where "SPCI_VERSION_MAJOR = 0"
definition SPCI_VERSION_MINOR :: "32 word" where "SPCI_VERSION_MINOR = 9"
definition SPCI_VERSION_MAJOR_OFFSET :: nat where "SPCI_VERSION_MAJOR_OFFSET = 16"

datatype SpciReturn =
  Success | NotSupported | InvalidParameters | NoMemory | Busy | Interrupted | Denied | Retry

primrec SpciReturn_value :: "SpciReturn \<Rightarrow> int" where
  "SpciReturn_value Success = 0"
| "SpciReturn_value NotSupported = -1"
| "SpciReturn_value InvalidParameters = -2"
| "SpciReturn_value NoMemory = -3"
| "SpciReturn_value Busy = -4"
| "SpciReturn_value Interrupted = -5"
| "SpciReturn_value Denied = -6"
| "SpciReturn_value Retry = -7"

text \<open>
  The type of an architected message is a \<open>u16\<close> that the sender wrote. \<open>share_of_raw\<close> reads it as
  the enumeration; \<open>None\<close> is a value that is no discriminant.
\<close>

datatype SpciMemoryShare = Lend | Relinquish | Donate

definition share_of_raw :: "u16 \<Rightarrow> SpciMemoryShare option" where
  "share_of_raw w =
     (if w = 0 then Some Lend else if w = 1 then Some Relinquish else if w = 2 then Some Donate else None)"

definition SpciMemoryShare_try_from :: "usize \<Rightarrow> SpciMemoryShare res" where
  "SpciMemoryShare_try_from from = (if from = 2 then Ok Donate else Err ())"

definition IMPDEF :: u16 where "IMPDEF = 1"
definition BLOCK :: u32 where "BLOCK = 1"
definition NOTIFY :: u32 where "NOTIFY = 1"

text \<open>The header \<open>SpciMessage\<close>, and the sizes (with \<open>repr(C)\<close>) of the structures of a message.\<close>

record spci_message =
  flags :: u16
  reserved_1 :: u16
  msg_length :: u32
  target_vm_id :: spci_vm_id_t
  source_vm_id :: spci_vm_id_t
  reserved_2 :: u32

definition size_of_SpciMessage :: usize where "size_of_SpciMessage = 16"
definition size_of_SpciArchitectedMessageHeader :: usize where "size_of_SpciArchitectedMessageHeader = 8"
definition size_of_SpciMemoryLend :: usize where "size_of_SpciMemoryLend = 8"
definition size_of_SpciMemoryRegion :: usize where "size_of_SpciMemoryRegion = 8"
definition size_of_SpciMemoryRegionConstituent :: usize where "size_of_SpciMemoryRegionConstituent = 16"

definition SPCI_MSG_PAYLOAD_MAX :: usize where
  "SPCI_MSG_PAYLOAD_MAX = HF_MAILBOX_SIZE - size_of_SpciMessage"

record spci_mem_transitions =
  orig_from_mode :: mode
  orig_to_mode :: mode
  from_mode :: mode
  to_mode :: mode

datatype SpciLendAccess = RO_NX | RO_X | RW_NX | RW_X

definition SPCI_LEND_ACCESS_OFFSET :: nat where "SPCI_LEND_ACCESS_OFFSET = 7"
definition SPCI_LEND_ACCESS_MASK :: u16 where "SPCI_LEND_ACCESS_MASK = push_bit SPCI_LEND_ACCESS_OFFSET 3"

definition spci_get_lend_access_attr :: "u16 \<Rightarrow> SpciLendAccess res" where
  "spci_get_lend_access_attr lend_attr =
     (let access_attr = drop_bit SPCI_LEND_ACCESS_OFFSET (lend_attr AND SPCI_LEND_ACCESS_MASK)
      in if access_attr = 0 then Ok RO_NX
         else if access_attr = 1 then Ok RO_X
         else if access_attr = 2 then Ok RW_NX
         else if access_attr = 3 then Ok RW_X
         else Panic)"

definition spci_memory_attrs_to_mode :: "u32 \<Rightarrow> mode res" where
  "spci_memory_attrs_to_mode memory_attributes =
     (case spci_get_lend_access_attr (ucast memory_attributes) of
        Ok RO_NX \<Rightarrow> Ok MODE_R
      | Ok RO_X \<Rightarrow> Ok (MODE_R OR MODE_X)
      | Ok RW_NX \<Rightarrow> Ok (MODE_R OR MODE_W)
      | Ok RW_X \<Rightarrow> Ok (MODE_R OR MODE_W OR MODE_X)
      | Err e \<Rightarrow> Err e
      | Panic \<Rightarrow> Panic)"

section \<open>Round trips\<close>

text \<open>What survives of a sleep time: its low 56 bits.\<close>

primrec clip :: "HfVCpuRunReturn \<Rightarrow> HfVCpuRunReturn" where
  "clip Preempted = Preempted"
| "clip Yield = Yield"
| "clip (WaitForInterrupt n) = WaitForInterrupt (n AND HF_SLEEP_INDEFINITE)"
| "clip (WaitForMessage n) = WaitForMessage (n AND HF_SLEEP_INDEFINITE)"
| "clip (WakeUp v i) = WakeUp v i"
| "clip (Message v) = Message v"
| "clip NotifyWaiters = NotifyWaiters"
| "clip RunAborted = RunAborted"

lemma mask_consts: "(0xff :: u64) = mask 8" "(0xffff :: u64) = mask 16" "HF_SLEEP_INDEFINITE = mask 56"
  by (simp_all add: mask_eq_decr_exp HF_SLEEP_INDEFINITE_def)

lemma bit_code:
  fixes c :: u64
  assumes "c < 256" "bit c i"
  shows "i < 8"
proof -
  have "take_bit 8 c = c"
    using assms(1) by (intro word_eq_unatI) (simp add: unsigned_take_bit_eq word_less_nat_alt take_bit_nat_eq_self)
  then show ?thesis using assms(2) by (metis bit_take_bit_iff)
qed

lemma code_low:
  fixes c n :: u64
  assumes "c < 256"
  shows "(c OR push_bit 8 n) AND mask 8 = c" "drop_bit 8 (c OR push_bit 8 n) = n AND mask 56"
proof -
  show "(c OR push_bit 8 n) AND mask 8 = c"
    by (rule bit_word_eqI) (auto simp: bit_simps dest: bit_code [OF assms])
  show "drop_bit 8 (c OR push_bit 8 n) = n AND mask 56" 
    by (rule bit_word_eqI) (auto simp: bit_simps dest: bit_code [OF assms] bit_imp_le_length)
qed

lemma wake_up_fields:
  fixes v i :: u16
  defines "w \<equiv> 4 OR push_bit 32 (ucast v) OR push_bit 16 (ucast i) :: u64"
  shows "w AND mask 8 = 4" "ucast (drop_bit 32 w) = v" "ucast (drop_bit 16 w AND mask 16) = i"
proof -
  have four: "n < 8" if "bit (4 :: int) n" for n
    using that bit_exp_iff [where ?'a = int, of 2 n] by simp
  show "w AND mask 8 = 4"
    unfolding w_def by (rule bit_word_eqI) (auto simp: bit_simps dest: four)
  show "ucast (drop_bit 32 w) = v"
    unfolding w_def by (rule bit_word_eqI) (auto simp: bit_simps dest: four bit_imp_le_length)
  show "ucast (drop_bit 16 w AND mask 16) = i"
    unfolding w_def by (rule bit_word_eqI) (auto simp: bit_simps dest: four bit_imp_le_length)
qed

text \<open>
  C34. The primary VM decodes exactly what the hypervisor encoded: for every result of running a
  vCPU, decoding its 64-bit encoding gives it back, with a sleep time cut to 56 bits.
\<close>

theorem run_return_roundtrip: "hf_vcpu_run_return_decode (into_raw r) = Some (clip r)"
proof (cases r)
  case (WaitForInterrupt n)
  then show ?thesis
    using code_low [of 2 n] by (simp add: hf_vcpu_run_return_decode_def mask_consts del: push_bit_numeral)
next
  case (WaitForMessage n)
  then show ?thesis
    using code_low [of 3 n] by (simp add: hf_vcpu_run_return_decode_def mask_consts)
next
  case (WakeUp v i)
  then show ?thesis
    using wake_up_fields [of v i] by (simp add: hf_vcpu_run_return_decode_def mask_consts)
next
  case (Message v)
  have "ucast (ucast v AND mask 56 :: u64) = v"
    by (rule bit_word_eqI) (auto simp: bit_simps dest: bit_imp_le_length)
  then show ?thesis
    using Message code_low [of 5 "ucast v"] by (simp add: hf_vcpu_run_return_decode_def mask_consts)
qed (simp_all add: hf_vcpu_run_return_decode_def)

lemma bit_3: "bit (3 :: int) n \<Longrightarrow> n < 2"
  using bit_mask_iff [where ?'a = int, of 2 n] by (simp add: mask_eq_exp_minus_1)

text \<open>
  The attributes of a lend request always decode to one of the four access modes, each with
  read access, so the \<open>unreachable!\<close> of the decoder is never reached.
\<close>

lemma lend_attributes_total:
  "\<exists>m. spci_memory_attrs_to_mode a = Ok m \<and> m \<in> {MODE_R, MODE_R OR MODE_X, MODE_R OR MODE_W, MODE_R OR MODE_W OR MODE_X}"
proof -
  define w where "w = drop_bit SPCI_LEND_ACCESS_OFFSET ((ucast a :: u16) AND SPCI_LEND_ACCESS_MASK)"
  have "w = w AND mask 2"
    unfolding w_def SPCI_LEND_ACCESS_MASK_def SPCI_LEND_ACCESS_OFFSET_def
    by (rule bit_word_eqI) (auto simp: bit_simps dest: bit_3)
  then have "unat w < 4" using unat_and_mask [of w 2] by simp
  then have "w \<in> {0, 1, 2, 3}" by (auto simp: word_unat_eq_iff)
  then have "spci_get_lend_access_attr (ucast a) \<in> Ok ` {RO_NX, RO_X, RW_NX, RW_X}"
    unfolding spci_get_lend_access_attr_def Let_def w_def [symmetric] by auto
  then show ?thesis
    by (auto simp: spci_memory_attrs_to_mode_def)
qed

end
