(* ===== verification/Regs.thy ===== *)
theory Regs
  imports Abi
begin

text \<open>
  The registers of a vCPU, and the functions by which the hypervisor uses them
  (\<open>impl ArchRegs\<close> of src/hfo2/src/cpu.rs, implemented in src/src/arch/aarch64/cpu.c, timer.c and
  hypervisor/debug_el1.c). The layout is that of \<open>struct arch_regs\<close> in the C header, which is the
  one these functions use, for GIC version 3.

  The system registers of the physical CPU that these functions read or write are in a record
  \<open>machine\<close> that the callers pass on.
\<close>

section \<open>Registers\<close>

type_synonym uintreg_t = u64
type_synonym cpu_id_t = u64

record sys_regs =
  vmpidr_el2 :: uintreg_t
  csselr_el1 :: uintreg_t
  sctlr_el1 :: uintreg_t
  actlr_el1 :: uintreg_t
  cpacr_el1 :: uintreg_t
  ttbr0_el1 :: uintreg_t
  ttbr1_el1 :: uintreg_t
  tcr_el1 :: uintreg_t
  esr_el1 :: uintreg_t
  afsr0_el1 :: uintreg_t
  afsr1_el1 :: uintreg_t
  far_el1 :: uintreg_t
  mair_el1 :: uintreg_t
  vbar_el1 :: uintreg_t
  contextidr_el1 :: uintreg_t
  tpidr_el0 :: uintreg_t
  tpidrro_el0 :: uintreg_t
  tpidr_el1 :: uintreg_t
  amair_el1 :: uintreg_t
  cntkctl_el1 :: uintreg_t
  sp_el0 :: uintreg_t
  sp_el1 :: uintreg_t
  elr_el1 :: uintreg_t
  spsr_el1 :: uintreg_t
  par_el1 :: uintreg_t
  hcr_el2 :: uintreg_t
  cptr_el2 :: uintreg_t
  cnthctl_el2 :: uintreg_t
  vttbr_el2 :: uintreg_t
  mdcr_el2 :: uintreg_t
  mdscr_el1 :: uintreg_t

record arch_regs =
  regs_r :: "uintreg_t list"
  regs_pc :: uintreg_t
  spsr :: uintreg_t
  lazy :: sys_regs
  fp :: "(uintreg_t \<times> uintreg_t) list"
  fpsr :: uintreg_t
  fpcr :: uintreg_t
  ich_hcr_el2 :: uintreg_t
  icc_sre_el2 :: uintreg_t
  cntv_cval_el0 :: uintreg_t
  cntv_ctl_el0 :: uintreg_t

definition zero_sys_regs :: sys_regs where
  "zero_sys_regs =
     \<lparr>vmpidr_el2 = 0, csselr_el1 = 0, sctlr_el1 = 0, actlr_el1 = 0, cpacr_el1 = 0, ttbr0_el1 = 0,
      ttbr1_el1 = 0, tcr_el1 = 0, esr_el1 = 0, afsr0_el1 = 0, afsr1_el1 = 0, far_el1 = 0,
      mair_el1 = 0, vbar_el1 = 0, contextidr_el1 = 0, tpidr_el0 = 0, tpidrro_el0 = 0,
      tpidr_el1 = 0, amair_el1 = 0, cntkctl_el1 = 0, sp_el0 = 0, sp_el1 = 0, elr_el1 = 0,
      spsr_el1 = 0, par_el1 = 0, hcr_el2 = 0, cptr_el2 = 0, cnthctl_el2 = 0, vttbr_el2 = 0,
      mdcr_el2 = 0, mdscr_el1 = 0\<rparr>"

text \<open>\<open>ArchRegs::default()\<close>, and what \<open>memset_s(r, sizeof(*r), 0, sizeof(*r))\<close> leaves.\<close>

definition ArchRegs_default :: arch_regs where
  "ArchRegs_default =
     \<lparr>regs_r = replicate 31 0, regs_pc = 0, spsr = 0, lazy = zero_sys_regs, fp = replicate 32 (0, 0),
      fpsr = 0, fpcr = 0, ich_hcr_el2 = 0, icc_sre_el2 = 0, cntv_cval_el0 = 0, cntv_ctl_el0 = 0\<rparr>"

text \<open>
  The registers of the physical CPU: the virtual counter and its frequency, the timer of the
  vCPU that is running, and the two debug registers that a reset reads.
\<close>

record machine =
  cntvct :: u64
  cntfrq :: u64
  cntv_ctl :: u64
  cntv_cval :: u64
  MDCR_EL2 :: u64
  PMCR_EL0 :: u64

section \<open>Reset and call registers (cpu.c)\<close>

definition gic_regs_reset :: "bool \<Rightarrow> arch_regs \<Rightarrow> arch_regs" where
  "gic_regs_reset is_primary rs =
     (let icc_sre = push_bit 0 1 OR push_bit 1 3;
          (hcr, icc_sre) =
            (if is_primary then (0, icc_sre OR push_bit 3 1) else (push_bit 10 0x1f, icc_sre))
      in rs\<lparr>ich_hcr_el2 := hcr, icc_sre_el2 := icc_sre\<rparr>)"

definition get_mdcr_el2_value :: "machine \<Rightarrow> spci_vm_id_t \<Rightarrow> uintreg_t" where
  "get_mdcr_el2_value M vm_id =
     (let v = MDCR_EL2 M AND push_bit 12 3;
          v = v OR (drop_bit 11 (PMCR_EL0 M AND push_bit 11 0x1f) AND 0x1f);
          v = v OR (push_bit 19 1 OR push_bit 11 1 OR push_bit 10 1 OR push_bit 9 1)
      in if vm_id \<noteq> HF_PRIMARY_VM_ID then v OR push_bit 8 1 else v)"

definition arch_regs_reset ::
  "machine \<Rightarrow> bool \<Rightarrow> spci_vm_id_t \<Rightarrow> cpu_id_t \<Rightarrow> paddr_t \<Rightarrow> arch_regs \<Rightarrow> arch_regs" where
  "arch_regs_reset M is_primary vm_id vcpu_id table rs =
     (let old_pc = regs_pc rs;
          arg = regs_r rs ! 0;
          rs = ArchRegs_default\<lparr>regs_pc := old_pc, regs_r := (regs_r ArchRegs_default)[0 := arg]\<rparr>;
          hcr = push_bit 31 1 OR push_bit 21 1 OR push_bit 19 1 OR push_bit 20 1 OR push_bit 2 1
                OR push_bit 0 1;
          (hcr, cnthctl) =
            (if is_primary then (hcr, push_bit 0 1 OR push_bit 1 1)
             else (hcr OR (push_bit 3 7 OR push_bit 9 1 OR push_bit 10 1 OR push_bit 13 3), 0));
          rs = rs\<lparr>lazy := (lazy rs)\<lparr>hcr_el2 := hcr, cptr_el2 := 0, cnthctl_el2 := cnthctl,
                     vttbr_el2 := pa_addr table OR push_bit 48 (ucast vm_id),
                     vmpidr_el2 := vcpu_id\<rparr>\<rparr>;
          rs = rs\<lparr>spsr := 5 OR push_bit 6 0xf\<rparr>;
          rs = rs\<lparr>lazy := (lazy rs)\<lparr>mdcr_el2 := get_mdcr_el2_value M vm_id, mdscr_el1 := 0\<rparr>\<rparr>
      in gic_regs_reset is_primary rs)"

definition arch_regs_set_pc_arg :: "ipaddr_t \<Rightarrow> uintreg_t \<Rightarrow> arch_regs \<Rightarrow> arch_regs" where
  "arch_regs_set_pc_arg p arg rs = rs\<lparr>regs_pc := ipa_addr p, regs_r := (regs_r rs)[0 := arg]\<rparr>"

definition arch_regs_set_retval :: "uintreg_t \<Rightarrow> arch_regs \<Rightarrow> arch_regs" where
  "arch_regs_set_retval v rs = rs\<lparr>regs_r := (regs_r rs)[0 := v]\<rparr>"

section \<open>Virtual timer (timer.c)\<close>

definition CNTV_CTL_EL0_ENABLE :: u64 where "CNTV_CTL_EL0_ENABLE = push_bit 0 1"
definition CNTV_CTL_EL0_IMASK :: u64 where "CNTV_CTL_EL0_IMASK = push_bit 1 1"
definition CNTV_CTL_EL0_ISTATUS :: u64 where "CNTV_CTL_EL0_ISTATUS = push_bit 2 1"
definition NANOS_PER_UNIT :: u64 where "NANOS_PER_UNIT = 1000000000"

definition arch_timer_mask :: "arch_regs \<Rightarrow> arch_regs" where
  "arch_timer_mask rs = rs\<lparr>cntv_ctl_el0 := cntv_ctl_el0 rs OR CNTV_CTL_EL0_IMASK\<rparr>"

definition timer_ctl_enabled :: "u64 \<Rightarrow> bool" where
  "timer_ctl_enabled ctl \<longleftrightarrow> ctl AND CNTV_CTL_EL0_ENABLE \<noteq> 0 \<and> ctl AND CNTV_CTL_EL0_IMASK = 0"

definition arch_timer_enabled :: "arch_regs \<Rightarrow> bool" where
  "arch_timer_enabled rs \<longleftrightarrow> timer_ctl_enabled (cntv_ctl_el0 rs)"

definition ticks_to_ns :: "machine \<Rightarrow> u64 \<Rightarrow> u64" where
  "ticks_to_ns M ticks = (ticks * NANOS_PER_UNIT) div cntfrq M"

definition remaining_ticks :: "machine \<Rightarrow> u64 \<Rightarrow> u64" where
  "remaining_ticks M cval = (if cval \<ge> cntvct M then cval - cntvct M else 0)"

definition arch_timer_remaining_ticks :: "machine \<Rightarrow> arch_regs \<Rightarrow> u64" where
  "arch_timer_remaining_ticks M rs = remaining_ticks M (cntv_cval_el0 rs)"

definition arch_timer_remaining_ns :: "machine \<Rightarrow> arch_regs \<Rightarrow> u64" where
  "arch_timer_remaining_ns M rs = ticks_to_ns M (arch_timer_remaining_ticks M rs)"

definition arch_timer_pending :: "machine \<Rightarrow> arch_regs \<Rightarrow> bool" where
  "arch_timer_pending M rs \<longleftrightarrow>
     arch_timer_enabled rs \<and>
     (cntv_ctl_el0 rs AND CNTV_CTL_EL0_ISTATUS \<noteq> 0 \<or> arch_timer_remaining_ticks M rs = 0)"

definition arch_timer_enabled_current :: "machine \<Rightarrow> bool" where
  "arch_timer_enabled_current M \<longleftrightarrow> timer_ctl_enabled (cntv_ctl M)"

definition arch_timer_disable_current :: "machine \<Rightarrow> machine" where
  "arch_timer_disable_current M = M\<lparr>cntv_ctl := 0\<rparr>"

definition arch_timer_remaining_ns_current :: "machine \<Rightarrow> u64" where
  "arch_timer_remaining_ns_current M = ticks_to_ns M (remaining_ticks M (cntv_cval M))"

section \<open>Facts\<close>

lemma reset_keeps_call [simp]:
  "regs_pc (arch_regs_reset M p v i t rs) = regs_pc rs"
  "regs_r (arch_regs_reset M p v i t rs) = (replicate 31 0)[0 := regs_r rs ! 0]"
  by (simp_all add: arch_regs_reset_def gic_regs_reset_def ArchRegs_default_def Let_def)

lemma mask_stops_timer: "\<not> arch_timer_pending M (arch_timer_mask rs)"
proof -
  have "(cntv_ctl_el0 rs OR CNTV_CTL_EL0_IMASK) AND CNTV_CTL_EL0_IMASK \<noteq> 0"
    using bit_iff_and_push_bit_not_eq_0 [of "cntv_ctl_el0 rs OR push_bit 1 1" 1]
    by (simp add: CNTV_CTL_EL0_IMASK_def bit_simps del: push_bit_of_1)
  then show ?thesis
    by (simp add: arch_timer_pending_def arch_timer_enabled_def timer_ctl_enabled_def arch_timer_mask_def)
qed

end
