(* ===== verification/Interrupts.thy ===== *)
theory Interrupts
  imports Prelude
begin

text \<open>
  The virtual interrupt controller of a vCPU: \<open>Interrupts\<close> of src/hfo2/src/cpu.rs.

  The two bit fields and the cached count are modelled as the code has them; the specification
  reads them as two sets of interrupt IDs. \<open>interrupts_ok\<close> is the invariant that the count is the
  number of interrupts that are both enabled and pending, and the lemmas \<open>inject_spec\<close>,
  \<open>enable_spec\<close> and \<open>get_spec\<close> state each operation on the sets.
\<close>

section \<open>Model\<close>

type_synonym intid_t = u32

definition INTERRUPT_REGISTER_BITS :: nat where "INTERRUPT_REGISTER_BITS = 32"
definition HF_NUM_INTIDS :: intid_t where "HF_NUM_INTIDS = 64"
definition HF_INVALID_INTID :: intid_t where "HF_INVALID_INTID = 0xffffffff"
definition HF_VIRTUAL_TIMER_INTID :: intid_t where "HF_VIRTUAL_TIMER_INTID = 3"

record interrupts =
  enabled :: "u32 list"
  pending :: "u32 list"
  enabled_and_pending_count :: u32

definition Interrupts_new :: interrupts where
  "Interrupts_new =
     \<lparr>enabled = replicate (unat HF_NUM_INTIDS div INTERRUPT_REGISTER_BITS) 0,
      pending = replicate (unat HF_NUM_INTIDS div INTERRUPT_REGISTER_BITS) 0,
      enabled_and_pending_count = 0\<rparr>"

definition id_to_index :: "intid_t \<Rightarrow> (nat \<times> u32) res" where
  "id_to_index intid =
     (if intid \<ge> HF_NUM_INTIDS then Err ()
      else
        let intid_index = unat intid div INTERRUPT_REGISTER_BITS;
            intid_mask = push_bit (unat (intid mod word_of_nat INTERRUPT_REGISTER_BITS)) 1
        in Ok (intid_index, intid_mask))"

definition inject :: "intid_t \<Rightarrow> interrupts \<Rightarrow> unit res \<times> interrupts" where
  "inject intid s =
     (case id_to_index intid of
        Ok (intid_index, intid_mask) \<Rightarrow>
          let old = pending s ! intid_index;
              s = s\<lparr>pending := (pending s)[intid_index := old OR intid_mask]\<rparr>
          in if enabled s ! intid_index AND NOT old AND intid_mask = 0 then (Err (), s)
             else
               let s = s\<lparr>enabled_and_pending_count := enabled_and_pending_count s + 1\<rparr>
               in (if enabled_and_pending_count s \<noteq> 1 then Err () else Ok (), s)
      | Err e \<Rightarrow> (Err e, s)
      | Panic \<Rightarrow> (Panic, s))"

definition enable :: "intid_t \<Rightarrow> bool \<Rightarrow> interrupts \<Rightarrow> unit res \<times> interrupts" where
  "enable intid on s =
     (case id_to_index intid of
        Ok (i, intid_mask) \<Rightarrow>
          (Ok (),
           if on then
             let s = (if pending s ! i AND NOT (enabled s ! i) AND intid_mask \<noteq> 0
                      then s\<lparr>enabled_and_pending_count := enabled_and_pending_count s + 1\<rparr> else s)
             in s\<lparr>enabled := (enabled s)[i := enabled s ! i OR intid_mask]\<rparr>
           else
             let s = (if pending s ! i AND enabled s ! i AND intid_mask \<noteq> 0
                      then s\<lparr>enabled_and_pending_count := enabled_and_pending_count s - 1\<rparr> else s)
             in s\<lparr>enabled := (enabled s)[i := enabled s ! i AND NOT intid_mask]\<rparr>)
      | Err e \<Rightarrow> (Err e, s)
      | Panic \<Rightarrow> (Panic, s))"

definition is_interrupted :: "interrupts \<Rightarrow> bool" where
  "is_interrupted s \<longleftrightarrow> enabled_and_pending_count s > 0"

text \<open>\<open>u32::trailing_zeros\<close>, which is 32 for 0.\<close>

definition trailing_zeros :: "u32 \<Rightarrow> nat" where
  "trailing_zeros w = length (takeWhile (\<lambda>n. \<not> bit w n) [0..<32])"

text \<open>The loop of \<open>get\<close> over the indices that are left.\<close>

primrec get_loop :: "nat list \<Rightarrow> interrupts \<Rightarrow> intid_t \<times> interrupts" where
  "get_loop [] s = (HF_INVALID_INTID, s)"
| "get_loop (i # is) s =
     (let enabled_and_pending = enabled s ! i AND pending s ! i
      in if enabled_and_pending \<noteq> 0 then
           let bit_index = trailing_zeros enabled_and_pending;
               s = s\<lparr>pending := (pending s)[i := pending s ! i AND NOT (push_bit bit_index 1)],
                     enabled_and_pending_count := enabled_and_pending_count s - 1\<rparr>
           in (word_of_nat (i * INTERRUPT_REGISTER_BITS) + word_of_nat bit_index, s)
         else get_loop is s)"

definition interrupts_get :: "interrupts \<Rightarrow> intid_t \<times> interrupts" where
  "interrupts_get s = get_loop [0..<unat HF_NUM_INTIDS div INTERRUPT_REGISTER_BITS] s"

section \<open>Specification\<close>

text \<open>A bit field as the set of interrupt IDs it holds.\<close>

definition ids :: "u32 list \<Rightarrow> nat set" where
  "ids ws = {n. n < 64 \<and> bit (ws ! (n div 32)) (n mod 32)}"

definition deliverable :: "interrupts \<Rightarrow> nat set" where
  "deliverable s = ids (enabled s) \<inter> ids (pending s)"

definition interrupts_ok :: "interrupts \<Rightarrow> bool" where
  "interrupts_ok s \<longleftrightarrow>
     length (enabled s) = 2 \<and> length (pending s) = 2 \<and>
     unat (enabled_and_pending_count s) = card (deliverable s)"

lemmas interrupt_consts = INTERRUPT_REGISTER_BITS_def HF_NUM_INTIDS_def HF_INVALID_INTID_def

lemma finite_ids [simp]: "finite (ids ws)"
  by (simp add: ids_def)

lemma finite_deliverable [simp]: "finite (deliverable s)"
  by (simp add: deliverable_def)

lemma deliverable_less: "n \<in> deliverable s \<Longrightarrow> n < 64"
  by (simp add: deliverable_def ids_def)

lemma card_deliverable: "card (deliverable s) \<le> 64"
proof -
  have "card (deliverable s) \<le> card {..<64 :: nat}"
    by (rule card_mono) (auto simp: deliverable_less)
  then show ?thesis by simp
qed

lemma id_to_index_ok:
  assumes "intid < HF_NUM_INTIDS"
  shows "id_to_index intid = Ok (unat intid div 32, push_bit (unat intid mod 32) 1)"
  using assms by (simp add: id_to_index_def interrupt_consts unat_mod not_le)

lemma div_mod_32: "n div 32 = i \<and> n mod 32 = k \<longleftrightarrow> n = i * 32 + k" if "k < 32" for n i k :: nat
  using that by auto

lemma ids_set:
  assumes "length ws = 2" "m < 64"
  shows "ids (ws[m div 32 := ws ! (m div 32) OR push_bit (m mod 32) 1]) = insert m (ids ws)"
proof -
  have "m div 32 < 2" using assms(2) by (simp add: div_less_iff_less_mult)
  then have "n \<in> ids (ws[m div 32 := ws ! (m div 32) OR push_bit (m mod 32) 1]) \<longleftrightarrow> n \<in> insert m (ids ws)" for n
    using assms div_mod_32 [of "m mod 32" n "m div 32"]
    by (cases "n div 32 = m div 32") (auto simp: ids_def bit_or_iff bit_push_bit_iff bit_1_iff bit_exp_iff nth_list_update)
  then show ?thesis by blast
qed

lemma ids_clear:
  assumes "length ws = 2" "m < 64"
  shows "ids (ws[m div 32 := ws ! (m div 32) AND NOT (push_bit (m mod 32) 1)]) = ids ws - {m}"
proof -
  have "m div 32 < 2" using assms(2) by (simp add: div_less_iff_less_mult)
  then have "n \<in> ids (ws[m div 32 := ws ! (m div 32) AND NOT (push_bit (m mod 32) 1)]) \<longleftrightarrow> n \<in> ids ws - {m}" for n
    using assms div_mod_32 [of "m mod 32" n "m div 32"]
    by (cases "n div 32 = m div 32")
      (auto simp: ids_def bit_and_iff bit_not_iff bit_push_bit_iff bit_1_iff bit_exp_iff nth_list_update)
  then show ?thesis by blast
qed

lemma ids_mask: "m < 64 \<Longrightarrow> w AND push_bit (m mod 32) 1 = 0 \<longleftrightarrow> \<not> bit w (m mod 32)" for w :: u32
  using bit_iff_and_push_bit_not_eq_0 [of w "m mod 32"] by blast

lemma in_ids: "m < 64 \<Longrightarrow> bit (ws ! (m div 32)) (m mod 32) \<longleftrightarrow> m \<in> ids ws"
  by (simp add: ids_def)

lemma trailing_zeros_least:
  assumes "w \<noteq> 0"
  defines "k \<equiv> trailing_zeros w"
  shows "k < 32" "bit w k" "j < k \<Longrightarrow> \<not> bit w j"
proof -
  let ?P = "\<lambda>n. \<not> bit w n"
  have "\<exists>n < 32. bit w n"
  proof (rule ccontr)
    assume "\<not> (\<exists>n < 32. bit w n)"
    then have "w = 0" by (intro bit_word_eqI) auto
    then show False using assms(1) by simp
  qed
  then have "\<exists>n \<in> set [0..<32]. \<not> ?P n" by auto
  then have "takeWhile ?P [0..<32] \<noteq> [0..<32]" by (metis takeWhile_eq_all_conv)
  then have k: "k < length [0..<32]"
    unfolding k_def trailing_zeros_def by (metis le_neq_implies_less length_takeWhile_le take_all takeWhile_eq_take order.refl)
  then show "k < 32" by simp
  show "bit w k"
    using nth_length_takeWhile [of ?P "[0..<32]"] k by (simp add: k_def trailing_zeros_def)
  show "\<not> bit w j" if "j < k"
    using set_takeWhileD [OF nth_mem [of j "takeWhile ?P [0..<32]"]] that takeWhile_nth [of j ?P "[0..<32]"] k
    by (simp add: k_def trailing_zeros_def)
qed

section \<open>The operations on the sets\<close>

lemma num_registers: "unat HF_NUM_INTIDS div INTERRUPT_REGISTER_BITS = 2"
  by (simp add: interrupt_consts)

lemma Interrupts_new_ok: "interrupts_ok Interrupts_new" "deliverable Interrupts_new = {}"
proof -
  show "deliverable Interrupts_new = {}"
    by (auto simp: deliverable_def ids_def Interrupts_new_def num_registers div_less_iff_less_mult)
  then show "interrupts_ok Interrupts_new"
    by (simp add: interrupts_ok_def) (simp add: Interrupts_new_def num_registers)
qed

lemma invalid_id: "\<not> intid < HF_NUM_INTIDS \<Longrightarrow> id_to_index intid = Err ()"
  by (simp add: id_to_index_def)

lemma count_up:
  fixes c :: u32
  assumes "unat c = card D" "card D \<le> 64" "finite D" "m \<notin> D"
  shows "unat (c + 1) = card (insert m D)" "c + 1 = 1 \<longleftrightarrow> D = {}"
proof -
  have "unat (c + 1) = unat c + 1"
    using assms by (simp add: unat_word_ariths)
  then show "unat (c + 1) = card (insert m D)" "c + 1 = 1 \<longleftrightarrow> D = {}"
    using assms by (auto simp: word_unat_eq_iff)
qed

lemma count_down:
  fixes c :: u32
  assumes "unat c = card D" "finite D" "m \<in> D"
  shows "unat (c - 1) = card (D - {m})"
proof -
  have "0 < unat c" using assms by (auto simp: card_gt_0_iff)
  then have "1 \<le> c" by (simp add: word_le_nat_alt)
  then show ?thesis using assms by (simp add: unat_sub)
qed

lemma and3_mask:
  "m < 64 \<Longrightarrow> v AND NOT w AND push_bit (m mod 32) 1 = 0 \<longleftrightarrow> \<not> (bit v (m mod 32) \<and> \<not> bit w (m mod 32))"
  "m < 64 \<Longrightarrow> v AND w AND push_bit (m mod 32) 1 = 0 \<longleftrightarrow> \<not> (bit v (m mod 32) \<and> bit w (m mod 32))"
  for v w :: u32
  using ids_mask [of m "v AND NOT w"] ids_mask [of m "v AND w"]
  by (simp_all add: and.assoc bit_and_iff bit_not_iff)

lemma inject_spec:
  assumes ok: "interrupts_ok s" and id: "intid < HF_NUM_INTIDS" and run: "inject intid s = (r, s')"
  shows "interrupts_ok s'" "ids (enabled s') = ids (enabled s)" "ids (pending s') = insert (unat intid) (ids (pending s))"
    "r = Ok () \<longleftrightarrow> deliverable s = {} \<and> unat intid \<in> ids (enabled s)" "r \<noteq> Panic"
proof -
  define m where "m = unat intid"
  have m: "m < 64" using id by (simp add: m_def HF_NUM_INTIDS_def word_less_nat_alt)
  define p where "p = (pending s)[m div 32 := pending s ! (m div 32) OR push_bit (m mod 32) 1]"
  define fresh where "fresh \<longleftrightarrow> m \<in> ids (enabled s) \<and> m \<notin> ids (pending s)"
  have len: "length (enabled s) = 2" "length (pending s) = 2" and c: "unat (enabled_and_pending_count s) = card (deliverable s)"
    using ok by (simp_all add: interrupts_ok_def)
  have p: "ids p = insert m (ids (pending s))" "length p = 2"
    using ids_set [OF len(2) m] len by (simp_all add: p_def)
  have D: "ids (enabled s) \<inter> ids p = (if fresh then insert m (deliverable s) else deliverable s)" and nm: "fresh \<Longrightarrow> m \<notin> deliverable s"
    using p(1) by (auto simp: deliverable_def fresh_def)
  have s': "s' = (if fresh then s\<lparr>pending := p, enabled_and_pending_count := enabled_and_pending_count s + 1\<rparr> else s\<lparr>pending := p\<rparr>)"
    and r: "r = (if fresh \<and> enabled_and_pending_count s + 1 = 1 then Ok () else Err ())"
    using run and3_mask(1) [OF m] in_ids [OF m]
    by (auto simp: inject_def id_to_index_ok [OF id] Let_def p_def fresh_def m_def split: if_splits)
  note up = count_up [OF c card_deliverable finite_deliverable nm]
  show "interrupts_ok s'"
    using D p len c up(1) by (auto simp: interrupts_ok_def deliverable_def s')
  show "ids (enabled s') = ids (enabled s)" "ids (pending s') = insert (unat intid) (ids (pending s))"
    using p by (simp_all add: s' m_def)
  show "r = Ok () \<longleftrightarrow> deliverable s = {} \<and> unat intid \<in> ids (enabled s)" "r \<noteq> Panic"
    using up(2) by (auto simp: r fresh_def deliverable_def m_def)
qed

lemma enable_spec:
  assumes ok: "interrupts_ok s" and id: "intid < HF_NUM_INTIDS" and run: "enable intid on s = (r, s')"
  shows "interrupts_ok s'" "ids (pending s') = ids (pending s)" "r = Ok ()"
    "ids (enabled s') = (if on then insert (unat intid) (ids (enabled s)) else ids (enabled s) - {unat intid})"
proof -
  define m where "m = unat intid"
  have m: "m < 64" using id by (simp add: m_def HF_NUM_INTIDS_def word_less_nat_alt)
  define e where "e = (enabled s)[m div 32 := (if on then enabled s ! (m div 32) OR push_bit (m mod 32) 1
    else enabled s ! (m div 32) AND NOT (push_bit (m mod 32) 1))]"
  define c' where "c' = (if on \<and> m \<in> ids (pending s) \<and> m \<notin> ids (enabled s) then enabled_and_pending_count s + 1
    else if \<not> on \<and> m \<in> deliverable s then enabled_and_pending_count s - 1 else enabled_and_pending_count s)"
  have len: "length (enabled s) = 2" "length (pending s) = 2" and c: "unat (enabled_and_pending_count s) = card (deliverable s)"
    using ok by (simp_all add: interrupts_ok_def)
  have e: "ids e = (if on then insert m (ids (enabled s)) else ids (enabled s) - {m})" "length e = 2"
    using ids_set [OF len(1) m] ids_clear [OF len(1) m] len by (simp_all add: e_def)
  have "r = Ok () \<and> s' = s\<lparr>enabled := e, enabled_and_pending_count := c'\<rparr>"
    using run unfolding enable_def id_to_index_ok [OF id] m_def [symmetric] outcome.case prod.case and3_mask(1) [OF m]
    unfolding and3_mask(2) [OF m] in_ids [OF m] c'_def e_def deliverable_def Let_def
    by (cases on) (auto split: if_splits)
  then have s': "s' = s\<lparr>enabled := e, enabled_and_pending_count := c'\<rparr>" and r: "r = Ok ()" by simp_all
  have D: "ids e \<inter> ids (pending s) = (if on \<and> m \<in> ids (pending s) \<and> m \<notin> ids (enabled s) then insert m (deliverable s)
      else if \<not> on \<and> m \<in> deliverable s then deliverable s - {m} else deliverable s)"
    using e(1) by (auto simp: deliverable_def)
  have "unat c' = card (ids e \<inter> ids (pending s))"
    unfolding D c'_def
    using c count_up(1) [OF c card_deliverable finite_deliverable, of m] count_down [OF c finite_deliverable, of m]
    by (simp add: deliverable_def)
  then show "interrupts_ok s'"
    using e len by (simp add: interrupts_ok_def deliverable_def s')
  show "ids (pending s') = ids (pending s)" "r = Ok ()"
    "ids (enabled s') = (if on then insert (unat intid) (ids (enabled s)) else ids (enabled s) - {unat intid})"
    using e r by (simp_all add: s' m_def)
qed

lemma get_loop_spec:
  assumes "interrupts_ok s" "get_loop is s = (v, s')" "\<forall>i \<in> set is. i < 2" "sorted is"
  shows "v = HF_INVALID_INTID \<and> s' = s \<and> (\<forall>n \<in> deliverable s. n div 32 \<notin> set is) \<or>
    (\<exists>m \<in> deliverable s. v = word_of_nat m \<and> (\<forall>n \<in> deliverable s. n div 32 \<in> set is \<longrightarrow> m \<le> n) \<and>
       interrupts_ok s' \<and> enabled s' = enabled s \<and> ids (pending s') = ids (pending s) - {m})"
  using assms(2-)
proof (induction "is")
  case Nil
  then show ?case by simp
next
  case (Cons i "is")
  let ?w = "enabled s ! i AND pending s ! i"
  have i: "i < 2" using Cons.prems by simp
  have bits: "n \<in> deliverable s \<longleftrightarrow> bit ?w (n mod 32)" if "n div 32 = i" for n
    using that i by (auto simp: deliverable_def ids_def bit_and_iff)
  show ?case
  proof (cases "?w = 0")
    case True
    then have "\<forall>n \<in> deliverable s. n div 32 \<noteq> i" using bits by auto
    then show ?thesis using Cons True by (auto simp: Let_def)
  next
    case False
    define m where "m = i * 32 + trailing_zeros ?w"
    note tz = trailing_zeros_least [OF False]
    have md: "m div 32 = i" "m mod 32 = trailing_zeros ?w" using tz(1) by (simp_all add: m_def)
    have mD: "m \<in> deliverable s" using bits [OF md(1)] tz(2) md by simp
    have least: "m \<le> n" if "n \<in> deliverable s" "n div 32 \<in> set (i # is)" for n
    proof (cases "n div 32 = i")
      case True
      then have "trailing_zeros ?w \<le> n mod 32" using bits [OF True] that(1) tz(3) [of "n mod 32"] by (meson not_le)
      then show ?thesis using True md div_mult_mod_eq [of n 32] by (simp add: m_def)
    next
      case False
      then have "i < n div 32" using that Cons.prems(3) by (auto simp: order.order_iff_strict)
      then show ?thesis using md(1) div_le_mono [of n m 32] by linarith
    qed
    have len: "length (enabled s) = 2" "length (pending s) = 2" and c: "unat (enabled_and_pending_count s) = card (deliverable s)"
      using assms(1) by (simp_all add: interrupts_ok_def)
    have P: "ids ((pending s)[i := pending s ! i AND NOT (push_bit (trailing_zeros ?w) 1)]) = ids (pending s) - {m}"
      using ids_clear [OF len(2), of m] deliverable_less [OF mD] md by simp
    have "ids (enabled s) \<inter> (ids (pending s) - {m}) = deliverable s - {m}"
      by (auto simp: deliverable_def)
    moreover have "s' = s\<lparr>pending := (pending s)[i := pending s ! i AND NOT (push_bit (trailing_zeros ?w) 1)],
        enabled_and_pending_count := enabled_and_pending_count s - 1\<rparr>" "v = word_of_nat m"
      using Cons.prems(1) False by (simp_all add: Let_def m_def INTERRUPT_REGISTER_BITS_def)
    ultimately have "v = word_of_nat m \<and> interrupts_ok s' \<and> enabled s' = enabled s \<and> ids (pending s') = ids (pending s) - {m}"
      using P len count_down [OF c finite_deliverable mD] by (simp add: interrupts_ok_def deliverable_def)
    then show ?thesis using mD least by blast
  qed
qed

lemma get_spec:
  assumes "interrupts_ok s" "interrupts_get s = (v, s')"
  shows "if deliverable s = {} then v = HF_INVALID_INTID \<and> s' = s
    else unat v = Min (deliverable s) \<and> interrupts_ok s' \<and> enabled s' = enabled s \<and>
      ids (pending s') = ids (pending s) - {unat v}"
proof -
  have all: "n div 32 \<in> set [0..<unat HF_NUM_INTIDS div INTERRUPT_REGISTER_BITS]" if "n \<in> deliverable s" for n
    using deliverable_less [OF that] by (simp add: interrupt_consts div_less_iff_less_mult)
  have "v = HF_INVALID_INTID \<and> s' = s \<and> deliverable s = {} \<or>
    (\<exists>m \<in> deliverable s. v = word_of_nat m \<and> (\<forall>n \<in> deliverable s. m \<le> n) \<and>
       interrupts_ok s' \<and> enabled s' = enabled s \<and> ids (pending s') = ids (pending s) - {m})"
    using get_loop_spec [OF assms(1) assms(2) [unfolded interrupts_get_def]] all
    by (simp add: num_registers)
  then show ?thesis
  proof (elim disjE bexE conjE)
    fix m
    assume m: "m \<in> deliverable s" "v = word_of_nat m" "\<forall>n \<in> deliverable s. m \<le> n"
    then have "unat v = m" using deliverable_less [OF m(1)] by (simp add: unat_of_nat)
    moreover have "Min (deliverable s) = m" using m by (intro Min_eqI) auto
    moreover assume "interrupts_ok s'" "enabled s' = enabled s" "ids (pending s') = ids (pending s) - {m}"
    ultimately show ?thesis using m by auto
  qed simp
qed

section \<open>Runs of the controller\<close>

inductive interrupt_step :: "interrupts \<Rightarrow> interrupts \<Rightarrow> bool" where
  inject: "inject intid s = (r, s') \<Longrightarrow> interrupt_step s s'"
| enable: "enable intid on s = (r, s') \<Longrightarrow> interrupt_step s s'"
| get: "interrupts_get s = (v, s') \<Longrightarrow> interrupt_step s s'"

inductive_cases interrupt_stepE: "interrupt_step s s'"

lemma interrupt_step_ok: "interrupt_step s s' \<Longrightarrow> interrupts_ok s \<Longrightarrow> interrupts_ok s'"
proof (induction rule: interrupt_step.induct)
  case (inject intid s r s')
  then show ?case
    using inject_spec(1) [of s intid r s'] by (cases "intid < HF_NUM_INTIDS") (auto simp: inject_def invalid_id)
next
  case (enable intid on s r s')
  then show ?case
    using enable_spec(1) [of s intid on r s'] by (cases "intid < HF_NUM_INTIDS") (auto simp: enable_def invalid_id)
next
  case (get s v s')
  then show ?case using get_spec [of s v s'] by (auto split: if_splits)
qed

lemma interrupt_run_ok: "interrupt_step\<^sup>*\<^sup>* s s' \<Longrightarrow> interrupts_ok s \<Longrightarrow> interrupts_ok s'"
  by (induction rule: rtranclp_induct) (auto intro: interrupt_step_ok)

lemma is_interrupted_iff: "interrupts_ok s \<Longrightarrow> is_interrupted s \<longleftrightarrow> deliverable s \<noteq> {}"
  by (simp add: interrupts_ok_def is_interrupted_def word_less_nat_alt card_gt_0_iff)

lemma get_deliverable:
  assumes "interrupts_ok s" "deliverable s \<noteq> {}"
  shows "unat (fst (interrupts_get s)) = Min (deliverable s)" "interrupts_ok (snd (interrupts_get s))"
    "deliverable (snd (interrupts_get s)) = deliverable s - {Min (deliverable s)}"
proof -
  have g: "unat (fst (interrupts_get s)) = Min (deliverable s) \<and> interrupts_ok (snd (interrupts_get s)) \<and>
      enabled (snd (interrupts_get s)) = enabled s \<and>
      ids (pending (snd (interrupts_get s))) = ids (pending s) - {unat (fst (interrupts_get s))}"
    using get_spec [OF assms(1), of "fst (interrupts_get s)" "snd (interrupts_get s)"] assms(2) by simp
  then show "unat (fst (interrupts_get s)) = Min (deliverable s)" "interrupts_ok (snd (interrupts_get s))" by blast+
  then show "deliverable (snd (interrupts_get s)) = deliverable s - {Min (deliverable s)}"
    using g unfolding deliverable_def [of "snd (interrupts_get s)"] by (auto simp: deliverable_def [of s])
qed

lemma deliverable_drained:
  "interrupts_ok s \<Longrightarrow> m \<in> deliverable s \<Longrightarrow> card {n \<in> deliverable s. n < m} = k \<Longrightarrow>
     unat (fst (interrupts_get (((snd \<circ> interrupts_get) ^^ k) s))) = m"
proof (induction k arbitrary: s)
  case 0
  have ne: "deliverable s \<noteq> {}" using 0(2) by blast
  have "{n \<in> deliverable s. n < m} = {}" using 0(3) by simp
  then have "Min (deliverable s) = m" using 0(2) by (intro Min_eqI) (auto simp: not_less)
  then show ?case using get_deliverable(1) [OF 0(1) ne] by simp
next
  case (Suc k)
  define s' where "s' = snd (interrupts_get s)"
  have ne: "deliverable s \<noteq> {}" using Suc.prems(2) by blast
  note g = get_deliverable [OF Suc.prems(1) ne, folded s'_def]
  obtain n where n: "n \<in> deliverable s" "n < m" using Suc.prems(3) by (metis (no_types, lifting) card.empty empty_Collect_eq nat.distinct(1))
  have less: "Min (deliverable s) < m" by (rule le_less_trans [OF Min_le [OF finite_deliverable n(1)] n(2)])
  then have m: "m \<in> deliverable s'" using g(3) Suc.prems(2) by simp
  have "{n \<in> deliverable s'. n < m} = {n \<in> deliverable s. n < m} - {Min (deliverable s)}" unfolding g(3) by blast
  then have "card {n \<in> deliverable s'. n < m} = k"
    using Suc.prems(3) Min_in [OF finite_deliverable ne] less by simp
  then have "unat (fst (interrupts_get (((snd \<circ> interrupts_get) ^^ k) s'))) = m"
    by (rule Suc.IH [OF g(2) m])
  moreover have "((snd \<circ> interrupts_get) ^^ Suc k) s = ((snd \<circ> interrupts_get) ^^ k) s'"
    by (simp only: funpow_Suc_right comp_apply s'_def)
  ultimately show ?case by (simp only:)
qed

text \<open>
  C32. In every run of the controller the cached count is the number of interrupts that are both
  enabled and pending, so \<open>is_interrupted\<close> answers whether one can be delivered.
\<close>

theorem interrupt_count_invariant:
  assumes "interrupt_step\<^sup>*\<^sup>* Interrupts_new s"
  shows "unat (enabled_and_pending_count s) = card (ids (enabled s) \<inter> ids (pending s))
    \<and> (is_interrupted s \<longleftrightarrow> ids (enabled s) \<inter> ids (pending s) \<noteq> {})"
  using interrupt_run_ok [OF assms Interrupts_new_ok(1)] is_interrupted_iff [of s]
  unfolding interrupts_ok_def deliverable_def by blast

theorem interrupt_count_invariant_witness:
  "is_interrupted (snd (inject 33 (snd (enable 33 True Interrupts_new))))
   \<longleftrightarrow> ids (enabled (snd (inject 33 (snd (enable 33 True Interrupts_new))))) \<inter> ids (pending (snd (inject 33 (snd (enable 33 True Interrupts_new))))) \<noteq> {}"
proof -
  have "interrupt_step Interrupts_new (snd (enable 33 True Interrupts_new))"
    by (rule interrupt_step.enable [where r = "fst (enable 33 True Interrupts_new)"]) simp
  moreover have "interrupt_step (snd (enable 33 True Interrupts_new)) (snd (inject 33 (snd (enable 33 True Interrupts_new))))"
    by (rule interrupt_step.inject [where r = "fst (inject 33 (snd (enable 33 True Interrupts_new)))"]) simp
  ultimately have "interrupt_step\<^sup>*\<^sup>* Interrupts_new (snd (inject 33 (snd (enable 33 True Interrupts_new))))"
    by (rule converse_rtranclp_into_rtranclp [OF _ r_into_rtranclp])
  from interrupt_count_invariant [OF this] show ?thesis by blast
qed

text \<open>
  C33. No interrupt is lost, and the order of delivery is that of the IDs: once an enabled interrupt
  has been injected, the calls of \<open>get\<close> return first the deliverable interrupts of lower IDs and then it.
  It therefore takes no more calls than there are deliverable interrupts.
\<close>

theorem injected_interrupt_delivered:
  assumes "interrupts_ok s" "intid < HF_NUM_INTIDS" "unat intid \<in> ids (enabled s)" "inject intid s = (r, s')"
  shows "card {n \<in> deliverable s'. n < unat intid} < card (deliverable s') \<and>
    fst (interrupts_get (((snd \<circ> interrupts_get) ^^ card {n \<in> deliverable s'. n < unat intid}) s')) = intid"
proof -
  note i = inject_spec [OF assms(1,2,4)]
  have d: "unat intid \<in> deliverable s'" using i(2,3) assms(3) by (simp add: deliverable_def)
  then have "card {n \<in> deliverable s'. n < unat intid} < card (deliverable s')"
    by (intro psubset_card_mono finite_deliverable) auto
  then show ?thesis
    using deliverable_drained [OF i(1) d refl] word_eq_unatI by blast
qed

theorem injected_interrupt_delivered_witness:
  "fst (interrupts_get (snd (inject 33 (snd (enable 33 True Interrupts_new))))) = 33"
proof -
  have id: "(33 :: intid_t) < HF_NUM_INTIDS" by (simp add: HF_NUM_INTIDS_def)
  note e = enable_spec [OF Interrupts_new_ok(1) id, of True "fst (enable 33 True Interrupts_new)" "snd (enable 33 True Interrupts_new)"]
  let ?s = "snd (enable 33 True Interrupts_new)"
  have ok: "interrupts_ok ?s" "unat (33 :: intid_t) \<in> ids (enabled ?s)" using e(1,4) by simp_all
  note i = inject_spec [OF ok(1) id, of "fst (inject 33 ?s)" "snd (inject 33 ?s)"]
  have "ids (pending Interrupts_new) = {}" by (auto simp: ids_def Interrupts_new_def num_registers nth_Cons' split: if_splits)
  then have "n < unat (33 :: intid_t) \<Longrightarrow> n \<notin> deliverable (snd (inject 33 ?s))" for n
    using i(3) e(2) by (simp add: deliverable_def)
  then have e0: "card {n \<in> deliverable (snd (inject 33 ?s)). n < unat (33 :: intid_t)} = 0" by auto
  from injected_interrupt_delivered [OF ok(1) id ok(2), of "fst (inject 33 ?s)" "snd (inject 33 ?s)", unfolded e0]
  show ?thesis by simp
qed

end
