(* ===== verification/Cpu.thy ===== *)
theory Cpu
  imports Regs Interrupts
begin

text \<open>
  Physical and virtual CPUs (src/hfo2/src/cpu.rs).

  A pointer to a \<open>Cpu\<close> is its position in the array of the \<open>CpuManager\<close>, and \<open>None\<close> for a null
  pointer. A vCPU carries its spin lock explicitly (\<open>inner_lock\<close>), because the lock of a running
  vCPU stays held between the calls into the hypervisor: \<open>VCpuExecutionLocked\<close> is the vCPU whose
  lock bit is set.
\<close>

section \<open>Virtual CPUs\<close>

datatype VCpuStatus = Off | Ready | BlockedMailbox | BlockedInterrupt | Aborted

record vcpu_inner =
  state :: VCpuStatus
  cpu :: "nat option"
  regs :: arch_regs

record vcpu =
  inner_lock :: bool
  vc_inner :: vcpu_inner
  interrupts :: interrupts

definition VCpuInner_new :: vcpu_inner where
  "VCpuInner_new = \<lparr>state = Off, cpu = None, regs = ArchRegs_default\<rparr>"

definition VCpuInner_on :: "ipaddr_t \<Rightarrow> uintreg_t \<Rightarrow> vcpu_inner \<Rightarrow> vcpu_inner" where
  "VCpuInner_on entry arg v =
     v\<lparr>regs := arch_regs_set_pc_arg entry arg (regs v), state := Ready\<rparr>"

definition is_off :: "vcpu_inner \<Rightarrow> bool" where
  "is_off v \<longleftrightarrow> state v = Off"

definition VCpu_new :: vcpu where
  "VCpu_new = \<lparr>inner_lock = False, vc_inner = VCpuInner_new, interrupts = Interrupts_new\<rparr>"

text \<open>
  \<open>vcpu_lock\<close> waits until the lock is free; \<open>None\<close> is a call that does not return in this state.
\<close>

definition vcpu_lock :: "vcpu \<Rightarrow> vcpu option" where
  "vcpu_lock v = (if inner_lock v then None else Some (v\<lparr>inner_lock := True\<rparr>))"

definition vcpu_try_lock :: "vcpu \<Rightarrow> bool \<times> vcpu" where
  "vcpu_try_lock v = (\<not> inner_lock v, v\<lparr>inner_lock := True\<rparr>)"

definition vcpu_unlock :: "vcpu \<Rightarrow> vcpu" where
  "vcpu_unlock v = v\<lparr>inner_lock := False\<rparr>"

definition vcpu_is_interrupted :: "vcpu \<Rightarrow> bool" where
  "vcpu_is_interrupted v \<longleftrightarrow> is_interrupted (interrupts v)"

definition vcpu_is_off :: "vcpu \<Rightarrow> bool" where
  "vcpu_is_off v \<longleftrightarrow> is_off (vc_inner v)"

section \<open>Physical CPUs\<close>

definition STACK_SIZE :: usize where "STACK_SIZE = PAGE_SIZE"

record cpu =
  cpu_id :: cpu_id_t
  stack_bottom :: usize
  is_on :: bool

definition Cpu_new :: "cpu_id_t \<Rightarrow> usize \<Rightarrow> bool \<Rightarrow> cpu" where
  "Cpu_new i bottom on = \<lparr>cpu_id = i, stack_bottom = bottom, is_on = on\<rparr>"

text \<open>\<open>CpuManager::new\<close>; \<open>stacks\<close> holds the addresses of the \<open>MAX_CPUS\<close> stacks.\<close>

definition CpuManager_new :: "cpu_id_t list \<Rightarrow> cpu_id_t \<Rightarrow> usize list \<Rightarrow> cpu list res" where
  "CpuManager_new cpu_ids boot_cpu_id stacks =
     (let boot_stack = stacks ! 0;
          cpus = [Cpu_new boot_cpu_id (boot_stack + STACK_SIZE) True]
      in if length (filter (\<lambda>i. boot_cpu_id = i) cpu_ids) \<noteq> 1 then Panic
         else
           let cpu_ids = filter (\<lambda>i. boot_cpu_id \<noteq> i) cpu_ids;
               stacks = drop 1 stacks
           in Ok (cpus @ map (\<lambda>(i, stack). Cpu_new i (stack + STACK_SIZE) False) (zip cpu_ids stacks)))"

definition lookup_cpu :: "cpu list \<Rightarrow> cpu_id_t \<Rightarrow> cpu option" where
  "lookup_cpu cpus i = find (\<lambda>c. cpu_id c = i) cpus"

definition get_boot_cpu :: "cpu list \<Rightarrow> cpu" where
  "get_boot_cpu cpus = cpus ! 0"

definition cpu_off :: "nat \<Rightarrow> cpu list \<Rightarrow> cpu list" where
  "cpu_off c cpus = cpus[c := (cpus ! c)\<lparr>is_on := False\<rparr>]"

definition cpu_find :: "cpu list \<Rightarrow> cpu_id_t \<Rightarrow> cpu option" where
  "cpu_find cpus i = lookup_cpu cpus i"

section \<open>Properties\<close>

lemma filter_other: "length (filter (\<lambda>i. b = i) xs) = 1 \<Longrightarrow> length (filter (\<lambda>i. b \<noteq> i) xs) = length xs - 1"
  using sum_length_filter_compl [of "\<lambda>i. b = i" xs] by simp

text \<open>
  C35. The CPU manager gives every CPU of the boot parameters a \<open>Cpu\<close>: the boot CPU is the first one
  and the only one that is on, each ID is found, and no two CPUs share a stack.
\<close>

theorem CpuManager_new_correct:
  assumes "CpuManager_new cpu_ids boot stacks = Ok cpus" "length stacks = MAX_CPUS" "distinct stacks"
    and "length cpu_ids \<le> MAX_CPUS"
  shows "cpu_id (get_boot_cpu cpus) = boot \<and> length cpus = length cpu_ids \<and>
    (\<forall>c \<in> set cpus. is_on c \<longleftrightarrow> cpu_id c = boot) \<and> distinct (map stack_bottom cpus) \<and>
    (\<forall>i \<in> set cpu_ids. \<exists>c. cpu_find cpus i = Some c \<and> cpu_id c = i)"
proof -
  define others where "others = filter (\<lambda>i. boot \<noteq> i) cpu_ids"
  have one: "length (filter (\<lambda>i. boot = i) cpu_ids) = 1" and cpus: "cpus = Cpu_new boot (stacks ! 0 + STACK_SIZE) True #
      map (\<lambda>(i, stack). Cpu_new i (stack + STACK_SIZE) False) (zip others (drop 1 stacks))"
    using assms(1) by (auto simp: CpuManager_new_def Let_def others_def split: if_splits)
  have len: "length others = length cpu_ids - 1" "length others \<le> 7" "0 < length cpu_ids"
    using filter_other [OF one] assms(4) one by (auto simp: others_def MAX_CPUS_def)
  obtain s0 ss where st: "stacks = s0 # ss" "length ss = 7"
    using assms(2) by (cases stacks) (auto simp: MAX_CPUS_def)
  have ids: "map cpu_id cpus = boot # others"
    using len st by (simp add: cpus Cpu_new_def case_prod_beta comp_def map_fst_zip_take)
  have "map stack_bottom cpus = map (\<lambda>s. s + STACK_SIZE) (s0 # take (length others) ss)"
    using len st by (simp add: cpus Cpu_new_def case_prod_beta comp_def map_snd_zip_take flip: map_map [of "\<lambda>s. s + STACK_SIZE" snd, unfolded comp_def])
  then have "distinct (map stack_bottom cpus)"
    using assms(3) st by (auto simp: distinct_map inj_on_def dest: in_set_takeD)
  moreover have "\<exists>c. cpu_find cpus i = Some c \<and> cpu_id c = i" if "i \<in> set cpu_ids" for i
  proof -
    have "i \<in> set (map cpu_id cpus)" using that by (auto simp: ids others_def)
    then show ?thesis
      by (cases "find (\<lambda>c. cpu_id c = i) cpus")
        (auto simp: cpu_find_def lookup_cpu_def find_None_iff find_Some_iff)
  qed
  moreover have "\<forall>c \<in> set cpus. is_on c \<longleftrightarrow> cpu_id c = boot"
    by (auto simp: cpus Cpu_new_def others_def dest!: set_zip_leftD)
  ultimately show ?thesis
    using len st ids by (auto simp: cpus get_boot_cpu_def Cpu_new_def)
qed

theorem CpuManager_new_correct_witness:
  "\<exists>cpus. CpuManager_new [4, 5, 6] 5 (map (\<lambda>i. word_of_nat i * 4096) [1..<9]) = Ok cpus \<and>
     length cpus = 3 \<and> distinct (map stack_bottom cpus) \<and> (\<exists>c. cpu_find cpus 6 = Some c \<and> cpu_id c = 6)"
proof -
  let ?stacks = "map (\<lambda>i. word_of_nat i * 4096) [1..<9] :: usize list"
  obtain cpus where run: "CpuManager_new [4, 5, 6] 5 ?stacks = Ok cpus"
    by (simp add: CpuManager_new_def Let_def)
  have "length ?stacks = MAX_CPUS" "distinct ?stacks"
    by (simp_all add: MAX_CPUS_def upt_rec)
  from CpuManager_new_correct [OF run this] run show ?thesis
    by (auto simp: MAX_CPUS_def)
qed

end
