(* ===== verification/Ring_List.thy ===== *)
theory Ring_List
  imports Main
begin

text \<open>
  The intrusive doubly linked circular list of src/hfo2/src/list.rs, on an explicit store of
  entries: an entry is a node of the store, and every pointer assignment of the source is one
  update, in the order of the source.

  \<open>ring h l xs\<close> says that in the store \<open>h\<close> the list with head node \<open>l\<close> holds the entries \<open>xs\<close>. The
  locale \<open>intrusive_list\<close> is what the mailboxes (theory \<open>Vm\<close>) rely on: a first-in first-out queue
  whose operations touch nothing but the entries of the lists involved.
\<close>

section \<open>Model\<close>

record 'a list_entry =
  "next" :: 'a
  prev :: 'a

type_synonym 'a entries = "'a \<Rightarrow> 'a list_entry"

definition set_next :: "'a \<Rightarrow> 'a \<Rightarrow> 'a entries \<Rightarrow> 'a entries" where
  "set_next e v h = h(e := (h e)\<lparr>next := v\<rparr>)"

definition set_prev :: "'a \<Rightarrow> 'a \<Rightarrow> 'a entries \<Rightarrow> 'a entries" where
  "set_prev e v h = h(e := (h e)\<lparr>prev := v\<rparr>)"

definition list_init :: "'a \<Rightarrow> 'a entries \<Rightarrow> 'a entries" where
  "list_init e h = set_prev e e (set_next e e h)"

definition list_append :: "'a \<Rightarrow> 'a \<Rightarrow> 'a entries \<Rightarrow> 'a entries" where
  "list_append l e h =
     (let h = set_next e l h;
          h = set_prev e (prev (h l)) h;
          h = set_prev (next (h e)) e h;
          h = set_next (prev (h e)) e h
      in h)"

definition list_prepend :: "'a \<Rightarrow> 'a \<Rightarrow> 'a entries \<Rightarrow> 'a entries" where
  "list_prepend l e h =
     (let h = set_next e (next (h l)) h;
          h = set_prev e l h;
          h = set_prev (next (h e)) e h;
          h = set_next (prev (h e)) e h
      in h)"

definition list_empty :: "'a \<Rightarrow> 'a entries \<Rightarrow> bool" where
  "list_empty l h \<longleftrightarrow> next (h l) = l"

definition list_remove :: "'a \<Rightarrow> 'a entries \<Rightarrow> 'a entries" where
  "list_remove e h =
     (let h = set_next (prev (h e)) (next (h e)) h;
          h = set_prev (next (h e)) (prev (h e)) h
      in list_init e h)"

definition list_pop_front :: "'a \<Rightarrow> 'a entries \<Rightarrow> 'a \<times> 'a entries" where
  "list_pop_front l h = (let result = next (h l) in (result, list_remove result h))"

section \<open>Rings\<close>

text \<open>\<open>dlink h a xs b\<close>: from \<open>a\<close> through \<open>xs\<close> to \<open>b\<close>, both ways.\<close>

primrec dlink :: "'a entries \<Rightarrow> 'a \<Rightarrow> 'a list \<Rightarrow> 'a \<Rightarrow> bool" where
  "dlink h a [] b \<longleftrightarrow> next (h a) = b \<and> prev (h b) = a"
| "dlink h a (x # xs) b \<longleftrightarrow> next (h a) = x \<and> prev (h x) = a \<and> dlink h x xs b"

definition ring :: "'a entries \<Rightarrow> 'a \<Rightarrow> 'a list \<Rightarrow> bool" where
  "ring h l xs \<longleftrightarrow> distinct (l # xs) \<and> dlink h l xs l"

lemma entry_updates [simp]:
  "next (set_next e v h x) = (if x = e then v else next (h x))" "prev (set_next e v h x) = prev (h x)"
  "next (set_prev e v h x) = next (h x)" "prev (set_prev e v h x) = (if x = e then v else prev (h x))"
  by (simp_all add: set_next_def set_prev_def)

lemma entry_eqI: "next r = next s \<Longrightarrow> prev r = prev s \<Longrightarrow> r = s" for r s :: "'a list_entry"
  by simp

lemma dlink_append [simp]: "dlink h a (xs @ y # ys) b \<longleftrightarrow> dlink h a xs y \<and> dlink h y ys b"
  by (induction xs arbitrary: a) auto

lemma dlink_frame:
  assumes "\<And>z. z \<in> set (a # xs) \<Longrightarrow> next (h' z) = next (h z)" "\<And>z. z \<in> set (xs @ [b]) \<Longrightarrow> prev (h' z) = prev (h z)"
  shows "dlink h' a xs b = dlink h a xs b"
  using assms by (induction xs arbitrary: a) auto

lemma ring_frame: "(\<And>z. z \<in> set (l # xs) \<Longrightarrow> h' z = h z) \<Longrightarrow> ring h' l xs = ring h l xs"
  using dlink_frame [of l xs h' h l] by (simp add: ring_def)

lemma ring_empty: "ring h l xs \<Longrightarrow> list_empty l h \<longleftrightarrow> xs = []"
  by (cases xs) (auto simp: ring_def list_empty_def)

lemma ring_init: "ring (list_init e h) e []"
  by (simp add: ring_def list_init_def)

lemma init_frame: "z \<noteq> e \<Longrightarrow> list_init e h z = h z"
  by (rule entry_eqI) (simp_all add: list_init_def)

lemma ring_append:
  assumes "ring h l xs" "e \<notin> set (l # xs)"
  shows "ring (list_append l e h) l (xs @ [e])"
proof (cases xs rule: rev_cases)
  case Nil
  then show ?thesis using assms by (auto simp: ring_def list_append_def Let_def)
next
  case (snoc ys z)
  have "dlink (list_append l e h) l ys z = dlink h l ys z"
    using assms snoc by (intro dlink_frame) (auto simp: ring_def list_append_def Let_def)
  then show ?thesis
    using assms snoc by (auto simp: ring_def list_append_def Let_def)
qed

lemma append_frame: "ring h l xs \<Longrightarrow> z \<notin> set (e # l # xs) \<Longrightarrow> list_append l e h z = h z"
  by (cases xs rule: rev_cases) (auto simp: ring_def list_append_def Let_def intro!: entry_eqI)

lemma ring_prepend:
  assumes "ring h l xs" "e \<notin> set (l # xs)"
  shows "ring (list_prepend l e h) l (e # xs)"
proof (cases xs)
  case Nil
  then show ?thesis using assms by (auto simp: ring_def list_prepend_def Let_def)
next
  case (Cons y ys)
  have "dlink (list_prepend l e h) y ys l = dlink h y ys l"
    using assms Cons by (intro dlink_frame) (auto simp: ring_def list_prepend_def Let_def)
  then show ?thesis
    using assms Cons by (auto simp: ring_def list_prepend_def Let_def)
qed

lemma remove_links:
  assumes "next (h e) = s" "prev (h e) = p" "p \<noteq> e" "s \<noteq> e"
  shows "next (list_remove e h x) = (if x = e then e else if x = p then s else next (h x))"
    "prev (list_remove e h x) = (if x = e then e else if x = s then p else prev (h x))"
  using assms by (simp_all add: list_remove_def list_init_def Let_def)

lemma dlink_ends: "dlink h a xs b \<Longrightarrow> next (h a) = hd (xs @ [b]) \<and> prev (h b) = last (a # xs)"
  by (induction xs arbitrary: a) auto

lemma ring_around:
  assumes "ring h l (xs @ e # ys)"
  shows "next (h e) = hd (ys @ [l])" "prev (h e) = last (l # xs)" "last (l # xs) \<noteq> e" "hd (ys @ [l]) \<noteq> e"
proof -
  have "last (l # xs) \<in> set (l # xs)" "hd (ys @ [l]) \<in> set (ys @ [l])"
    by (rule last_in_set, simp) (rule hd_in_set, simp)
  then show "last (l # xs) \<noteq> e" "hd (ys @ [l]) \<noteq> e"
    using assms unfolding ring_def by auto
  show "next (h e) = hd (ys @ [l])" "prev (h e) = last (l # xs)"
    using assms dlink_ends [of h l xs e] dlink_ends [of h e ys l] by (simp_all add: ring_def)
qed

lemma ring_remove:
  assumes "ring h l (xs @ e # ys)"
  shows "ring (list_remove e h) l (xs @ ys)"
proof -
  note u [simp] = remove_links [of h e "hd (ys @ [l])" "last (l # xs)", OF ring_around [OF assms]]
  let ?h = "list_remove e h"
  have d: "distinct (l # xs @ e # ys)" and a: "dlink h l xs e" "dlink h e ys l"
    using assms by (simp_all add: ring_def)
  show ?thesis
  proof (cases xs rule: rev_cases)
    case Nil
    show ?thesis
    proof (cases ys)
      case (Cons y zs)
      then have "dlink ?h y zs l = dlink h y zs l"
        using d Nil by (intro dlink_frame) auto
      then show ?thesis using Nil Cons d a by (auto simp: ring_def)
    qed (use Nil d in \<open>simp add: ring_def\<close>)
  next
    case (snoc ws w)
    then have w: "dlink ?h l ws w = dlink h l ws w"
      using d by (intro dlink_frame) (auto simp: hd_append split: if_splits)
    show ?thesis
    proof (cases ys)
      case Nil
      then show ?thesis using snoc w d a by (auto simp: ring_def)
    next
      case (Cons y zs)
      then have "dlink ?h y zs l = dlink h y zs l"
        using d snoc by (intro dlink_frame) auto
      then show ?thesis using snoc Cons w d a by (auto simp: ring_def)
    qed
  qed
qed

lemma ring_removed: "ring h l (xs @ e # ys) \<Longrightarrow> ring (list_remove e h) e []"
  by (simp add: list_remove_def Let_def ring_init)

lemma remove_frame:
  assumes "ring h l (xs @ e # ys)" "z \<notin> set (l # xs @ e # ys)"
  shows "list_remove e h z = h z"
proof -
  have "last (l # xs) \<in> set (l # xs)" "hd (ys @ [l]) \<in> set (ys @ [l])"
    by (rule last_in_set, simp) (rule hd_in_set, simp)
  then show ?thesis
    using assms(2) remove_links [of h e "hd (ys @ [l])" "last (l # xs)" z, OF ring_around [OF assms(1)]] by (intro entry_eqI) auto
qed

lemma ring_pop_front:
  assumes "ring h l (x # xs)" "list_pop_front l h = (r, h')"
  shows "r = x" "ring h' l xs" "ring h' x []"
proof -
  have x: "next (h l) = x" using assms(1) by (simp add: ring_def)
  then show "r = x" using assms(2) by (simp add: list_pop_front_def Let_def)
  have "h' = list_remove x h" using assms(2) x by (auto simp: list_pop_front_def Let_def)
  then show "ring h' l xs" "ring h' x []"
    using ring_remove [of h l "[]" x xs] ring_removed [of h l "[]" x xs] assms(1) by simp_all
qed

lemma pop_front_frame:
  "ring h l (x # xs) \<Longrightarrow> z \<notin> set (l # x # xs) \<Longrightarrow> snd (list_pop_front l h) z = h z"
  using remove_frame [of h l "[]" x xs z] by (simp add: list_pop_front_def Let_def ring_def [of h l "x # xs"])

section \<open>The interface of the mailboxes\<close>

locale intrusive_list =
  fixes holds :: "'h \<Rightarrow> 'a \<Rightarrow> 'a list \<Rightarrow> bool"
    and empty :: "'a \<Rightarrow> 'h \<Rightarrow> bool"
    and append :: "'a \<Rightarrow> 'a \<Rightarrow> 'h \<Rightarrow> 'h"
    and pop :: "'a \<Rightarrow> 'h \<Rightarrow> 'a \<times> 'h"
  assumes distinct_list: "holds h l xs \<Longrightarrow> distinct (l # xs)"
    and empty_iff: "holds h l xs \<Longrightarrow> empty l h \<longleftrightarrow> xs = []"
    and append_holds: "holds h l xs \<Longrightarrow> e \<notin> set (l # xs) \<Longrightarrow> holds (append l e h) l (xs @ [e])"
    and append_other: "holds h l xs \<Longrightarrow> holds h m ys \<Longrightarrow> set (m # ys) \<inter> set (e # l # xs) = {} \<Longrightarrow>
      holds (append l e h) m ys"
    and pop_holds: "holds h l (x # xs) \<Longrightarrow> pop l h = (r, h') \<Longrightarrow> r = x \<and> holds h' l xs \<and> holds h' x []"
    and pop_other: "holds h l (x # xs) \<Longrightarrow> pop l h = (r, h') \<Longrightarrow> holds h m ys \<Longrightarrow>
      set (m # ys) \<inter> set (l # x # xs) = {} \<Longrightarrow> holds h' m ys"
begin

text \<open>Entries come out in the order in which they went in.\<close>

lemma append_all:
  "holds h l xs \<Longrightarrow> distinct (xs @ es) \<Longrightarrow> l \<notin> set es \<Longrightarrow> holds (fold (append l) es h) l (xs @ es)"
proof (induction es arbitrary: xs h)
  case (Cons e es)
  have "holds (append l e h) l (xs @ [e])"
    using Cons.prems by (intro append_holds) auto
  then show ?case using Cons.IH [of "append l e h" "xs @ [e]"] Cons.prems by simp
qed simp

lemma pop_append:
  assumes "holds h l xs" "e \<notin> set (l # xs)" "pop l (append l e h) = (r, h')"
  shows "r = hd (xs @ [e]) \<and> holds h' l (tl (xs @ [e]))"
  using append_holds [OF assms(1,2)] pop_holds [of "append l e h" l "hd (xs @ [e])" "tl (xs @ [e])" r h'] assms(3)
  by simp

end

interpretation il: intrusive_list ring list_empty list_append list_pop_front
proof
  show "ring h l xs \<Longrightarrow> distinct (l # xs)" for h l and xs :: "'a list" by (simp add: ring_def)
  show "ring h l xs \<Longrightarrow> list_empty l h \<longleftrightarrow> xs = []" for h l and xs :: "'a list" by (rule ring_empty)
  show "ring h l xs \<Longrightarrow> e \<notin> set (l # xs) \<Longrightarrow> ring (list_append l e h) l (xs @ [e])" for h l e and xs :: "'a list"
    by (rule ring_append)
  show "ring h l xs \<Longrightarrow> ring h m ys \<Longrightarrow> set (m # ys) \<inter> set (e # l # xs) = {} \<Longrightarrow> ring (list_append l e h) m ys"
    for h l m e and xs ys :: "'a list"
    using ring_frame [of m ys "list_append l e h" h] append_frame [of h l xs _ e] by blast
  show "ring h l (x # xs) \<Longrightarrow> list_pop_front l h = (r, h') \<Longrightarrow> r = x \<and> ring h' l xs \<and> ring h' x []"
    for h l x r h' and xs :: "'a list"
    using ring_pop_front [of h l x xs r h'] by blast
  show "ring h l (x # xs) \<Longrightarrow> list_pop_front l h = (r, h') \<Longrightarrow> ring h m ys \<Longrightarrow>
      set (m # ys) \<inter> set (l # x # xs) = {} \<Longrightarrow> ring h' m ys" for h l x r h' m and xs ys :: "'a list"
    using ring_frame [of m ys h' h] pop_front_frame [of h l x xs] by (metis disjoint_iff snd_conv)
qed

end
