(* ===== verification/Vm.thy ===== *)
theory Vm
  imports Cpu Ring_List Page_Table Arch_Aarch64
begin

text \<open>
  Virtual machines and their mailboxes (src/hfo2/src/vm.rs).

  A VM is known by its position in the array of the \<open>VmManager\<close>. The list nodes that are embedded
  in the structures are nodes of one store of entries (theory \<open>Ring_List\<close>): the heads of the two
  lists of a mailbox, and the two links of each wait entry. \<open>container_of!\<close> is then the pattern
  match on the node, and the field \<open>waiting_vm\<close> of a wait entry, which \<open>VmInner::init\<close> sets to the
  VM the entry belongs to and nothing changes, is the VM of the node.

  Raw pointers to message buffers are addresses, null being 0. \<open>S\<close> is the stage-2 geometry, and
  \<open>red\<close> stands for the combinator \<open>reduce\<close> of the crate of that name, which \<open>defrag\<close> uses.
\<close>

section \<open>Mailboxes\<close>

datatype MailboxState = Empty | Received | Read

datatype link =
    WaiterList nat \<comment> \<open>the list \<open>waiter_list\<close> of a VM\<close>
  | ReadyList nat \<comment> \<open>the list \<open>ready_list\<close> of a VM\<close>
  | WaitLinks nat nat \<comment> \<open>\<open>wait_links\<close> of an entry in \<open>wait_entries\<close> of a VM\<close>
  | ReadyLinks nat nat \<comment> \<open>\<open>ready_links\<close> of an entry in \<open>wait_entries\<close> of a VM\<close>

type_synonym wait_entry = "nat \<times> nat"

type_synonym links = "link entries"

type_synonym reducer = "(u64 res \<Rightarrow> u64 res \<Rightarrow> u64 res) \<Rightarrow> u64 res list \<Rightarrow> u64 res option"

record mailbox =
  mb_state :: MailboxState
  recv :: usize
  send :: usize

definition is_in_ready_list :: "wait_entry \<Rightarrow> links \<Rightarrow> bool" where
  "is_in_ready_list w ls \<longleftrightarrow> \<not> list_empty (ReadyLinks (fst w) (snd w)) ls"

definition Mailbox_init :: "nat \<Rightarrow> links \<Rightarrow> mailbox \<times> links" where
  "Mailbox_init vm ls =
     (\<lparr>mb_state = Empty, recv = 0, send = 0\<rparr>,
      list_init (ReadyList vm) (list_init (WaiterList vm) ls))"

text \<open>The node that \<open>list_pop_front\<close> returns, read as the wait entry that contains it.\<close>

fun container_of :: "link \<Rightarrow> wait_entry option" where
  "container_of (WaitLinks v i) = Some (v, i)"
| "container_of (ReadyLinks v i) = Some (v, i)"
| "container_of l = None"

definition Mailbox_fetch_waiter :: "nat \<Rightarrow> mailbox \<Rightarrow> links \<Rightarrow> wait_entry option \<times> links" where
  "Mailbox_fetch_waiter vm mb ls =
     (if mb_state mb \<noteq> Empty \<or> recv mb = 0 \<or> list_empty (WaiterList vm) ls then (None, ls)
      else let (e, ls) = list_pop_front (WaiterList vm) ls in (container_of e, ls))"

definition is_waiter_list_empty :: "nat \<Rightarrow> links \<Rightarrow> bool" where
  "is_waiter_list_empty vm ls \<longleftrightarrow> list_empty (WaiterList vm) ls"

definition try_read :: "mailbox \<Rightarrow> unit res \<times> mailbox" where
  "try_read mb =
     (if mb_state mb = Received then (Ok (), mb\<lparr>mb_state := Read\<rparr>) else (Err (), mb))"

definition set_read :: "mailbox \<Rightarrow> mailbox" where
  "set_read mb = mb\<lparr>mb_state := Read\<rparr>"

definition set_received :: "mailbox \<Rightarrow> mailbox" where
  "set_received mb = mb\<lparr>mb_state := Received\<rparr>"

text \<open>
  \<open>set_empty\<close>; its \<open>debug_assert\<close> that the state is \<open>Read\<close> is off in release builds.
\<close>

definition set_empty :: "mailbox \<Rightarrow> mailbox" where
  "set_empty mb = mb\<lparr>mb_state := Empty\<rparr>"

text \<open>
  \<open>configure_stage1\<close>: the scope guard undoes the mapping of the send page when the second mapping
  fails; its \<open>unwrap\<close> panics if that fails too.
\<close>

definition configure_stage1 ::
  "reducer \<Rightarrow> paddr_t \<Rightarrow> paddr_t \<Rightarrow> paddr_t \<Rightarrow> paddr_t \<Rightarrow> mailbox \<Rightarrow> ptable \<Rightarrow> menv
     \<Rightarrow> unit res \<times> mailbox \<times> ptable \<times> menv" where
  "configure_stage1 red pa_send_begin pa_send_end pa_recv_begin pa_recv_end mb hyp env =
     (case identity_map aarch64_stage1 pa_send_begin pa_send_end MODE_R hyp env of
        (Ok _, hyp, env) \<Rightarrow>
          (case identity_map aarch64_stage1 pa_recv_begin pa_recv_end MODE_W hyp env of
             (Ok _, hyp, env) \<Rightarrow>
               (Ok (), mb\<lparr>send := pa_addr pa_send_begin, recv := pa_addr pa_recv_begin\<rparr>, hyp, env)
           | (Err _, hyp, env) \<Rightarrow>
               let (hyp, env) = PageTable_defrag aarch64_stage1 red hyp env
               in (case PageTable_unmap aarch64_stage1 pa_send_begin pa_send_end hyp env of
                     (Ok _, hyp, env) \<Rightarrow> (Err (), mb, hyp, env)
                   | (_, hyp, env) \<Rightarrow> (Panic, mb, hyp, env))
           | (Panic, hyp, env) \<Rightarrow> (Panic, mb, hyp, env))
      | (Err _, hyp, env) \<Rightarrow>
          let (hyp, env) = PageTable_defrag aarch64_stage1 red hyp env in (Err (), mb, hyp, env)
      | (Panic, hyp, env) \<Rightarrow> (Panic, mb, hyp, env))"

section \<open>The state of a VM under its lock\<close>

definition LOG_BUFFER_SIZE :: nat where "LOG_BUFFER_SIZE = 256"

record vm_inner =
  log_buffer :: "u8 list"
  vm_ptable :: ptable
  mailbox :: mailbox

text \<open>The links that \<open>VmInner::init\<close> initialises, in the order of its loop.\<close>

definition init_entries :: "nat \<Rightarrow> links \<Rightarrow> links" where
  "init_entries vm ls =
     fold (\<lambda>i ls. list_init (ReadyLinks vm i) (list_init (WaitLinks vm i) ls)) [0..<MAX_VMS] ls"

definition VmInner_init ::
  "stage \<Rightarrow> nat \<Rightarrow> vm_inner \<Rightarrow> links \<Rightarrow> menv \<Rightarrow> unit res \<times> vm_inner \<times> links \<times> menv" where
  "VmInner_init S vm s ls env =
     (let (mb, ls) = Mailbox_init vm ls;
          s = s\<lparr>mailbox := mb\<rparr>
      in case mm_vm_init S (vm_ptable s) env of
           (Ok True, t, env) \<Rightarrow> (Ok (), s\<lparr>vm_ptable := t\<rparr>, init_entries vm ls, env)
         | (Ok False, t, env) \<Rightarrow> (Err (), s\<lparr>vm_ptable := t\<rparr>, ls, env)
         | (Err e, t, env) \<Rightarrow> (Err e, s\<lparr>vm_ptable := t\<rparr>, ls, env)
         | (Panic, t, env) \<Rightarrow> (Panic, s\<lparr>vm_ptable := t\<rparr>, ls, env))"

text \<open>
  A pool on the stack whose fallback is the pool of the caller, and its drop at the end of the
  scope, which gives everything back to the fallback (a pool made by \<open>local_pool\<close> has one).
\<close>

definition local_pool :: "menv \<Rightarrow> menv" where
  "local_pool env = env\<lparr>mpool := MPool_new_with_fallback (Some (mpool env))\<rparr>"

definition drop_local_pool :: "menv \<Rightarrow> menv" where
  "drop_local_pool env =
     (case mp_fallback (MPool_drop (mpool env)) of
        Some fallback \<Rightarrow> env\<lparr>mpool := fallback\<rparr>
      | None \<Rightarrow> env)"

text \<open>Restoring a mapping in a scope guard: \<open>identity_map(..).unwrap()\<close>.\<close>

definition restore :: "stage \<Rightarrow> paddr_t \<Rightarrow> paddr_t \<Rightarrow> mode \<Rightarrow> ptable \<Rightarrow> menv \<Rightarrow> unit res \<times> ptable \<times> menv" where
  "restore S begin e m t env =
     (case identity_map S begin e m t env of
        (Ok _, t, env) \<Rightarrow> (Ok (), t, env)
      | (_, t, env) \<Rightarrow> (Panic, t, env))"

definition configure_pages ::
  "stage \<Rightarrow> reducer \<Rightarrow> paddr_t \<Rightarrow> paddr_t \<Rightarrow> mode \<Rightarrow> paddr_t \<Rightarrow> paddr_t \<Rightarrow> mode \<Rightarrow> vm_inner \<Rightarrow> ptable \<Rightarrow> menv
     \<Rightarrow> unit res \<times> vm_inner \<times> ptable \<times> menv" where
  "configure_pages S red pa_send_begin pa_send_end orig_send_mode pa_recv_begin pa_recv_end
       orig_recv_mode s hyp env =
     (let env = local_pool env;
          t = vm_ptable s
      in case identity_map S pa_send_begin pa_send_end (MODE_UNOWNED OR MODE_SHARED OR MODE_R OR MODE_W) t env of
           (Ok _, t, env) \<Rightarrow>
             (case identity_map S pa_recv_begin pa_recv_end (MODE_UNOWNED OR MODE_SHARED OR MODE_R) t env of
                (Ok _, t, env) \<Rightarrow>
                  (case configure_stage1 red pa_send_begin pa_send_end pa_recv_begin pa_recv_end
                          (mailbox s) hyp env of
                     (Ok _, mb, hyp, env) \<Rightarrow>
                       (Ok (), s\<lparr>vm_ptable := t, mailbox := mb\<rparr>, hyp, drop_local_pool env)
                   | (Err _, mb, hyp, env) \<Rightarrow>
                       (case restore S pa_recv_begin pa_recv_end orig_recv_mode t env of
                          (Ok _, t, env) \<Rightarrow>
                            (case restore S pa_send_begin pa_send_end orig_send_mode t env of
                               (Ok _, t, env) \<Rightarrow>
                                 (Err (), s\<lparr>vm_ptable := t, mailbox := mb\<rparr>, hyp, drop_local_pool env)
                             | (_, t, env) \<Rightarrow> (Panic, s\<lparr>vm_ptable := t, mailbox := mb\<rparr>, hyp, env))
                        | (_, t, env) \<Rightarrow> (Panic, s\<lparr>vm_ptable := t, mailbox := mb\<rparr>, hyp, env))
                   | (Panic, mb, hyp, env) \<Rightarrow> (Panic, s\<lparr>vm_ptable := t, mailbox := mb\<rparr>, hyp, env))
              | (Err _, t, env) \<Rightarrow>
                  let (t, env) = PageTable_defrag S red t env
                  in (case restore S pa_send_begin pa_send_end orig_send_mode t env of
                        (Ok _, t, env) \<Rightarrow> (Err (), s\<lparr>vm_ptable := t\<rparr>, hyp, drop_local_pool env)
                      | (_, t, env) \<Rightarrow> (Panic, s\<lparr>vm_ptable := t\<rparr>, hyp, env))
              | (Panic, t, env) \<Rightarrow> (Panic, s\<lparr>vm_ptable := t\<rparr>, hyp, env))
         | (Err _, t, env) \<Rightarrow> (Err (), s\<lparr>vm_ptable := t\<rparr>, hyp, drop_local_pool env)
         | (Panic, t, env) \<Rightarrow> (Panic, s\<lparr>vm_ptable := t\<rparr>, hyp, env))"

definition is_configured :: "vm_inner \<Rightarrow> bool" where
  "is_configured s \<longleftrightarrow> send (mailbox s) \<noteq> 0 \<and> recv (mailbox s) \<noteq> 0"

definition configure ::
  "stage \<Rightarrow> reducer \<Rightarrow> ipaddr_t \<Rightarrow> ipaddr_t \<Rightarrow> vm_inner \<Rightarrow> ptable \<Rightarrow> menv \<Rightarrow> unit res \<times> vm_inner \<times> ptable \<times> menv" where
  "configure S red sd rc s hyp env =
     (if \<not> is_aligned (ipa_addr sd) PAGE_SIZE \<or> \<not> is_aligned (ipa_addr rc) PAGE_SIZE then (Err (), s, hyp, env)
      else
        let pa_send_begin = pa_from_ipa sd;
            pa_send_end = pa_add pa_send_begin PAGE_SIZE;
            pa_recv_begin = pa_from_ipa rc;
            pa_recv_end = pa_add pa_recv_begin PAGE_SIZE
        in if pa_addr pa_send_begin = pa_addr pa_recv_begin then (Err (), s, hyp, env)
           else if is_configured s then (Err (), s, hyp, env)
           else case get_mode S sd (ipa_add sd PAGE_SIZE) (vm_ptable s) of
             Ok orig_send_mode \<Rightarrow>
               if \<not> (valid_owned_exclusive orig_send_mode \<and> mode_contains orig_send_mode (MODE_R OR MODE_W))
               then (Err (), s, hyp, env)
               else (case get_mode S rc (ipa_add rc PAGE_SIZE) (vm_ptable s) of
                 Ok orig_recv_mode \<Rightarrow>
                   if \<not> (valid_owned_exclusive orig_recv_mode \<and> mode_contains orig_recv_mode MODE_R)
                   then (Err (), s, hyp, env)
                   else configure_pages S red pa_send_begin pa_send_end orig_send_mode
                     pa_recv_begin pa_recv_end orig_recv_mode s hyp env
               | Err e \<Rightarrow> (Err e, s, hyp, env)
               | Panic \<Rightarrow> (Panic, s, hyp, env))
           | Err e \<Rightarrow> (Err e, s, hyp, env)
           | Panic \<Rightarrow> (Panic, s, hyp, env))"

definition VmInner_is_empty :: "vm_inner \<Rightarrow> bool" where
  "VmInner_is_empty s \<longleftrightarrow> mb_state (mailbox s) = Empty"

text \<open>\<open>dequeue_ready_list\<close>: the position of the entry in the array is the ID of the VM that became writable.\<close>

definition dequeue_ready_list :: "nat \<Rightarrow> links \<Rightarrow> spci_vm_id_t option \<times> links" where
  "dequeue_ready_list vm ls =
     (if list_empty (ReadyList vm) ls then (None, ls)
      else
        let (e, ls) = list_pop_front (ReadyList vm) ls
        in (map_option (\<lambda>w. word_of_nat (snd w)) (container_of e), ls))"

definition enqueue_ready_list :: "nat \<Rightarrow> wait_entry \<Rightarrow> links \<Rightarrow> links" where
  "enqueue_ready_list vm w ls = list_append (ReadyList vm) (ReadyLinks (fst w) (snd w)) ls"

text \<open>\<open>wait_for\<close>: the index into \<open>wait_entries\<close> is checked.\<close>

definition wait_for :: "nat \<Rightarrow> nat \<Rightarrow> spci_vm_id_t \<Rightarrow> links \<Rightarrow> unit res \<times> links" where
  "wait_for vm target target_id ls =
     (if unat target_id \<ge> MAX_VMS then (Panic, ls)
      else
        let e = WaitLinks vm (unat target_id)
        in if \<not> list_empty e ls then (Err (), ls) else (Ok (), list_append (WaiterList target) e ls))"

text \<open>
  \<open>debug_log\<close>: the buffer is flushed at the end of a line or when it is full; what is printed is
  not modelled. \<open>push\<close> on a full buffer would panic.
\<close>

definition VmInner_debug_log :: "u8 \<Rightarrow> vm_inner \<Rightarrow> unit res \<times> vm_inner" where
  "VmInner_debug_log c s =
     (if c = 10 \<or> c = 0 then (Ok (), s\<lparr>log_buffer := []\<rparr>)
      else if length (log_buffer s) \<ge> LOG_BUFFER_SIZE then (Panic, s)
      else
        let buf = log_buffer s @ [c]
        in (Ok (), s\<lparr>log_buffer := (if length buf = LOG_BUFFER_SIZE then [] else buf)\<rparr>))"

section \<open>Virtual machines\<close>

record vm =
  vm_id :: spci_vm_id_t
  vcpus :: "vcpu list"
  vm_inner :: vm_inner
  aborting :: bool

text \<open>\<open>Vm::init\<close>; \<open>push_unchecked\<close> does not check the capacity \<open>MAX_CPUS\<close>.\<close>

definition Vm_init ::
  "stage \<Rightarrow> nat \<Rightarrow> spci_vm_id_t \<Rightarrow> spci_vcpu_count_t \<Rightarrow> vm \<Rightarrow> links \<Rightarrow> menv \<Rightarrow> unit res \<times> vm \<times> links \<times> menv" where
  "Vm_init S vm i vcpu_count v ls env =
     (let v = v\<lparr>vm_id := i, vcpus := [], aborting := False\<rparr>;
          (res, s, ls, env) = VmInner_init S vm (vm_inner v) ls env;
          v = v\<lparr>vm_inner := s\<rparr>
      in case res of
           Ok _ \<Rightarrow> (Ok (), v\<lparr>vcpus := replicate (unat vcpu_count) VCpu_new\<rparr>, ls, env)
         | Err e \<Rightarrow> (Err e, v, ls, env)
         | Panic \<Rightarrow> (Panic, v, ls, env))"

definition get_ptable_raw :: "vm \<Rightarrow> paddr_t" where
  "get_ptable_raw v = PageTable_as_raw (vm_ptable (vm_inner v))"

section \<open>The VM manager\<close>

text \<open>
  \<open>new_vm\<close> initialises the next slot of the array in place; \<open>raw\<close> is what the slot holds before.
  On failure the length of the array does not change, so the slot stays outside it.
\<close>

definition new_vm ::
  "stage \<Rightarrow> vm \<Rightarrow> spci_vcpu_count_t \<Rightarrow> vm list \<Rightarrow> links \<Rightarrow> menv \<Rightarrow> nat option res \<times> vm list \<times> links \<times> menv" where
  "new_vm S raw vcpu_count vms ls env =
     (if length vms \<ge> MAX_VMS then (Ok None, vms, ls, env)
      else
        let idx = length vms;
            i = idx + unat HF_VM_ID_OFFSET
        in case Vm_init S idx (word_of_nat i) vcpu_count raw ls env of
             (Ok _, v, ls, env) \<Rightarrow> (Ok (Some idx), vms @ [v], ls, env)
           | (Err _, v, ls, env) \<Rightarrow> (Ok None, vms, ls, env)
           | (Panic, v, ls, env) \<Rightarrow> (Panic, vms, ls, env))"

definition get_vm_index :: "spci_vm_id_t \<Rightarrow> nat res" where
  "get_vm_index i = (if i \<ge> HF_VM_ID_OFFSET then Ok (unat (i - HF_VM_ID_OFFSET)) else Panic)"

text \<open>\<open>VmManager::get\<close>; the result is the position of the VM.\<close>

definition VmManager_get :: "spci_vm_id_t \<Rightarrow> vm list \<Rightarrow> nat option res" where
  "VmManager_get i vms =
     (case get_vm_index i of
        Ok n \<Rightarrow> Ok (if n < length vms then Some n else None)
      | Err e \<Rightarrow> Err e
      | Panic \<Rightarrow> Panic)"

definition get_primary :: nat where "get_primary = 0"

definition VmManager_len :: "vm list \<Rightarrow> u16" where
  "VmManager_len vms = word_of_nat (length vms)"

definition vm_get_vcpu :: "vm \<Rightarrow> spci_vcpu_index_t \<Rightarrow> vcpu res" where
  "vm_get_vcpu v i = (if unat i < length (vcpus v) then Ok (vcpus v ! unat i) else Panic)"

definition vm_get_vcpu_count :: "vm \<Rightarrow> spci_vcpu_count_t" where
  "vm_get_vcpu_count v = word_of_nat (length (vcpus v))"

end
