(* ===== verification/Bytes.thy ===== *)
theory Bytes
  imports Addr
begin

text \<open>
  Byte memory: numbers in memory, and the memory and string functions of src/hfo2/src/std.rs with the
  comparison of strings of src/src/arch/aarch64/std.c.

  Memory is a function from addresses to bytes. A function that writes returns the new memory; a
  failed check of \<open>check_or_fill\<close> fills the destination and panics. A comparison of strings that finds
  no end does not return (\<open>None\<close>).
\<close>

section \<open>Numbers in memory\<close>

definition read_u16 :: "(usize \<Rightarrow> u8) \<Rightarrow> usize \<Rightarrow> u16" where
  "read_u16 m a = ucast (m a) OR push_bit 8 (ucast (m (a + 1)))"

definition read_u32 :: "(usize \<Rightarrow> u8) \<Rightarrow> usize \<Rightarrow> u32" where
  "read_u32 m a = ucast (read_u16 m a) OR push_bit 16 (ucast (read_u16 m (a + 2)))"

definition read_u64 :: "(usize \<Rightarrow> u8) \<Rightarrow> usize \<Rightarrow> u64" where
  "read_u64 m a = ucast (read_u32 m a) OR push_bit 32 (ucast (read_u32 m (a + 4)))"

text \<open>\<open>ptr::copy_nonoverlapping\<close> of \<open>n\<close> bytes.\<close>

definition copy_bytes :: "(usize \<Rightarrow> u8) \<Rightarrow> usize \<Rightarrow> usize \<Rightarrow> nat \<Rightarrow> (usize \<Rightarrow> u8) \<Rightarrow> (usize \<Rightarrow> u8)" where
  "copy_bytes from src dst n m = (\<lambda>a. if unat (a - dst) < n then from (src + (a - dst)) else m a)"

text \<open>The bytes of a number, least significant first.\<close>

definition u16_bytes :: "u16 \<Rightarrow> u8 list" where
  "u16_bytes w = [ucast w, ucast (drop_bit 8 w)]"

definition u32_bytes :: "u32 \<Rightarrow> u8 list" where
  "u32_bytes w = u16_bytes (ucast w) @ u16_bytes (ucast (drop_bit 16 w))"

definition write_bytes :: "usize \<Rightarrow> u8 list \<Rightarrow> (usize \<Rightarrow> u8) \<Rightarrow> (usize \<Rightarrow> u8)" where
  "write_bytes dst bs m = (\<lambda>a. if unat (a - dst) < length bs then bs ! unat (a - dst) else m a)"

section \<open>Memory functions (std.rs)\<close>

definition RSIZE_MAX :: usize where "RSIZE_MAX = drop_bit 1 (- 1)"

text \<open>\<open>ptr::write_bytes\<close> of \<open>n\<close> equal bytes.\<close>

definition fill_bytes :: "u8 \<Rightarrow> usize \<Rightarrow> nat \<Rightarrow> (usize \<Rightarrow> u8) \<Rightarrow> (usize \<Rightarrow> u8)" where
  "fill_bytes c dst n m = (\<lambda>a. if unat (a - dst) < n then c else m a)"

text \<open>The memory after \<open>check_or_fill\<close> with a condition that does not hold, when it panics.\<close>

definition fill_on_failure :: "usize \<Rightarrow> usize \<Rightarrow> u8 \<Rightarrow> (usize \<Rightarrow> u8) \<Rightarrow> (usize \<Rightarrow> u8)" where
  "fill_on_failure dest destsz c m = (if dest \<noteq> 0 \<and> destsz \<le> RSIZE_MAX then fill_bytes c dest (unat destsz) m else m)"

definition memset_s :: "usize \<Rightarrow> usize \<Rightarrow> u32 \<Rightarrow> usize \<Rightarrow> (usize \<Rightarrow> u8) \<Rightarrow> unit res \<times> (usize \<Rightarrow> u8)" where
  "memset_s dest destsz ch cnt m =
     (if \<not> (dest \<noteq> 0) \<or> \<not> destsz \<le> RSIZE_MAX \<or> \<not> cnt \<le> destsz
      then (Panic, fill_on_failure dest destsz (ucast ch) m)
      else (Ok (), fill_bytes (ucast ch) dest (unat cnt) m))"

definition memcpy_s :: "usize \<Rightarrow> usize \<Rightarrow> usize \<Rightarrow> usize \<Rightarrow> (usize \<Rightarrow> u8) \<Rightarrow> unit res \<times> (usize \<Rightarrow> u8)" where
  "memcpy_s d destsz s cnt m =
     (if \<not> (d \<noteq> 0) \<or> \<not> (s \<noteq> 0) \<or> \<not> destsz \<le> RSIZE_MAX \<or> \<not> cnt \<le> destsz
         \<or> \<not> (d \<noteq> s) \<or> \<not> (d < s \<or> d \<ge> s + cnt) \<or> \<not> (d > s \<or> s \<ge> d + cnt)
      then (Panic, fill_on_failure d destsz 0 m)
      else (Ok (), copy_bytes m s d (unat cnt) m))"

definition memmove_s :: "usize \<Rightarrow> usize \<Rightarrow> usize \<Rightarrow> usize \<Rightarrow> (usize \<Rightarrow> u8) \<Rightarrow> unit res \<times> (usize \<Rightarrow> u8)" where
  "memmove_s d destsz s cnt m =
     (if \<not> (d \<noteq> 0) \<or> \<not> (s \<noteq> 0) \<or> \<not> destsz \<le> RSIZE_MAX \<or> \<not> cnt \<le> destsz
      then (Panic, fill_on_failure d destsz 0 m)
      else (Ok (), copy_bytes m s d (unat cnt) m))"

primrec strnlen_loop :: "(usize \<Rightarrow> u8) \<Rightarrow> usize \<Rightarrow> nat \<Rightarrow> nat" where
  "strnlen_loop m s 0 = 0"
| "strnlen_loop m s (Suc n) = (if m s = 0 then 0 else Suc (strnlen_loop m (s + 1) n))"

definition strnlen_s :: "(usize \<Rightarrow> u8) \<Rightarrow> usize \<Rightarrow> usize \<Rightarrow> nat" where
  "strnlen_s m s strsz = (if s = 0 then 0 else strnlen_loop m s (unat strsz))"

text \<open>The difference of two bytes is a \<open>u8\<close>, and wraps.\<close>

primrec memcmp_rs :: "(usize \<Rightarrow> u8) \<Rightarrow> usize \<Rightarrow> usize \<Rightarrow> nat \<Rightarrow> int" where
  "memcmp_rs m a b 0 = 0"
| "memcmp_rs m a b (Suc n) =
     (let cmp = m a - m b in if cmp \<noteq> 0 then uint cmp else memcmp_rs m (a + 1) (b + 1) n)"

partial_function (option) strcmp :: "(usize \<Rightarrow> u8) \<Rightarrow> usize \<Rightarrow> usize \<Rightarrow> int option" where
  "strcmp m a b =
     (if m a \<noteq> 0 \<and> m b \<noteq> 0 then
        if m a \<noteq> m b then Some (uint (m a) - uint (m b)) else strcmp m (a + 1) (b + 1)
      else Some (uint (m a) - uint (m b)))"

definition as_asciz :: "u8 list \<Rightarrow> u8 list" where
  "as_asciz bytes = takeWhile (\<lambda>c. c \<noteq> 0) bytes"

section \<open>Properties\<close>

lemma RSIZE_MAX_eq: "RSIZE_MAX = 0x7fffffffffffffff"
  by (simp add: RSIZE_MAX_def mask_eq_exp_minus_1)

text \<open>
  C36. The checked memory functions write nothing outside the destination buffer, whether they succeed
  or panic: after \<open>memset_s\<close>, \<open>memcpy_s\<close> and \<open>memmove_s\<close> every byte outside the \<open>destsz\<close> bytes at the
  destination is what it was, and a successful \<open>memcpy_s\<close> has copied every byte of the source.
\<close>

theorem memory_functions_bounded:
  assumes "unat destsz \<le> unat (a - d)"
  shows "snd (memset_s d destsz ch cnt m) a = m a \<and> snd (memcpy_s d destsz s cnt m) a = m a
    \<and> snd (memmove_s d destsz s cnt m) a = m a
    \<and> (fst (memcpy_s d destsz s cnt m) = Ok () \<longrightarrow> i < cnt \<longrightarrow> snd (memcpy_s d destsz s cnt m) (d + i) = m (s + i))"
proof -
  have "unat cnt \<le> unat destsz" if "cnt \<le> destsz" using that by (simp add: word_le_nat_alt)
  then have "\<not> unat (a - d) < unat cnt" if "cnt \<le> destsz" using that assms by fastforce
  moreover have "unat i < unat cnt" if "i < cnt" using that by (simp add: word_less_nat_alt)
  ultimately show ?thesis
    using assms by (auto simp: memset_s_def memcpy_s_def memmove_s_def fill_on_failure_def fill_bytes_def copy_bytes_def)
qed

theorem memory_functions_bounded_witness:
  "snd (memcpy_s 0x1000 16 0x2000 8 (\<lambda>a. ucast a)) 0x1010 = 0x10
   \<and> snd (memcpy_s 0x1000 16 0x2000 8 (\<lambda>a. ucast a)) (0x1000 + 5) = 5"
  using memory_functions_bounded [of 16 "0x1010" "0x1000" 0 8 "\<lambda>a. ucast a" "0x2000" 5]
  by (simp add: memcpy_s_def RSIZE_MAX_eq)

lemma memcmp_rs_0: "memcmp_rs m a b n = 0 \<longleftrightarrow> (\<forall>i < n. m (a + word_of_nat i) = m (b + word_of_nat i))"
proof (induction n arbitrary: a b)
  case (Suc n)
  have "(\<forall>i < Suc n. m (a + word_of_nat i) = m (b + word_of_nat i)) \<longleftrightarrow>
      m a = m b \<and> (\<forall>i < n. m (a + 1 + word_of_nat i) = m (b + 1 + word_of_nat i))"
    by (simp add: All_less_Suc2 ac_simps)
  then show ?case using Suc.IH [of "a + 1" "b + 1"] by (auto simp: Let_def unsigned_eq_0_iff)
qed simp

lemma memcmp_rs_nonneg: "0 \<le> memcmp_rs m a b n"
  by (induction n arbitrary: a b) (simp_all add: Let_def)

section \<open>Strings and big-endian numbers\<close>

text \<open>The bytes of a list are in memory from an address on; a C string ends at its first zero byte.\<close>

definition bytes_at :: "(usize \<Rightarrow> u8) \<Rightarrow> usize \<Rightarrow> u8 list \<Rightarrow> bool" where
  "bytes_at m a bs \<longleftrightarrow> (\<forall>i < length bs. m (a + of_nat i) = bs ! i)"

definition cstr_at :: "(usize \<Rightarrow> u8) \<Rightarrow> usize \<Rightarrow> u8 list \<Rightarrow> bool" where
  "cstr_at m a s \<longleftrightarrow> bytes_at m a (s @ [0]) \<and> 0 \<notin> set s"

lemma bytes_at_simps [simp]:
  "bytes_at m a []"
  "bytes_at m a (b # bs) \<longleftrightarrow> m a = b \<and> bytes_at m (a + 1) bs"
  by (auto simp: bytes_at_def less_Suc_eq_0_disj ac_simps)

lemma bytes_at_append [simp]:
  "bytes_at m a (bs @ cs) \<longleftrightarrow> bytes_at m a bs \<and> bytes_at m (a + of_nat (length bs)) cs"
  by (induction bs arbitrary: a) (simp_all add: ac_simps)

lemma strcmp_step: "strcmp m a b =
     (if m a \<noteq> 0 \<and> m b \<noteq> 0 then
        if m a \<noteq> m b then Some (uint (m a) - uint (m b)) else strcmp m (a + 1) (b + 1)
      else Some (uint (m a) - uint (m b)))"
  by (rule strcmp.simps)

lemma strcmp_common_prefix:
  "bytes_at m a bs \<Longrightarrow> bytes_at m b bs \<Longrightarrow> 0 \<notin> set bs \<Longrightarrow>
   strcmp m a b = strcmp m (a + of_nat (length bs)) (b + of_nat (length bs))"
proof (induction bs arbitrary: a b)
  case (Cons x bs)
  then have "strcmp m a b = strcmp m (a + 1) (b + 1)" by (subst strcmp_step) simp
  with Cons show ?case by (simp add: ac_simps)
qed simp

text \<open>\<open>strcmp\<close> returns as soon as one of the strings ends, and 0 only for equal strings.\<close>

lemma strcmp_cstr:
  assumes "cstr_at m a s" "cstr_at m b s'"
  shows "\<exists>c. strcmp m a b = Some c \<and> (c = 0 \<longleftrightarrow> s = s')"
  using assms
proof (induction s s' arbitrary: a b rule: list_induct2')
  case (4 x xs y ys)
  show ?case
  proof (cases "x = y")
    case True
    then have "strcmp m a b = strcmp m (a + 1) (b + 1)"
      using 4(2,3) by (subst strcmp_step) (simp add: cstr_at_def)
    moreover have "cstr_at m (a + 1) xs" "cstr_at m (b + 1) ys"
      using 4(2,3) by (simp_all add: cstr_at_def ac_simps)
    ultimately show ?thesis using 4(1) True by simp
  next
    case False
    then have "uint x \<noteq> uint y" by (auto dest: word_uint_eqI)
    with False show ?thesis using 4(2,3) by (subst strcmp_step) (simp add: cstr_at_def)
  qed
qed (subst strcmp_step; auto simp: cstr_at_def unsigned_eq_0_iff)+

text \<open>\<open>u32::from_be\<close> and \<open>u64::from_be\<close> of numbers in memory.\<close>

definition read_be_u32 :: "(usize \<Rightarrow> u8) \<Rightarrow> usize \<Rightarrow> u32" where
  "read_be_u32 m a = push_bit 24 (ucast (m a)) OR push_bit 16 (ucast (m (a + 1)))
     OR push_bit 8 (ucast (m (a + 2))) OR ucast (m (a + 3))"

definition read_be_u64 :: "(usize \<Rightarrow> u8) \<Rightarrow> usize \<Rightarrow> u64" where
  "read_be_u64 m a = push_bit 32 (ucast (read_be_u32 m a)) OR ucast (read_be_u32 m (a + 4))"

definition be_u32 :: "u32 \<Rightarrow> u8 list" where
  "be_u32 v = [ucast (drop_bit 24 v), ucast (drop_bit 16 v), ucast (drop_bit 8 v), ucast v]"

definition be_u64 :: "u64 \<Rightarrow> u8 list" where
  "be_u64 v = be_u32 (ucast (drop_bit 32 v)) @ be_u32 (ucast v)"

lemma length_be [simp]: "length (be_u32 v) = 4" "length (be_u64 w) = 8"
  by (simp_all add: be_u32_def be_u64_def)

lemma read_be_u32_bytes: "bytes_at m a (be_u32 v) \<Longrightarrow> read_be_u32 m a = v"
proof -
  assume "bytes_at m a (be_u32 v)"
  then have "read_be_u32 m a = push_bit 24 (ucast (ucast (drop_bit 24 v) :: u8))
      OR push_bit 16 (ucast (ucast (drop_bit 16 v) :: u8)) OR push_bit 8 (ucast (ucast (drop_bit 8 v) :: u8))
      OR ucast (ucast v :: u8)"
    by (simp add: read_be_u32_def be_u32_def ac_simps)
  also have "\<dots> = v"
  proof (rule bit_word_eqI)
    fix n :: nat
    assume "n < LENGTH(32)"
    then show "bit (push_bit 24 (ucast (ucast (drop_bit 24 v) :: u8))
      OR push_bit 16 (ucast (ucast (drop_bit 16 v) :: u8)) OR push_bit 8 (ucast (ucast (drop_bit 8 v) :: u8))
      OR ucast (ucast v :: u8) :: u32) n = bit v n"
      by (cases "n < 8"; cases "n < 16"; cases "n < 24") (auto simp: bit_simps)
  qed
  finally show ?thesis .
qed

lemma read_be_u64_bytes: "bytes_at m a (be_u64 v) \<Longrightarrow> read_be_u64 m a = v"
proof -
  assume "bytes_at m a (be_u64 v)"
  then have "read_be_u64 m a = push_bit 32 (ucast (ucast (drop_bit 32 v) :: u32)) OR ucast (ucast v :: u32)"
    using read_be_u32_bytes [of m a "ucast (drop_bit 32 v)"] read_be_u32_bytes [of m "a + 4" "ucast v"]
    by (simp add: read_be_u64_def be_u64_def)
  also have "\<dots> = v"
  proof (rule bit_word_eqI)
    fix n :: nat
    assume "n < LENGTH(64)"
    then show "bit (push_bit 32 (ucast (ucast (drop_bit 32 v) :: u32)) OR ucast (ucast v :: u32) :: u64) n = bit v n"
      by (cases "n < 32") (auto simp: bit_simps)
  qed
  finally show ?thesis .
qed

end
