(* ===== verification/Spci_Message.thy ===== *)
theory Spci_Message
  imports Vm Bytes
begin

text \<open>
  Architected messages (src/hfo2/src/spci_architected_message.rs): donating, lending and
  relinquishing memory between two VMs.

  The message is in the buffer of the physical CPU, which the model has as a function from offsets
  to bytes: a structure of the message is read at its offset, whether or not it lies inside the
  part that was copied for this message.
\<close>

section \<open>Headers\<close>

definition read_message :: "(usize \<Rightarrow> u8) \<Rightarrow> usize \<Rightarrow> spci_message" where
  "read_message m a =
     \<lparr>flags = read_u16 m a, reserved_1 = read_u16 m (a + 2), msg_length = read_u32 m (a + 4),
      target_vm_id = read_u16 m (a + 8), source_vm_id = read_u16 m (a + 10),
      reserved_2 = read_u32 m (a + 12)\<rparr>"

definition message_bytes :: "spci_message \<Rightarrow> u8 list" where
  "message_bytes h =
     u16_bytes (flags h) @ u16_bytes (reserved_1 h) @ u32_bytes (msg_length h) @
     u16_bytes (target_vm_id h) @ u16_bytes (source_vm_id h) @ u32_bytes (reserved_2 h)"

definition write_message :: "usize \<Rightarrow> spci_message \<Rightarrow> (usize \<Rightarrow> u8) \<Rightarrow> (usize \<Rightarrow> u8)" where
  "write_message a h m = write_bytes a (message_bytes h) m"

section \<open>Transitions\<close>

definition transition :: "mode \<Rightarrow> mode \<Rightarrow> mode \<Rightarrow> mode \<Rightarrow> spci_mem_transitions" where
  "transition a b c d = \<lparr>orig_from_mode = a, orig_to_mode = b, from_mode = c, to_mode = d\<rparr>"

definition donate_transitions :: "spci_mem_transitions list" where
  "donate_transitions =
     [transition 0 (MODE_INVALID OR MODE_UNOWNED) (MODE_INVALID OR MODE_UNOWNED) 0,
      transition MODE_INVALID MODE_UNOWNED (MODE_INVALID OR MODE_UNOWNED) 0,
      transition MODE_SHARED (MODE_UNOWNED OR MODE_SHARED) (MODE_INVALID OR MODE_UNOWNED) 0,
      transition 0 (MODE_INVALID OR MODE_UNOWNED OR MODE_SHARED)
        (MODE_INVALID OR MODE_UNOWNED OR MODE_SHARED) 0]"

definition relinquish_transitions :: "spci_mem_transitions list" where
  "relinquish_transitions =
     [transition MODE_UNOWNED MODE_INVALID (MODE_INVALID OR MODE_UNOWNED OR MODE_SHARED) 0,
      transition (MODE_UNOWNED OR MODE_SHARED) MODE_SHARED
        (MODE_INVALID OR MODE_UNOWNED OR MODE_SHARED) 0]"

definition shared_lend_transitions :: "spci_mem_transitions list" where
  "shared_lend_transitions =
     [transition 0 (MODE_INVALID OR MODE_UNOWNED OR MODE_SHARED) MODE_SHARED (MODE_UNOWNED OR MODE_SHARED),
      transition 0 (MODE_INVALID OR MODE_UNOWNED) MODE_SHARED (MODE_UNOWNED OR MODE_SHARED)]"

fun next_state_loop :: "spci_mem_transitions list \<Rightarrow> mode \<Rightarrow> mode \<Rightarrow> mode \<Rightarrow> (mode \<times> mode) res" where
  "next_state_loop [] attr orig_from orig_to = Err ()"
| "next_state_loop (t # ts) attr orig_from orig_to =
     (let state_mask = MODE_INVALID OR MODE_UNOWNED OR MODE_SHARED;
          orig_from_state = orig_from AND state_mask;
          orig_to_state = orig_to AND state_mask
      in if orig_from_state = orig_from_mode t \<and> orig_to_state = orig_to_mode t
         then Ok (from_mode t OR (NOT state_mask AND orig_from AND MODE_ALL), to_mode t OR attr)
         else next_state_loop ts attr orig_from orig_to)"

definition spci_msg_get_next_state ::
  "spci_mem_transitions list \<Rightarrow> mode \<Rightarrow> mode \<Rightarrow> mode \<Rightarrow> (mode \<times> mode) res" where
  "spci_msg_get_next_state ts attr orig_from orig_to = next_state_loop ts attr orig_from orig_to"

primrec transition_table :: "SpciMemoryShare \<Rightarrow> spci_mem_transitions list" where
  "transition_table Donate = donate_transitions"
| "transition_table Relinquish = relinquish_transitions"
| "transition_table Lend = shared_lend_transitions"

definition spci_msg_check_transition ::
  "stage \<Rightarrow> ptable \<Rightarrow> ptable \<Rightarrow> SpciMemoryShare \<Rightarrow> ipaddr_t \<Rightarrow> ipaddr_t \<Rightarrow> mode \<Rightarrow> (mode \<times> mode \<times> mode) res" where
  "spci_msg_check_transition S to_t from_t share begin e attr =
     (if \<not> is_aligned (ipa_addr begin) PAGE_SIZE \<or> \<not> is_aligned (ipa_addr e) PAGE_SIZE then Err ()
      else case get_mode S begin e from_t of
        Ok orig_from \<Rightarrow>
          (case get_mode S begin e to_t of
             Ok orig_to \<Rightarrow>
               (case spci_msg_get_next_state (transition_table share) attr orig_from orig_to of
                  Ok (from_m, to_m) \<Rightarrow> Ok (orig_from, from_m, to_m)
                | Err er \<Rightarrow> Err er
                | Panic \<Rightarrow> Panic)
           | Err er \<Rightarrow> Err er
           | Panic \<Rightarrow> Panic)
      | Err er \<Rightarrow> Err er
      | Panic \<Rightarrow> Panic)"

section \<open>Sharing memory\<close>

text \<open>
  \<open>spci_share_memory\<close> on the page tables of the two VMs (distinct VMs; the reflexive case is
  \<open>same\<close>), for the one constituent the code looks at. The \<open>res\<close> around the return value is for the
  panic of a failed restoration.
\<close>

definition spci_share_memory ::
  "stage \<Rightarrow> reducer \<Rightarrow> bool \<Rightarrow> u64 \<Rightarrow> u32 \<Rightarrow> mode \<Rightarrow> SpciMemoryShare \<Rightarrow> ptable \<Rightarrow> ptable \<Rightarrow> menv
     \<Rightarrow> SpciReturn res \<times> ptable \<times> ptable \<times> menv" where
  "spci_share_memory S red same address page_count attr share to_t from_t env =
     (if same then (Ok InvalidParameters, to_t, from_t, env)
      else
        let env = local_pool env;
            sz = ucast page_count * PAGE_SIZE;
            begin = ipa_init address;
            e = ipa_add begin sz
        in case spci_msg_check_transition S to_t from_t share begin e attr of
             Ok (orig_from, from_m, to_m) \<Rightarrow>
               let pa_begin = pa_from_ipa begin;
                   pa_end = pa_from_ipa e
               in (case identity_map S pa_begin pa_end from_m from_t env of
                     (Ok _, from_t, env) \<Rightarrow>
                       (case identity_map S pa_begin pa_end to_m to_t env of
                          (Ok _, to_t, env) \<Rightarrow> (Ok Success, to_t, from_t, drop_local_pool env)
                        | (Err _, to_t, env) \<Rightarrow>
                            let (from_t, env) = PageTable_defrag S red from_t env
                            in (case restore S pa_begin pa_end orig_from from_t env of
                                  (Ok _, from_t, env) \<Rightarrow> (Ok NoMemory, to_t, from_t, drop_local_pool env)
                                | (_, from_t, env) \<Rightarrow> (Panic, to_t, from_t, env))
                        | (Panic, to_t, env) \<Rightarrow> (Panic, to_t, from_t, env))
                   | (Err _, from_t, env) \<Rightarrow> (Ok NoMemory, to_t, from_t, drop_local_pool env)
                   | (Panic, from_t, env) \<Rightarrow> (Panic, to_t, from_t, env))
           | Err _ \<Rightarrow> (Ok InvalidParameters, to_t, from_t, drop_local_pool env)
           | Panic \<Rightarrow> (Panic, to_t, from_t, env))"

text \<open>
  \<open>spci_validate_call_share_memory\<close>, with the memory region at offset \<open>region\<close> of the buffer: its
  \<open>count\<close> is at offset 4, and the first constituent (address and page count) at offset 8.
\<close>

definition spci_validate_call_share_memory ::
  "stage \<Rightarrow> reducer \<Rightarrow> bool \<Rightarrow> (usize \<Rightarrow> u8) \<Rightarrow> usize \<Rightarrow> usize \<Rightarrow> mode \<Rightarrow> SpciMemoryShare
     \<Rightarrow> ptable \<Rightarrow> ptable \<Rightarrow> menv \<Rightarrow> SpciReturn res \<times> ptable \<times> ptable \<times> menv" where
  "spci_validate_call_share_memory S red same buf region memory_share_size attr share to_t from_t env =
     (let max_count = ucast (read_u32 buf (region + 4)) :: usize
      in if memory_share_size \<noteq> size_of_SpciMemoryRegion + size_of_SpciMemoryRegionConstituent * max_count
         then (Ok InvalidParameters, to_t, from_t, env)
         else spci_share_memory S red same (read_u64 buf (region + 8)) (read_u32 buf (region + 16))
                attr share to_t from_t env)"

text \<open>
  The dispatch on the message type, and then the delivery. The message is at offset \<open>hdr\<close> of the
  buffer \<open>buf\<close>. A type that is no discriminant of \<open>SpciMemoryShare\<close> has no defined behaviour in
  the source; the model stops there as for a panic. The payload is copied in units of
  \<open>SpciArchitectedMessageHeader\<close>, because that is the type of the pointer that is copied from.
\<close>

definition handle_share ::
  "stage \<Rightarrow> reducer \<Rightarrow> bool \<Rightarrow> (usize \<Rightarrow> u8) \<Rightarrow> usize \<Rightarrow> usize \<Rightarrow> ptable \<Rightarrow> ptable \<Rightarrow> menv
     \<Rightarrow> SpciReturn res \<times> ptable \<times> ptable \<times> menv" where
  "handle_share S red same buf hdr payload_length to_t from_t env =
     (let payload = hdr + size_of_SpciArchitectedMessageHeader
      in case share_of_raw (read_u16 buf hdr) of
           Some Donate \<Rightarrow>
             spci_validate_call_share_memory S red same buf payload
               (payload_length - size_of_SpciArchitectedMessageHeader)
               (MODE_R OR MODE_W OR MODE_X) Donate to_t from_t env
         | Some Relinquish \<Rightarrow>
             spci_validate_call_share_memory S red same buf payload
               (payload_length - size_of_SpciArchitectedMessageHeader)
               (MODE_R OR MODE_W OR MODE_X) Relinquish to_t from_t env
         | Some Lend \<Rightarrow>
             (case spci_memory_attrs_to_mode (ucast (read_u16 buf (payload + 2))) of
                Ok to_m \<Rightarrow>
                  spci_validate_call_share_memory S red same buf (payload + size_of_SpciMemoryLend)
                    (payload_length - size_of_SpciArchitectedMessageHeader - size_of_SpciMemoryLend)
                    to_m Lend to_t from_t env
              | _ \<Rightarrow> (Panic, to_t, from_t, env))
         | None \<Rightarrow> (Panic, to_t, from_t, env))"

definition spci_msg_handle_architected_message ::
  "stage \<Rightarrow> reducer \<Rightarrow> bool \<Rightarrow> (usize \<Rightarrow> u8) \<Rightarrow> usize \<Rightarrow> spci_message \<Rightarrow> usize
     \<Rightarrow> ptable \<Rightarrow> ptable \<Rightarrow> (usize \<Rightarrow> u8) \<Rightarrow> menv
     \<Rightarrow> SpciReturn res \<times> ptable \<times> ptable \<times> (usize \<Rightarrow> u8) \<times> menv" where
  "spci_msg_handle_architected_message S red same buf hdr from_msg_replica to_msg to_t from_t m env =
     (let payload_length = ucast (msg_length from_msg_replica) :: usize
      in case handle_share S red same buf hdr payload_length to_t from_t env of
           (Ok ret, to_t, from_t, env) \<Rightarrow>
             if ret = Success \<and> payload_length > SPCI_MSG_PAYLOAD_MAX then (Panic, to_t, from_t, m, env)
             else
               let m = (if ret = Success
                        then copy_bytes buf hdr (to_msg + size_of_SpciMessage)
                               (unat size_of_SpciArchitectedMessageHeader * unat payload_length) m
                        else m);
                   m = write_message to_msg from_msg_replica m
               in (Ok ret, to_t, from_t, m, env)
         | (Err e, to_t, from_t, env) \<Rightarrow> (Err e, to_t, from_t, m, env)
         | (Panic, to_t, from_t, env) \<Rightarrow> (Panic, to_t, from_t, m, env))"

end
