(* ===== verification/Hypervisor.thy ===== *)
theory Hypervisor
  imports Spci_Message
begin

text \<open>
  The calls into the hypervisor (src/hfo2/src/hypervisor.rs), with the operations on CPUs and vCPUs
  that need the whole state (src/hfo2/src/cpu.rs) and the C entry points (src/hfo2/src/api.rs).

  A call is a function from the state to its result and the new state. A result \<open>Panic\<close> is a panic
  of the source, and where a call may wait for a lock of a vCPU or spin forever the result is an
  option whose \<open>None\<close> says that the call does not return from this state. The locks that a call
  takes and releases itself (those of the VMs, of the interrupts and of the page tables) make the
  call atomic and are not part of the state; the locks of the vCPUs are.

  \<open>vref\<close> is a reference to a vCPU: the position of its VM, and its position in the VM. Log
  output (\<open>dlog!\<close>) is not modelled.
\<close>

section \<open>State\<close>

type_synonym vref = "nat \<times> nat"

record hypervisor =
  henv :: menv
  hyp_ptable :: ptable
  cpus :: "cpu list"
  vms :: "vm list"
  links :: links
  mem :: "usize \<Rightarrow> u8"
  msg_buffers :: "usize \<Rightarrow> u8"
  machine :: machine

definition vm_at :: "hypervisor \<Rightarrow> nat \<Rightarrow> vm" where
  "vm_at h v = vms h ! v"

definition vcpu_at :: "hypervisor \<Rightarrow> vref \<Rightarrow> vcpu" where
  "vcpu_at h c = vcpus (vm_at h (fst c)) ! snd c"

definition update_vm :: "nat \<Rightarrow> (vm \<Rightarrow> vm) \<Rightarrow> hypervisor \<Rightarrow> hypervisor" where
  "update_vm v f h = h\<lparr>vms := (vms h)[v := f (vms h ! v)]\<rparr>"

definition update_inner :: "nat \<Rightarrow> (vm_inner \<Rightarrow> vm_inner) \<Rightarrow> hypervisor \<Rightarrow> hypervisor" where
  "update_inner v f = update_vm v (\<lambda>m. m\<lparr>vm_inner := f (vm_inner m)\<rparr>)"

definition update_mailbox :: "nat \<Rightarrow> (mailbox \<Rightarrow> mailbox) \<Rightarrow> hypervisor \<Rightarrow> hypervisor" where
  "update_mailbox v f = update_inner v (\<lambda>s. s\<lparr>mailbox := f (mailbox s)\<rparr>)"

definition update_vcpu :: "vref \<Rightarrow> (vcpu \<Rightarrow> vcpu) \<Rightarrow> hypervisor \<Rightarrow> hypervisor" where
  "update_vcpu c f =
     update_vm (fst c) (\<lambda>m. m\<lparr>vcpus := (vcpus m)[snd c := f (vcpus m ! snd c)]\<rparr>)"

definition update_vcpu_inner :: "vref \<Rightarrow> (vcpu_inner \<Rightarrow> vcpu_inner) \<Rightarrow> hypervisor \<Rightarrow> hypervisor" where
  "update_vcpu_inner c f = update_vcpu c (\<lambda>x. x\<lparr>vc_inner := f (vc_inner x)\<rparr>)"

definition current_id :: "hypervisor \<Rightarrow> vref \<Rightarrow> spci_vm_id_t" where
  "current_id h c = vm_id (vm_at h (fst c))"

text \<open>\<open>VCpu::index\<close>, with its assertion.\<close>

definition vcpu_index :: "vref \<Rightarrow> spci_vcpu_index_t res" where
  "vcpu_index c = (if snd c < 65535 then Ok (word_of_nat (snd c)) else Panic)"

section \<open>Scheduling\<close>

text \<open>
  \<open>switch_to_primary\<close>. The index of the physical CPU is computed from the pointer in the vCPU; a
  null pointer gives an index outside the array, on which the access panics.
\<close>

definition with_sleep :: "machine \<Rightarrow> HfVCpuRunReturn \<Rightarrow> HfVCpuRunReturn" where
  "with_sleep M ret =
     (let n = (if arch_timer_enabled_current M then arch_timer_remaining_ns_current M
               else HF_SLEEP_INDEFINITE)
      in case ret of
           WaitForInterrupt _ \<Rightarrow> WaitForInterrupt n
         | WaitForMessage _ \<Rightarrow> WaitForMessage n
         | _ \<Rightarrow> ret)"

definition switch_to_primary ::
  "vref \<Rightarrow> HfVCpuRunReturn \<Rightarrow> VCpuStatus \<Rightarrow> hypervisor \<Rightarrow> vref res \<times> hypervisor" where
  "switch_to_primary current primary_ret secondary_state h =
     (case cpu (vc_inner (vcpu_at h current)) of
        None \<Rightarrow> (Panic, h)
      | Some c \<Rightarrow>
          if c \<ge> length (vcpus (vm_at h get_primary)) then (Panic, h)
          else
            let next_vcpu = (get_primary, c);
                primary_ret = with_sleep (machine h) primary_ret;
                h = update_vcpu_inner next_vcpu
                      (\<lambda>i. i\<lparr>regs := arch_regs_set_retval (into_raw primary_ret) (regs i)\<rparr>) h;
                h = update_vcpu_inner current (\<lambda>i. i\<lparr>state := secondary_state\<rparr>) h
            in (Ok next_vcpu, h))"

definition preempt :: "vref \<Rightarrow> hypervisor \<Rightarrow> vref res \<times> hypervisor" where
  "preempt current h = switch_to_primary current Preempted Ready h"

definition wait_for_interrupt :: "vref \<Rightarrow> hypervisor \<Rightarrow> vref res \<times> hypervisor" where
  "wait_for_interrupt current h =
     switch_to_primary current (WaitForInterrupt HF_SLEEP_INDEFINITE) BlockedInterrupt h"

definition vcpu_off :: "vref \<Rightarrow> hypervisor \<Rightarrow> vref res \<times> hypervisor" where
  "vcpu_off current h =
     (let h = h\<lparr>machine := arch_timer_disable_current (machine h)\<rparr>
      in switch_to_primary current (WaitForInterrupt HF_SLEEP_INDEFINITE) Off h)"

definition spci_yield :: "vref \<Rightarrow> hypervisor \<Rightarrow> vref option res \<times> hypervisor" where
  "spci_yield current h =
     (if current_id h current = HF_PRIMARY_VM_ID then (Ok None, h)
      else case switch_to_primary current Yield Ready h of
        (Ok n, h) \<Rightarrow> (Ok (Some n), h)
      | (Err e, h) \<Rightarrow> (Err e, h)
      | (Panic, h) \<Rightarrow> (Panic, h))"

definition wake_up :: "vref \<Rightarrow> vref \<Rightarrow> hypervisor \<Rightarrow> vref res \<times> hypervisor" where
  "wake_up current target h =
     (case vcpu_index target of
        Ok i \<Rightarrow> switch_to_primary current (WakeUp (current_id h target) i) Ready h
      | Err e \<Rightarrow> (Err e, h)
      | Panic \<Rightarrow> (Panic, h))"

text \<open>\<open>abort\<close>; on the primary VM the CPU spins forever.\<close>

definition abort :: "vref \<Rightarrow> hypervisor \<Rightarrow> (vref res \<times> hypervisor) option" where
  "abort current h =
     (case vcpu_index current of
        Ok _ \<Rightarrow>
          if current_id h current = HF_PRIMARY_VM_ID then None
          else
            let h = update_vm (fst current) (\<lambda>m. m\<lparr>aborting := True\<rparr>) h
            in Some (switch_to_primary current RunAborted Aborted h)
      | Err e \<Rightarrow> Some (Err e, h)
      | Panic \<Rightarrow> Some (Panic, h))"

section \<open>Information\<close>

definition vm_get_id :: "vref \<Rightarrow> hypervisor \<Rightarrow> spci_vm_id_t" where
  "vm_get_id current h = current_id h current"

definition vm_get_count :: "hypervisor \<Rightarrow> u16" where
  "vm_get_count h = VmManager_len (vms h)"

definition vcpu_get_count :: "spci_vm_id_t \<Rightarrow> vref \<Rightarrow> hypervisor \<Rightarrow> spci_vcpu_count_t option res" where
  "vcpu_get_count i current h =
     (if current_id h current \<noteq> HF_PRIMARY_VM_ID then Ok None
      else case VmManager_get i (vms h) of
        Ok (Some v) \<Rightarrow> Ok (Some (vm_get_vcpu_count (vm_at h v)))
      | Ok None \<Rightarrow> Ok None
      | Err e \<Rightarrow> Err e
      | Panic \<Rightarrow> Panic)"

section \<open>Running vCPUs\<close>

definition internal_interrupt_inject ::
  "vref \<Rightarrow> intid_t \<Rightarrow> vref \<Rightarrow> hypervisor \<Rightarrow> (int \<times> vref option) res \<times> hypervisor" where
  "internal_interrupt_inject target intid current h =
     (let (res, ints) = inject intid (interrupts (vcpu_at h target));
          h = update_vcpu target (\<lambda>x. x\<lparr>interrupts := ints\<rparr>) h
      in case res of
           Ok _ \<Rightarrow>
             if current_id h current = HF_PRIMARY_VM_ID then (Ok (1, None), h)
             else if current \<noteq> target then
               (case wake_up current target h of
                  (Ok n, h) \<Rightarrow> (Ok (0, Some n), h)
                | (Err e, h) \<Rightarrow> (Err e, h)
                | (Panic, h) \<Rightarrow> (Panic, h))
             else (Ok (0, None), h)
         | _ \<Rightarrow> (Ok (0, None), h))"

definition unlock :: "vref \<Rightarrow> hypervisor \<Rightarrow> hypervisor" where
  "unlock c = update_vcpu c vcpu_unlock"

text \<open>
  \<open>vcpu_prepare_run\<close>: on \<open>Ok\<close> the lock of the vCPU stays held; on every error after it was taken the
  guard releases it. The arms of the \<open>match\<close> are in the order of the source.
\<close>

definition blocked_return :: "machine \<Rightarrow> vcpu_inner \<Rightarrow> HfVCpuRunReturn \<Rightarrow> HfVCpuRunReturn" where
  "blocked_return M i run_ret =
     (if \<not> arch_timer_enabled (regs i) then run_ret
      else if state i = BlockedMailbox then WaitForMessage (arch_timer_remaining_ns M (regs i))
      else WaitForInterrupt (arch_timer_remaining_ns M (regs i)))"

definition vcpu_prepare_run ::
  "vref \<Rightarrow> vref \<Rightarrow> HfVCpuRunReturn \<Rightarrow> hypervisor \<Rightarrow> (unit, HfVCpuRunReturn) outcome \<times> hypervisor" where
  "vcpu_prepare_run current target run_ret h =
     (if inner_lock (vcpu_at h target) then (Err run_ret, h)
      else
        let h = update_vcpu target (\<lambda>x. x\<lparr>inner_lock := True\<rparr>) h;
            i = vc_inner (vcpu_at h target);
            (read, mb) = try_read (mailbox (vm_inner (vm_at h (fst target))));
            run = (\<lambda>h. (Ok (), update_vcpu_inner target (\<lambda>i. i\<lparr>cpu := cpu (vc_inner (vcpu_at h current))\<rparr>) h))
        in if aborting (vm_at h (fst target)) then
             let h = (if state i \<noteq> Aborted
                      then update_vcpu_inner target (\<lambda>i. i\<lparr>state := Aborted\<rparr>) h else h)
             in (Err run_ret, unlock target h)
           else if state i = Off \<or> state i = Aborted then (Err run_ret, unlock target h)
           else if state i = BlockedMailbox \<and> read = Ok () then
             let h = update_mailbox (fst target) (\<lambda>_. mb) h;
                 h = update_vcpu_inner target (\<lambda>i. i\<lparr>regs := arch_regs_set_retval 0 (regs i)\<rparr>) h
             in run h
           else if (state i = BlockedMailbox \<or> state i = BlockedInterrupt)
                   \<and> \<not> vcpu_is_interrupted (vcpu_at h target) \<and> \<not> arch_timer_pending (machine h) (regs i)
           then (Err (blocked_return (machine h) i run_ret), unlock target h)
           else run h)"

definition vcpu_run ::
  "spci_vm_id_t \<Rightarrow> spci_vcpu_index_t \<Rightarrow> vref \<Rightarrow> hypervisor \<Rightarrow> (vref, HfVCpuRunReturn) outcome \<times> hypervisor" where
  "vcpu_run i idx current h =
     (let ret = WaitForInterrupt HF_SLEEP_INDEFINITE
      in if current_id h current \<noteq> HF_PRIMARY_VM_ID then (Err ret, h)
         else if i = HF_PRIMARY_VM_ID then (Err ret, h)
         else case VmManager_get i (vms h) of
           Ok (Some v) \<Rightarrow>
             if unat idx \<ge> length (vcpus (vm_at h v)) then (Err ret, h)
             else
               let target = (v, unat idx)
               in (case vcpu_prepare_run current target ret h of
                     (Ok _, h) \<Rightarrow>
                       if arch_timer_pending (machine h) (regs (vc_inner (vcpu_at h target))) then
                         (case internal_interrupt_inject target HF_VIRTUAL_TIMER_INTID target h of
                            (Panic, h) \<Rightarrow> (Panic, h)
                          | (_, h) \<Rightarrow>
                              (Ok target, update_vcpu_inner target (\<lambda>i. i\<lparr>regs := arch_timer_mask (regs i)\<rparr>) h))
                       else (Ok target, h)
                   | (Err e, h) \<Rightarrow> (Err e, h)
                   | (Panic, h) \<Rightarrow> (Panic, h))
         | Panic \<Rightarrow> (Panic, h)
         | _ \<Rightarrow> (Err ret, h))"

text \<open>\<open>api_regs_state_saved\<close>: the registers of a secondary vCPU are saved, its lock is released.\<close>

definition api_regs_state_saved :: "vref \<Rightarrow> hypervisor \<Rightarrow> hypervisor" where
  "api_regs_state_saved current h =
     (if current_id h current \<noteq> HF_PRIMARY_VM_ID then unlock current h else h)"

section \<open>Turning CPUs on (cpu.rs)\<close>

definition cpu_on :: "nat \<Rightarrow> ipaddr_t \<Rightarrow> uintreg_t \<Rightarrow> hypervisor \<Rightarrow> (bool res \<times> hypervisor) option" where
  "cpu_on c entry arg h =
     (let prev_on = is_on (cpus h ! c);
          h = h\<lparr>cpus := (cpus h)[c := (cpus h ! c)\<lparr>is_on := True\<rparr>]\<rparr>
      in if prev_on then Some (Ok prev_on, h)
         else if c \<ge> length (vcpus (vm_at h get_primary)) then Some (Panic, h)
         else case vcpu_lock (vcpu_at h (get_primary, c)) of
           None \<Rightarrow> None
         | Some x \<Rightarrow>
             Some (Ok prev_on,
               update_vcpu (get_primary, c)
                 (\<lambda>_. vcpu_unlock (x\<lparr>vc_inner := VCpuInner_on entry arg (vc_inner x)\<rparr>)) h))"

definition vcpu_secondary_reset_and_start ::
  "vref \<Rightarrow> ipaddr_t \<Rightarrow> uintreg_t \<Rightarrow> hypervisor \<Rightarrow> (bool res \<times> hypervisor) option" where
  "vcpu_secondary_reset_and_start target entry arg h =
     (let m = vm_at h (fst target)
      in if vm_id m = HF_PRIMARY_VM_ID then Some (Panic, h)
         else case vcpu_lock (vcpu_at h target) of
           None \<Rightarrow> None
         | Some x \<Rightarrow>
             if is_off (vc_inner x) then
               (case vcpu_index target of
                  Ok i \<Rightarrow>
                    let inn = vc_inner x;
                        inn = inn\<lparr>regs := arch_regs_reset (machine h) False (vm_id m) (ucast i)
                                            (get_ptable_raw m) (regs inn)\<rparr>;
                        inn = VCpuInner_on entry arg inn
                    in Some (Ok True, update_vcpu target (\<lambda>_. vcpu_unlock (x\<lparr>vc_inner := inn\<rparr>)) h)
                | Err e \<Rightarrow> Some (Err e, h)
                | Panic \<Rightarrow> Some (Panic, h))
             else Some (Ok False, h))"

record fault_info =
  ipaddr :: ipaddr_t
  vaddr :: vaddr_t
  fault_pc :: vaddr_t
  fault_mode :: mode

definition vcpu_handle_page_fault :: "stage \<Rightarrow> vref \<Rightarrow> fault_info \<Rightarrow> hypervisor \<Rightarrow> bool res" where
  "vcpu_handle_page_fault S current f h =
     (let mk = fault_mode f OR MODE_INVALID
      in case get_mode S (ipaddr f) (ipa_add (ipaddr f) 1) (vm_ptable (vm_inner (vm_at h (fst current)))) of
           Ok m \<Rightarrow> Ok (m AND mk = fault_mode f)
         | Err _ \<Rightarrow> Ok False
         | Panic \<Rightarrow> Panic)"

section \<open>Mailboxes\<close>

definition waiter_result :: "nat \<Rightarrow> vref \<Rightarrow> hypervisor \<Rightarrow> (int \<times> vref option) res \<times> hypervisor" where
  "waiter_result v current h =
     (if is_waiter_list_empty v (links h) then (Ok (0, None), h)
      else if vm_id (vm_at h v) = HF_PRIMARY_VM_ID then (Ok (1, None), h)
      else case switch_to_primary current NotifyWaiters Ready h of
        (Ok n, h) \<Rightarrow> (Ok (0, Some n), h)
      | (Err e, h) \<Rightarrow> (Err e, h)
      | (Panic, h) \<Rightarrow> (Panic, h))"

definition vm_configure ::
  "stage \<Rightarrow> reducer \<Rightarrow> ipaddr_t \<Rightarrow> ipaddr_t \<Rightarrow> vref \<Rightarrow> hypervisor \<Rightarrow> (int \<times> vref option) res \<times> hypervisor" where
  "vm_configure S red sd rc current h =
     (let v = fst current
      in case configure S red sd rc (vm_inner (vm_at h v)) (hyp_ptable h) (henv h) of
           (res, s, t, e) \<Rightarrow>
             let h = update_inner v (\<lambda>_. s) (h\<lparr>hyp_ptable := t, henv := e\<rparr>)
             in (case res of
                   Ok _ \<Rightarrow> waiter_result v current h
                 | Err _ \<Rightarrow> (Ok (-1, None), h)
                 | Panic \<Rightarrow> (Panic, h)))"

text \<open>
  \<open>cpu_get_buffer\<close>: the offset of the message buffer of a physical CPU in the static array; the
  assertion is on the ID of the CPU.
\<close>

definition cpu_get_buffer :: "cpu_id_t \<Rightarrow> usize res" where
  "cpu_get_buffer i = (if i < word_of_nat MAX_CPUS then Ok (i * PAGE_SIZE) else Panic)"

text \<open>
  The two ways a message is put into the receive buffer: an implementation defined message is
  copied, an architected one is interpreted.
\<close>

definition copy_impdef :: "usize \<Rightarrow> usize \<Rightarrow> spci_message \<Rightarrow> (usize \<Rightarrow> u8) \<Rightarrow> (usize \<Rightarrow> u8)" where
  "copy_impdef from_msg to_msg replica m =
     (let m = write_message to_msg replica m
      in copy_bytes m (from_msg + size_of_SpciMessage) (to_msg + size_of_SpciMessage)
           (unat (msg_length replica)) m)"

definition deliver ::
  "stage \<Rightarrow> reducer \<Rightarrow> nat \<Rightarrow> vref \<Rightarrow> usize \<Rightarrow> spci_message \<Rightarrow> hypervisor \<Rightarrow> SpciReturn res \<times> hypervisor" where
  "deliver S red to current from_msg replica h =
     (let to_msg = recv (mailbox (vm_inner (vm_at h to)));
          payload_length = ucast (msg_length replica) :: usize
      in if flags replica AND IMPDEF = IMPDEF then
           (Ok Success, h\<lparr>mem := copy_impdef from_msg to_msg replica (mem h)\<rparr>)
         else
           case cpu (vc_inner (vcpu_at h current)) of
             None \<Rightarrow> (Panic, h)
           | Some c \<Rightarrow>
               (case cpu_get_buffer (cpu_id (cpus h ! c)) of
                  Ok buf \<Rightarrow>
                    if payload_length > PAGE_SIZE then (Ok InvalidParameters, h)
                    else if payload_length < size_of_SpciArchitectedMessageHeader then (Ok InvalidParameters, h)
                    else
                      let h = h\<lparr>msg_buffers := copy_bytes (mem h) (from_msg + size_of_SpciMessage) buf
                                 (unat payload_length) (msg_buffers h)\<rparr>;
                          from = fst current
                      in (case spci_msg_handle_architected_message S red False (msg_buffers h) buf replica to_msg
                                 (vm_ptable (vm_inner (vm_at h to))) (vm_ptable (vm_inner (vm_at h from)))
                                 (mem h) (henv h) of
                            (ret, to_t, from_t, m, e) \<Rightarrow>
                              let h = h\<lparr>mem := m, henv := e\<rparr>;
                                  h = update_inner to (\<lambda>s. s\<lparr>vm_ptable := to_t\<rparr>) h;
                                  h = update_inner from (\<lambda>s. s\<lparr>vm_ptable := from_t\<rparr>) h
                              in (ret, h))
                | _ \<Rightarrow> (Panic, h)))"

text \<open>The end of \<open>spci_msg_send\<close>, after the message was put into the receive buffer.\<close>

definition finish_send ::
  "nat \<Rightarrow> vref \<Rightarrow> hypervisor \<Rightarrow> (SpciReturn \<times> vref option) res \<times> hypervisor" where
  "finish_send to current h =
     (let from_id = vm_id (vm_at h (fst current));
          to_id = vm_id (vm_at h to);
          primary_ret = Message to_id;
          switch = (\<lambda>h. case switch_to_primary current primary_ret Ready h of
                            (Ok n, h) \<Rightarrow> (Ok (Success, Some n), h)
                          | (Err e, h) \<Rightarrow> (Err e, h)
                          | (Panic, h) \<Rightarrow> (Panic, h))
      in if to_id = HF_PRIMARY_VM_ID then switch (update_mailbox to set_read h)
         else
           let h = update_mailbox to set_received h
           in if from_id \<noteq> HF_PRIMARY_VM_ID then switch h else (Ok (Success, None), h))"

definition spci_msg_send ::
  "stage \<Rightarrow> reducer \<Rightarrow> u32 \<Rightarrow> vref \<Rightarrow> hypervisor \<Rightarrow> (SpciReturn \<times> vref option) res \<times> hypervisor" where
  "spci_msg_send S red attributes current h =
     (let from = fst current;
          notify = attributes AND NOTIFY = NOTIFY;
          from_msg = send (mailbox (vm_inner (vm_at h from)))
      in if from_msg = 0 then (Ok (InvalidParameters, None), h)
         else
           let replica = read_message (mem h) from_msg;
               from_id = vm_id (vm_at h from)
           in if source_vm_id replica \<noteq> from_id then (Ok (InvalidParameters, None), h)
              else if ucast (msg_length replica) > SPCI_MSG_PAYLOAD_MAX then (Ok (InvalidParameters, None), h)
              else if target_vm_id replica = from_id then (Ok (InvalidParameters, None), h)
              else case VmManager_get (target_vm_id replica) (vms h) of
                Ok None \<Rightarrow> (Ok (InvalidParameters, None), h)
              | Ok (Some to) \<Rightarrow>
                  let to_inner = vm_inner (vm_at h to);
                      to_id = vm_id (vm_at h to)
                  in if \<not> VmInner_is_empty to_inner \<or> \<not> is_configured to_inner then
                       if notify then
                         (case wait_for from to to_id (links h) of
                            (Panic, ls) \<Rightarrow> (Panic, h)
                          | (_, ls) \<Rightarrow> (Ok (Busy, None), h\<lparr>links := ls\<rparr>))
                       else (Ok (Busy, None), h)
                     else
                       (case deliver S red to current from_msg replica h of
                          (Ok Success, h) \<Rightarrow> finish_send to current h
                        | (Ok ret, h) \<Rightarrow> (Ok (ret, None), h)
                        | (Err e, h) \<Rightarrow> (Err e, h)
                        | (Panic, h) \<Rightarrow> (Panic, h))
              | Err e \<Rightarrow> (Err e, h)
              | Panic \<Rightarrow> (Panic, h))"

definition spci_msg_recv :: "u32 \<Rightarrow> vref \<Rightarrow> hypervisor \<Rightarrow> (SpciReturn \<times> vref option) res \<times> hypervisor" where
  "spci_msg_recv attributes current h =
     (let v = fst current;
          block = attributes AND BLOCK = BLOCK
      in if vm_id (vm_at h v) = HF_PRIMARY_VM_ID then (Ok (Interrupted, None), h)
         else case try_read (mailbox (vm_inner (vm_at h v))) of
           (Ok _, mb) \<Rightarrow> (Ok (Success, None), update_mailbox v (\<lambda>_. mb) h)
         | (_, mb) \<Rightarrow>
             if \<not> block then (Ok (Retry, None), h)
             else if \<not> vcpu_is_interrupted (vcpu_at h current) then
               (case switch_to_primary current (WaitForMessage HF_SLEEP_INDEFINITE) BlockedMailbox h of
                  (Ok n, h) \<Rightarrow> (Ok (Interrupted, Some n), h)
                | (Err e, h) \<Rightarrow> (Err e, h)
                | (Panic, h) \<Rightarrow> (Panic, h))
             else (Ok (Interrupted, None), h))"

definition mailbox_writable_get :: "vref \<Rightarrow> hypervisor \<Rightarrow> spci_vm_id_t option \<times> hypervisor" where
  "mailbox_writable_get current h =
     (let (res, ls) = dequeue_ready_list (fst current) (links h) in (res, h\<lparr>links := ls\<rparr>))"

definition mailbox_waiter_get ::
  "spci_vm_id_t \<Rightarrow> vref \<Rightarrow> hypervisor \<Rightarrow> spci_vm_id_t option res \<times> hypervisor" where
  "mailbox_waiter_get i current h =
     (if current_id h current \<noteq> HF_PRIMARY_VM_ID then (Ok None, h)
      else case VmManager_get i (vms h) of
        Ok (Some v) \<Rightarrow>
          (case Mailbox_fetch_waiter v (mailbox (vm_inner (vm_at h v))) (links h) of
             (None, ls) \<Rightarrow> (Ok None, h\<lparr>links := ls\<rparr>)
           | (Some w, ls) \<Rightarrow>
               let waiting = fst w;
                   ls = (if \<not> is_in_ready_list w ls then enqueue_ready_list waiting w ls else ls)
               in (Ok (Some (vm_id (vm_at h waiting))), h\<lparr>links := ls\<rparr>))
      | Ok None \<Rightarrow> (Ok None, h)
      | Err e \<Rightarrow> (Err e, h)
      | Panic \<Rightarrow> (Panic, h))"

definition mailbox_clear :: "vref \<Rightarrow> hypervisor \<Rightarrow> (int \<times> vref option) res \<times> hypervisor" where
  "mailbox_clear current h =
     (let v = fst current
      in case mb_state (mailbox (vm_inner (vm_at h v))) of
           Empty \<Rightarrow> (Ok (0, None), h)
         | Received \<Rightarrow> (Ok (-1, None), h)
         | Read \<Rightarrow> waiter_result v current (update_mailbox v set_empty h))"

section \<open>Interrupts\<close>

definition interrupt_enable :: "intid_t \<Rightarrow> bool \<Rightarrow> vref \<Rightarrow> hypervisor \<Rightarrow> unit res \<times> hypervisor" where
  "interrupt_enable intid on current h =
     (let (res, ints) = enable intid on (interrupts (vcpu_at h current))
      in (res, update_vcpu current (\<lambda>x. x\<lparr>interrupts := ints\<rparr>) h))"

definition interrupt_get :: "vref \<Rightarrow> hypervisor \<Rightarrow> intid_t \<times> hypervisor" where
  "interrupt_get current h =
     (let (intid, ints) = interrupts_get (interrupts (vcpu_at h current))
      in (intid, update_vcpu current (\<lambda>x. x\<lparr>interrupts := ints\<rparr>) h))"

definition is_injection_allowed :: "spci_vm_id_t \<Rightarrow> vref \<Rightarrow> hypervisor \<Rightarrow> bool" where
  "is_injection_allowed target_id current h \<longleftrightarrow>
     current_id h current = HF_PRIMARY_VM_ID \<or> current_id h current = target_id"

definition interrupt_inject ::
  "spci_vm_id_t \<Rightarrow> spci_vcpu_index_t \<Rightarrow> intid_t \<Rightarrow> vref \<Rightarrow> hypervisor \<Rightarrow> (int \<times> vref option) res \<times> hypervisor" where
  "interrupt_inject target_id idx intid current h =
     (case VmManager_get target_id (vms h) of
        Ok None \<Rightarrow> (Ok (-1, None), h)
      | Ok (Some v) \<Rightarrow>
          if intid \<ge> HF_NUM_INTIDS then (Ok (-1, None), h)
          else if \<not> is_injection_allowed target_id current h then (Ok (-1, None), h)
          else if unat idx \<ge> length (vcpus (vm_at h v)) then (Ok (-1, None), h)
          else internal_interrupt_inject (v, unat idx) intid current h
      | Err e \<Rightarrow> (Err e, h)
      | Panic \<Rightarrow> (Panic, h))"

section \<open>Sharing memory\<close>

text \<open>
  A write of the hypervisor goes through its own page table: the walk of every byte written must
  end at a writable entry. Otherwise the CPU takes a data abort at EL2, and the handler of that
  exception panics.
\<close>

definition hyp_writable :: "ptable \<Rightarrow> usize \<Rightarrow> nat \<Rightarrow> bool" where
  "hyp_writable t a n \<longleftrightarrow>
     (\<forall>x \<in> {unat a..<unat a + n}. case translate aarch64_stage1 t x of
        Some (_, at) \<Rightarrow> at AND STAGE1_AP STAGE1_READONLY = 0
      | None \<Rightarrow> False)"

definition clear_memory :: "reducer \<Rightarrow> paddr_t \<Rightarrow> paddr_t \<Rightarrow> hypervisor \<Rightarrow> unit res \<times> hypervisor" where
  "clear_memory red begin e h =
     (let sz = pa_difference begin e;
          region = pa_addr begin
      in case identity_map aarch64_stage1 begin e MODE_W (hyp_ptable h) (henv h) of
           (Ok _, t, en) \<Rightarrow>
             if \<not> hyp_writable t region (unat sz) then (Panic, h\<lparr>hyp_ptable := t, henv := en\<rparr>)
             else let m = copy_bytes (\<lambda>_. 0) 0 region (unat sz) (mem h)
             in (case PageTable_unmap aarch64_stage1 begin e t en of
                   (Ok _, t, en) \<Rightarrow> (Ok (), h\<lparr>hyp_ptable := t, henv := en, mem := m\<rparr>)
                 | (_, t, en) \<Rightarrow> (Panic, h\<lparr>hyp_ptable := t, henv := en, mem := m\<rparr>))
         | (Err _, t, en) \<Rightarrow>
             let (t, en) = PageTable_defrag aarch64_stage1 red t en
             in (Err (), h\<lparr>hyp_ptable := t, henv := en\<rparr>)
         | (Panic, t, en) \<Rightarrow> (Panic, h\<lparr>hyp_ptable := t, henv := en\<rparr>))"

primrec share_modes :: "HfShare \<Rightarrow> mode \<times> mode" where
  "share_modes Give = (MODE_INVALID OR MODE_UNOWNED, MODE_R OR MODE_W OR MODE_X)"
| "share_modes HfLend = (MODE_INVALID, MODE_R OR MODE_W OR MODE_X OR MODE_UNOWNED)"
| "share_modes Share =
     (MODE_R OR MODE_W OR MODE_X OR MODE_SHARED,
      MODE_R OR MODE_W OR MODE_X OR MODE_UNOWNED OR MODE_SHARED)"

text \<open>
  The checks of \<open>share_memory\<close> on the modes of the range: \<open>Ok\<close> the original mode of the sender.
\<close>

definition share_check :: "stage \<Rightarrow> HfShare \<Rightarrow> ipaddr_t \<Rightarrow> ipaddr_t \<Rightarrow> ptable \<Rightarrow> ptable \<Rightarrow> mode res" where
  "share_check S share begin e from_t to_t =
     (case get_mode S begin e from_t of
        Ok orig \<Rightarrow>
          if mode_contains orig MODE_INVALID then Err ()
          else if mode_contains orig MODE_UNOWNED then
            (case get_mode S begin e to_t of
               Ok to_m \<Rightarrow>
                 if mode_contains to_m MODE_UNOWNED then Err ()
                 else if share \<noteq> Give then Err ()
                 else Ok orig
             | Err er \<Rightarrow> Err er
             | Panic \<Rightarrow> Panic)
          else if mode_contains orig MODE_SHARED then Err ()
          else Ok orig
      | Err er \<Rightarrow> Err er
      | Panic \<Rightarrow> Panic)"

definition set_ptable :: "nat \<Rightarrow> ptable \<Rightarrow> hypervisor \<Rightarrow> hypervisor" where
  "set_ptable v t = update_inner v (\<lambda>s. s\<lparr>vm_ptable := t\<rparr>)"

definition ptable_of :: "hypervisor \<Rightarrow> nat \<Rightarrow> ptable" where
  "ptable_of h v = vm_ptable (vm_inner (vm_at h v))"

text \<open>Mapping a range in the stage-2 table of a VM, and mapping it back with \<open>unwrap\<close>.\<close>

definition map_in_vm :: "stage \<Rightarrow> nat \<Rightarrow> paddr_t \<Rightarrow> paddr_t \<Rightarrow> mode \<Rightarrow> hypervisor \<Rightarrow> unit res \<times> hypervisor" where
  "map_in_vm S v begin e m h =
     (case identity_map S begin e m (ptable_of h v) (henv h) of
        (res, t, en) \<Rightarrow> (res, set_ptable v t (h\<lparr>henv := en\<rparr>)))"

definition restore_in_vm :: "stage \<Rightarrow> nat \<Rightarrow> paddr_t \<Rightarrow> paddr_t \<Rightarrow> mode \<Rightarrow> hypervisor \<Rightarrow> unit res \<times> hypervisor" where
  "restore_in_vm S v begin e m h =
     (case map_in_vm S v begin e m h of (Ok _, h) \<Rightarrow> (Ok (), h) | (_, h) \<Rightarrow> (Panic, h))"

text \<open>The end of the scope of the local pool; a panic does not unwind.\<close>

definition end_local :: "unit res \<times> hypervisor \<Rightarrow> unit res \<times> hypervisor" where
  "end_local rh =
     (case rh of
        (Panic, h) \<Rightarrow> (Panic, h)
      | (res, h) \<Rightarrow> (res, h\<lparr>henv := drop_local_pool (henv h)\<rparr>))"

text \<open>The mappings of \<open>share_memory\<close>: first the sender, then the recipient, with the memory cleared in between.\<close>

definition share_pages ::
  "stage \<Rightarrow> reducer \<Rightarrow> nat \<Rightarrow> nat \<Rightarrow> paddr_t \<Rightarrow> paddr_t \<Rightarrow> mode \<Rightarrow> mode \<Rightarrow> mode \<Rightarrow> hypervisor \<Rightarrow> unit res \<times> hypervisor" where
  "share_pages S red from to pa_begin pa_end orig from_m to_m h =
     (case map_in_vm S from pa_begin pa_end from_m h of
        (Ok _, h) \<Rightarrow>
          (case clear_memory red pa_begin pa_end h of
             (Ok _, h) \<Rightarrow>
               (case map_in_vm S to pa_begin pa_end to_m h of
                  (Ok _, h) \<Rightarrow> (Ok (), h)
                | (Err _, h) \<Rightarrow>
                    let (t, en) = PageTable_defrag S red (ptable_of h from) (henv h);
                        h = set_ptable from t (h\<lparr>henv := en\<rparr>)
                    in (case restore_in_vm S from pa_begin pa_end orig h of
                          (Ok _, h) \<Rightarrow> (Err (), h)
                        | (_, h) \<Rightarrow> (Panic, h))
                | (Panic, h) \<Rightarrow> (Panic, h))
           | (Err _, h) \<Rightarrow>
               (case restore_in_vm S from pa_begin pa_end orig h of
                  (Ok _, h) \<Rightarrow> (Err (), h)
                | (_, h) \<Rightarrow> (Panic, h))
           | (Panic, h) \<Rightarrow> (Panic, h))
      | (Err _, h) \<Rightarrow> (Err (), h)
      | (Panic, h) \<Rightarrow> (Panic, h))"

definition share_memory ::
  "stage \<Rightarrow> reducer \<Rightarrow> spci_vm_id_t \<Rightarrow> ipaddr_t \<Rightarrow> usize \<Rightarrow> HfShare \<Rightarrow> vref \<Rightarrow> hypervisor \<Rightarrow> unit res \<times> hypervisor" where
  "share_memory S red i addr sz share current h =
     (let from = fst current
      in if i = vm_id (vm_at h from) then (Err (), h)
         else case VmManager_get i (vms h) of
           Ok None \<Rightarrow> (Err (), h)
         | Ok (Some to) \<Rightarrow>
             let begin = addr;
                 e = ipa_add addr sz
             in if \<not> is_aligned (ipa_addr begin) PAGE_SIZE \<or> \<not> is_aligned (ipa_addr e) PAGE_SIZE then (Err (), h)
                else
                  let (from_m, to_m) = share_modes share;
                      h = h\<lparr>henv := local_pool (henv h)\<rparr>
                  in (case share_check S share begin e (ptable_of h from) (ptable_of h to) of
                        Ok orig \<Rightarrow>
                          end_local (share_pages S red from to (pa_from_ipa begin) (pa_from_ipa e) orig from_m to_m h)
                      | Err _ \<Rightarrow> end_local (Err (), h)
                      | Panic \<Rightarrow> (Panic, h))
         | Err er \<Rightarrow> (Err er, h)
         | Panic \<Rightarrow> (Panic, h))"

definition spci_version :: "32 word" where
  "spci_version = push_bit SPCI_VERSION_MAJOR_OFFSET SPCI_VERSION_MAJOR OR SPCI_VERSION_MINOR"

definition debug_log :: "u8 \<Rightarrow> vref \<Rightarrow> hypervisor \<Rightarrow> unit res \<times> hypervisor" where
  "debug_log c current h =
     (let (res, s) = VmInner_debug_log c (vm_inner (vm_at h (fst current)))
      in (res, update_inner (fst current) (\<lambda>_. s) h))"

end
