(* ===== verification/Isolation.thy ===== *)
theory Isolation
  imports Page_Table_Props Hypervisor
begin

text \<open>
  Isolation of the memory of the VMs.

  \<open>perm\<close> is what a stage-2 table grants for an address: whether the VM has access, whether it owns
  the memory, and whether its access is exclusive. \<open>isolated\<close> is the invariant of the sharing
  protocol (the comment on \<open>Mode\<close> in src/hfo2/src/mm.rs): no two VMs own an address, exclusive
  access excludes every other access, and of two VMs that have access one is the owner.
\<close>

section \<open>Permissions\<close>

type_synonym perm = "bool \<times> bool \<times> bool"

definition attr_perm :: "u64 \<Rightarrow> perm" where
  "attr_perm at = (bit at 0, bit at 55, bit at 0 \<and> bit at 56)"

definition mode_perm :: "mode \<Rightarrow> perm" where
  "mode_perm m = (\<not> bit m 4, \<not> bit m 5, \<not> bit m 4 \<and> \<not> bit m 6)"

definition perm :: "stage \<Rightarrow> ptable \<Rightarrow> nat \<Rightarrow> perm" where
  "perm S t x = attr_perm (lookup_ptable S t x)"

definition hf_stage2 :: "stage \<Rightarrow> bool" where
  "hf_stage2 S \<longleftrightarrow> (\<exists>features ml rc. arch_mm_init features = Some (ml, rc) \<and> S = aarch64_stage2 ml rc)"

lemma hf_stage2_hf: "hf_stage2 S \<Longrightarrow> hf_stage S"
  by (auto simp: hf_stage2_def hf_stage_def)

lemma hf_stage1_hf: "hf_stage aarch64_stage1"
  by (simp add: hf_stage_def)

lemma stage2_fields:
  assumes "hf_stage2 S"
  shows "mode_to_attrs S = arch_mm_mode_to_stage2_attrs" "pte_is_present S = arch_mm_pte_is_present"
    "attrs_to_mode S at = Ok (arch_mm_stage2_attrs_to_mode at AND MODE_ALL)"
  using assms by (auto simp: hf_stage2_def aarch64_stage2_def aarch64_stage1_def)

lemma perm_of_mode: "attr_perm (arch_mm_mode_to_stage2_attrs m) = mode_perm m"
  unfolding attr_perm_def mode_perm_def arch_mm_mode_to_stage2_attrs_def mode_bits Let_def
  unfolding stage2_attr_defs
  by (cases "bit m 0"; cases "bit m 1"; cases "bit m 2"; cases "bit m 4"; cases "bit m 5"; cases "bit m 6"; simp)

lemma perm_to_mode: "mode_perm (arch_mm_stage2_attrs_to_mode at AND MODE_ALL) = attr_perm at"
proof -
  have b: "at AND STAGE2_SW_OWNED = 0 \<longleftrightarrow> \<not> bit at 55" "at AND STAGE2_SW_EXCLUSIVE = 0 \<longleftrightarrow> \<not> bit at 56"
    "at AND PTE_VALID = 0 \<longleftrightarrow> \<not> bit at 0"
    using and_push_bit_1 [of at 55] and_push_bit_1 [of at 56] and_push_bit_1 [of at 0]
    unfolding STAGE2_SW_OWNED_def STAGE2_SW_EXCLUSIVE_def PTE_VALID_def by blast+
  have perm: "mode_perm (((if p then MODE_R else 0) OR (if q then MODE_W else 0) OR (if x then MODE_X else 0)
      OR (if u then MODE_UNOWNED else 0) OR (if s then MODE_SHARED else 0) OR (if i then MODE_INVALID else 0))
      AND MODE_ALL) = (\<not> i, \<not> u, \<not> i \<and> \<not> s)" for p q x u s i
    unfolding mode_perm_def mode_defs by (cases p; cases q; cases x; cases u; cases s; cases i; simp)
  show ?thesis
    unfolding arch_mm_stage2_attrs_to_mode_def b perm by (simp add: attr_perm_def)
qed

lemma perm_visible:
  assumes "hf_stage2 S" "visible S a = visible S b"
  shows "attr_perm a = attr_perm b"
  using assms(2) by (auto simp: visible_def attrs_present_def stage2_fields(2) [OF assms(1)] present_bits attr_perm_def split: if_splits)

section \<open>The operations on a stage-2 table\<close>

text \<open>What a caller can rely on after a table operation, whatever its result.\<close>

lemma get_mode_range:
  assumes "hf_stage S" "get_mode S (ipa_init b) (ipa_init e) t = Ok m" "4096 dvd unat b" "4096 dvd unat e"
  shows "unat b < unat e \<and> unat e \<le> space S"
proof -
  have fit: "unat e + 4095 < 2 ^ 64"
    using assms(4) unat_lt64 [of e] by (auto elim!: dvdE)
  have rnd: "round_down_to_page b = b" "round_up_to_page e = e"
    using assms(3,4) by (auto intro!: word_eq_unatI simp: unat_round_down_to_page unat_round_up_to_page [OF fit] elim!: dvdE)
  obtain a where a: "get_attrs S b e t = Ok a"
    using assms(2) by (auto simp: get_mode_def split: outcome.splits)
  then have "b \<le> e" "e \<le> ptable_addr_space_end S"
    by (auto simp: get_attrs_def Let_def rnd ptable_addr_space_end_def split: if_splits)
  moreover have "b \<noteq> e"
  proof
    assume "b = e"
    then have "map_blocks (get_attrs_level S e (max_level S)) b e bs xs = []" for bs xs by (cases xs) simp_all
    then show False using a by (simp add: get_attrs_def Let_def rnd split: if_splits)
  qed
  ultimately show ?thesis
    using mm_stage.unat_addr_space_end [OF hf_stage_mm [OF assms(1)]]
    by (auto simp: word_le_nat_alt word_less_nat_alt word_unat_eq_iff)
qed

lemma get_mode_perm:
  assumes "hf_stage2 S" "wf_ptable S t" "get_mode S (ipa_init b) (ipa_init e) t = Ok m" "4096 dvd unat b" "4096 dvd unat e"
    "unat b \<le> x" "x < unat e"
  shows "perm S t x = mode_perm m"
proof -
  note hf = hf_stage2_hf [OF assms(1)]
  have rng: "unat b < unat e" "unat e \<le> space S"
    using get_mode_range [OF hf assms(3,4,5)] by simp_all
  obtain a where a: "get_attrs S b e t = Ok a" and m: "m = arch_mm_stage2_attrs_to_mode a AND MODE_ALL"
    using assms(3) by (auto simp: get_mode_def stage2_fields [OF assms(1)] split: outcome.splits)
  have "unat b div 4096 * 4096 = unat b" "(unat e + 4095) div 4096 * 4096 = unat e"
    using assms(4,5) by (auto elim!: dvdE)
  then have "lookup_ptable S t x = a"
    using mm_stage.get_attrs_spec(2) [OF hf_stage_mm [OF hf] assms(2) rng, of a] a assms(6,7) by simp
  then show ?thesis by (simp add: perm_def m perm_to_mode)
qed

lemma local_pool_ok: "env_ok env \<Longrightarrow> env_ok (local_pool env)"
  by (simp add: env_ok_def local_pool_def MPool_new_with_fallback_def MPool_new_def Pool_new_def pool_ok_def pool_pages_def)

lemma drop_local_pool_ok:
  assumes "env_ok env"
  shows "env_ok (drop_local_pool env)"
proof (cases "mpool env")
  case (MPool p fb)
  show ?thesis
  proof (cases fb)
    case None
    then show ?thesis using assms MPool by (simp add: drop_local_pool_def MPool_drop_def)
  next
    case (Some fp)
    obtain fb' where d: "mp_fallback (MPool_drop (MPool p (Some fp))) = Some fb'"
      by (cases fp) (simp add: MPool_drop_def)
    have "mpool_ok fb' \<and> mpool_pages fb' = mpool_pages (mpool env)"
      using pool_step_conserves [OF pool_step.drop [of p fp "{#}"]] d assms MPool Some
      by (simp add: env_ok_def)
    then show ?thesis
      using assms MPool Some d by (simp add: env_ok_def drop_local_pool_def)
  qed
qed

lemma map_perm:
  assumes "hf_stage2 S" "wf_ptable S t" "env_ok env" "unat b < unat e" "unat e \<le> space S" "4096 dvd unat b" "4096 dvd unat e"
    and "identity_map S (pa_init b) (pa_init e) m t env = (r, t', env')"
  shows "wf_ptable S t' \<and> env_ok env' \<and> r \<noteq> Panic \<and>
    (\<forall>x < space S. perm S t' x = (if r = Ok () \<and> unat b \<le> x \<and> x < unat e then mode_perm m else perm S t x))"
proof -
  note hf = hf_stage2_hf [OF assms(1)]
  have sp: "space S \<le> 2 ^ 48" by (rule mm_stage.space_le [OF hf_stage_mm [OF hf]])
  have rng: "unat b div 4096 * 4096 = unat b" "(unat e + 4095) div 4096 * 4096 = unat e"
    using assms(6,7) by (auto elim!: dvdE)
  have pre: "unat (pa_addr (pa_init b)) < space S" "unat (pa_addr (pa_init e)) + 4095 < 2 ^ 64"
    using assms(4,5) sp by simp_all
  note f = identity_map_facts [OF hf assms(2,3) pre assms(8)]
  have "perm S t' x = (if r = Ok () \<and> unat b \<le> x \<and> x < unat e then mode_perm m else perm S t x)" if "x < space S" for x
    using f that perm_visible [OF assms(1), of "lookup_ptable S t' x" "lookup_ptable S t x"]
    by (auto simp: view_step_def hit_def rng perm_def stage2_fields [OF assms(1)] perm_of_mode)
  then show ?thesis using f by (auto simp: env_step_def)
qed

lemma defrag_perm:
  assumes "hf_stage2 S" "reduce_law red" "wf_ptable S t" "env_ok env" "PageTable_defrag S red t env = (t', env')"
  shows "wf_ptable S t' \<and> env_ok env' \<and> (\<forall>x < space S. perm S t' x = perm S t x)"
proof -
  note f = mm_stage.PageTable_defrag_spec [OF hf_stage_mm [OF hf_stage2_hf [OF assms(1)]] assms(2-)]
  have "perm S t' x = perm S t x" if "x < space S" for x
    unfolding perm_def by (rule perm_visible [OF assms(1)]) (use f that in blast)
  then show ?thesis using f by blast
qed

lemma restore_perm:
  assumes "hf_stage2 S" "wf_ptable S t" "env_ok env" "unat b < unat e" "unat e \<le> space S" "4096 dvd unat b" "4096 dvd unat e"
    and "restore S (pa_init b) (pa_init e) m t env = (r, t', env')"
  shows "wf_ptable S t' \<and> env_ok env' \<and> r \<noteq> Err () \<and>
    (r = Ok () \<longrightarrow> (\<forall>x < space S. perm S t' x = (if unat b \<le> x \<and> x < unat e then mode_perm m else perm S t x)))"
proof -
  obtain r1 t1 env1 where run: "identity_map S (pa_init b) (pa_init e) m t env = (r1, t1, env1)"
    by (metis prod.exhaust)
  then have "t' = t1" "env' = env1" "r = (if r1 = Ok () then Ok () else Panic)"
    using assms(8) by (auto simp: restore_def split: outcome.splits)
  then show ?thesis using map_perm [OF assms(1-7) run] by auto
qed

section \<open>The invariant\<close>

definition has_access :: "perm \<Rightarrow> bool" where "has_access p = fst p"
definition owns :: "perm \<Rightarrow> bool" where "owns p = fst (snd p)"
definition exclusive :: "perm \<Rightarrow> bool" where "exclusive p = snd (snd p)"

text \<open>Two VMs with these permissions on the same address are compatible.\<close>

definition compatible :: "perm \<Rightarrow> perm \<Rightarrow> bool" where
  "compatible p q \<longleftrightarrow>
     \<not> (owns p \<and> owns q) \<and> \<not> (exclusive p \<and> has_access q) \<and> \<not> (exclusive q \<and> has_access p) \<and>
     (has_access p \<and> has_access q \<longrightarrow> owns p \<or> owns q)"

definition isolated_at :: "(nat \<Rightarrow> perm) \<Rightarrow> nat \<Rightarrow> bool" where
  "isolated_at p n \<longleftrightarrow> (\<forall>v < n. \<forall>w < n. v \<noteq> w \<longrightarrow> compatible (p v) (p w))"

text \<open>
  A pair of VMs of which one owns the address, of which one has an access that no third VM can have
  (exclusive access, or access without owning), and of which the first is not without rights.
\<close>

definition settled :: "perm \<Rightarrow> perm \<Rightarrow> bool" where
  "settled p q \<longleftrightarrow>
     (owns p \<or> owns q) \<and> (has_access p \<or> owns p) \<and>
     (exclusive p \<or> exclusive q \<or> has_access p \<and> \<not> owns p \<or> has_access q \<and> \<not> owns q)"

lemma perm_consistent: "exclusive (mode_perm m) \<Longrightarrow> has_access (mode_perm m)" "exclusive (attr_perm a) \<Longrightarrow> has_access (attr_perm a)"
  by (simp_all add: exclusive_def has_access_def mode_perm_def attr_perm_def)

lemma third_has_nothing:
  assumes "compatible p q" "compatible p u" "compatible q u" "settled p q" "exclusive p \<Longrightarrow> has_access p" "exclusive q \<Longrightarrow> has_access q"
  shows "\<not> has_access u" "\<not> owns u"
  using assms by (auto simp: compatible_def settled_def)

lemma isolated_pair_step:
  assumes iso: "isolated_at p n" and vw: "v < n" "w < n" "v \<noteq> w" and st: "settled (p v) (p w)"
    and cons: "\<And>u. exclusive (p u) \<Longrightarrow> has_access (p u)" "\<And>u. exclusive (p' u) \<Longrightarrow> has_access (p' u)"
    and rest: "\<And>u. u \<noteq> v \<Longrightarrow> u \<noteq> w \<Longrightarrow> p' u = p u" and comp: "compatible (p' v) (p' w)"
  shows "isolated_at p' n"
proof -
  have none: "\<not> has_access (p' u) \<and> \<not> owns (p' u)" if "u < n" "u \<noteq> v" "u \<noteq> w" for u
    using third_has_nothing [of "p v" "p w" "p u"] iso vw st that cons(1) [of v] cons(1) [of w] rest [of u]
    by (auto simp: isolated_at_def)
  have "compatible (p' a) (p' b)" if "a < n" "b < n" "a \<noteq> b" for a b
    using that none [of a] none [of b] comp cons(2) [of a] cons(2) [of b]
    by (cases "a = v \<or> a = w"; cases "b = v \<or> b = w") (auto simp: compatible_def)
  then show ?thesis by (simp add: isolated_at_def)
qed

section \<open>Architected sharing\<close>

definition stateless :: "mode \<Rightarrow> bool" where
  "stateless m \<longleftrightarrow> \<not> bit m 4 \<and> \<not> bit m 5 \<and> \<not> bit m 6"

lemma mode_perm_or: "stateless m \<Longrightarrow> mode_perm (s OR m) = mode_perm s"
  by (simp add: mode_perm_def stateless_def bit_or_iff)

lemma mode_perm_mask: "mode_perm m = mode_perm (m AND (MODE_INVALID OR MODE_UNOWNED OR MODE_SHARED))"
  by (simp add: mode_perm_def bit_and_iff mode_defs)

lemma stateless_rest: "stateless (NOT (MODE_INVALID OR MODE_UNOWNED OR MODE_SHARED) AND m AND MODE_ALL)"
  by (simp add: stateless_def bit_and_iff bit_not_iff mode_defs)

lemma stateless_attrs: "stateless MODE_R" "stateless (MODE_R OR MODE_X)" "stateless (MODE_R OR MODE_W)"
  "stateless (MODE_R OR MODE_W OR MODE_X)"
  by (simp_all add: stateless_def mode_defs)

lemma mode_perm_consts:
  "mode_perm 0 = (True, True, True)" "mode_perm MODE_INVALID = (False, True, False)"
  "mode_perm MODE_UNOWNED = (True, False, True)" "mode_perm MODE_SHARED = (True, True, False)"
  "mode_perm (MODE_INVALID OR MODE_UNOWNED) = (False, False, False)"
  "mode_perm (MODE_UNOWNED OR MODE_SHARED) = (True, False, False)"
  "mode_perm (MODE_INVALID OR MODE_UNOWNED OR MODE_SHARED) = (False, False, False)"
  by (simp_all add: mode_perm_def mode_defs)

text \<open>Every line of the transition tables takes a settled pair to a compatible pair.\<close>

definition good_transition :: "spci_mem_transitions \<Rightarrow> bool" where
  "good_transition t \<longleftrightarrow>
     settled (mode_perm (orig_from_mode t)) (mode_perm (orig_to_mode t)) \<and>
     compatible (mode_perm (from_mode t)) (mode_perm (to_mode t))"

lemma transition_table_good: "list_all good_transition (transition_table share)"
  by (cases share)
    (simp_all add: donate_transitions_def relinquish_transitions_def shared_lend_transitions_def transition_def
      good_transition_def mode_perm_consts settled_def compatible_def owns_def has_access_def exclusive_def)

lemma next_state_good:
  assumes "next_state_loop ts attr orig_from orig_to = Ok (f, t)" "list_all good_transition ts" "stateless attr"
  shows "settled (mode_perm orig_from) (mode_perm orig_to) \<and> compatible (mode_perm f) (mode_perm t)"
  using assms
proof (induction ts)
  case (Cons tr ts)
  let ?m = "MODE_INVALID OR MODE_UNOWNED OR MODE_SHARED"
  show ?case
  proof (cases "orig_from AND ?m = orig_from_mode tr \<and> orig_to AND ?m = orig_to_mode tr")
    case True
    then have "f = from_mode tr OR (NOT ?m AND orig_from AND MODE_ALL)" "t = to_mode tr OR attr"
      using Cons.prems(1) by (simp_all add: Let_def)
    then have "mode_perm f = mode_perm (from_mode tr)" "mode_perm t = mode_perm (to_mode tr)"
      using mode_perm_or [OF stateless_rest] mode_perm_or [OF Cons.prems(3)] by simp_all
    then show ?thesis
      using True Cons.prems(2) mode_perm_mask [of orig_from] mode_perm_mask [of orig_to]
      by (simp add: good_transition_def)
  next
    case False
    then show ?thesis using Cons by (auto simp: Let_def split: if_splits)
  qed
qed simp

text \<open>What a sharing operation may do to the permissions of the two VMs at an address.\<close>

definition pair_step :: "perm \<Rightarrow> perm \<Rightarrow> perm \<Rightarrow> perm \<Rightarrow> bool" where
  "pair_step pf pt pf' pt' \<longleftrightarrow> pf' = pf \<and> pt' = pt \<or> settled pf pt \<and> compatible pf' pt'"

lemma check_transition_good:
  assumes "hf_stage2 S" "wf_ptable S to_t" "wf_ptable S from_t" "stateless attr"
    and "spci_msg_check_transition S to_t from_t share (ipa_init b) (ipa_init e) attr = Ok (orig, f, t)"
  shows "unat b < unat e \<and> unat e \<le> space S \<and> 4096 dvd unat b \<and> 4096 dvd unat e
    \<and> (\<forall>x. unat b \<le> x \<and> x < unat e \<longrightarrow> perm S from_t x = mode_perm orig
         \<and> settled (perm S from_t x) (perm S to_t x)) \<and> compatible (mode_perm f) (mode_perm t)"
proof -
  have al: "4096 dvd unat b" "4096 dvd unat e"
    using assms(5) by (auto simp: spci_msg_check_transition_def is_aligned_page split: if_splits)
  obtain orig_to where g: "get_mode S (ipa_init b) (ipa_init e) from_t = Ok orig" "get_mode S (ipa_init b) (ipa_init e) to_t = Ok orig_to"
    and n: "next_state_loop (transition_table share) attr orig orig_to = Ok (f, t)"
    using assms(5) by (auto simp: spci_msg_check_transition_def spci_msg_get_next_state_def split: if_splits outcome.splits)
  note good = next_state_good [OF n transition_table_good assms(4)]
  show ?thesis
    using al get_mode_range [OF hf_stage2_hf [OF assms(1)] g(1) al] good
      get_mode_perm [OF assms(1,3) g(1) al] get_mode_perm [OF assms(1,2) g(2) al] by simp
qed

lemma spci_share_memory_spec:
  assumes S: "hf_stage2 S" "reduce_law red" and wf: "wf_ptable S to_t" "wf_ptable S from_t" and ok: "env_ok env"
    and attr: "stateless attr"
    and run: "spci_share_memory S red same address page_count attr share to_t from_t env = (r, to_t', from_t', env')"
    and np: "r \<noteq> Panic"
  shows "wf_ptable S to_t' \<and> wf_ptable S from_t' \<and> env_ok env' \<and>
    (\<forall>x < space S. pair_step (perm S from_t x) (perm S to_t x) (perm S from_t' x) (perm S to_t' x))"
proof -
  define b e where "b = (address :: usize)" and "e = b + ucast page_count * PAGE_SIZE"
  have ipa: "ipa_add (ipa_init b) (ucast page_count * PAGE_SIZE) = ipa_init e" "pa_from_ipa (ipa_init a) = pa_init a" for a
    by (simp_all add: addr_defs e_def)
  let ?env = "local_pool env"
  note lok = local_pool_ok [OF ok]
  note run = run [unfolded spci_share_memory_def Let_def, folded b_def, unfolded ipa]
  have unchanged: ?thesis if "to_t' = to_t" "from_t' = from_t" "env_ok env'"
    using that wf by (simp add: pair_step_def)
  show ?thesis
  proof (cases "same \<or> \<not> is_ok (spci_msg_check_transition S to_t from_t share (ipa_init b) (ipa_init e) attr)")
    case True
    then show ?thesis
      using run np ok drop_local_pool_ok [OF lok] by (intro unchanged) (auto split: if_splits outcome.splits)
  next
    case False
    then obtain orig f t where ct: "spci_msg_check_transition S to_t from_t share (ipa_init b) (ipa_init e) attr = Ok (orig, f, t)"
      by (auto simp: is_ok_iff)
    note c = check_transition_good [OF S(1) wf attr ct]
    obtain r1 from1 env1 where m1: "identity_map S (pa_init b) (pa_init e) f from_t ?env = (r1, from1, env1)"
      by (metis prod.exhaust)
    note p1 = map_perm [OF S(1) wf(2) lok _ _ _ _ m1]
    have ns: "same = False" using \<open>\<not> (same \<or> _)\<close> by simp
    note run = run [unfolded ct ns, simplified]
    show ?thesis
    proof (cases "r1 = Ok ()")
      case False
      then have "r1 = Err ()" using p1 c by (cases r1) auto
      then have "to_t' = to_t" "from_t' = from1" "env' = drop_local_pool env1"
        using run by (simp_all add: m1)
      then show ?thesis using p1 c wf drop_local_pool_ok False by (simp add: pair_step_def)
    next
      case True
      obtain r2 to2 env2 where m2: "identity_map S (pa_init b) (pa_init e) t to_t env1 = (r2, to2, env2)"
        by (metis prod.exhaust)
      note p2 = map_perm [OF S(1) wf(1) _ _ _ _ _ m2]
      have p1: "wf_ptable S from1" "env_ok env1" "\<And>x. x < space S \<Longrightarrow>
          perm S from1 x = (if unat b \<le> x \<and> x < unat e then mode_perm f else perm S from_t x)"
        using p1 c True by simp_all
      have p2: "wf_ptable S to2" "env_ok env2" "r2 \<noteq> Panic" "\<And>x. x < space S \<Longrightarrow>
          perm S to2 x = (if r2 = Ok () \<and> unat b \<le> x \<and> x < unat e then mode_perm t else perm S to_t x)"
        using p2 p1(2) c by simp_all
      show ?thesis
      proof (cases "r2 = Ok ()")
        case True
        then have "to_t' = to2" "from_t' = from1" "env' = drop_local_pool env2"
          using run \<open>r1 = Ok ()\<close> by (simp_all add: m1 m2)
        moreover have "pair_step (perm S from_t x) (perm S to_t x) (perm S from1 x) (perm S to2 x)" if "x < space S" for x
          using p1(3) [OF that] p2(4) [OF that] c True unfolding pair_step_def
          by (cases "unat b \<le> x \<and> x < unat e") auto
        ultimately show ?thesis using p1 p2 drop_local_pool_ok by simp
      next
        case False
        then have r2: "r2 = Err ()" using p2(3) by (cases r2) auto
        obtain from3 env3 where d: "PageTable_defrag S red from1 env2 = (from3, env3)" by fastforce
        note p3 = defrag_perm [OF S p1(1) p2(2) d]
        obtain r4 from4 env4 where re: "restore S (pa_init b) (pa_init e) orig from3 env3 = (r4, from4, env4)"
          by (metis prod.exhaust)
        note p4 = restore_perm [OF S(1) _ _ _ _ _ _ re]
        have "r4 = Ok ()" and eq: "to_t' = to2" "from_t' = from4" "env' = drop_local_pool env4"
          using run np p4 p3 c \<open>r1 = Ok ()\<close> r2 by (auto simp: m1 m2 d re split: outcome.splits)
        then show ?thesis
          using p4 p3 p2 p1 c drop_local_pool_ok False by (simp add: pair_step_def)
      qed
    qed
  qed
qed

lemma attrs_to_mode_stateless: "spci_memory_attrs_to_mode a = Ok m \<Longrightarrow> stateless m"
  by (auto simp: spci_memory_attrs_to_mode_def stateless_attrs split: outcome.splits SpciLendAccess.splits)

lemma handle_share_spec:
  assumes S: "hf_stage2 S" "reduce_law red" and wf: "wf_ptable S to_t" "wf_ptable S from_t" and ok: "env_ok env"
    and run: "handle_share S red same buf hdr len to_t from_t env = (r, to_t', from_t', env')"
    and np: "r \<noteq> Panic"
  shows "wf_ptable S to_t' \<and> wf_ptable S from_t' \<and> env_ok env' \<and>
    (\<forall>x < space S. pair_step (perm S from_t x) (perm S to_t x) (perm S from_t' x) (perm S to_t' x))"
proof -
  have v: ?thesis if "spci_validate_call_share_memory S red same buf region sz attr share to_t from_t env = (r, to_t', from_t', env')"
    "stateless attr" for region sz attr share
    using that(1) spci_share_memory_spec [OF S wf ok that(2) _ np] wf ok
    by (auto simp: spci_validate_call_share_memory_def Let_def pair_step_def split: if_splits)
  show ?thesis
    using run np stateless_attrs(4) attrs_to_mode_stateless v
    by (auto simp: handle_share_def Let_def split: option.splits SpciMemoryShare.splits outcome.splits)
qed

section \<open>Tables of the hypervisor\<close>

lemma update_any:
  assumes "hf_stage S" "wf_ptable S t" "env_ok env" "unat b < 2 ^ 48" "unat e + 4095 < 2 ^ 64"
    and "attrs_ok S at" "\<not> flags_contains fl FLAG_COMMIT"
    and run: "identity_update S (pa_init b) (pa_init e) at fl t env = (r, t', env')"
  shows "wf_ptable S t' \<and> env_ok env'"
proof (cases "unat b < space S")
  case True
  then show ?thesis
    using mm_stage.identity_update_spec [OF hf_stage_mm [OF assms(1)] assms(7) refl assms(2,3,6) _ _ run] assms(5)
    by (auto simp: env_step_def)
next
  case False
  then show ?thesis
    using update_beyond [OF assms(1,2), of "pa_init b" "pa_init e" at fl env] run assms
    by (auto simp: invalidate_tlb_def emit_def env_ok_def split: if_splits)
qed

lemma map_any:
  assumes "hf_stage S" "wf_ptable S t" "env_ok env" "unat b < 2 ^ 48" "unat e + 4095 < 2 ^ 64"
    and "identity_map S (pa_init b) (pa_init e) m t env = (r, t', env')"
  shows "wf_ptable S t' \<and> env_ok env'"
proof -
  have "attrs_ok S (mode_to_attrs S m)"
    using hf_stage_mm [OF assms(1)] by (simp add: mm_stage_def pte_split_def pte_codec.mode_attrs_ok)
  then show ?thesis using update_any [OF assms(1-5) _ _ assms(6) [unfolded identity_map_def]] by simp
qed

text \<open>What the hypervisor maps with \<open>MODE_W\<close> inside its own space it can write.\<close>

lemma map_writable:
  assumes "wf_ptable aarch64_stage1 t" "env_ok env" "unat b + n \<le> unat e" "unat e \<le> space aarch64_stage1"
    and run: "identity_map aarch64_stage1 (pa_init b) (pa_init e) MODE_W t env = (Ok (), t', env')"
  shows "hyp_writable t' b n"
  unfolding hyp_writable_def
proof
  fix x assume x: "x \<in> {unat b..<unat b + n}"
  have sp: "space aarch64_stage1 \<le> 2 ^ 48" by (rule mm_stage.space_le [OF hf_stage_mm [OF hf_stage1_hf]])
  have "unat b < space aarch64_stage1" "unat e + 4095 < 2 ^ 64" using x assms(3,4) sp by auto
  then have "wf_ptable aarch64_stage1 t'" and look: "\<forall>x < space aarch64_stage1.
      unat b div 4096 * 4096 \<le> x \<and> x < (unat e + 4095) div 4096 * 4096 \<longrightarrow>
      lookup_ptable aarch64_stage1 t' x = mode_to_attrs aarch64_stage1 MODE_W"
    using identity_map_facts [OF hf_stage1_hf assms(1,2) _ _ run] by (simp_all add: view_step_def hit_def)
  moreover have "unat b div 4096 * 4096 \<le> x" "x < (unat e + 4095) div 4096 * 4096" "x < space aarch64_stage1"
    using x assms(3,4) by (simp_all, linarith+)
  ultimately have f: "wf_ptable aarch64_stage1 t'" "lookup_ptable aarch64_stage1 t' x = mode_to_attrs aarch64_stage1 MODE_W"
    by simp_all
  have "translate aarch64_stage1 t' x = Some (x, mode_to_attrs aarch64_stage1 MODE_W)"
    using translate_lookup [OF hf_stage1_hf f(1), of x] x assms(3,4) mode_valid [OF hf_stage1_hf, of MODE_W]
    by (simp add: f(2) mode_defs)
  moreover have "mode_to_attrs aarch64_stage1 MODE_W AND STAGE1_AP STAGE1_READONLY = 0"
    by (simp add: aarch64_stage1_def arch_mm_mode_to_stage1_attrs_def mode_defs STAGE1_AF_def STAGE1_SH_def STAGE1_XN_def
        STAGE1_AP_def STAGE1_ATTRINDX_def OUTER_SHAREABLE_def STAGE1_READWRITE_def STAGE1_READONLY_def STAGE1_NORMALINDX_def PTE_VALID_def)
  ultimately show "case translate aarch64_stage1 t' x of
      Some (_, at) \<Rightarrow> at AND STAGE1_AP STAGE1_READONLY = 0 | None \<Rightarrow> False" by simp
qed

lemma unmap_any:
  assumes "hf_stage S" "wf_ptable S t" "env_ok env" "unat b < 2 ^ 48" "unat e + 4095 < 2 ^ 64"
    and "PageTable_unmap S (pa_init b) (pa_init e) t env = (r, t', env')"
  shows "wf_ptable S t' \<and> env_ok env'"
proof -
  have "attrs_ok S (mode_to_attrs S m)" for m
    using hf_stage_mm [OF assms(1)] by (simp add: mm_stage_def pte_split_def pte_codec.mode_attrs_ok)
  then show ?thesis using update_any [OF assms(1-5) _ _ assms(6) [unfolded PageTable_unmap_def]] by simp
qed

lemma defrag_any:
  assumes "hf_stage S" "reduce_law red" "wf_ptable S t" "env_ok env" "PageTable_defrag S red t env = (t', env')"
  shows "wf_ptable S t' \<and> env_ok env'"
  using mm_stage.PageTable_defrag_spec [OF hf_stage_mm [OF assms(1)] assms(2-)] by simp

lemma configure_stage1_spec:
  assumes "reduce_law red" "wf_ptable aarch64_stage1 t" "env_ok env"
    and "unat b < 2 ^ 48" "unat e + 4095 < 2 ^ 64" "unat c < 2 ^ 48" "unat d + 4095 < 2 ^ 64"
    and run: "configure_stage1 red (pa_init b) (pa_init e) (pa_init c) (pa_init d) mb t env = (r, mb', t', env')"
  shows "wf_ptable aarch64_stage1 t' \<and> env_ok env'"
proof -
  obtain r1 t1 env1 where m1: "identity_map aarch64_stage1 (pa_init b) (pa_init e) MODE_R t env = (r1, t1, env1)"
    by (metis prod.exhaust)
  note s1 = map_any [OF hf_stage1_hf assms(2-5) m1]
  obtain r2 t2 env2 where m2: "identity_map aarch64_stage1 (pa_init c) (pa_init d) MODE_W t1 env1 = (r2, t2, env2)"
    by (metis prod.exhaust)
  have s2: "wf_ptable aarch64_stage1 t2 \<and> env_ok env2"
    using map_any [OF hf_stage1_hf _ _ assms(6,7) m2] s1 by blast
  obtain t3 env3 where d2: "PageTable_defrag aarch64_stage1 red t2 env2 = (t3, env3)" by fastforce
  have s3: "wf_ptable aarch64_stage1 t3 \<and> env_ok env3"
    using defrag_any [OF hf_stage1_hf assms(1) _ _ d2] s2 by blast
  obtain r4 t4 env4 where u: "PageTable_unmap aarch64_stage1 (pa_init b) (pa_init e) t3 env3 = (r4, t4, env4)"
    by (metis prod.exhaust)
  have s4: "wf_ptable aarch64_stage1 t4 \<and> env_ok env4"
    using unmap_any [OF hf_stage1_hf _ _ assms(4,5) u] s3 by blast
  obtain t5 env5 where d1: "PageTable_defrag aarch64_stage1 red t1 env1 = (t5, env5)" by fastforce
  have s5: "wf_ptable aarch64_stage1 t5 \<and> env_ok env5"
    using defrag_any [OF hf_stage1_hf assms(1) _ _ d1] s1 by blast
  show ?thesis
    using run s1 s2 s4 s5 by (auto simp: configure_stage1_def m1 m2 d1 d2 u split: outcome.splits)
qed

section \<open>Configuring a mailbox\<close>

lemma address_conversions [simp]:
  "ipa_add (ipa_init a) n = ipa_init (a + n)" "pa_add (pa_init a) n = pa_init (a + n)" "pa_from_ipa (ipa_init a) = pa_init a"
  by (simp_all add: addr_defs)

lemma ipa_init_addr: "ipa_init (ipa_addr i) = i"
  by (simp add: addr_defs)

text \<open>The pages of a mailbox were owned exclusively by the VM, so whatever happens to them affects no other VM.\<close>

definition private_step :: "perm \<Rightarrow> perm \<Rightarrow> bool" where
  "private_step p p' \<longleftrightarrow> p' = p \<or> owns p \<and> exclusive p"

lemma valid_owned_exclusive_perm: "valid_owned_exclusive m \<Longrightarrow> mode_perm m = (True, True, True)"
proof -
  assume "valid_owned_exclusive m"
  then have "m AND (MODE_INVALID OR MODE_UNOWNED OR MODE_SHARED) = 0"
    by (simp add: valid_owned_exclusive_def mode_intersects_def)
  then show ?thesis by (subst mode_perm_mask) (simp add: mode_perm_consts)
qed

lemma configure_pages_spec:
  fixes b c :: usize
  defines "e \<equiv> b + PAGE_SIZE" and "d \<equiv> c + PAGE_SIZE"
  assumes S: "hf_stage2 S" "reduce_law red" and wf: "wf_ptable S (vm_ptable s)" "wf_ptable aarch64_stage1 hyp" and ok: "env_ok env"
    and rb: "unat b < unat e" "unat e \<le> space S" "4096 dvd unat b" "4096 dvd unat e"
    and rc: "unat c < unat d" "unat d \<le> space S" "4096 dvd unat c" "4096 dvd unat d"
    and run: "configure_pages S red (pa_init b) (pa_init e) m (pa_init c) (pa_init d) m' s hyp env = (r, s', hyp', env')"
    and np: "r \<noteq> Panic"
  shows "wf_ptable S (vm_ptable s') \<and> wf_ptable aarch64_stage1 hyp' \<and> env_ok env' \<and>
    (\<forall>x < space S. perm S (vm_ptable s') x = perm S (vm_ptable s) x \<or> unat b \<le> x \<and> x < unat e \<or> unat c \<le> x \<and> x < unat d)"
proof -
  define P where "P t \<longleftrightarrow> wf_ptable S t \<and>
    (\<forall>x < space S. perm S t x = perm S (vm_ptable s) x \<or> unat b \<le> x \<and> x < unat e \<or> unat c \<le> x \<and> x < unat d)" for t
  define E where "E t en \<longleftrightarrow> P t \<and> env_ok en" for t en
  have sp: "space S \<le> 2 ^ 48" by (rule mm_stage.space_le [OF hf_stage_mm [OF hf_stage2_hf [OF S(1)]]])
  have mb: "E t' en'" "q \<noteq> Panic" if "E t en" "identity_map S (pa_init b) (pa_init e) m t en = (q, t', en')" for m t en q t' en'
    using map_perm [OF S(1) _ _ rb that(2)] that(1) by (auto simp: E_def P_def)
  have mc: "E t' en'" "q \<noteq> Panic" if "E t en" "identity_map S (pa_init c) (pa_init d) m t en = (q, t', en')" for m t en q t' en'
    using map_perm [OF S(1) _ _ rc that(2)] that(1) by (auto simp: E_def P_def)
  have df: "E t' en'" if "E t en" "PageTable_defrag S red t en = (t', en')" for t en t' en'
    using defrag_perm [OF S _ _ that(2)] that(1) by (auto simp: E_def P_def)
  have rsb: "E t' en'" if "E t en" "restore S (pa_init b) (pa_init e) m t en = (q, t', en')" for m t en q t' en'
    using restore_perm [OF S(1) _ _ rb that(2)] mb [OF that(1)] that by (auto simp: restore_def split: prod.splits outcome.splits)
  have rsc: "E t' en'" if "E t en" "restore S (pa_init c) (pa_init d) m t en = (q, t', en')" for m t en q t' en'
    using mc [OF that(1)] that by (auto simp: restore_def split: prod.splits outcome.splits)
  have E0: "E (vm_ptable s) (local_pool env)"
    using wf(1) local_pool_ok [OF ok] by (simp add: E_def P_def)
  let ?send = "MODE_UNOWNED OR MODE_SHARED OR MODE_R OR MODE_W" and ?recv = "MODE_UNOWNED OR MODE_SHARED OR MODE_R"
  obtain r1 t1 env1 where m1: "identity_map S (pa_init b) (pa_init e) ?send (vm_ptable s) (local_pool env) = (r1, t1, env1)"
    by (metis prod.exhaust)
  obtain r2 t2 env2 where m2: "identity_map S (pa_init c) (pa_init d) ?recv t1 env1 = (r2, t2, env2)"
    by (metis prod.exhaust)
  obtain r3 mb hyp3 env3 where m3: "configure_stage1 red (pa_init b) (pa_init e) (pa_init c) (pa_init d) (mailbox s) hyp env2 = (r3, mb, hyp3, env3)"
    by (metis prod.exhaust)
  obtain r4 t4 env4 where m4: "restore S (pa_init c) (pa_init d) m' t2 env3 = (r4, t4, env4)"
    by (metis prod.exhaust)
  obtain r5 t5 env5 where m5: "restore S (pa_init b) (pa_init e) m t4 env4 = (r5, t5, env5)"
    by (metis prod.exhaust)
  obtain t6 env6 where m6: "PageTable_defrag S red t2 env2 = (t6, env6)"
    by fastforce
  obtain r7 t7 env7 where m7: "restore S (pa_init b) (pa_init e) m t6 env6 = (r7, t7, env7)"
    by (metis prod.exhaust)
  have E1: "E t1 env1" and E2: "E t2 env2" and n: "r1 \<noteq> Panic" "r2 \<noteq> Panic"
    using mb [OF E0 m1] mc [OF _ m2] by auto
  have st1: "wf_ptable aarch64_stage1 hyp3 \<and> env_ok env3"
    using E2 rb rc sp by (intro configure_stage1_spec [OF S(2) wf(2) _ _ _ _ _ m3]) (auto simp: E_def)
  have E3: "E t2 env3" using E2 st1 by (simp add: E_def)
  have E57: "E t5 env5" "E t7 env7"
    using rsb [OF rsc [OF E3 m4] m5] rsb [OF df [OF E2 m6] m7] by auto
  have "\<exists>en. E (vm_ptable s') en \<and> env' = drop_local_pool en \<and> wf_ptable aarch64_stage1 hyp'"
    using run np n E1 E3 E57 st1 wf(2)
    by (auto simp: configure_pages_def Let_def m1 m2 m3 m4 m5 m6 m7 split: outcome.splits)
  then show ?thesis using drop_local_pool_ok by (auto simp: E_def P_def)
qed

lemma configure_spec:
  assumes S: "hf_stage2 S" "reduce_law red" and wf: "wf_ptable S (vm_ptable s)" "wf_ptable aarch64_stage1 hyp" and ok: "env_ok env"
    and run: "configure S red sd rc s hyp env = (r, s', hyp', env')" and np: "r \<noteq> Panic"
  shows "wf_ptable S (vm_ptable s') \<and> wf_ptable aarch64_stage1 hyp' \<and> env_ok env' \<and>
    (\<forall>x < space S. private_step (perm S (vm_ptable s) x) (perm S (vm_ptable s') x))"
proof (cases "s' = s \<and> hyp' = hyp \<and> env' = env")
  case True
  then show ?thesis using wf ok by (simp add: private_step_def)
next
  case False
  obtain b c where sd: "sd = ipa_init b" and rc: "rc = ipa_init c"
    by (metis ipa_init_addr)
  obtain m m' where g: "get_mode S (ipa_init b) (ipa_init (b + PAGE_SIZE)) (vm_ptable s) = Ok m"
      "get_mode S (ipa_init c) (ipa_init (c + PAGE_SIZE)) (vm_ptable s) = Ok m'"
    and ex: "valid_owned_exclusive m" "valid_owned_exclusive m'" and al: "4096 dvd unat b" "4096 dvd unat c"
    and cp: "configure_pages S red (pa_init b) (pa_init (b + PAGE_SIZE)) m (pa_init c) (pa_init (c + PAGE_SIZE)) m' s hyp env = (r, s', hyp', env')"
    using run False by (auto simp: configure_def Let_def sd rc is_aligned_page split: if_splits outcome.splits)
  have al': "4096 dvd unat (a + PAGE_SIZE)" if "4096 dvd unat a" for a :: usize
    using that by (simp add: unat_word_ariths(1) dvd_mod_iff)
  note hf = hf_stage2_hf [OF S(1)]
  note rb = get_mode_range [OF hf g(1) al(1) al' [OF al(1)]] and rc = get_mode_range [OF hf g(2) al(2) al' [OF al(2)]]
  note f = configure_pages_spec [OF S wf ok _ _ al(1) al' [OF al(1)] _ _ al(2) al' [OF al(2)] cp np]
  have "owns (perm S (vm_ptable s) x) \<and> exclusive (perm S (vm_ptable s) x)"
    if "unat b \<le> x \<and> x < unat (b + PAGE_SIZE) \<or> unat c \<le> x \<and> x < unat (c + PAGE_SIZE)" for x
    using that get_mode_perm [OF S(1) wf(1) g(1) al(1) al' [OF al(1)]] get_mode_perm [OF S(1) wf(1) g(2) al(2) al' [OF al(2)]]
      valid_owned_exclusive_perm [OF ex(1)] valid_owned_exclusive_perm [OF ex(2)]
    by (auto simp: owns_def exclusive_def)
  then show ?thesis using f rb rc by (auto simp: private_step_def)
qed

section \<open>The state of the hypervisor\<close>

definition isolated :: "stage \<Rightarrow> hypervisor \<Rightarrow> bool" where
  "isolated S h \<longleftrightarrow> (\<forall>x < space S. isolated_at (\<lambda>v. perm S (ptable_of h v) x) (length (vms h)))"

text \<open>The invariant: the memory part, and that the VMs have their IDs.\<close>

definition hyp_ok :: "stage \<Rightarrow> hypervisor \<Rightarrow> bool" where
  "hyp_ok S h \<longleftrightarrow>
     env_ok (henv h) \<and> wf_ptable aarch64_stage1 (hyp_ptable h) \<and>
     (\<forall>v < length (vms h). wf_ptable S (ptable_of h v)) \<and> isolated S h \<and>
     length (vms h) \<le> MAX_VMS \<and> (\<forall>v < length (vms h). vm_id (vm_at h v) = word_of_nat (v + 1))"

text \<open>
  A call of VM \<open>v\<close> keeps the invariant, and takes nothing from a VM that owns an address and has
  exclusive access to it.
\<close>

definition safe :: "stage \<Rightarrow> nat \<Rightarrow> hypervisor \<Rightarrow> hypervisor \<Rightarrow> bool" where
  "safe S v h h' \<longleftrightarrow>
     hyp_ok S h' \<and> length (vms h') = length (vms h) \<and>
     (\<forall>u x. u \<noteq> v \<longrightarrow> u < length (vms h) \<longrightarrow> x < space S \<longrightarrow>
        owns (perm S (ptable_of h u) x) \<longrightarrow> exclusive (perm S (ptable_of h u) x) \<longrightarrow>
        perm S (ptable_of h' u) x = perm S (ptable_of h u) x)"

text \<open>What a call that does not touch memory mappings keeps.\<close>

definition mem_frame :: "hypervisor \<Rightarrow> hypervisor \<Rightarrow> bool" where
  "mem_frame h h' \<longleftrightarrow>
     henv h' = henv h \<and> hyp_ptable h' = hyp_ptable h \<and> length (vms h') = length (vms h) \<and>
     (\<forall>v. ptable_of h' v = ptable_of h v \<and> vm_id (vm_at h' v) = vm_id (vm_at h v))"

lemma mem_frame_refl [simp]: "mem_frame h h"
  by (simp add: mem_frame_def)

lemma mem_frame_trans: "mem_frame h h' \<Longrightarrow> mem_frame h' h'' \<Longrightarrow> mem_frame h h''"
  by (simp add: mem_frame_def)

lemma hyp_ok_frame: "hyp_ok S h \<Longrightarrow> mem_frame h h' \<Longrightarrow> hyp_ok S h'"
  by (simp add: hyp_ok_def mem_frame_def isolated_def)

lemma safe_frame: "hyp_ok S h \<Longrightarrow> mem_frame h h' \<Longrightarrow> safe S v h h'"
  using hyp_ok_frame by (auto simp: safe_def mem_frame_def)

lemma safe_then_frame: "safe S v h h' \<Longrightarrow> mem_frame h' h'' \<Longrightarrow> safe S v h h''"
  using hyp_ok_frame by (auto simp: safe_def mem_frame_def)

lemma vm_at_update: "vm_at (update_vm v f h) w = (if w = v \<and> v < length (vms h) then f (vm_at h v) else vm_at h w)"
  by (cases "v < length (vms h)") (auto simp: vm_at_def update_vm_def list_update_beyond)

lemma update_vm_fields [simp]:
  "henv (update_vm v f h) = henv h" "hyp_ptable (update_vm v f h) = hyp_ptable h" "length (vms (update_vm v f h)) = length (vms h)"
  "links (update_vm v f h) = links h" "mem (update_vm v f h) = mem h" "cpus (update_vm v f h) = cpus h"
  "machine (update_vm v f h) = machine h" "msg_buffers (update_vm v f h) = msg_buffers h"
  by (simp_all add: update_vm_def)

lemma mem_frame_update_vm:
  assumes "\<And>m. vm_ptable (vm_inner (f m)) = vm_ptable (vm_inner m)" "\<And>m. vm_id (f m) = vm_id m"
  shows "mem_frame h0 (update_vm v f h) = mem_frame h0 h" "mem_frame (update_vm v f h0) h = mem_frame h0 h"
  by (auto simp: mem_frame_def ptable_of_def vm_at_update assms(1,2))

lemma mem_frame_updates [simp]:
  "mem_frame h0 (update_vcpu c g h) = mem_frame h0 h" "mem_frame (update_vcpu c g h0) h = mem_frame h0 h"
  "mem_frame h0 (update_vcpu_inner c g' h) = mem_frame h0 h" "mem_frame (update_vcpu_inner c g' h0) h = mem_frame h0 h"
  "mem_frame h0 (update_mailbox v g'' h) = mem_frame h0 h" "mem_frame (update_mailbox v g'' h0) h = mem_frame h0 h"
  "mem_frame h0 (unlock c h) = mem_frame h0 h" "mem_frame (unlock c h0) h = mem_frame h0 h"
  "mem_frame h0 (update_vm v (aborting_update g4) h) = mem_frame h0 h"
  "mem_frame (update_vm v (aborting_update g4) h0) h = mem_frame h0 h"
  unfolding unlock_def update_vcpu_inner_def update_vcpu_def update_mailbox_def update_inner_def
  by (simp_all add: mem_frame_update_vm)

lemma mem_frame_fields [simp]:
  "mem_frame h0 (h\<lparr>links := ls\<rparr>) = mem_frame h0 h" "mem_frame (h0\<lparr>links := ls\<rparr>) h = mem_frame h0 h"
  "mem_frame h0 (h\<lparr>cpus := cs\<rparr>) = mem_frame h0 h" "mem_frame (h0\<lparr>cpus := cs\<rparr>) h = mem_frame h0 h"
  "mem_frame h0 (h\<lparr>machine := M\<rparr>) = mem_frame h0 h" "mem_frame (h0\<lparr>machine := M\<rparr>) h = mem_frame h0 h"
  "mem_frame h0 (h\<lparr>mem := m\<rparr>) = mem_frame h0 h" "mem_frame (h0\<lparr>mem := m\<rparr>) h = mem_frame h0 h"
  "mem_frame h0 (h\<lparr>msg_buffers := mb\<rparr>) = mem_frame h0 h" "mem_frame (h0\<lparr>msg_buffers := mb\<rparr>) h = mem_frame h0 h"
  by (simp_all add: mem_frame_def ptable_of_def vm_at_def)

lemma switch_frame: "switch_to_primary c ret st h = (r, h') \<Longrightarrow> mem_frame h h'"
  by (auto simp: switch_to_primary_def Let_def split: option.splits if_splits)

lemma inject_frame: "internal_interrupt_inject t i c h = (r, h') \<Longrightarrow> mem_frame h h'"
  unfolding internal_interrupt_inject_def wake_up_def
  by (auto simp: Let_def split: prod.splits outcome.splits if_splits dest!: switch_frame)

lemma prepare_frame: "vcpu_prepare_run c t ret h = (r, h') \<Longrightarrow> mem_frame h h'"
  by (auto simp: vcpu_prepare_run_def Let_def split: prod.splits if_splits)

lemma run_frame: "vcpu_run i idx c h = (r, h') \<Longrightarrow> mem_frame h h'"
  unfolding vcpu_run_def
  by (auto simp: Let_def split: prod.splits outcome.splits option.splits if_splits
      dest!: inject_frame prepare_frame intro: mem_frame_trans)

lemma waiter_frame: "waiter_result v c h = (r, h') \<Longrightarrow> mem_frame h h'"
  by (auto simp: waiter_result_def split: if_splits prod.splits outcome.splits dest!: switch_frame)

lemma recv_frame: "spci_msg_recv at c h = (r, h') \<Longrightarrow> mem_frame h h'"
  by (auto simp: spci_msg_recv_def Let_def split: if_splits prod.splits outcome.splits dest!: switch_frame)

lemma waiter_get_frame: "mailbox_waiter_get i c h = (r, h') \<Longrightarrow> mem_frame h h'"
  by (auto simp: mailbox_waiter_get_def Let_def split: if_splits prod.splits outcome.splits option.splits)

lemma clear_frame: "mailbox_clear c h = (r, h') \<Longrightarrow> mem_frame h h'"
  by (auto simp: mailbox_clear_def Let_def split: MailboxState.splits dest!: waiter_frame)

section \<open>Calls that change mappings\<close>

text \<open>What a call on the VMs \<open>v\<close> and \<open>w\<close> keeps.\<close>

definition two_frame :: "stage \<Rightarrow> nat \<Rightarrow> nat \<Rightarrow> hypervisor \<Rightarrow> hypervisor \<Rightarrow> bool" where
  "two_frame S v w h h' \<longleftrightarrow>
     env_ok (henv h') \<and> wf_ptable aarch64_stage1 (hyp_ptable h') \<and> length (vms h') = length (vms h) \<and>
     (\<forall>u. vm_id (vm_at h' u) = vm_id (vm_at h u)) \<and> (\<forall>u. u \<noteq> v \<longrightarrow> u \<noteq> w \<longrightarrow> ptable_of h' u = ptable_of h u) \<and>
     wf_ptable S (ptable_of h' v) \<and> wf_ptable S (ptable_of h' w)"

lemma two_frame_start: "hyp_ok S h \<Longrightarrow> v < length (vms h) \<Longrightarrow> w < length (vms h) \<Longrightarrow> two_frame S v w h h"
  by (simp add: two_frame_def hyp_ok_def)

lemma two_frame_mem: "two_frame S v w h h' \<Longrightarrow> mem_frame h' h'' \<Longrightarrow> two_frame S v w h h''"
  by (simp add: two_frame_def mem_frame_def)

lemma perm_has: "exclusive (perm S t x) \<Longrightarrow> has_access (perm S t x)"
  by (simp add: perm_def perm_consistent)

lemma two_frame_ok:
  assumes ok: "hyp_ok S h" and f: "two_frame S v w h h'" and vw: "v < length (vms h)" "w < length (vms h)" "v \<noteq> w"
    and step: "\<And>x. x < space S \<Longrightarrow> pair_step (perm S (ptable_of h v) x) (perm S (ptable_of h w) x)
                 (perm S (ptable_of h' v) x) (perm S (ptable_of h' w) x)"
  shows "safe S v h h'"
proof -
  have "isolated_at (\<lambda>v. perm S (ptable_of h' v) x) (length (vms h))" if "x < space S" for x
  proof (cases "perm S (ptable_of h' v) x = perm S (ptable_of h v) x \<and> perm S (ptable_of h' w) x = perm S (ptable_of h w) x")
    case True
    then have "perm S (ptable_of h' u) x = perm S (ptable_of h u) x" for u
      using f by (cases "u = v \<or> u = w") (auto simp: two_frame_def)
    then show ?thesis using ok that by (simp add: hyp_ok_def isolated_def)
  next
    case False
    then have st: "settled (perm S (ptable_of h v) x) (perm S (ptable_of h w) x)"
      "compatible (perm S (ptable_of h' v) x) (perm S (ptable_of h' w) x)"
      using step [OF that] by (auto simp: pair_step_def)
    show ?thesis
      by (rule isolated_pair_step [OF _ vw st(1)])
        (use ok that f st(2) in \<open>auto simp: hyp_ok_def isolated_def two_frame_def intro: perm_has\<close>)
  qed
  moreover have "wf_ptable S (ptable_of h' u)" if "u < length (vms h)" for u
    using f ok that by (cases "u = v \<or> u = w") (auto simp: two_frame_def hyp_ok_def)
  ultimately have "hyp_ok S h'"
    using f ok by (simp add: hyp_ok_def two_frame_def isolated_def)
  moreover have "perm S (ptable_of h' u) x = perm S (ptable_of h u) x"
    if "u \<noteq> v" "x < space S" "owns (perm S (ptable_of h u) x)" "exclusive (perm S (ptable_of h u) x)" for u x
  proof (cases "u = w")
    case True
    have "compatible (perm S (ptable_of h v) x) (perm S (ptable_of h w) x)"
      using ok vw that(2) by (simp add: hyp_ok_def isolated_def isolated_at_def)
    then show ?thesis
      using step [OF that(2)] that(3,4) True by (auto simp: pair_step_def compatible_def settled_def)
  qed (use f that in \<open>simp add: two_frame_def\<close>)
  ultimately show ?thesis using f by (auto simp: safe_def two_frame_def)
qed

lemma private_ok:
  assumes ok: "hyp_ok S h" and f: "two_frame S v v h h'" and v: "v < length (vms h)"
    and step: "\<And>x. x < space S \<Longrightarrow> private_step (perm S (ptable_of h v) x) (perm S (ptable_of h' v) x)"
  shows "safe S v h h'"
proof -
  have "compatible (perm S (ptable_of h' a) x) (perm S (ptable_of h' b) x)"
    if x: "x < space S" and ab: "a < length (vms h)" "b < length (vms h)" "a \<noteq> b" for x a b
  proof -
    have comp: "compatible (perm S (ptable_of h a) x) (perm S (ptable_of h b) x)"
      using ok x ab by (simp add: hyp_ok_def isolated_def isolated_at_def)
    have "ptable_of h' u = ptable_of h u" if "u \<noteq> v" for u
      using f that by (simp add: two_frame_def)
    then show ?thesis
      using comp step [OF x] ab(3) perm_has [of S "ptable_of h a" x] perm_has [of S "ptable_of h b" x]
      by (cases "a = v"; cases "b = v") (auto simp: private_step_def compatible_def dest: perm_has)
  qed
  moreover have "wf_ptable S (ptable_of h' u)" if "u < length (vms h)" for u
    using f ok that by (cases "u = v") (auto simp: two_frame_def hyp_ok_def)
  ultimately have "hyp_ok S h'"
    using f ok by (simp add: hyp_ok_def two_frame_def isolated_def isolated_at_def)
  then show ?thesis using f by (simp add: safe_def two_frame_def)
qed

lemma get_distinct:
  assumes "hyp_ok S h" "VmManager_get i (vms h) = Ok (Some w)"
  shows "w < length (vms h)" "vm_id (vm_at h w) = i"
proof -
  show w: "w < length (vms h)"
    using assms(2) by (auto simp: VmManager_get_def split: outcome.splits if_splits)
  have "w = unat (i - 1)" "1 \<le> i"
    using assms(2) by (auto simp: VmManager_get_def get_vm_index_def HF_VM_ID_OFFSET_def split: outcome.splits if_splits)
  then have "word_of_nat (w + 1) = i" by simp
  then show "vm_id (vm_at h w) = i" using assms(1) w by (simp add: hyp_ok_def)
qed

lemma vm_configure_ok:
  assumes "hf_stage2 S" "reduce_law red" and ok: "hyp_ok S h" and c: "fst c < length (vms h)"
    and run: "vm_configure S red sd rc c h = (r, h')" and np: "r \<noteq> Panic"
  shows "safe S (fst c) h h'"
proof -
  obtain q s t e where cf: "configure S red sd rc (vm_inner (vm_at h (fst c))) (hyp_ptable h) (henv h) = (q, s, t, e)"
    by (metis prod.exhaust)
  let ?h = "update_inner (fst c) (\<lambda>_. s) (h\<lparr>hyp_ptable := t, henv := e\<rparr>)"
  have q: "q \<noteq> Panic" and fr: "mem_frame ?h h'"
    using run np by (auto simp: vm_configure_def cf Let_def split: outcome.splits dest: waiter_frame)
  have f: "wf_ptable S (vm_ptable s) \<and> wf_ptable aarch64_stage1 t \<and> env_ok e \<and>
      (\<forall>x < space S. private_step (perm S (ptable_of h (fst c)) x) (perm S (vm_ptable s) x))"
    using ok c unfolding ptable_of_def
    by (intro configure_spec [OF assms(1,2) _ _ _ cf q]) (simp_all add: hyp_ok_def ptable_of_def)
  have at: "vm_at ?h u = (if u = fst c then (vm_at h u)\<lparr>vm_inner := s\<rparr> else vm_at h u)" for u
    using c by (auto simp: update_inner_def vm_at_update) (simp_all add: vm_at_def)
  have "two_frame S (fst c) (fst c) h ?h"
    using f by (auto simp: two_frame_def ptable_of_def at) (simp_all add: update_inner_def)
  then have "safe S (fst c) h ?h"
    using f by (intro private_ok [OF ok _ c]) (auto simp: ptable_of_def at)
  then show ?thesis by (rule safe_then_frame) (rule fr)
qed

lemma set_ptable_simps [simp]:
  "henv (set_ptable v t h) = henv h" "hyp_ptable (set_ptable v t h) = hyp_ptable h"
  "length (vms (set_ptable v t h)) = length (vms h)" "vm_id (vm_at (set_ptable v t h) u) = vm_id (vm_at h u)"
  "v < length (vms h) \<Longrightarrow> ptable_of (set_ptable v t h) u = (if u = v then t else ptable_of h u)"
  by (auto simp: set_ptable_def update_inner_def vm_at_update ptable_of_def)

lemma henv_update_simps [simp]:
  "vm_at (h\<lparr>henv := e\<rparr>) u = vm_at h u" "ptable_of (h\<lparr>henv := e\<rparr>) u = ptable_of h u"
  by (simp_all add: vm_at_def ptable_of_def)

lemma map_in_vm_spec:
  assumes S: "hf_stage2 S" and f: "two_frame S v w h0 h" and v: "v < length (vms h0)"
    and rng: "unat b < unat e" "unat e \<le> space S" "4096 dvd unat b" "4096 dvd unat e"
    and run: "map_in_vm S u (pa_init b) (pa_init e) m h = (r, h')" and u: "u = v \<or> u = w" "u < length (vms h0)"
  shows "two_frame S v w h0 h' \<and> r \<noteq> Panic \<and> (\<forall>k. k \<noteq> u \<longrightarrow> ptable_of h' k = ptable_of h k) \<and>
    (\<forall>x < space S. perm S (ptable_of h' u) x =
        (if r = Ok () \<and> unat b \<le> x \<and> x < unat e then mode_perm m else perm S (ptable_of h u) x))"
proof -
  obtain t en where im: "identity_map S (pa_init b) (pa_init e) m (ptable_of h u) (henv h) = (r, t, en)"
    and h': "h' = set_ptable u t (h\<lparr>henv := en\<rparr>)"
    using run by (auto simp: map_in_vm_def split: prod.splits)
  have wf: "wf_ptable S (ptable_of h u)" "env_ok (henv h)" "u < length (vms h)"
    using f u by (auto simp: two_frame_def)
  show ?thesis
    using map_perm [OF S wf(1,2) rng im] f wf(3) u(1) unfolding h' by (auto simp: two_frame_def)
qed

lemma clear_memory_spec:
  assumes red: "reduce_law red" and f: "two_frame S v w h0 h" and rng: "unat b < 2 ^ 48" "unat e \<le> 2 ^ 48"
    and run: "clear_memory red (pa_init b) (pa_init e) h = (r, h')"
  shows "two_frame S v w h0 h' \<and> (\<forall>u. ptable_of h' u = ptable_of h u)"
proof -
  have ok: "wf_ptable aarch64_stage1 (hyp_ptable h)" "env_ok (henv h)" and e: "unat e + 4095 < 2 ^ 64"
    using f rng by (auto simp: two_frame_def)
  obtain r1 t1 en1 where m: "identity_map aarch64_stage1 (pa_init b) (pa_init e) MODE_W (hyp_ptable h) (henv h) = (r1, t1, en1)"
    by (metis prod.exhaust)
  obtain r2 t2 en2 where u: "PageTable_unmap aarch64_stage1 (pa_init b) (pa_init e) t1 en1 = (r2, t2, en2)"
    by (metis prod.exhaust)
  obtain t3 en3 where d: "PageTable_defrag aarch64_stage1 red t1 en1 = (t3, en3)" by fastforce
  have 1: "wf_ptable aarch64_stage1 t1" "env_ok en1"
    using map_any [OF hf_stage1_hf ok rng(1) e m] by auto
  have 2: "wf_ptable aarch64_stage1 t2" "env_ok en2" using unmap_any [OF hf_stage1_hf 1 rng(1) e u] by auto
  have 3: "wf_ptable aarch64_stage1 t3" "env_ok en3" using defrag_any [OF hf_stage1_hf red 1 d] by auto
  obtain t' en' m' where "h' = h\<lparr>hyp_ptable := t', henv := en', mem := m'\<rparr>" "wf_ptable aarch64_stage1 t'" "env_ok en'"
  proof (cases r1)
    case (Ok a)
    then show thesis using run m u 1 2 that [of _ en2 t2] that [of "mem h" en1 t1]
      by (auto simp: clear_memory_def Let_def split: outcome.splits if_splits)
  next
    case (Err a)
    then show thesis using run m d 3 that [of "mem h" en3 t3] by (auto simp: clear_memory_def Let_def)
  next
    case Panic
    then show thesis using run m 1 that [of "mem h" en1 t1] by (auto simp: clear_memory_def Let_def)
  qed
  then show ?thesis using f by (auto simp: two_frame_def ptable_of_def vm_at_def)
qed

lemma state_bits:
  "mode_contains m MODE_INVALID \<longleftrightarrow> bit m 4" "mode_contains m MODE_UNOWNED \<longleftrightarrow> bit m 5" "mode_contains m MODE_SHARED \<longleftrightarrow> bit m 6"
  by (simp_all add: mode_contains_def mode_bits) (simp_all add: mode_defs)

lemma share_modes_compatible: "compatible (mode_perm (fst (share_modes share))) (mode_perm (snd (share_modes share)))"
  by (cases share) (simp_all add: mode_perm_def compatible_def owns_def has_access_def exclusive_def mode_defs)

lemma share_check_good:
  assumes "hf_stage2 S" "wf_ptable S from_t" "wf_ptable S to_t" "4096 dvd unat b" "4096 dvd unat e"
    and run: "share_check S share (ipa_init b) (ipa_init e) from_t to_t = Ok orig"
  shows "unat b < unat e \<and> unat e \<le> space S \<and>
    (\<forall>x. unat b \<le> x \<and> x < unat e \<longrightarrow> perm S from_t x = mode_perm orig \<and> settled (perm S from_t x) (perm S to_t x))"
proof -
  have g: "get_mode S (ipa_init b) (ipa_init e) from_t = Ok orig"
    using run by (auto simp: share_check_def split: outcome.splits if_splits)
  note pf = get_mode_perm [OF assms(1,2) g assms(4,5)]
  have "settled (mode_perm orig) (perm S to_t x)" if x: "unat b \<le> x" "x < unat e" for x
  proof (cases "bit orig 5")
    case True
    then obtain m where m: "get_mode S (ipa_init b) (ipa_init e) to_t = Ok m" "\<not> bit m 5" "\<not> bit orig 4"
      using run g by (auto simp: share_check_def state_bits split: outcome.splits if_splits)
    show ?thesis
      using get_mode_perm [OF assms(1,3) m(1) assms(4,5) x] m True
      by (simp add: settled_def mode_perm_def owns_def has_access_def exclusive_def)
  next
    case False
    then have "\<not> bit orig 4" "\<not> bit orig 6"
      using run g by (auto simp: share_check_def state_bits split: if_splits)
    then show ?thesis
      using False by (simp add: settled_def mode_perm_def owns_def has_access_def exclusive_def)
  qed
  then show ?thesis
    using get_mode_range [OF hf_stage2_hf [OF assms(1)] g assms(4,5)] pf by simp
qed

lemma share_pages_spec:
  assumes S: "hf_stage2 S" "reduce_law red" and vw: "v < length (vms h)" "w < length (vms h)" "v \<noteq> w" and f0: "two_frame S v w h h"
    and rng: "unat b < unat e" "unat e \<le> space S" "4096 dvd unat b" "4096 dvd unat e"
    and orig: "\<And>x. unat b \<le> x \<Longrightarrow> x < unat e \<Longrightarrow> perm S (ptable_of h v) x = mode_perm orig"
    and run: "share_pages S red v w (pa_init b) (pa_init e) orig fm tm h = (r, h')" and np: "r \<noteq> Panic"
  shows "two_frame S v w h h' \<and> (\<forall>x < space S.
     perm S (ptable_of h' v) x = perm S (ptable_of h v) x \<and> perm S (ptable_of h' w) x = perm S (ptable_of h w) x
     \<or> unat b \<le> x \<and> x < unat e \<and> perm S (ptable_of h' v) x = mode_perm fm \<and> perm S (ptable_of h' w) x = mode_perm tm)"
proof -
  have sp: "space S \<le> 2 ^ 48" by (rule mm_stage.space_le [OF hf_stage_mm [OF hf_stage2_hf [OF S(1)]]])
  have e48: "unat b < 2 ^ 48" "unat e \<le> 2 ^ 48" using rng sp by simp_all
  obtain r1 h1 where m1: "map_in_vm S v (pa_init b) (pa_init e) fm h = (r1, h1)" by fastforce
  note p1 = map_in_vm_spec [OF S(1) f0 vw(1) rng m1 disjI1 [OF refl] vw(1)]
  obtain r2 h2 where m2: "clear_memory red (pa_init b) (pa_init e) h1 = (r2, h2)" by fastforce
  note p2 = clear_memory_spec [OF S(2) _ e48 m2, of S v w h]
  obtain r3 h3 where m3: "map_in_vm S w (pa_init b) (pa_init e) tm h2 = (r3, h3)" by fastforce
  note p3 = map_in_vm_spec [OF S(1) _ vw(1) rng m3 disjI2 [OF refl] vw(2)]
  obtain t en where d: "PageTable_defrag S red (ptable_of h3 v) (henv h3) = (t, en)" by fastforce
  define h4 where "h4 = set_ptable v t (h3\<lparr>henv := en\<rparr>)"
  obtain r5 h5 where m5: "map_in_vm S v (pa_init b) (pa_init e) orig h4 = (r5, h5)" by fastforce
  note p5 = map_in_vm_spec [OF S(1) _ vw(1) rng m5 disjI1 [OF refl] vw(1)]
  obtain r6 h6 where m6: "map_in_vm S v (pa_init b) (pa_init e) orig h2 = (r6, h6)" by fastforce
  note p6 = map_in_vm_spec [OF S(1) _ vw(1) rng m6 disjI1 [OF refl] vw(1)]
  have f2: "two_frame S v w h h2" and f3: "two_frame S v w h h3"
    using p1 p2 p3 by auto
  have d4: "wf_ptable S t \<and> env_ok en \<and> (\<forall>x < space S. perm S t x = perm S (ptable_of h3 v) x)"
    using f3 by (intro defrag_perm [OF S _ _ d]) (auto simp: two_frame_def)
  have f4: "two_frame S v w h h4"
    using f3 d4 vw unfolding h4_def by (auto simp: two_frame_def)
  have v4: "ptable_of h4 u = (if u = v then t else ptable_of h3 u)" for u
    using f3 vw unfolding h4_def by (simp add: two_frame_def)
  consider (fail) "r1 = Err ()" "h' = h1" | (clear) "r1 = Ok ()" "r2 = Err ()" "r6 = Ok ()" "h' = h6"
    | (undo) "r1 = Ok ()" "r3 = Err ()" "r5 = Ok ()" "h' = h5" | (complete) "r1 = Ok ()" "r3 = Ok ()" "h' = h3"
    using run np p1 p3 f2
    by (auto simp: share_pages_def m1 m2 m3 d h4_def [symmetric] restore_in_vm_def m5 m6 split: outcome.splits)
  then show ?thesis
  proof cases
    case fail
    then show ?thesis using p1 vw(3) by auto
  next
    case clear
    then show ?thesis using p1 p2 p6 f2 vw(3) orig by auto
  next
    case undo
    then show ?thesis using p1 p2 p3 p5 f2 f4 d4 v4 vw(3) orig by auto
  next
    case complete
    then show ?thesis using p1 p2 p3 f2 vw(3) by auto
  qed
qed

lemma share_memory_ok:
  assumes S: "hf_stage2 S" "reduce_law red" and ok: "hyp_ok S h" and c: "fst c < length (vms h)"
    and run: "share_memory S red i (ipa_init b) sz share c h = (r, h')" and np: "r \<noteq> Panic"
  shows "safe S (fst c) h h'"
proof (cases "h' = h")
  case False
  define e v where "e = b + sz" and "v = fst c"
  let ?h = "h\<lparr>henv := local_pool (henv h)\<rparr>"
  obtain fm tm where sm: "share_modes share = (fm, tm)" by fastforce
  obtain w where w: "VmManager_get i (vms h) = Ok (Some w)" and ne: "i \<noteq> vm_id (vm_at h v)"
    and al: "4096 dvd unat b" "4096 dvd unat e"
    using run False
    by (auto simp: share_memory_def Let_def is_aligned_page e_def v_def split: if_splits outcome.splits option.splits)
  have run: "(case share_check S share (ipa_init b) (ipa_init e) (ptable_of h v) (ptable_of h w) of
        Ok orig \<Rightarrow> end_local (share_pages S red v w (pa_init b) (pa_init e) orig fm tm ?h)
      | Err _ \<Rightarrow> end_local (Err (), ?h) | Panic \<Rightarrow> (Panic, ?h)) = (r, h')"
    using run w ne al by (simp add: share_memory_def Let_def is_aligned_page e_def v_def sm cong: outcome.case_cong)
  obtain h1 where h': "h' = h1\<lparr>henv := drop_local_pool (henv h1)\<rparr>"
    and h1: "h1 = ?h \<or> (\<exists>orig. share_check S share (ipa_init b) (ipa_init e) (ptable_of h v) (ptable_of h w) = Ok orig
        \<and> share_pages S red v w (pa_init b) (pa_init e) orig fm tm ?h = (r, h1))"
  proof (cases "share_check S share (ipa_init b) (ipa_init e) (ptable_of h v) (ptable_of h w)")
    case (Ok orig)
    obtain q h1 where sp: "share_pages S red v w (pa_init b) (pa_init e) orig fm tm ?h = (q, h1)" by fastforce
    then show thesis using Ok run np by (intro that [of h1]) (auto simp: end_local_def split: outcome.splits)
  next
    case (Err u)
    then show thesis using run by (intro that [of ?h]) (auto simp: end_local_def)
  qed (use run np in simp)
  note gd = get_distinct [OF ok w]
  have vw: "v < length (vms ?h)" "w < length (vms ?h)" "v \<noteq> w" using c gd ne by (auto simp: v_def)
  have wf: "wf_ptable S (ptable_of h v)" "wf_ptable S (ptable_of h w)" using ok vw by (simp_all add: hyp_ok_def)
  have f0: "two_frame S v w ?h ?h"
    using ok vw local_pool_ok by (simp add: two_frame_def hyp_ok_def)
  have "two_frame S v w h h1 \<and> (\<forall>x < space S. pair_step (perm S (ptable_of h v) x) (perm S (ptable_of h w) x)
       (perm S (ptable_of h1 v) x) (perm S (ptable_of h1 w) x))"
  proof (cases "h1 = ?h")
    case True
    then show ?thesis using f0 by (simp add: two_frame_def pair_step_def)
  next
    case False
    then obtain orig where chk: "share_check S share (ipa_init b) (ipa_init e) (ptable_of h v) (ptable_of h w) = Ok orig"
      and sp: "share_pages S red v w (pa_init b) (pa_init e) orig fm tm ?h = (r, h1)"
      using h1 by blast
    note c = share_check_good [OF S(1) wf al chk]
    note f = share_pages_spec [OF S vw f0 _ _ al _ sp np]
    have "compatible (mode_perm fm) (mode_perm tm)" using share_modes_compatible [of share] sm by simp
    then have "pair_step (perm S (ptable_of h v) x) (perm S (ptable_of h w) x)
       (perm S (ptable_of h1 v) x) (perm S (ptable_of h1 w) x)" if "x < space S" for x
      using f c that unfolding pair_step_def by auto
    then show ?thesis using f c by (simp add: two_frame_def)
  qed
  then show ?thesis
    using vw drop_local_pool_ok unfolding h' v_def [symmetric] by (intro two_frame_ok [OF ok]) (auto simp: two_frame_def)
qed (use ok safe_frame in simp)

lemma deliver_ok:
  assumes S: "hf_stage2 S" "reduce_law red" and ok: "hyp_ok S h"
    and vw: "fst c < length (vms h)" "w < length (vms h)" "fst c \<noteq> w"
    and run: "deliver S red w c from_msg replica h = (r, h')" and np: "r \<noteq> Panic"
  shows "safe S (fst c) h h'"
proof (cases "mem_frame h h'")
  case False
  define v where "v = fst c"
  define to_msg where "to_msg = recv (mailbox (vm_inner (vm_at h w)))"
  obtain cc b where cc: "cpu (vc_inner (vcpu_at h c)) = Some cc" "cpu_get_buffer (cpu_id (cpus h ! cc)) = Ok b"
    and len: "\<not> ucast (msg_length replica) > PAGE_SIZE" "\<not> ucast (msg_length replica) < size_of_SpciArchitectedMessageHeader"
    and arch: "flags replica AND IMPDEF \<noteq> IMPDEF"
    using run np False by (auto simp: deliver_def Let_def split: if_splits option.splits outcome.splits)
  define buf where "buf = copy_bytes (mem h) (from_msg + size_of_SpciMessage) b (unat (ucast (msg_length replica) :: usize)) (msg_buffers h)"
  obtain to_t from_t m e q where
    am: "spci_msg_handle_architected_message S red False buf b replica to_msg (ptable_of h w) (ptable_of h v) (mem h) (henv h)
       = (q, to_t, from_t, m, e)" by (metis prod.exhaust)
  have q: "q = r" and h': "h' = update_inner v (\<lambda>s. s\<lparr>vm_ptable := from_t\<rparr>) (update_inner w (\<lambda>s. s\<lparr>vm_ptable := to_t\<rparr>)
        (h\<lparr>msg_buffers := buf, mem := m, henv := e\<rparr>))"
    using run cc len arch am [unfolded ptable_of_def buf_def to_msg_def v_def]
    by (simp_all add: deliver_def Let_def v_def buf_def vm_at_def)
  obtain q' where hs: "handle_share S red False buf b (ucast (msg_length replica)) (ptable_of h w) (ptable_of h v) (henv h)
      = (q', to_t, from_t, e)" and q': "q' \<noteq> Panic"
    using am q np by (auto simp: spci_msg_handle_architected_message_def Let_def split: prod.splits outcome.splits if_splits)
  have f: "wf_ptable S to_t \<and> wf_ptable S from_t \<and> env_ok e \<and>
      (\<forall>x < space S. pair_step (perm S (ptable_of h v) x) (perm S (ptable_of h w) x) (perm S from_t x) (perm S to_t x))"
    using ok vw by (intro handle_share_spec [OF S _ _ _ hs q']) (simp_all add: hyp_ok_def v_def)
  have at: "vm_at (h\<lparr>msg_buffers := buf, mem := m\<rparr>) u = vm_at h u" for u by (simp add: vm_at_def)
  have pt: "ptable_of h' u = (if u = v then from_t else if u = w then to_t else ptable_of h u)" for u
    using vw unfolding h' ptable_of_def update_inner_def vm_at_update by (simp add: v_def at)
  have "two_frame S v w h h'"
    using f ok vw unfolding two_frame_def pt
    by (simp add: h' update_inner_def vm_at_update at hyp_ok_def)
  then show ?thesis
    unfolding v_def [symmetric] by (rule two_frame_ok [OF ok]) (use vw f in \<open>auto simp: pt v_def\<close>)
qed (use ok safe_frame in blast)

lemma finish_send_frame: "finish_send w c h = (r, h') \<Longrightarrow> mem_frame h h'"
  by (auto simp: finish_send_def Let_def split: if_splits prod.splits outcome.splits dest!: switch_frame)

lemma send_cases:
  assumes "spci_msg_send S red at c h = (r, h')" "r \<noteq> Panic"
  shows "h' = h \<or>
    (\<exists>w ls q i. VmManager_get i (vms h) = Ok (Some w) \<and> wait_for (fst c) w (vm_id (vm_at h w)) (links h) = (q, ls)
       \<and> q \<noteq> Panic \<and> h' = h\<lparr>links := ls\<rparr>) \<or>
    (\<exists>w from_msg replica q h1. VmManager_get (target_vm_id replica) (vms h) = Ok (Some w)
       \<and> target_vm_id replica \<noteq> vm_id (vm_at h (fst c)) \<and> VmInner_is_empty (vm_inner (vm_at h w))
       \<and> deliver S red w c from_msg replica h = (q, h1) \<and> q \<noteq> Panic
       \<and> (q = Ok Success \<and> finish_send w c h1 = (r, h') \<or> q \<noteq> Ok Success \<and> h' = h1))"
proof -
  define from_msg where "from_msg = send (mailbox (vm_inner (vm_at h (fst c))))"
  define replica where "replica = read_message (mem h) from_msg"
  note run = assms(1) [unfolded spci_msg_send_def Let_def, folded from_msg_def, folded replica_def]
  show ?thesis
  proof (cases "\<exists>w. VmManager_get (target_vm_id replica) (vms h) = Ok (Some w) \<and> VmInner_is_empty (vm_inner (vm_at h w))
      \<and> is_configured (vm_inner (vm_at h w)) \<and> target_vm_id replica \<noteq> vm_id (vm_at h (fst c))")
    case False
    show ?thesis
    proof (cases "h' = h")
      case nf: False
      then obtain w where w: "VmManager_get (target_vm_id replica) (vms h) = Ok (Some w)"
        using run by (auto split: if_splits outcome.splits option.splits)
      obtain q ls where wf: "wait_for (fst c) w (vm_id (vm_at h w)) (links h) = (q, ls)" by fastforce
      have "q \<noteq> Panic \<and> h' = h\<lparr>links := ls\<rparr>"
        using run assms(2) False nf w wf by (auto split: if_splits outcome.splits)
      then show ?thesis using w wf by blast
    qed simp
  next
    case True
    then obtain w where w: "VmManager_get (target_vm_id replica) (vms h) = Ok (Some w)" "VmInner_is_empty (vm_inner (vm_at h w))"
      "is_configured (vm_inner (vm_at h w))" "target_vm_id replica \<noteq> vm_id (vm_at h (fst c))" by blast
    obtain q h1 where d: "deliver S red w c from_msg replica h = (q, h1)" by fastforce
    have "h' = h \<or> q \<noteq> Panic \<and> (q = Ok Success \<and> finish_send w c h1 = (r, h') \<or> q \<noteq> Ok Success \<and> h' = h1)"
      using run assms(2) by (auto simp: w d split: if_splits outcome.splits SpciReturn.splits)
    then show ?thesis using w d by blast
  qed
qed

lemma send_ok:
  assumes S: "hf_stage2 S" "reduce_law red" and ok: "hyp_ok S h" and c: "fst c < length (vms h)"
    and run: "spci_msg_send S red at c h = (r, h')" and np: "r \<noteq> Panic"
  shows "safe S (fst c) h h'"
proof (cases "mem_frame h h'")
  case False
  then obtain w from_msg replica q h1 where w: "VmManager_get (target_vm_id replica) (vms h) = Ok (Some w)"
    and ne: "target_vm_id replica \<noteq> vm_id (vm_at h (fst c))"
    and d: "deliver S red w c from_msg replica h = (q, h1)" "q \<noteq> Panic" and fr: "mem_frame h1 h'"
    using send_cases [OF run np] by (auto dest: finish_send_frame)
  note gd = get_distinct [OF ok w]
  have "safe S (fst c) h h1" by (rule deliver_ok [OF S ok c gd(1) _ d]) (use gd ne in auto)
  then show ?thesis by (rule safe_then_frame) (rule fr)
qed (use ok safe_frame in blast)

end
