(* ===== verification/Calls.thy ===== *)
theory Calls
  imports Isolation
begin

text \<open>
  Sequences of calls into the hypervisor, and what holds in every state they reach: isolation of
  the memory of the VMs, the states of the mailboxes, and the locks of the vCPUs.

  \<open>hyp_call S red c h h'\<close> is a call made by the vCPU \<open>c\<close> that does not panic, or what \<open>c\<close> does by
  itself between two calls: it changes the memory it can reach, its registers and its timer.
\<close>

section \<open>Steps\<close>

inductive hyp_call :: "stage \<Rightarrow> reducer \<Rightarrow> vref \<Rightarrow> hypervisor \<Rightarrow> hypervisor \<Rightarrow> bool" for S red c where
  guest: "fst c < length (vms h) \<Longrightarrow>
    hyp_call S red c h (update_vcpu_inner c (\<lambda>i. i\<lparr>regs := rs\<rparr>) (h\<lparr>mem := m, machine := M\<rparr>))"
| preempt: "fst c < length (vms h) \<Longrightarrow> preempt c h = (r, h') \<Longrightarrow> r \<noteq> Panic \<Longrightarrow> hyp_call S red c h h'"
| wait_for_interrupt: "fst c < length (vms h) \<Longrightarrow> wait_for_interrupt c h = (r, h') \<Longrightarrow> r \<noteq> Panic \<Longrightarrow> hyp_call S red c h h'"
| vcpu_off: "fst c < length (vms h) \<Longrightarrow> vcpu_off c h = (r, h') \<Longrightarrow> r \<noteq> Panic \<Longrightarrow> hyp_call S red c h h'"
| yield: "fst c < length (vms h) \<Longrightarrow> spci_yield c h = (r', h') \<Longrightarrow> r' \<noteq> Panic \<Longrightarrow> hyp_call S red c h h'"
| abort: "fst c < length (vms h) \<Longrightarrow> abort c h = Some (r, h') \<Longrightarrow> r \<noteq> Panic \<Longrightarrow> hyp_call S red c h h'"
| run: "fst c < length (vms h) \<Longrightarrow> vcpu_run i idx c h = (rr, h') \<Longrightarrow> rr \<noteq> Panic \<Longrightarrow> hyp_call S red c h h'"
| saved: "fst c < length (vms h) \<Longrightarrow> hyp_call S red c h (api_regs_state_saved c h)"
| cpu_on: "fst c < length (vms h) \<Longrightarrow> cpu_on k entry arg h = Some (b, h') \<Longrightarrow> b \<noteq> Panic \<Longrightarrow> hyp_call S red c h h'"
| reset: "fst c < length (vms h) \<Longrightarrow> vcpu_secondary_reset_and_start t entry arg h = Some (b, h') \<Longrightarrow> b \<noteq> Panic
    \<Longrightarrow> hyp_call S red c h h'"
| configure: "fst c < length (vms h) \<Longrightarrow> vm_configure S red sd rc c h = (ir, h') \<Longrightarrow> ir \<noteq> Panic \<Longrightarrow> hyp_call S red c h h'"
| send: "fst c < length (vms h) \<Longrightarrow> spci_msg_send S red at c h = (sr, h') \<Longrightarrow> sr \<noteq> Panic \<Longrightarrow> hyp_call S red c h h'"
| recv: "fst c < length (vms h) \<Longrightarrow> spci_msg_recv at c h = (sr, h') \<Longrightarrow> sr \<noteq> Panic \<Longrightarrow> hyp_call S red c h h'"
| writable: "fst c < length (vms h) \<Longrightarrow> mailbox_writable_get c h = (io, h') \<Longrightarrow> hyp_call S red c h h'"
| waiter: "fst c < length (vms h) \<Longrightarrow> mailbox_waiter_get i c h = (wr, h') \<Longrightarrow> wr \<noteq> Panic \<Longrightarrow> hyp_call S red c h h'"
| clear: "fst c < length (vms h) \<Longrightarrow> mailbox_clear c h = (ir, h') \<Longrightarrow> ir \<noteq> Panic \<Longrightarrow> hyp_call S red c h h'"
| int_enable: "fst c < length (vms h) \<Longrightarrow> interrupt_enable intid on c h = (ur, h') \<Longrightarrow> ur \<noteq> Panic \<Longrightarrow> hyp_call S red c h h'"
| int_get: "fst c < length (vms h) \<Longrightarrow> interrupt_get c h = (intid, h') \<Longrightarrow> hyp_call S red c h h'"
| int_inject: "fst c < length (vms h) \<Longrightarrow> interrupt_inject i idx intid c h = (ir, h') \<Longrightarrow> ir \<noteq> Panic \<Longrightarrow> hyp_call S red c h h'"
| share: "fst c < length (vms h) \<Longrightarrow> share_memory S red i addr sz sh c h = (ur, h') \<Longrightarrow> ur \<noteq> Panic \<Longrightarrow> hyp_call S red c h h'"
| debug_log: "fst c < length (vms h) \<Longrightarrow> debug_log ch c h = (ur, h') \<Longrightarrow> ur \<noteq> Panic \<Longrightarrow> hyp_call S red c h h'"

inductive_cases hyp_callE: "hyp_call S red c h h'"

definition hyp_step :: "stage \<Rightarrow> reducer \<Rightarrow> hypervisor \<Rightarrow> hypervisor \<Rightarrow> bool" where
  "hyp_step S red h h' \<longleftrightarrow> (\<exists>c. hyp_call S red c h h')"

section \<open>Isolation\<close>

lemma debug_log_frame: "debug_log ch c h = (r, h') \<Longrightarrow> mem_frame h h'"
  by (auto simp: debug_log_def VmInner_debug_log_def Let_def update_inner_def mem_frame_def ptable_of_def vm_at_update
      split: if_splits prod.splits)

lemma cpu_on_frame: "cpu_on k entry arg h = Some (r, h') \<Longrightarrow> mem_frame h h'"
  by (auto simp: cpu_on_def Let_def split: if_splits option.splits)

lemma reset_frame: "vcpu_secondary_reset_and_start t entry arg h = Some (r, h') \<Longrightarrow> mem_frame h h'"
  by (auto simp: vcpu_secondary_reset_and_start_def Let_def split: if_splits option.splits outcome.splits)

lemma interrupt_inject_frame: "interrupt_inject i idx intid c h = (r, h') \<Longrightarrow> mem_frame h h'"
  by (auto simp: interrupt_inject_def split: outcome.splits option.splits if_splits dest: inject_frame)

lemma simple_frames:
  "preempt c h = (r, h') \<Longrightarrow> mem_frame h h'" "wait_for_interrupt c h = (r, h') \<Longrightarrow> mem_frame h h'"
  "vcpu_off c h = (r, h') \<Longrightarrow> mem_frame h h'" "spci_yield c h = (r', h') \<Longrightarrow> mem_frame h h'"
  "abort c h = Some (r, h') \<Longrightarrow> mem_frame h h'" "mem_frame h (api_regs_state_saved c h)"
  "mailbox_writable_get c h = (io, h') \<Longrightarrow> mem_frame h h'" "interrupt_enable intid on c h = (ur, h') \<Longrightarrow> mem_frame h h'"
  "interrupt_get c h = (intid, h') \<Longrightarrow> mem_frame h h'"
  by (auto simp: preempt_def wait_for_interrupt_def vcpu_off_def spci_yield_def abort_def api_regs_state_saved_def
      mailbox_writable_get_def interrupt_enable_def interrupt_get_def Let_def
      split: if_splits prod.splits outcome.splits dest!: switch_frame)

lemmas call_frames = simple_frames debug_log_frame cpu_on_frame reset_frame interrupt_inject_frame
  run_frame recv_frame waiter_get_frame clear_frame

lemma hyp_call_safe:
  assumes "hf_stage2 S" "reduce_law red" "hyp_ok S h" "hyp_call S red c h h'"
  shows "safe S (fst c) h h'"
  using assms(4)
proof cases
  case (configure sd rc ir)
  then show ?thesis using vm_configure_ok [OF assms(1-3)] by blast
next
  case (send at sr)
  then show ?thesis using send_ok [OF assms(1-3)] by blast
next
  case (share i addr sz sh ur)
  then show ?thesis using share_memory_ok [OF assms(1-3), of c i "ipa_addr addr"] by (simp add: ipa_init_addr)
qed (use assms(3) safe_frame call_frames in \<open>auto intro: safe_frame\<close>)

lemma hyp_steps_ok:
  assumes "(hyp_step S red)\<^sup>*\<^sup>* h h'" "hf_stage2 S" "reduce_law red" "hyp_ok S h"
  shows "hyp_ok S h' \<and> length (vms h') = length (vms h)"
  using assms(1)
proof induction
  case (step h1 h2)
  then obtain c where "hyp_call S red c h1 h2" by (auto simp: hyp_step_def)
  then have "safe S (fst c) h1 h2" using hyp_call_safe [OF assms(2,3)] step.IH by blast
  then show ?case using step.IH by (simp add: safe_def)
qed (use assms(4) in simp)

text \<open>A state with two VMs, of which the first owns the first gigabyte of memory.\<close>

definition demo_owned :: ptable where
  "demo_owned = fst (snd (identity_map demo_stage (pa_init 0) (pa_init 0x40000000) (MODE_R OR MODE_W OR MODE_X) demo_table demo_env))"

definition demo_hyp_ptable :: ptable where
  "demo_hyp_ptable = \<lparr>root = pa_init 0x4000, tables = [replicate 512 (pte_absent aarch64_stage1 2)]\<rparr>"

definition demo_vm :: "spci_vm_id_t \<Rightarrow> ptable \<Rightarrow> vm" where
  "demo_vm i t =
     \<lparr>vm_id = i, vcpus = [VCpu_new],
      vm_inner = \<lparr>log_buffer = [], vm_ptable = t, mailbox = \<lparr>mb_state = Empty, recv = 0, send = 0\<rparr>\<rparr>,
      aborting = False\<rparr>"

definition demo_hypervisor :: hypervisor where
  "demo_hypervisor =
     \<lparr>henv = demo_env, hyp_ptable = demo_hyp_ptable, cpus = [Cpu_new 0 0x2000 True],
      vms = [demo_vm 1 demo_owned, demo_vm 2 demo_table],
      links = (\<lambda>e. \<lparr>next = e, prev = e\<rparr>), mem = (\<lambda>_. 0), msg_buffers = (\<lambda>_. 0),
      machine = \<lparr>cntvct = 0, cntfrq = 1, cntv_ctl = 0, cntv_cval = 0, MDCR_EL2 = 0, PMCR_EL0 = 0\<rparr>\<rparr>"

lemma demo_hf_stage2: "hf_stage2 demo_stage"
  using demo_stage_hf by (auto simp: hf_stage_def hf_stage2_def demo_stage_def aarch64_stage2_def aarch64_stage1_def)

lemma demo_hyp_ptable_wf: "wf_ptable aarch64_stage1 demo_hyp_ptable"
  using mm_stage.absent_entries(1) [OF hf_stage_mm [OF hf_stage1_hf], of 2]
  by (simp add: wf_ptable_def demo_hyp_ptable_def chunk_ok_def aarch64_stage1_def)

lemma demo_owned_perm:
  "wf_ptable demo_stage demo_owned" "x < 0x40000000 \<Longrightarrow> perm demo_stage demo_owned x = (True, True, True)"
proof -
  let ?m = "MODE_R OR MODE_W OR MODE_X"
  obtain t env' where run: "identity_map demo_stage (pa_init 0) (pa_init 0x40000000) ?m demo_table demo_env = (Ok (), t, env')"
    using demo_map_ok by blast
  have "wf_ptable demo_stage t \<and> (\<forall>x < space demo_stage. perm demo_stage t x = (if x < 0x40000000 then mode_perm ?m else perm demo_stage demo_table x))"
    using map_perm [OF demo_hf_stage2 demo_wf demo_env_ok _ _ _ _ run] by (simp add: demo_space)
  moreover have "mode_perm ?m = (True, True, True)" by (simp add: mode_perm_def mode_defs)
  ultimately show "wf_ptable demo_stage demo_owned" "x < 0x40000000 \<Longrightarrow> perm demo_stage demo_owned x = (True, True, True)"
    by (simp_all add: demo_owned_def run demo_space)
qed

lemma demo_table_lookup:
  "x < space demo_stage \<Longrightarrow> lookup_ptable demo_stage demo_table x = attrs demo_stage (pte_absent demo_stage 2) 2"
proof -
  assume "x < space demo_stage"
  then have "x div esize 3 < 2" by (simp add: demo_space esize_def less_mult_imp_div_less)
  then have "lookup_ptable demo_stage demo_table x = lookup demo_stage 2 (pte_absent demo_stage 2) x"
    by (simp add: lookup_ptable_def demo_table_def lookup_table_def)
  then show ?thesis using demo_absent(2) by (simp add: mm_stage.lookup_not_table [OF hf_stage_mm [OF demo_stage_hf]])
qed

lemma demo_table_perm: "x < space demo_stage \<Longrightarrow> perm demo_stage demo_table x = (False, False, False)"
proof -
  have "\<not> attrs_present demo_stage (lookup demo_stage 2 (pte_absent demo_stage 2) 0)"
    using mm_stage.absent_entries(3) [OF hf_stage_mm [OF demo_stage_hf], of 2 0] by (simp add: lookup_table_def)
  then show "x < space demo_stage \<Longrightarrow> ?thesis"
    using demo_table_lookup [of x] demo_absent(2)
    by (simp add: perm_def attr_perm_def attrs_present_def present_bits mm_stage.lookup_not_table [OF hf_stage_mm [OF demo_stage_hf]])
qed

lemma demo_get_mode:
  "\<exists>m. get_mode demo_stage (ipa_init 0x1000) (ipa_init 0x2000) demo_table = Ok m \<and> mode_contains m MODE_INVALID"
proof -
  let ?a = "attrs demo_stage (pte_absent demo_stage 2) 2"
  have "get_attrs demo_stage 0x1000 0x2000 demo_table = Ok ?a"
    using mm_stage.get_attrs_spec(2) [OF hf_stage_mm [OF demo_stage_hf] demo_wf, of "0x1000" "0x2000" ?a] demo_table_lookup
    by (simp add: demo_space)
  then obtain m where m: "get_mode demo_stage (ipa_init 0x1000) (ipa_init 0x2000) demo_table = Ok m"
    by (simp add: get_mode_def stage2_fields [OF demo_hf_stage2])
  have "perm demo_stage demo_table 0x1000 = mode_perm m"
    by (rule get_mode_perm [OF demo_hf_stage2 demo_wf m]) simp_all
  then show ?thesis
    using m demo_table_perm [of "0x1000"] by (simp add: state_bits mode_perm_def demo_space)
qed

lemma demo_vms:
  "length (vms demo_hypervisor) = 2" "v < 2 \<Longrightarrow> v = 0 \<or> v = Suc 0"
  "ptable_of demo_hypervisor 0 = demo_owned" "ptable_of demo_hypervisor (Suc 0) = demo_table"
  "vm_id (vm_at demo_hypervisor 0) = 1" "vm_id (vm_at demo_hypervisor (Suc 0)) = 2"
  by (auto simp: ptable_of_def vm_at_def demo_hypervisor_def demo_vm_def)

lemma demo_hyp_ok: "hyp_ok demo_stage demo_hypervisor"
proof -
  have none: "compatible p (False, False, False)" "compatible (False, False, False) p" for p
    by (simp_all add: compatible_def owns_def has_access_def exclusive_def)
  have "compatible (perm demo_stage (ptable_of demo_hypervisor v) x) (perm demo_stage (ptable_of demo_hypervisor w) x)"
    if "x < space demo_stage" "v < 2" "w < 2" "v \<noteq> w" for x v w
    using demo_vms(2) [OF that(2)] demo_vms(2) [OF that(3)] that(1,4)
    by (auto simp: demo_vms demo_table_perm none)
  then have "isolated demo_stage demo_hypervisor"
    by (simp add: isolated_def isolated_at_def demo_vms)
  moreover have "wf_ptable demo_stage (ptable_of demo_hypervisor v) \<and> vm_id (vm_at demo_hypervisor v) = word_of_nat (v + 1)"
    if "v < 2" for v
    using demo_vms(2) [OF that] demo_owned_perm(1) demo_wf by (auto simp: demo_vms)
  ultimately show ?thesis
    using demo_env_ok demo_hyp_ptable_wf by (simp add: hyp_ok_def demo_vms MAX_VMS_def) (simp add: demo_hypervisor_def)
qed

text \<open>
  C1. Isolation of the memory of the VMs. From a state in which the invariant holds, whatever calls
  the vCPUs make and in whatever order, and whatever the guests do in between: no two VMs own the
  same address, a VM with exclusive access to an address is the only one with access, and when two
  VMs have access one of them is the owner. (\<open>reduce_law\<close> is the documented behaviour of the crate
  \<open>reduce\<close>.)
\<close>

theorem vm_isolation:
  assumes "hf_stage2 S" "reduce_law red" "hyp_ok S h" "(hyp_step S red)\<^sup>*\<^sup>* h h'"
    and "v < length (vms h)" "w < length (vms h)" "v \<noteq> w" "x < space S"
  shows "\<not> (owns (perm S (ptable_of h' v) x) \<and> owns (perm S (ptable_of h' w) x))
    \<and> \<not> (exclusive (perm S (ptable_of h' v) x) \<and> has_access (perm S (ptable_of h' w) x))
    \<and> (has_access (perm S (ptable_of h' v) x) \<and> has_access (perm S (ptable_of h' w) x)
         \<longrightarrow> owns (perm S (ptable_of h' v) x) \<or> owns (perm S (ptable_of h' w) x))"
proof -
  have "hyp_ok S h' \<and> length (vms h') = length (vms h)"
    using hyp_steps_ok [OF assms(4,1,2,3)] .
  then have "compatible (perm S (ptable_of h' v) x) (perm S (ptable_of h' w) x)"
    using assms(5-8) by (simp add: hyp_ok_def isolated_def isolated_at_def)
  then show ?thesis by (simp add: compatible_def)
qed

lemma demo_step: "hyp_step demo_stage demo_reduce demo_hypervisor (demo_hypervisor\<lparr>mem := m\<rparr>)" for m
proof -
  let ?c = "(0, 0)" and ?M = "machine demo_hypervisor" and ?rs = "regs (vc_inner (vcpu_at demo_hypervisor (0, 0)))"
  have "hyp_call demo_stage demo_reduce ?c demo_hypervisor
      (update_vcpu_inner ?c (\<lambda>i. i\<lparr>regs := ?rs\<rparr>) (demo_hypervisor\<lparr>mem := m, machine := ?M\<rparr>))"
    by (rule guest) (simp add: demo_vms)
  moreover have "update_vcpu_inner ?c (\<lambda>i. i\<lparr>regs := ?rs\<rparr>) (demo_hypervisor\<lparr>mem := m, machine := ?M\<rparr>) = demo_hypervisor\<lparr>mem := m\<rparr>"
    by (simp add: demo_hypervisor_def demo_vm_def update_vcpu_inner_def update_vcpu_def update_vm_def vcpu_at_def vm_at_def)
  ultimately show ?thesis unfolding hyp_step_def by metis
qed

theorem vm_isolation_witness:
  "hyp_step demo_stage demo_reduce demo_hypervisor (demo_hypervisor\<lparr>mem := (\<lambda>_. 7)\<rparr>)
   \<and> owns (perm demo_stage (ptable_of (demo_hypervisor\<lparr>mem := (\<lambda>_. 7)\<rparr>) 0) 0x1000)
   \<and> \<not> has_access (perm demo_stage (ptable_of (demo_hypervisor\<lparr>mem := (\<lambda>_. 7)\<rparr>) 1) 0x1000)"
proof -
  let ?h = "demo_hypervisor\<lparr>mem := (\<lambda>_. 7)\<rparr>"
  have "ptable_of ?h v = ptable_of demo_hypervisor v" for v by (simp add: ptable_of_def vm_at_def)
  then have p: "perm demo_stage (ptable_of ?h 0) 0x1000 = (True, True, True)"
    by (simp add: demo_vms demo_owned_perm)
  have "(hyp_step demo_stage demo_reduce)\<^sup>*\<^sup>* demo_hypervisor ?h"
    by (rule r_into_rtranclp) (rule demo_step)
  from vm_isolation [OF demo_hf_stage2 demo_reduce_law demo_hyp_ok this, of 0 1 "0x1000"] p
  show ?thesis by (simp add: demo_vms demo_space demo_step owns_def exclusive_def)
qed

text \<open>
  C4. Integrity. What a VM owns exclusively is not taken from it by a call of another VM: whether the
  VM has access to it, owns it and is alone with it stays the same.
\<close>

theorem exclusive_memory_kept:
  assumes "hf_stage2 S" "reduce_law red" "hyp_ok S h" "hyp_call S red c h h'"
    and "v < length (vms h)" "v \<noteq> fst c" "x < space S"
    and "owns (perm S (ptable_of h v) x)" "exclusive (perm S (ptable_of h v) x)"
  shows "perm S (ptable_of h' v) x = perm S (ptable_of h v) x"
  using hyp_call_safe [OF assms(1-4)] assms(5-) by (simp add: safe_def)

theorem exclusive_memory_kept_witness:
  "\<exists>h'. hyp_call demo_stage demo_reduce (1, 0) demo_hypervisor h'
     \<and> perm demo_stage (ptable_of h' 0) 0x1000 = (True, True, True)"
proof -
  obtain m where m: "get_mode demo_stage (ipa_init 0x1000) (ipa_init 0x2000) demo_table = Ok m" "mode_contains m MODE_INVALID"
    using demo_get_mode by blast
  have get: "VmManager_get 1 (vms demo_hypervisor) = Ok (Some 0)"
    by (simp add: VmManager_get_def get_vm_index_def HF_VM_ID_OFFSET_def demo_vms)
  have "\<exists>h'. share_memory demo_stage demo_reduce 1 (ipa_init 0x1000) 0x1000 Give (1, 0) demo_hypervisor = (Err (), h')"
    using m by (simp add: share_memory_def demo_vms get Let_def share_check_def end_local_def is_aligned_page)
  then obtain h' where run: "share_memory demo_stage demo_reduce 1 (ipa_init 0x1000) 0x1000 Give (1, 0) demo_hypervisor = (Err (), h')" ..
  have call: "hyp_call demo_stage demo_reduce (1, 0) demo_hypervisor h'"
    by (rule share [OF _ run]) (simp_all add: demo_vms)
  from exclusive_memory_kept [OF demo_hf_stage2 demo_reduce_law demo_hyp_ok call, of 0 "0x1000"] call show ?thesis
    by (auto simp: demo_vms demo_space demo_owned_perm owns_def exclusive_def)
qed

end
