(* ===== verification/Mailboxes.thy ===== *)
theory Mailboxes
  imports Calls
begin

text \<open>
  The mailboxes of the VMs under sequences of calls: the states a mailbox goes through, and the
  lists of waiters.
\<close>

section \<open>Mailbox states\<close>

definition mb_of :: "hypervisor \<Rightarrow> nat \<Rightarrow> mailbox" where
  "mb_of h v = mailbox (vm_inner (vm_at h v))"

text \<open>
  The edges of the state machine of the mailbox of VM \<open>w\<close>, for a call of VM \<open>v\<close> with ID \<open>i\<close>.
\<close>

inductive mb_edge :: "spci_vm_id_t \<Rightarrow> nat \<Rightarrow> nat \<Rightarrow> MailboxState \<Rightarrow> MailboxState \<Rightarrow> bool" where
  deliver: "v \<noteq> w \<Longrightarrow> mb_edge i v w Empty Received"
| deliver_primary: "v \<noteq> w \<Longrightarrow> w = get_primary \<Longrightarrow> mb_edge i v w Empty Read"
| read: "v = w \<or> i = HF_PRIMARY_VM_ID \<Longrightarrow> mb_edge i v w Received Read"
| clear: "v = w \<Longrightarrow> mb_edge i v w Read Empty"

lemma mb_of_updates [simp]:
  "mb_of (update_vcpu c g h) w = mb_of h w" "mb_of (update_vcpu_inner c g' h) w = mb_of h w"
  "mb_of (unlock c h) w = mb_of h w" "mb_of (update_vm v (aborting_update g4) h) w = mb_of h w"
  "mb_of (h\<lparr>links := ls\<rparr>) w = mb_of h w" "mb_of (h\<lparr>cpus := cs\<rparr>) w = mb_of h w" "mb_of (h\<lparr>machine := M\<rparr>) w = mb_of h w"
  "mb_of (h\<lparr>mem := m\<rparr>) w = mb_of h w" "mb_of (h\<lparr>msg_buffers := mb\<rparr>) w = mb_of h w" "mb_of (h\<lparr>henv := e\<rparr>) w = mb_of h w"
  "mb_of (h\<lparr>hyp_ptable := t\<rparr>) w = mb_of h w" "mb_of (set_ptable v t h) w = mb_of h w"
  "mb_of (update_inner v (vm_ptable_update g5) h) w = mb_of h w"
  "mb_of (update_inner v (log_buffer_update g6) h) w = mb_of h w"
  unfolding unlock_def update_vcpu_inner_def update_vcpu_def set_ptable_def update_inner_def mb_of_def
  by (simp_all add: vm_at_update) (simp_all add: vm_at_def)

lemma mb_of_update_mailbox: "v < length (vms h) \<Longrightarrow> mb_of (update_mailbox v f h) w = (if w = v then f (mb_of h v) else mb_of h w)"
  unfolding update_mailbox_def update_inner_def mb_of_def by (simp add: vm_at_update)

lemma switch_mb [simp]: "mb_of (snd (switch_to_primary c ret st h)) w = mb_of h w"
  by (simp add: switch_to_primary_def Let_def split: option.split)

lemma inject_mb [simp]: "mb_of (snd (internal_interrupt_inject t i c h)) w = mb_of h w"
  by (simp add: internal_interrupt_inject_def wake_up_def Let_def case_prod_beta split: outcome.split)

lemma prepare_mb:
  assumes "fst t < length (vms h)"
  shows "mb_of (snd (vcpu_prepare_run c t ret h)) w = mb_of h w \<or>
   w = fst t \<and> mb_state (mb_of h w) = Received \<and> mb_of (snd (vcpu_prepare_run c t ret h)) w = (mb_of h w)\<lparr>mb_state := Read\<rparr>"
proof -
  have l: "length (vms (update_vcpu t g h)) = length (vms h)" "mailbox (vm_inner (vm_at (update_vcpu t g h) v)) = mb_of h v" for g v
    by (simp add: update_vcpu_def) (metis mb_of_def mb_of_updates(1))
  show ?thesis
    using assms by (auto simp: vcpu_prepare_run_def Let_def case_prod_beta mb_of_update_mailbox l try_read_def)
qed

lemma waiter_mb [simp]: "mb_of (snd (waiter_result v c h)) w = mb_of h w"
  by (simp add: waiter_result_def case_prod_beta split: outcome.split)

lemma map_in_vm_mb [simp]: "mb_of (snd (map_in_vm S v b e m h)) w = mb_of h w"
  by (simp add: map_in_vm_def case_prod_beta)

lemma restore_in_vm_mb [simp]: "mb_of (snd (restore_in_vm S v b e m h)) w = mb_of h w"
  by (simp add: restore_in_vm_def case_prod_beta split: outcome.split)

lemma clear_memory_mb [simp]: "mb_of (snd (clear_memory red b e h)) w = mb_of h w"
  by (simp add: clear_memory_def Let_def case_prod_beta split: outcome.split)

lemma share_pages_mb [simp]: "mb_of (snd (share_pages S red v u b e orig fm tm h)) w = mb_of h w"
  by (simp add: share_pages_def Let_def case_prod_beta split: outcome.split)

lemma share_mb [simp]: "mb_of (snd (share_memory S red i a sz sh c h)) w = mb_of h w"
  by (simp add: share_memory_def end_local_def Let_def case_prod_beta split: outcome.split option.split)

lemma deliver_mb [simp]: "mb_of (snd (deliver S red u c fm replica h)) w = mb_of h w"
  by (simp add: deliver_def Let_def case_prod_beta split: outcome.split option.split)

lemma run_mb:
  assumes "vcpu_run i idx c h = (r, h')"
  shows "mb_of h' w = mb_of h w \<or>
    current_id h c = HF_PRIMARY_VM_ID \<and> mb_state (mb_of h w) = Received \<and> mb_of h' w = (mb_of h w)\<lparr>mb_state := Read\<rparr>"
proof (cases "current_id h c = HF_PRIMARY_VM_ID \<and> (\<exists>v. VmManager_get i (vms h) = Ok (Some v))")
  case True
  then obtain v where c: "current_id h c = HF_PRIMARY_VM_ID" and v: "VmManager_get i (vms h) = Ok (Some v)" by blast
  have "v < length (vms h)" using v by (auto simp: VmManager_get_def split: outcome.splits if_splits)
  moreover have "mb_of h' w = mb_of h w \<or> mb_of h' w = mb_of (snd (vcpu_prepare_run c (v, unat idx) (WaitForInterrupt HF_SLEEP_INDEFINITE) h)) w"
    using assms by (auto simp: vcpu_run_def c v Let_def case_prod_beta split: if_splits outcome.splits)
  ultimately show ?thesis using c prepare_mb [of "(v, unat idx)" h c] by fastforce
next
  case False
  then have "h' = h" using assms by (auto simp: vcpu_run_def Let_def split: if_splits outcome.splits option.splits)
  then show ?thesis by simp
qed

lemma stage1_mb [simp]: "mb_state (fst (snd (configure_stage1 red a b c d mb hyp env))) = mb_state mb"
  by (simp add: configure_stage1_def Let_def case_prod_beta split: outcome.split)

lemma pages_mb [simp]: "mb_state (mailbox (fst (snd (configure_pages S red a b m c d m' s hyp env)))) = mb_state (mailbox s)"
  by (simp add: configure_pages_def Let_def case_prod_beta split: outcome.split)

lemma configure_mb:
  "mb_state (mailbox (fst (snd (configure S red sd rc s hyp env)))) = mb_state (mailbox s)"
  "is_configured s \<Longrightarrow> fst (snd (configure S red sd rc s hyp env)) = s"
  by (simp_all add: configure_def Let_def split: outcome.split)

definition same_pages :: "mailbox \<Rightarrow> mailbox \<Rightarrow> bool" where
  "same_pages mb mb' \<longleftrightarrow> (send mb \<noteq> 0 \<and> recv mb \<noteq> 0 \<longrightarrow> send mb' = send mb \<and> recv mb' = recv mb)"

lemma vm_configure_mb:
  assumes "vm_configure S red sd rc c h = (r, h')"
  shows "mb_state (mb_of h' w) = mb_state (mb_of h w) \<and> same_pages (mb_of h w) (mb_of h' w)"
proof -
  let ?v = "fst c"
  define s where "s = fst (snd (configure S red sd rc (vm_inner (vm_at h ?v)) (hyp_ptable h) (henv h)))"
  have "mb_of h' w = mb_of (update_inner ?v (\<lambda>_. s) h) w"
  proof -
    have "mb_of (update_inner ?v (\<lambda>_. s) (h\<lparr>hyp_ptable := t, henv := e\<rparr>)) w = mb_of (update_inner ?v (\<lambda>_. s) h) w" for t e
      unfolding update_inner_def mb_of_def vm_at_update by (simp add: vm_at_def)
    then have "mb_of (snd (vm_configure S red sd rc c h)) w = mb_of (update_inner ?v (\<lambda>_. s) h) w"
      by (simp add: vm_configure_def Let_def case_prod_beta s_def [symmetric] split: outcome.split)
    then show ?thesis using assms by simp
  qed
  then have "mb_of h' w = (if w = ?v \<and> w < length (vms h) then mailbox s else mb_of h w)"
    unfolding update_inner_def mb_of_def vm_at_update by simp
  moreover have "mb_state (mailbox s) = mb_state (mb_of h ?v)" "is_configured (vm_inner (vm_at h ?v)) \<Longrightarrow> mailbox s = mb_of h ?v"
    unfolding s_def mb_of_def using configure_mb by simp_all
  ultimately show ?thesis by (auto simp: same_pages_def is_configured_def mb_of_def)
qed

lemma finish_send_mb:
  assumes "w < length (vms h)"
  shows "mb_of (snd (finish_send w c h)) u = (if u = w
     then (mb_of h w)\<lparr>mb_state := (if vm_id (vm_at h w) = HF_PRIMARY_VM_ID then Read else Received)\<rparr> else mb_of h u)"
  using assms by (simp add: finish_send_def Let_def case_prod_beta mb_of_update_mailbox set_read_def set_received_def split: outcome.split)

lemma update_inner_ids [simp]:
  "length (vms (update_inner v f h)) = length (vms h)" "vm_id (vm_at (update_inner v f h) u) = vm_id (vm_at h u)"
  by (simp_all add: update_inner_def vm_at_update)

lemma deliver_ids [simp]:
  "length (vms (snd (deliver S red u c fm replica h))) = length (vms h)"
  "vm_id (vm_at (snd (deliver S red u c fm replica h)) w) = vm_id (vm_at h w)"
  by (simp_all add: deliver_def Let_def case_prod_beta split: outcome.split option.split) (simp_all add: vm_at_def)

lemma primary_id:
  assumes "hyp_ok S h" "u < length (vms h)"
  shows "vm_id (vm_at h u) = HF_PRIMARY_VM_ID \<longleftrightarrow> u = get_primary"
proof -
  have "u < 16" and i: "vm_id (vm_at h u) = word_of_nat (u + 1)"
    using assms by (auto simp: hyp_ok_def MAX_VMS_def)
  then have "unat (word_of_nat (u + 1) :: 16 word) = u + 1"
    by (simp only: unat_of_nat) simp
  then have "(word_of_nat (u + 1) :: 16 word) = 1 \<longleftrightarrow> u = 0"
    by (auto simp: word_unat_eq_iff)
  then show ?thesis unfolding i by (simp add: HF_PRIMARY_VM_ID_def HF_VM_ID_OFFSET_def get_primary_def)
qed

lemma send_mb:
  assumes "hyp_ok S h" "spci_msg_send S red at c h = (r, h')" "r \<noteq> Panic"
  shows "mb_of h' w = mb_of h w \<or> fst c \<noteq> w \<and> mb_state (mb_of h w) = Empty \<and>
    mb_of h' w = (mb_of h w)\<lparr>mb_state := (if w = get_primary then Read else Received)\<rparr>"
  using send_cases [OF assms(2,3)]
proof (elim disjE exE conjE)
  fix u from_msg replica q h1
  assume u: "VmManager_get (target_vm_id replica) (vms h) = Ok (Some u)" and ne: "target_vm_id replica \<noteq> vm_id (vm_at h (fst c))"
    and emp: "VmInner_is_empty (vm_inner (vm_at h u))" and d: "deliver S red u c from_msg replica h = (q, h1)"
    and fin: "finish_send u c h1 = (r, h')"
  note g = get_distinct [OF assms(1) u]
  have d': "mb_of h1 x = mb_of h x" for x using deliver_mb [of S red u c from_msg replica h x] d by simp
  have l: "length (vms h1) = length (vms h)" "vm_id (vm_at h1 u) = vm_id (vm_at h u)"
    using deliver_ids [of S red u c from_msg replica h] d by simp_all
  have p: "vm_id (vm_at h1 u) = HF_PRIMARY_VM_ID \<longleftrightarrow> u = get_primary"
    using primary_id [OF assms(1) g(1)] l by simp
  show ?thesis
    using finish_send_mb [of u h1 c w] g l p ne emp fin by (auto simp: d' VmInner_is_empty_def mb_of_def [of h u, symmetric] split: if_splits)
next
  fix u from_msg replica q h1
  assume "deliver S red u c from_msg replica h = (q, h1)" "h' = h1"
  then show ?thesis using deliver_mb [of S red u c from_msg replica h w] by simp
qed auto

lemma recv_mb:
  assumes "fst c < length (vms h)"
  shows "mb_of (snd (spci_msg_recv at c h)) w = mb_of h w \<or>
    w = fst c \<and> mb_state (mb_of h w) = Received \<and> mb_of (snd (spci_msg_recv at c h)) w = (mb_of h w)\<lparr>mb_state := Read\<rparr>"
  using assms by (simp add: spci_msg_recv_def Let_def case_prod_beta mb_of_update_mailbox try_read_def mb_of_def [symmetric] split: outcome.split)

lemma clear_mb:
  assumes "fst c < length (vms h)"
  shows "mb_of (snd (mailbox_clear c h)) w = mb_of h w \<or>
    w = fst c \<and> mb_state (mb_of h w) = Read \<and> mb_of (snd (mailbox_clear c h)) w = (mb_of h w)\<lparr>mb_state := Empty\<rparr>"
  using assms by (simp add: mailbox_clear_def Let_def mb_of_update_mailbox set_empty_def mb_of_def [symmetric] split: MailboxState.split)

lemma simple_mb [simp]:
  "mb_of (snd (preempt c h)) w = mb_of h w" "mb_of (snd (wait_for_interrupt c h)) w = mb_of h w"
  "mb_of (snd (vcpu_off c h)) w = mb_of h w" "mb_of (snd (spci_yield c h)) w = mb_of h w"
  "mb_of (api_regs_state_saved c h) w = mb_of h w"
  "mb_of (snd (mailbox_writable_get c h)) w = mb_of h w" "mb_of (snd (mailbox_waiter_get i c h)) w = mb_of h w"
  "mb_of (snd (interrupt_enable intid on c h)) w = mb_of h w" "mb_of (snd (interrupt_get c h)) w = mb_of h w"
  "mb_of (snd (interrupt_inject i idx intid c h)) w = mb_of h w"
  by (simp_all add: preempt_def wait_for_interrupt_def vcpu_off_def spci_yield_def api_regs_state_saved_def
      mailbox_writable_get_def mailbox_waiter_get_def interrupt_enable_def interrupt_get_def interrupt_inject_def
      Let_def case_prod_beta split: outcome.split option.split)

lemma option_mb:
  "abort c h = Some (r, h') \<Longrightarrow> mb_of h' w = mb_of h w" "cpu_on k entry arg h = Some (b, h') \<Longrightarrow> mb_of h' w = mb_of h w"
  "vcpu_secondary_reset_and_start t entry arg h = Some (b, h') \<Longrightarrow> mb_of h' w = mb_of h w"
proof -
  have sw: "switch_to_primary c x y h1 = (r, h') \<Longrightarrow> mb_of h' w = mb_of h1 w" for x y h1
    using switch_mb [of c x y h1 w] by simp
  show "abort c h = Some (r, h') \<Longrightarrow> mb_of h' w = mb_of h w"
    by (auto simp: abort_def Let_def split: outcome.splits if_splits dest!: sw)
  show "cpu_on k entry arg h = Some (b, h') \<Longrightarrow> mb_of h' w = mb_of h w"
    by (auto simp: cpu_on_def Let_def split: option.splits if_splits)
  show "vcpu_secondary_reset_and_start t entry arg h = Some (b, h') \<Longrightarrow> mb_of h' w = mb_of h w"
    by (auto simp: vcpu_secondary_reset_and_start_def Let_def split: option.splits if_splits outcome.splits)
qed

lemma debug_log_mb [simp]: "mb_of (snd (debug_log ch c h)) w = mb_of h w"
  by (simp add: debug_log_def VmInner_debug_log_def Let_def case_prod_beta) (simp add: update_inner_def mb_of_def vm_at_update)

lemma unchanged_mb:
  "preempt c h = (r, h') \<Longrightarrow> mb_of h' w = mb_of h w" "wait_for_interrupt c h = (r, h') \<Longrightarrow> mb_of h' w = mb_of h w"
  "vcpu_off c h = (r, h') \<Longrightarrow> mb_of h' w = mb_of h w" "spci_yield c h = (r1, h') \<Longrightarrow> mb_of h' w = mb_of h w"
  "mailbox_writable_get c h = (r2, h') \<Longrightarrow> mb_of h' w = mb_of h w" "mailbox_waiter_get i c h = (r3, h') \<Longrightarrow> mb_of h' w = mb_of h w"
  "interrupt_enable intid on c h = (r4, h') \<Longrightarrow> mb_of h' w = mb_of h w" "interrupt_get c h = (r5, h') \<Longrightarrow> mb_of h' w = mb_of h w"
  "interrupt_inject i idx intid c h = (r6, h') \<Longrightarrow> mb_of h' w = mb_of h w" "debug_log ch c h = (r4, h') \<Longrightarrow> mb_of h' w = mb_of h w"
  "share_memory S red i addr sz sh c h = (r4, h') \<Longrightarrow> mb_of h' w = mb_of h w"
  by (metis simple_mb snd_conv debug_log_mb share_mb)+

text \<open>
  C11. The protocol of the mailboxes: whatever call a vCPU makes, the mailbox of a VM changes its state
  only along the edges of \<open>mb_edge\<close>. A message is written only into an empty mailbox, and only by
  another VM; a received message becomes read by its receiver (or when the primary VM runs it); a
  mailbox is emptied only by its owner, after reading. The pages of a configured mailbox never change.
\<close>

theorem mailbox_protocol:
  assumes "hyp_ok S h" "hyp_call S red c h h'"
  shows "(mb_state (mb_of h' w) = mb_state (mb_of h w)
      \<or> mb_edge (current_id h c) (fst c) w (mb_state (mb_of h w)) (mb_state (mb_of h' w)))
    \<and> same_pages (mb_of h w) (mb_of h' w)"
proof -
  have same: ?thesis if "mb_of h' w = mb_of h w" using that by (simp add: same_pages_def)
  show ?thesis
    using assms(2)
  proof cases
    case (run i idx rr)
    then show ?thesis using run_mb [of i idx c h rr h' w] by (auto simp: same_pages_def mb_edge.simps)
  next
    case (configure sd rc ir)
    then show ?thesis using vm_configure_mb [of S red sd rc c h ir h' w] by auto
  next
    case (send at sr)
    then show ?thesis
      using send_mb [OF assms(1), of red at c sr h' w]
      by (cases "w = get_primary") (auto simp: same_pages_def mb_edge.simps)
  next
    case (recv at sr)
    then show ?thesis using recv_mb [of c h at w] by (auto simp: same_pages_def mb_edge.simps)
  next
    case (clear ir)
    then show ?thesis using clear_mb [of c h w] by (auto simp: same_pages_def mb_edge.simps)
  next
    case (guest rs m M)
    then show ?thesis by (intro same) simp
  next
    case saved
    then show ?thesis by (intro same) simp
  qed (rule same, blast intro: unchanged_mb option_mb)+
qed

theorem mailbox_protocol_witness:
  "\<exists>h'. hyp_call demo_stage demo_reduce (1, 0) (update_mailbox 1 set_received demo_hypervisor) h'
     \<and> mb_edge 2 1 1 (mb_state (mb_of (update_mailbox 1 set_received demo_hypervisor) 1)) (mb_state (mb_of h' 1))"
proof -
  let ?h = "update_mailbox 1 set_received demo_hypervisor"
  have ok: "hyp_ok demo_stage ?h" by (rule hyp_ok_frame [OF demo_hyp_ok]) simp
  have at: "mb_of ?h 1 = \<lparr>mb_state = Received, recv = 0, send = 0\<rparr>" "vm_id (vm_at ?h 1) = 2" "length (vms ?h) = 2"
    by (simp_all add: mb_of_def update_mailbox_def update_inner_def update_vm_def vm_at_def demo_hypervisor_def demo_vm_def set_received_def)
  have run: "spci_msg_recv 0 (1, 0) ?h = (Ok (Success, None), update_mailbox 1 (\<lambda>_. (mb_of ?h 1)\<lparr>mb_state := Read\<rparr>) ?h)"
    using at by (simp add: spci_msg_recv_def Let_def try_read_def mb_of_def HF_PRIMARY_VM_ID_def HF_VM_ID_OFFSET_def)
  have call: "hyp_call demo_stage demo_reduce (1, 0) ?h (update_mailbox 1 (\<lambda>_. (mb_of ?h 1)\<lparr>mb_state := Read\<rparr>) ?h)"
    by (rule hyp_call.recv [OF _ run]) (use at in simp_all)
  from mailbox_protocol [OF ok call, of 1] call at show ?thesis
    by (auto simp: mb_of_update_mailbox current_id_def)
qed

end
