(* ===== verification/Waiters.thy ===== *)
theory Waiters
  imports Mailboxes
begin

text \<open>
  The lists of waiters (src/hfo2/src/vm.rs) as queues. \<open>queues n ls W R\<close> relates the linked store to
  the queue \<open>W v\<close> of the entries that wait for the mailbox of VM \<open>v\<close> to become writable, and the
  queue \<open>R v\<close> of the entries of VM \<open>v\<close> whose mailbox has become writable. The operations on the
  lists are those of first-in first-out queues in which an entry stands at most once (\<open>arrive\<close>), and
  so are the three calls that use them.
\<close>

section \<open>Queues\<close>

type_synonym queues = "nat \<Rightarrow> wait_entry list"

definition wait_node :: "wait_entry \<Rightarrow> link" where "wait_node w = WaitLinks (fst w) (snd w)"
definition ready_node :: "wait_entry \<Rightarrow> link" where "ready_node w = ReadyLinks (fst w) (snd w)"

text \<open>
  A family of lists in the store: the head of list \<open>v\<close> is the node \<open>H v\<close>, entry \<open>w\<close> has the node
  \<open>N w\<close>, and an entry of \<open>E\<close> is in at most one list, or linked to itself.
\<close>

definition family :: "(nat \<Rightarrow> link) \<Rightarrow> (wait_entry \<Rightarrow> link) \<Rightarrow> nat \<Rightarrow> wait_entry set \<Rightarrow> links \<Rightarrow> queues \<Rightarrow> bool" where
  "family H N n E ls Q \<longleftrightarrow>
     (\<forall>v < n. ring ls (H v) (map N (Q v)) \<and> set (Q v) \<subseteq> E) \<and>
     (\<forall>v < n. \<forall>u < n. v \<noteq> u \<longrightarrow> set (Q v) \<inter> set (Q u) = {}) \<and>
     (\<forall>w \<in> E. (\<forall>v < n. w \<notin> set (Q v)) \<longrightarrow> ring ls (N w) [])"

definition nodes_ok :: "(nat \<Rightarrow> link) \<Rightarrow> (wait_entry \<Rightarrow> link) \<Rightarrow> bool" where
  "nodes_ok H N \<longleftrightarrow> inj H \<and> inj N \<and> range H \<inter> range N = {}"

definition wait_entries :: "nat \<Rightarrow> wait_entry set" where
  "wait_entries n = {0..<n} \<times> {0..<MAX_VMS}"

definition queues :: "nat \<Rightarrow> links \<Rightarrow> queues \<Rightarrow> queues \<Rightarrow> bool" where
  "queues n ls W R \<longleftrightarrow>
     family WaiterList wait_node n (wait_entries n) ls W \<and> family ReadyList ready_node n (wait_entries n) ls R \<and>
     (\<forall>v < n. \<forall>w \<in> set (W v). snd w = v + 1) \<and> (\<forall>v < n. \<forall>w \<in> set (R v). fst w = v)"

text \<open>An entry that is already in the queue keeps its place.\<close>

definition arrive :: "wait_entry \<Rightarrow> wait_entry list \<Rightarrow> wait_entry list" where
  "arrive w q = (if w \<in> set q then q else q @ [w])"

lemma nodes_ok_waiters: "nodes_ok WaiterList wait_node" "nodes_ok ReadyList ready_node"
  by (auto simp: nodes_ok_def inj_def wait_node_def ready_node_def prod_eq_iff)

lemma familyD:
  assumes "family H N n E ls Q"
  shows "v < n \<Longrightarrow> ring ls (H v) (map N (Q v))" "v < n \<Longrightarrow> set (Q v) \<subseteq> E"
    "v < n \<Longrightarrow> u < n \<Longrightarrow> v \<noteq> u \<Longrightarrow> set (Q v) \<inter> set (Q u) = {}"
    "w \<in> E \<Longrightarrow> (\<And>v. v < n \<Longrightarrow> w \<notin> set (Q v)) \<Longrightarrow> ring ls (N w) []"
  using assms by (simp_all add: family_def)

lemma familyI:
  assumes "\<And>v. v < n \<Longrightarrow> ring ls (H v) (map N (Q v))" "\<And>v. v < n \<Longrightarrow> set (Q v) \<subseteq> E"
    "\<And>v u. v < n \<Longrightarrow> u < n \<Longrightarrow> v \<noteq> u \<Longrightarrow> set (Q v) \<inter> set (Q u) = {}"
    "\<And>w. w \<in> E \<Longrightarrow> (\<And>v. v < n \<Longrightarrow> w \<notin> set (Q v)) \<Longrightarrow> ring ls (N w) []"
  shows "family H N n E ls Q"
  using assms by (simp add: family_def)

lemma nodes_inj:
  assumes "nodes_ok H N"
  shows "N a = N b \<longleftrightarrow> a = b" "H x = H y \<longleftrightarrow> x = y" "N a \<noteq> H x" "H x \<noteq> N a" "N a \<in> N ` A \<longleftrightarrow> a \<in> A" "H x \<notin> N ` A"
  using assms by (auto simp: nodes_ok_def inj_eq)

lemma family_append:
  assumes N: "nodes_ok H N" and f: "family H N n E ls Q" and u: "u < n" and w: "w \<in> E" and new: "\<And>v. v < n \<Longrightarrow> w \<notin> set (Q v)"
  shows "family H N n E (list_append (H u) (N w) ls) (Q(u := Q u @ [w]))"
proof (rule familyI)
  note inj = nodes_inj [OF N] and D = familyD [OF f]
  let ?ls = "list_append (H u) (N w) ls"
  have main: "ring ?ls (H u) (map N (Q u @ [w]))"
    using il.append_holds [OF D(1) [OF u], of "N w"] new [OF u] by (simp add: inj)
  have other: "ring ?ls m ys" if "ring ls m ys" "set (m # ys) \<inter> set (N w # H u # map N (Q u)) = {}" for m ys
    by (rule il.append_other [OF D(1) [OF u] that])
  show "ring ?ls (H v) (map N ((Q(u := Q u @ [w])) v))" if v: "v < n" for v
  proof (cases "v = u")
    case False
    have "ring ?ls (H v) (map N (Q v))"
      by (rule other [OF D(1) [OF v]]) (use D(3) [OF v u False] new [OF v] False in \<open>auto simp: inj\<close>)
    then show ?thesis using False by simp
  qed (use main in simp)
  show "set ((Q(u := Q u @ [w])) v) \<subseteq> E" if "v < n" for v
    using D(2) [OF that] D(2) [OF u] w by simp
  show "set ((Q(u := Q u @ [w])) v) \<inter> set ((Q(u := Q u @ [w])) x) = {}" if "v < n" "x < n" "v \<noteq> x" for v x
    using D(3) [OF that] new [OF that(1)] new [OF that(2)] that(3) by auto
  show "ring ?ls (N x) []" if x: "x \<in> E" and nx: "\<And>v. v < n \<Longrightarrow> x \<notin> set ((Q(u := Q u @ [w])) v)" for x
  proof -
    have ne: "x \<noteq> w" using nx [OF u] by auto
    have nQ: "x \<notin> set (Q v)" if "v < n" for v using nx [OF that] by (simp split: if_splits)
    show ?thesis by (rule other [OF D(4) [OF x nQ]]) (use ne nQ [OF u] in \<open>simp_all add: inj\<close>)
  qed
qed

lemma family_pop:
  assumes N: "nodes_ok H N" and f: "family H N n E ls Q" and u: "u < n" and Q: "Q u = w # ws"
  shows "list_pop_front (H u) ls = (N w, snd (list_pop_front (H u) ls))"
    and "family H N n E (snd (list_pop_front (H u) ls)) (Q(u := ws))"
proof -
  note inj = nodes_inj [OF N] and D = familyD [OF f]
  let ?ls = "snd (list_pop_front (H u) ls)"
  have r: "ring ls (H u) (N w # map N ws)" using D(1) [OF u] Q by simp
  have p: "list_pop_front (H u) ls = (fst (list_pop_front (H u) ls), ?ls)" by simp
  note main = il.pop_holds [OF r p]
  show "list_pop_front (H u) ls = (N w, ?ls)" using main p by simp
  have other: "ring ?ls m ys" if "ring ls m ys" "set (m # ys) \<inter> set (H u # N w # map N ws) = {}" for m ys
    by (rule il.pop_other [OF r p that])
  have sep: "set (Q v) \<inter> set (w # ws) = {}" if "v < n" "v \<noteq> u" for v
    using D(3) [OF that(1) u that(2)] Q by simp
  show "family H N n E ?ls (Q(u := ws))"
  proof (rule familyI)
    show "ring ?ls (H v) (map N ((Q(u := ws)) v))" if v: "v < n" for v
    proof (cases "v = u")
      case False
      have "ring ?ls (H v) (map N (Q v))"
        by (rule other [OF D(1) [OF v]]) (use sep [OF v False] False in \<open>auto simp: inj\<close>)
      then show ?thesis using False by simp
    qed (use main in simp)
    show "set ((Q(u := ws)) v) \<subseteq> E" if "v < n" for v
      using D(2) [OF that] D(2) [OF u] Q by auto
    show "set ((Q(u := ws)) v) \<inter> set ((Q(u := ws)) x) = {}" if "v < n" "x < n" "v \<noteq> x" for v x
      using D(3) [OF that] sep [of v] sep [of x] that by auto
    show "ring ?ls (N x) []" if x: "x \<in> E" and nx: "\<And>v. v < n \<Longrightarrow> x \<notin> set ((Q(u := ws)) v)" for x
    proof (cases "x = w")
      case False
      have nQ: "x \<notin> set (Q v)" if "v < n" for v using nx [OF that] False Q by (cases "v = u") auto
      show ?thesis
        by (rule other [OF D(4) [OF x nQ]]) (use False nQ [OF u] Q in \<open>simp_all add: inj\<close>)
    qed (use main in simp)
  qed
qed

text \<open>A change of one family leaves a family on other nodes alone.\<close>

lemma family_frame:
  assumes "family H N n E ls Q" "\<And>z. z \<in> range H \<union> range N \<Longrightarrow> ls' z = ls z"
  shows "family H N n E ls' Q"
proof -
  have "ring ls' (H v) (map N xs) = ring ls (H v) (map N xs)" for v xs
    by (rule ring_frame) (use assms(2) in auto)
  moreover have "ring ls' (N w) [] = ring ls (N w) []" for w
    by (rule ring_frame) (use assms(2) in auto)
  ultimately show ?thesis using assms(1) by (simp add: family_def)
qed

lemma member_not_empty: "ring h l xs \<Longrightarrow> e \<in> set xs \<Longrightarrow> \<not> list_empty e h"
proof -
  assume r: "ring h l xs" and "e \<in> set xs"
  then obtain ys zs where "xs = ys @ e # zs" by (metis split_list)
  then show ?thesis using ring_around(1,4) [of h l ys e zs] r by (simp add: list_empty_def)
qed

lemma entry_empty_iff:
  assumes N: "nodes_ok H N" and f: "family H N n E ls Q" and w: "w \<in> E" and one: "\<And>v. v < n \<Longrightarrow> w \<in> set (Q v) \<Longrightarrow> v = u" and u: "u < n"
  shows "list_empty (N w) ls \<longleftrightarrow> w \<notin> set (Q u)"
proof (cases "w \<in> set (Q u)")
  case True
  then show ?thesis using member_not_empty [OF familyD(1) [OF f u], of "N w"] by simp
next
  case False
  then have "ring ls (N w) []" using one by (intro familyD(4) [OF f w]) blast
  then show ?thesis using False by (simp add: ring_empty)
qed

lemma append_outside: "family H N n E ls Q \<Longrightarrow> u < n \<Longrightarrow> z \<notin> range H \<union> range N \<Longrightarrow> list_append (H u) (N w) ls z = ls z"
  by (rule append_frame [OF familyD(1)]) auto

lemma pop_outside: "family H N n E ls Q \<Longrightarrow> u < n \<Longrightarrow> Q u = w # ws \<Longrightarrow> z \<notin> range H \<union> range N \<Longrightarrow>
    snd (list_pop_front (H u) ls) z = ls z"
  using familyD(1) [of H N n E ls Q u] by (intro pop_front_frame [of ls "H u" "N w" "map N ws"]) auto

lemma disjoint_nodes:
  "z \<in> range ReadyList \<union> range ready_node \<Longrightarrow> z \<notin> range WaiterList \<union> range wait_node"
  "z \<in> range WaiterList \<union> range wait_node \<Longrightarrow> z \<notin> range ReadyList \<union> range ready_node"
  by (auto simp: wait_node_def ready_node_def)

lemma queuesD:
  assumes "queues n ls W R"
  shows "family WaiterList wait_node n (wait_entries n) ls W" "family ReadyList ready_node n (wait_entries n) ls R"
    "v < n \<Longrightarrow> w \<in> set (W v) \<Longrightarrow> snd w = v + 1 \<and> w \<in> wait_entries n"
    "v < n \<Longrightarrow> w \<in> set (R v) \<Longrightarrow> fst w = v \<and> w \<in> wait_entries n"
proof -
  show 1: "family WaiterList wait_node n (wait_entries n) ls W" "family ReadyList ready_node n (wait_entries n) ls R"
    using assms by (simp_all add: queues_def)
  show "v < n \<Longrightarrow> w \<in> set (W v) \<Longrightarrow> snd w = v + 1 \<and> w \<in> wait_entries n"
    using assms familyD(2) [OF 1(1), of v] by (auto simp: queues_def)
  show "v < n \<Longrightarrow> w \<in> set (R v) \<Longrightarrow> fst w = v \<and> w \<in> wait_entries n"
    using assms familyD(2) [OF 1(2), of v] by (auto simp: queues_def)
qed

lemma queuesI:
  assumes "family WaiterList wait_node n (wait_entries n) ls W" "family ReadyList ready_node n (wait_entries n) ls R"
    "\<And>v w. v < n \<Longrightarrow> w \<in> set (W v) \<Longrightarrow> snd w = v + 1" "\<And>v w. v < n \<Longrightarrow> w \<in> set (R v) \<Longrightarrow> fst w = v"
  shows "queues n ls W R"
  using assms by (simp add: queues_def)

section \<open>The operations on the lists\<close>

lemma wait_for_queues:
  assumes q: "queues n ls W R" and v: "v < n" and u: "u < n" and i: "unat i = u + 1"
    and run: "wait_for v u i ls = (r, ls')" and np: "r \<noteq> Panic"
  shows "queues n ls' (W(u := arrive (v, u + 1) (W u))) R"
proof -
  note D = queuesD [OF q] and N = nodes_ok_waiters(1)
  let ?w = "(v, u + 1)"
  have w: "?w \<in> wait_entries n" and node: "WaitLinks v (u + 1) = wait_node ?w"
    using run np i v by (auto simp: wait_for_def wait_entries_def wait_node_def split: if_splits)
  have one: "x = u" if "x < n" "?w \<in> set (W x)" for x using D(3) [OF that] by simp
  note iff = entry_empty_iff [OF N D(1) w one u, folded node]
  show ?thesis
  proof (cases "?w \<in> set (W u)")
    case True
    then have "ls' = ls" using run iff i by (auto simp: wait_for_def Let_def split: if_splits)
    then show ?thesis using q True by (simp add: arrive_def)
  next
    case False
    then have ls': "ls' = list_append (WaiterList u) (wait_node ?w) ls"
      using run np iff i by (auto simp: wait_for_def Let_def node [simplified] split: if_splits)
    have "family WaiterList wait_node n (wait_entries n) ls' (W(u := W u @ [?w]))"
      unfolding ls' by (rule family_append [OF N D(1) u w]) (metis one False)
    moreover have "family ReadyList ready_node n (wait_entries n) ls' R"
      unfolding ls' by (rule family_frame [OF D(2)]) (rule append_outside [OF D(1) u disjoint_nodes(1)])
    ultimately have "queues n ls' (W(u := W u @ [?w])) R"
      by (rule queuesI) (auto dest: D(3) D(4) split: if_splits)
    then show ?thesis using False by (simp add: arrive_def)
  qed
qed

lemma dequeue_queues:
  assumes q: "queues n ls W R" and v: "v < n" and run: "dequeue_ready_list v ls = (r, ls')"
  shows "r = (case R v of [] \<Rightarrow> None | w # _ \<Rightarrow> Some (word_of_nat (snd w))) \<and> queues n ls' W (R(v := tl (R v)))"
proof -
  note D = queuesD [OF q] and N = nodes_ok_waiters(2)
  have e: "list_empty (ReadyList v) ls \<longleftrightarrow> R v = []"
    using ring_empty [OF familyD(1) [OF D(2) v]] by simp
  show ?thesis
  proof (cases "R v")
    case Nil
    then have "R(v := tl (R v)) = R" by auto
    then show ?thesis using run e q Nil by (auto simp: dequeue_ready_list_def)
  next
    case (Cons w ws)
    note p = family_pop [OF N D(2) v Cons]
    have r: "r = Some (word_of_nat (snd w))" and ls': "ls' = snd (list_pop_front (ReadyList v) ls)"
      using run e Cons p(1) by (auto simp: dequeue_ready_list_def Let_def ready_node_def split: prod.splits)
    have "family WaiterList wait_node n (wait_entries n) ls' W"
      unfolding ls' by (rule family_frame [OF D(1)]) (rule pop_outside [OF D(2) v Cons disjoint_nodes(2)])
    then have "queues n ls' W (R(v := ws))"
      by (rule queuesI [OF _ p(2) [folded ls']]) (auto simp: Cons dest: D(3) D(4) split: if_splits)
    then show ?thesis using r Cons by simp
  qed
qed

lemma fetch_queues:
  assumes q: "queues n ls W R" and u: "u < n" and W: "W u = w # ws"
  defines "ls1 \<equiv> snd (list_pop_front (WaiterList u) ls)"
  defines "ls2 \<equiv> (if \<not> is_in_ready_list w ls1 then enqueue_ready_list (fst w) w ls1 else ls1)"
  shows "queues n ls2 (W(u := ws)) (R(fst w := arrive w (R (fst w))))"
proof -
  note D = queuesD [OF q] and N = nodes_ok_waiters
  have w: "w \<in> wait_entries n" and a: "fst w < n" using D(3) [OF u, of w] W by (auto simp: wait_entries_def)
  have 1: "family WaiterList wait_node n (wait_entries n) ls1 (W(u := ws))"
    unfolding ls1_def by (rule family_pop(2) [OF N(1) D(1) u W])
  have 2: "family ReadyList ready_node n (wait_entries n) ls1 R"
    unfolding ls1_def by (rule family_frame [OF D(2)]) (rule pop_outside [OF D(1) u W disjoint_nodes(1)])
  have one: "x = fst w" if "x < n" "w \<in> set (R x)" for x using D(4) [OF that] by simp
  have iff: "is_in_ready_list w ls1 \<longleftrightarrow> w \<in> set (R (fst w))"
    using entry_empty_iff [OF N(2) 2 w one a] by (simp add: is_in_ready_list_def ready_node_def)
  show ?thesis
  proof (cases "w \<in> set (R (fst w))")
    case True
    then have "queues n ls2 (W(u := ws)) R"
      unfolding ls2_def using iff 1 2 by (intro queuesI) (auto simp: W dest: D(3) D(4) split: if_splits)
    then show ?thesis using True by (simp add: arrive_def)
  next
    case False
    then have ls2: "ls2 = list_append (ReadyList (fst w)) (ready_node w) ls1"
      unfolding ls2_def using iff by (simp add: enqueue_ready_list_def ready_node_def)
    have "family ReadyList ready_node n (wait_entries n) ls2 (R(fst w := R (fst w) @ [w]))"
      unfolding ls2 by (rule family_append [OF N(2) 2 a w]) (metis one False)
    moreover have "family WaiterList wait_node n (wait_entries n) ls2 (W(u := ws))"
      unfolding ls2 by (rule family_frame [OF 1]) (rule append_outside [OF 2 a disjoint_nodes(2)])
    ultimately have "queues n ls2 (W(u := ws)) (R(fst w := R (fst w) @ [w]))"
      by (intro queuesI) (auto simp: W dest: D(3) D(4) split: if_splits)
    then show ?thesis using False by (simp add: arrive_def)
  qed
qed

text \<open>
  The call with which the primary VM asks for a waiter of VM \<open>i\<close>, which is at position \<open>u\<close>, and
  there is one to be told: the mailbox of \<open>u\<close> can be written.
\<close>

definition fetchable :: "spci_vm_id_t \<Rightarrow> vref \<Rightarrow> hypervisor \<Rightarrow> queues \<Rightarrow> nat \<Rightarrow> bool" where
  "fetchable i c h W u \<longleftrightarrow>
     current_id h c = HF_PRIMARY_VM_ID \<and> VmManager_get i (vms h) = Ok (Some u) \<and>
     VmInner_is_empty (vm_inner (vm_at h u)) \<and> recv (mailbox (vm_inner (vm_at h u))) \<noteq> 0 \<and> W u \<noteq> []"

lemma waiter_get_queues:
  assumes q: "queues (length (vms h)) (links h) W R" and ok: "hyp_ok S h"
    and run: "mailbox_waiter_get i c h = (r, h')" and np: "r \<noteq> Panic"
  shows "fetchable i c h W u \<Longrightarrow> r = Ok (Some (vm_id (vm_at h (fst (hd (W u)))))) \<and>
      queues (length (vms h)) (links h') (W(u := tl (W u))) (R(fst (hd (W u)) := arrive (hd (W u)) (R (fst (hd (W u))))))"
    and "(\<And>u. \<not> fetchable i c h W u) \<Longrightarrow> r = Ok None \<and> queues (length (vms h)) (links h') W R"
proof -
  have e: "list_empty (WaiterList u) (links h) \<longleftrightarrow> W u = []" if "VmManager_get i (vms h) = Ok (Some u)" for u
    using ring_empty [OF familyD(1) [OF queuesD(1) [OF q] get_distinct(1) [OF ok that]]] by simp
  show "r = Ok (Some (vm_id (vm_at h (fst (hd (W u)))))) \<and>
      queues (length (vms h)) (links h') (W(u := tl (W u))) (R(fst (hd (W u)) := arrive (hd (W u)) (R (fst (hd (W u))))))"
    if f: "fetchable i c h W u"
  proof -
    have u: "VmManager_get i (vms h) = Ok (Some u)" using f by (simp add: fetchable_def)
    note u' = get_distinct(1) [OF ok u]
    obtain w ws where W: "W u = w # ws" using f by (cases "W u") (auto simp: fetchable_def)
    obtain ls1 where pop: "list_pop_front (WaiterList u) (links h) = (wait_node w, ls1)"
      using family_pop(1) [OF nodes_ok_waiters(1) queuesD(1) [OF q] u' W] by blast
    have "Mailbox_fetch_waiter u (mailbox (vm_inner (vm_at h u))) (links h) = (Some w, ls1)"
      using f W e [OF u] by (simp add: Mailbox_fetch_waiter_def fetchable_def VmInner_is_empty_def pop) (simp add: wait_node_def)
    then have "r = Ok (Some (vm_id (vm_at h (fst w))))"
      "links h' = (if \<not> is_in_ready_list w ls1 then enqueue_ready_list (fst w) w ls1 else ls1)"
      using run f by (auto simp: mailbox_waiter_get_def fetchable_def Let_def)
    then show ?thesis using fetch_queues [OF q u' W] W unfolding pop snd_conv by simp
  qed
  show "r = Ok None \<and> queues (length (vms h)) (links h') W R" if n: "\<And>u. \<not> fetchable i c h W u"
  proof -
    have "r = Ok None \<and> links h' = links h"
    proof (cases "current_id h c = HF_PRIMARY_VM_ID \<and> (\<exists>u. VmManager_get i (vms h) = Ok (Some u))")
      case True
      then obtain u where u: "VmManager_get i (vms h) = Ok (Some u)" and p: "current_id h c = HF_PRIMARY_VM_ID" by blast
      have "Mailbox_fetch_waiter u (mailbox (vm_inner (vm_at h u))) (links h) = (None, links h)"
        using n [of u] e [OF u] u p by (simp add: fetchable_def Mailbox_fetch_waiter_def VmInner_is_empty_def)
      then show ?thesis using run u p by (auto simp: mailbox_waiter_get_def)
    next
      case False
      moreover have "VmManager_get i (vms h) \<noteq> Err ()" by (simp add: VmManager_get_def get_vm_index_def)
      ultimately show ?thesis
        using run np by (auto simp: mailbox_waiter_get_def split: if_splits outcome.splits option.splits)
    qed
    then show ?thesis using q by simp
  qed
qed

section \<open>Calls\<close>

lemma links_updates [simp]:
  "links (update_vcpu c g h) = links h" "links (update_vcpu_inner c g' h) = links h" "links (unlock c h) = links h"
  "links (update_mailbox v g2 h) = links h" "links (update_inner v g3 h) = links h" "links (set_ptable v t h) = links h"
  unfolding unlock_def update_vcpu_inner_def update_vcpu_def set_ptable_def update_mailbox_def update_inner_def by simp_all

lemma switch_links [simp]: "links (snd (switch_to_primary c ret st h)) = links h"
  by (simp add: switch_to_primary_def Let_def split: option.split)

lemma inject_links [simp]: "links (snd (internal_interrupt_inject t i c h)) = links h"
  by (simp add: internal_interrupt_inject_def wake_up_def Let_def case_prod_beta split: outcome.split)

lemma prepare_links [simp]: "links (snd (vcpu_prepare_run c t ret h)) = links h"
  by (simp add: vcpu_prepare_run_def Let_def case_prod_beta)

lemma run_links [simp]: "links (snd (vcpu_run i idx c h)) = links h"
  by (simp add: vcpu_run_def Let_def case_prod_beta split: outcome.split option.split)

lemma waiter_links [simp]: "links (snd (waiter_result v c h)) = links h"
  by (simp add: waiter_result_def case_prod_beta split: outcome.split)

lemma sharing_links [simp]:
  "links (snd (map_in_vm S v b e m h)) = links h" "links (snd (restore_in_vm S v b e m h)) = links h"
  "links (snd (clear_memory red b e h)) = links h"
  by (simp_all add: restore_in_vm_def map_in_vm_def clear_memory_def Let_def case_prod_beta split: outcome.split)

lemma share_pages_links [simp]: "links (snd (share_pages S red v u b e orig fm tm h)) = links h"
  by (simp add: share_pages_def Let_def case_prod_beta split: outcome.split)

lemma share_links [simp]: "links (snd (share_memory S red i a sz sh c h)) = links h"
  by (simp add: share_memory_def end_local_def Let_def case_prod_beta split: outcome.split option.split)

lemma deliver_links [simp]: "links (snd (deliver S red u c fm replica h)) = links h"
  by (simp add: deliver_def Let_def case_prod_beta split: outcome.split option.split)

lemma finish_send_links [simp]: "links (snd (finish_send w c h)) = links h"
  by (simp add: finish_send_def Let_def case_prod_beta split: outcome.split)

lemma more_links [simp]:
  "links (snd (preempt c h)) = links h" "links (snd (wait_for_interrupt c h)) = links h"
  "links (snd (vcpu_off c h)) = links h" "links (snd (spci_yield c h)) = links h"
  "links (api_regs_state_saved c h) = links h" "links (snd (vm_configure S red sd rc c h)) = links h"
  "links (snd (spci_msg_recv at c h)) = links h" "links (snd (mailbox_clear c h)) = links h"
  "links (snd (interrupt_enable intid on c h)) = links h" "links (snd (interrupt_get c h)) = links h"
  "links (snd (interrupt_inject i idx intid c h)) = links h" "links (snd (debug_log ch c h)) = links h"
  by (simp_all add: preempt_def wait_for_interrupt_def vcpu_off_def spci_yield_def api_regs_state_saved_def vm_configure_def
      spci_msg_recv_def mailbox_clear_def interrupt_enable_def interrupt_get_def interrupt_inject_def debug_log_def
      Let_def case_prod_beta split: outcome.split option.split MailboxState.split)

lemma option_links:
  "abort c h = Some (r, h') \<Longrightarrow> links h' = links h" "cpu_on k entry arg h = Some (b, h') \<Longrightarrow> links h' = links h"
  "vcpu_secondary_reset_and_start t entry arg h = Some (b, h') \<Longrightarrow> links h' = links h"
proof -
  have sw: "switch_to_primary c x y h1 = (r, h') \<Longrightarrow> links h' = links h1" for x y h1
    using switch_links [of c x y h1] by simp
  show "abort c h = Some (r, h') \<Longrightarrow> links h' = links h"
    by (auto simp: abort_def Let_def split: outcome.splits if_splits dest!: sw)
  show "cpu_on k entry arg h = Some (b, h') \<Longrightarrow> links h' = links h"
    by (auto simp: cpu_on_def Let_def split: option.splits if_splits)
  show "vcpu_secondary_reset_and_start t entry arg h = Some (b, h') \<Longrightarrow> links h' = links h"
    by (auto simp: vcpu_secondary_reset_and_start_def Let_def split: option.splits if_splits outcome.splits)
qed

lemma unchanged_links:
  "preempt c h = (r, h') \<Longrightarrow> links h' = links h" "wait_for_interrupt c h = (r, h') \<Longrightarrow> links h' = links h"
  "vcpu_off c h = (r, h') \<Longrightarrow> links h' = links h" "spci_yield c h = (r1, h') \<Longrightarrow> links h' = links h"
  "vm_configure S red sd rc c h = (r6, h') \<Longrightarrow> links h' = links h" "spci_msg_recv at c h = (r7, h') \<Longrightarrow> links h' = links h"
  "mailbox_clear c h = (r6, h') \<Longrightarrow> links h' = links h" "vcpu_run i idx c h = (r8, h') \<Longrightarrow> links h' = links h"
  "interrupt_enable intid on c h = (r4, h') \<Longrightarrow> links h' = links h" "interrupt_get c h = (r5, h') \<Longrightarrow> links h' = links h"
  "interrupt_inject i idx intid c h = (r6, h') \<Longrightarrow> links h' = links h" "debug_log ch c h = (r4, h') \<Longrightarrow> links h' = links h"
  "share_memory S red i addr sz sh c h = (r4, h') \<Longrightarrow> links h' = links h"
  by (metis more_links run_links share_links snd_conv)+

text \<open>A message is never answered with \<open>Busy\<close> by the handlers of its contents.\<close>

lemma share_not_busy: "fst (spci_share_memory S red same a pc attr sh to_t from_t env) \<noteq> Ok Busy"
  by (simp add: spci_share_memory_def Let_def case_prod_beta split: outcome.split)

lemma handle_not_busy: "fst (handle_share S red same buf hdr n to_t from_t env) \<noteq> Ok Busy"
  using share_not_busy
  by (simp add: handle_share_def spci_validate_call_share_memory_def Let_def split: option.split outcome.split SpciMemoryShare.split)

lemma deliver_not_busy: "fst (deliver S red w c from_msg replica h) \<noteq> Ok Busy"
  using handle_not_busy
  by (simp add: deliver_def spci_msg_handle_architected_message_def Let_def case_prod_beta split: option.split outcome.split)
    metis

lemma finish_not_busy: "fst (finish_send w c h) \<noteq> Ok (Busy, None)"
  by (simp add: finish_send_def Let_def case_prod_beta split: outcome.split)

definition send_target :: "vref \<Rightarrow> hypervisor \<Rightarrow> spci_vm_id_t" where
  "send_target c h = target_vm_id (read_message (mem h) (send (mailbox (vm_inner (vm_at h (fst c))))))"

lemma send_waits:
  assumes "spci_msg_send S red at c h = (r, h')" "r \<noteq> Panic"
  shows "if r = Ok (Busy, None) \<and> at AND NOTIFY = NOTIFY
    then \<exists>u q. VmManager_get (send_target c h) (vms h) = Ok (Some u)
      \<and> (\<not> VmInner_is_empty (vm_inner (vm_at h u)) \<or> \<not> is_configured (vm_inner (vm_at h u)))
      \<and> wait_for (fst c) u (vm_id (vm_at h u)) (links h) = (q, links h') \<and> q \<noteq> Panic
    else links h' = links h"
proof -
  define from_msg where "from_msg = send (mailbox (vm_inner (vm_at h (fst c))))"
  define replica where "replica = read_message (mem h) from_msg"
  have t: "send_target c h = target_vm_id replica" by (simp add: send_target_def replica_def from_msg_def)
  note run = assms(1) [unfolded spci_msg_send_def Let_def, folded from_msg_def, folded replica_def]
  show ?thesis
  proof (cases "\<exists>u. VmManager_get (target_vm_id replica) (vms h) = Ok (Some u) \<and> VmInner_is_empty (vm_inner (vm_at h u))
      \<and> is_configured (vm_inner (vm_at h u))")
    case False
    then show ?thesis
      using run assms(2) unfolding t
      by (auto split: if_splits outcome.splits option.splits prod.splits)
  next
    case True
    then obtain u where u: "VmManager_get (target_vm_id replica) (vms h) = Ok (Some u)" "VmInner_is_empty (vm_inner (vm_at h u))"
      "is_configured (vm_inner (vm_at h u))" by blast
    obtain q h1 where d: "deliver S red u c from_msg replica h = (q, h1)" by fastforce
    have q: "q \<noteq> Ok Busy" and h1: "links h1 = links h"
      using deliver_not_busy [of S red u c from_msg replica h] deliver_links [of S red u c from_msg replica h] d by simp_all
    obtain r2 h2 where f: "finish_send u c h1 = (r2, h2)" by fastforce
    have "r2 \<noteq> Ok (Busy, None)" "links h2 = links h"
      using finish_not_busy [of u c h1] finish_send_links [of u c h1] f h1 by simp_all
    then have "r \<noteq> Ok (Busy, None) \<and> links h' = links h"
      using run q h1 by (auto simp: u d f split: if_splits outcome.splits SpciReturn.splits)
    then show ?thesis by simp
  qed
qed

lemma get_id:
  assumes "hyp_ok S h" "VmManager_get i (vms h) = Ok (Some u)"
  shows "unat (vm_id (vm_at h u)) = u + 1"
proof -
  note u = get_distinct(1) [OF assms]
  then have "u + 1 < 2 ^ 16" using assms(1) by (simp add: hyp_ok_def MAX_VMS_def)
  then show ?thesis
    using assms(1) u unfolding hyp_ok_def by (simp add: unat_of_nat del: of_nat_add of_nat_Suc)
qed

lemma other_links:
  assumes "hyp_call S red c h h'"
  shows "(\<exists>at r. spci_msg_send S red at c h = (r, h') \<and> r \<noteq> Panic) \<or> (\<exists>i r. mailbox_waiter_get i c h = (r, h') \<and> r \<noteq> Panic)
    \<or> (\<exists>r. mailbox_writable_get c h = (r, h')) \<or> links h' = links h"
proof (cases "links h' = links h")
  case False
  from assms show ?thesis
  proof cases
    case (guest rs m M)
    then show ?thesis using False by simp
  next
    case saved
    then show ?thesis using False by simp
  qed (use False in \<open>blast intro: unchanged_links option_links\<close>)+
qed simp

text \<open>
  C12. The lists of waiters are queues, first in first out, and the calls use them as follows. A
  message sent with \<open>NOTIFY\<close> to a mailbox that cannot take it is answered with \<open>Busy\<close> and puts the
  sender at the end of the queue of that mailbox, unless it is already waiting there; no other send
  touches a queue. \<open>mailbox_waiter_get\<close> tells the primary VM the ID of the VM that waits longest for a
  mailbox that can be written, and moves its entry to the end of the queue of the ready mailboxes of
  that VM; otherwise it returns nothing. \<open>mailbox_writable_get\<close> returns and takes the first of the
  caller's ready mailboxes. No other call changes a list, and the linked lists in the store stay
  well formed.
\<close>

theorem waiters_refine_queues:
  assumes ok: "hyp_ok S h" and c: "fst c < length (vms h)" and q: "queues (length (vms h)) (links h) W R"
  shows "(\<forall>at r h'. spci_msg_send S red at c h = (r, h') \<and> r \<noteq> Panic \<longrightarrow>
      (if r = Ok (Busy, None) \<and> at AND NOTIFY = NOTIFY
       then \<exists>u. VmManager_get (send_target c h) (vms h) = Ok (Some u)
         \<and> (\<not> VmInner_is_empty (vm_inner (vm_at h u)) \<or> \<not> is_configured (vm_inner (vm_at h u)))
         \<and> queues (length (vms h)) (links h') (W(u := arrive (fst c, u + 1) (W u))) R
       else queues (length (vms h)) (links h') W R))
    \<and> (\<forall>i r h'. mailbox_waiter_get i c h = (r, h') \<and> r \<noteq> Panic \<longrightarrow>
      (\<forall>u. fetchable i c h W u \<longrightarrow> r = Ok (Some (vm_id (vm_at h (fst (hd (W u)))))) \<and>
         queues (length (vms h)) (links h') (W(u := tl (W u))) (R(fst (hd (W u)) := arrive (hd (W u)) (R (fst (hd (W u)))))))
      \<and> ((\<nexists>u. fetchable i c h W u) \<longrightarrow> r = Ok None \<and> queues (length (vms h)) (links h') W R))
    \<and> (\<forall>r h'. mailbox_writable_get c h = (r, h') \<longrightarrow>
      r = (case R (fst c) of [] \<Rightarrow> None | w # _ \<Rightarrow> Some (word_of_nat (snd w))) \<and>
      queues (length (vms h)) (links h') W (R(fst c := tl (R (fst c)))))
    \<and> (\<forall>h'. hyp_call S red c h h' \<longrightarrow>
      (\<exists>at r. spci_msg_send S red at c h = (r, h') \<and> r \<noteq> Panic) \<or> (\<exists>i r. mailbox_waiter_get i c h = (r, h') \<and> r \<noteq> Panic)
      \<or> (\<exists>r. mailbox_writable_get c h = (r, h')) \<or> links h' = links h)"
proof (intro conjI allI impI)
  fix at r h' assume run: "spci_msg_send S red at c h = (r, h') \<and> r \<noteq> Panic"
  note w = send_waits [OF conjunct1 [OF run] conjunct2 [OF run]]
  show "if r = Ok (Busy, None) \<and> at AND NOTIFY = NOTIFY
     then \<exists>u. VmManager_get (send_target c h) (vms h) = Ok (Some u)
       \<and> (\<not> VmInner_is_empty (vm_inner (vm_at h u)) \<or> \<not> is_configured (vm_inner (vm_at h u)))
       \<and> queues (length (vms h)) (links h') (W(u := arrive (fst c, u + 1) (W u))) R
     else queues (length (vms h)) (links h') W R"
  proof (cases "r = Ok (Busy, None) \<and> at AND NOTIFY = NOTIFY")
    case True
    then obtain u p where u: "VmManager_get (send_target c h) (vms h) = Ok (Some u)"
      "\<not> VmInner_is_empty (vm_inner (vm_at h u)) \<or> \<not> is_configured (vm_inner (vm_at h u))"
      and p: "wait_for (fst c) u (vm_id (vm_at h u)) (links h) = (p, links h')" "p \<noteq> Panic" using w by auto
    have "queues (length (vms h)) (links h') (W(u := arrive (fst c, u + 1) (W u))) R"
      by (rule wait_for_queues [OF q c get_distinct(1) [OF ok u(1)] get_id [OF ok u(1)] p])
    then show ?thesis using True u by auto
  next
    case False
    then have "links h' = links h" using w by (metis (full_types))
    then show ?thesis using q False by auto
  qed
next
  fix i r h' u assume "mailbox_waiter_get i c h = (r, h') \<and> r \<noteq> Panic" "fetchable i c h W u"
  then show "r = Ok (Some (vm_id (vm_at h (fst (hd (W u))))))"
    "queues (length (vms h)) (links h') (W(u := tl (W u))) (R(fst (hd (W u)) := arrive (hd (W u)) (R (fst (hd (W u))))))"
    using waiter_get_queues(1) [OF q ok] by blast+
next
  fix i r h' assume "mailbox_waiter_get i c h = (r, h') \<and> r \<noteq> Panic" "\<nexists>u. fetchable i c h W u"
  then show "r = Ok None" "queues (length (vms h)) (links h') W R"
    using waiter_get_queues(2) [OF q ok] by blast+
next
  fix r h' assume "mailbox_writable_get c h = (r, h')"
  then show "r = (case R (fst c) of [] \<Rightarrow> None | w # _ \<Rightarrow> Some (word_of_nat (snd w)))"
    "queues (length (vms h)) (links h') W (R(fst c := tl (R (fst c))))"
    using dequeue_queues [OF q c] by (auto simp: mailbox_writable_get_def split: prod.splits)
next
  fix h' assume "hyp_call S red c h h'"
  then show "(\<exists>at r. spci_msg_send S red at c h = (r, h') \<and> r \<noteq> Panic) \<or> (\<exists>i r. mailbox_waiter_get i c h = (r, h') \<and> r \<noteq> Panic)
      \<or> (\<exists>r. mailbox_writable_get c h = (r, h')) \<or> links h' = links h"
    by (rule other_links)
qed

text \<open>VM 1 has a message for VM 2, which has no mailbox yet, and waits until it has one.\<close>

definition demo_sender :: hypervisor where
  "demo_sender = (update_mailbox 0 (\<lambda>mb. mb\<lparr>send := 0x1000\<rparr>) demo_hypervisor)
     \<lparr>mem := (\<lambda>a. if a = 0x1008 then 2 else if a = 0x100a then 1 else 0)\<rparr>"

lemma vm_at_mem: "vm_at (h\<lparr>mem := m\<rparr>) v = vm_at h v" "vm_at (h\<lparr>links := ls\<rparr>) v = vm_at h v"
  by (simp_all add: vm_at_def)

lemma demo_sender_state:
  "links demo_sender = links demo_hypervisor" "length (vms demo_sender) = 2" "hyp_ok demo_stage demo_sender"
proof -
  have f: "mem_frame demo_hypervisor demo_sender"
    by (simp add: demo_sender_def mem_frame_def ptable_of_def update_mailbox_def update_inner_def vm_at_update vm_at_mem)
  show "hyp_ok demo_stage demo_sender" by (rule hyp_ok_frame [OF demo_hyp_ok f])
  show "links demo_sender = links demo_hypervisor" by (simp add: demo_sender_def)
  show "length (vms demo_sender) = 2" using f by (simp add: mem_frame_def demo_vms)
qed

lemma demo_queues: "queues 2 (links demo_sender) (\<lambda>_. []) (\<lambda>_. [])"
  by (simp add: demo_sender_state queues_def family_def demo_hypervisor_def ring_def)

lemma demo_get: "length (vms h) = 2 \<Longrightarrow> VmManager_get 2 (vms h) = Ok (Some 1)"
  by (simp add: VmManager_get_def get_vm_index_def HF_VM_ID_OFFSET_def)

lemma demo_sender_vms:
  "vm_at demo_sender 0 = (demo_vm 1 demo_owned)\<lparr>vm_inner := \<lparr>log_buffer = [], vm_ptable = demo_owned,
      mailbox = \<lparr>mb_state = Empty, recv = 0, send = 0x1000\<rparr>\<rparr>\<rparr>" "vm_at demo_sender (Suc 0) = demo_vm 2 demo_table"
  by (simp_all add: demo_sender_def update_mailbox_def update_inner_def vm_at_update vm_at_mem demo_vms)
    (simp_all add: vm_at_def demo_hypervisor_def demo_vm_def)

lemma demo_send:
  "send_target (0, 0) demo_sender = 2"
  "\<exists>ls. spci_msg_send demo_stage demo_reduce NOTIFY (0, 0) demo_sender = (Ok (Busy, None), demo_sender\<lparr>links := ls\<rparr>)"
proof -
  have msg: "read_message (mem demo_sender) 0x1000 =
      \<lparr>flags = 0, reserved_1 = 0, msg_length = 0, target_vm_id = 2, source_vm_id = 1, reserved_2 = 0\<rparr>"
    by (simp add: read_message_def demo_sender_def read_u16_def read_u32_def)
  show "send_target (0, 0) demo_sender = 2" by (simp add: send_target_def demo_sender_vms msg)
  show "\<exists>ls. spci_msg_send demo_stage demo_reduce NOTIFY (0, 0) demo_sender = (Ok (Busy, None), demo_sender\<lparr>links := ls\<rparr>)"
    by (simp add: spci_msg_send_def Let_def demo_sender_vms msg demo_get demo_sender_state SPCI_MSG_PAYLOAD_MAX_def demo_vm_def is_configured_def
        wait_for_def MAX_VMS_def) blast
qed

lemma demo_configured:
  fixes ls
  defines "h \<equiv> update_mailbox 1 (\<lambda>mb. mb\<lparr>recv := 0x2000\<rparr>) (demo_sender\<lparr>links := ls\<rparr>)"
  shows "hyp_ok demo_stage h" "length (vms h) = 2" "links h = ls" "vm_id (vm_at h 0) = 1"
    "W 1 \<noteq> [] \<Longrightarrow> fetchable 2 (0, 0) h W 1" "mailbox_waiter_get 2 (0, 0) h = (r, h') \<Longrightarrow> r \<noteq> Panic"
    "mailbox_waiter_get 2 (0, 0) h = (r, h') \<Longrightarrow> mem_frame h h'"
proof -
  have f: "mem_frame demo_sender h"
    by (simp add: h_def mem_frame_def ptable_of_def update_mailbox_def update_inner_def vm_at_update vm_at_mem)
  show "hyp_ok demo_stage h" by (rule hyp_ok_frame [OF demo_sender_state(3) f])
  show len: "length (vms h) = 2" using f by (simp add: mem_frame_def demo_sender_state)
  show "links h = ls" by (simp add: h_def)
  show id: "vm_id (vm_at h 0) = 1" using f by (simp add: mem_frame_def demo_sender_vms demo_vm_def)
  show "W 1 \<noteq> [] \<Longrightarrow> fetchable 2 (0, 0) h W 1"
    using demo_get [OF len] id
    by (simp add: fetchable_def current_id_def HF_PRIMARY_VM_ID_def HF_VM_ID_OFFSET_def)
      (simp add: h_def update_mailbox_def update_inner_def vm_at_update vm_at_mem demo_sender_state demo_sender_vms VmInner_is_empty_def demo_vm_def)
  show "mailbox_waiter_get 2 (0, 0) h = (r, h') \<Longrightarrow> r \<noteq> Panic"
    using demo_get [OF len] by (auto simp: mailbox_waiter_get_def Let_def split: if_splits prod.splits option.splits)
  show "mailbox_waiter_get 2 (0, 0) h = (r, h') \<Longrightarrow> mem_frame h h'" by (rule waiter_get_frame)
qed

theorem waiters_refine_queues_witness:
  "\<exists>h1 h2 h3. spci_msg_send demo_stage demo_reduce NOTIFY (0, 0) demo_sender = (Ok (Busy, None), h1)
     \<and> mailbox_waiter_get 2 (0, 0) (update_mailbox 1 (\<lambda>mb. mb\<lparr>recv := 0x2000\<rparr>) h1) = (Ok (Some 1), h2)
     \<and> mailbox_writable_get (0, 0) h2 = (Some 2, h3)"
proof -
  note refine = waiters_refine_queues [where S = demo_stage and red = demo_reduce and c = "(0, 0)"]
  obtain ls where s: "spci_msg_send demo_stage demo_reduce NOTIFY (0, 0) demo_sender = (Ok (Busy, None), demo_sender\<lparr>links := ls\<rparr>)"
    using demo_send(2) by blast
  define h1 where "h1 = update_mailbox 1 (\<lambda>mb. mb\<lparr>recv := 0x2000\<rparr>) (demo_sender\<lparr>links := ls\<rparr>)"
  let ?W = "(\<lambda>_. [])(1 := [(0, 2)]) :: queues"
  have q1: "queues 2 ls ?W (\<lambda>_. [])"
    using conjunct1 [OF refine [OF demo_sender_state(3), of "\<lambda>_. []" "\<lambda>_. []"], THEN spec, THEN spec, THEN spec, THEN mp, OF _ _ conjI [OF s]]
      demo_queues by (auto simp: demo_sender_state demo_get demo_send(1) arrive_def numeral_2_eq_2)
  obtain r h2 where w: "mailbox_waiter_get 2 (0, 0) h1 = (r, h2)" by fastforce
  note d = demo_configured [where ls = ls, folded h1_def]
  have r: "r = Ok (Some 1)" and q2: "queues 2 (links h2) (?W(1 := [])) ((\<lambda>_. [])(0 := [(0, 2)]))"
    using refine [OF d(1), of ?W "\<lambda>_. []", THEN conjunct2, THEN conjunct1, THEN spec, THEN spec, THEN spec, THEN mp,
        OF _ _ conjI [OF w d(6) [OF w]], THEN conjunct1, THEN spec, THEN mp, OF _ _ d(5) [of ?W]] q1
    by (simp_all add: d(2,3,4) arrive_def)
  obtain r3 h3 where g: "mailbox_writable_get (0, 0) h2 = (r3, h3)" by fastforce
  note f = d(7) [OF w]
  have l: "length (vms h2) = 2" using f d(2) by (simp add: mem_frame_def)
  then have "fst (0, 0) < length (vms h2)" by simp
  then have "r3 = Some 2"
    using refine [OF hyp_ok_frame [OF d(1) f], of "?W(1 := [])" "(\<lambda>_. [])(0 := [(0, 2)])",
        THEN conjunct2, THEN conjunct2, THEN conjunct1, THEN spec, THEN spec, THEN mp, OF _ _ g] q2
    by (simp add: l)
  then show ?thesis using s w r g unfolding h1_def by blast
qed

end
