(* ===== verification/Fdt.thy ===== *)
theory Fdt
  imports Bytes
begin

text \<open>
  The parser of flattened device trees (src/hfo2/src/fdt.rs).

  A slice is a pointer and a length; what it holds is read from byte memory. The tokenizer is the
  slice that is left and the slice of the strings; its operations return the option of the source
  together with the new tokenizer, and \<open>Panic\<close> where the source panics: slicing out of bounds, and
  the \<open>unwrap\<close> of a token that does not exist. Operations that compare names return an option whose
  \<open>None\<close> says that the comparison does not end.

  The specification is the tree that the bytes encode: \<open>enc_tree\<close> writes a tree, and the operations
  are those of the tree.
\<close>

section \<open>Slices\<close>

type_synonym slice = "usize \<times> nat"

definition slice_bytes :: "(usize \<Rightarrow> u8) \<Rightarrow> slice \<Rightarrow> u8 list" where
  "slice_bytes m s = map (\<lambda>i. m (fst s + of_nat i)) [0..<snd s]"

text \<open>\<open>split_at\<close>, and the second part of it.\<close>

definition split_at :: "nat \<Rightarrow> slice \<Rightarrow> (slice \<times> slice) res" where
  "split_at n s =
     (if n \<le> snd s then Ok ((fst s, n), (fst s + of_nat n, snd s - n)) else Panic)"

section \<open>The tokenizer\<close>

datatype FdtToken = BeginNode | EndNode | Prop | Nop | End

definition FdtToken_try_from :: "u32 \<Rightarrow> FdtToken res" where
  "FdtToken_try_from v =
     (if v = 1 then Ok BeginNode else if v = 2 then Ok EndNode else if v = 3 then Ok Prop
      else if v = 4 then Ok Nop else if v = 9 then Ok End else Err ())"

definition FDT_VERSION :: u32 where "FDT_VERSION = 17"
definition FDT_MAGIC :: u32 where "FDT_MAGIC = 0xd00dfeed"
definition FDT_TOKEN_ALIGNMENT :: nat where "FDT_TOKEN_ALIGNMENT = 4"

record fdt_tokenizer =
  tk_cur :: slice
  tk_strs :: slice

type_synonym 'a parsed = "('a option \<times> fdt_tokenizer) res"

text \<open>The operator \<open>?\<close> on an option.\<close>

definition parse_bind :: "'a parsed \<Rightarrow> ('a \<Rightarrow> fdt_tokenizer \<Rightarrow> 'b parsed) \<Rightarrow> 'b parsed" where
  "parse_bind r f =
     (case r of
        Ok (Some x, t) \<Rightarrow> f x t
      | Ok (None, t) \<Rightarrow> Ok (None, t)
      | Err e \<Rightarrow> Err e
      | Panic \<Rightarrow> Panic)"

definition fdt_align :: "fdt_tokenizer \<Rightarrow> fdt_tokenizer res" where
  "fdt_align t =
     (let modular = unat (fst (tk_cur t)) mod FDT_TOKEN_ALIGNMENT
      in case split_at ((FDT_TOKEN_ALIGNMENT - modular) mod FDT_TOKEN_ALIGNMENT) (tk_cur t) of
           Ok (_, cur) \<Rightarrow> Ok (t\<lparr>tk_cur := cur\<rparr>)
         | Err e \<Rightarrow> Err e
         | Panic \<Rightarrow> Panic)"

text \<open>The common part of \<open>bytes\<close> and \<open>str\<close>: split off \<open>n\<close> bytes and align.\<close>

definition fdt_take :: "nat \<Rightarrow> fdt_tokenizer \<Rightarrow> slice parsed" where
  "fdt_take n t =
     (case split_at n (tk_cur t) of
        Ok (first, rest) \<Rightarrow>
          (case fdt_align (t\<lparr>tk_cur := rest\<rparr>) of
             Ok t \<Rightarrow> Ok (Some first, t)
           | Err e \<Rightarrow> Err e
           | Panic \<Rightarrow> Panic)
      | Err e \<Rightarrow> Err e
      | Panic \<Rightarrow> Panic)"

definition fdt_bytes :: "nat \<Rightarrow> fdt_tokenizer \<Rightarrow> slice parsed" where
  "fdt_bytes n t = (if snd (tk_cur t) < n then Ok (None, t) else fdt_take n t)"

definition fdt_u32 :: "(usize \<Rightarrow> u8) \<Rightarrow> fdt_tokenizer \<Rightarrow> u32 parsed" where
  "fdt_u32 m t = parse_bind (fdt_bytes 4 t) (\<lambda>b t. Ok (Some (read_be_u32 m (fst b)), t))"

text \<open>An operation only moves forward in the slice.\<close>

definition moves :: "fdt_tokenizer \<Rightarrow> nat \<Rightarrow> fdt_tokenizer \<Rightarrow> bool" where
  "moves t k t' \<longleftrightarrow> k \<le> snd (tk_cur t)
     \<and> t' = t\<lparr>tk_cur := (fst (tk_cur t) + of_nat k, snd (tk_cur t) - k)\<rparr>"

lemma moves_refl: "moves t 0 t"
  by (simp add: moves_def)

lemma moves_trans: "moves t k t' \<Longrightarrow> moves t' l t'' \<Longrightarrow> moves t (k + l) t''"
  by (auto simp: moves_def ac_simps)

lemma moves_len: "moves t k t' \<Longrightarrow> snd (tk_cur t') + k = snd (tk_cur t)"
  by (auto simp: moves_def)

lemma fdt_take_moves:
  assumes "fdt_take n t = Ok (r, t')"
  shows "r = Some (fst (tk_cur t), n) \<and> (\<exists>k. n \<le> k \<and> moves t k t')"
proof -
  from assms have r: "r = Some (fst (tk_cur t), n)" and n: "n \<le> snd (tk_cur t)"
    by (auto simp: fdt_take_def split_at_def split: if_splits outcome.splits)
  let ?r = "t\<lparr>tk_cur := (fst (tk_cur t) + of_nat n, snd (tk_cur t) - n)\<rparr>"
  have "fdt_align ?r = Ok t'"
    using assms n by (auto simp: fdt_take_def split_at_def split: outcome.splits)
  then obtain l where "moves ?r l t'"
    by (fastforce simp: fdt_align_def split_at_def moves_def Let_def split: if_splits)
  moreover have "moves t n ?r" using n by (simp add: moves_def)
  ultimately show ?thesis using r moves_trans by (meson le_add1)
qed

lemma fdt_u32_moves:
  assumes "fdt_u32 m t = Ok (r, t')"
  shows "\<exists>k. moves t k t' \<and> (r \<noteq> None \<longrightarrow> 4 \<le> k)"
proof (cases "snd (tk_cur t) < 4")
  case True
  then show ?thesis using assms moves_refl by (auto simp: fdt_u32_def fdt_bytes_def parse_bind_def)
next
  case False
  then have "fdt_take 4 t = Ok (Some (fst (tk_cur t), 4), t')"
    using assms by (auto simp: fdt_u32_def fdt_bytes_def parse_bind_def dest: fdt_take_moves
        split: outcome.splits option.splits)
  then show ?thesis using fdt_take_moves by blast
qed

function fdt_token :: "(usize \<Rightarrow> u8) \<Rightarrow> fdt_tokenizer \<Rightarrow> FdtToken parsed" where
  "fdt_token m t =
     (case fdt_u32 m t of
        Ok (Some v, t') \<Rightarrow>
          (case FdtToken_try_from v of
             Ok tok \<Rightarrow> if tok \<noteq> Nop then Ok (Some tok, t') else fdt_token m t'
           | _ \<Rightarrow> Panic)
      | Ok (None, t') \<Rightarrow> Ok (None, t')
      | Err e \<Rightarrow> Err e
      | Panic \<Rightarrow> Panic)"
  by pat_completeness auto
termination
proof (relation "measure (\<lambda>(m, t). snd (tk_cur t))")
  fix m t x1 x v t' tok
  assume "fdt_u32 m t = Ok x1" "(x, t') = x1" "x = Some v"
  then have "fdt_u32 m t = Ok (Some v, t')" by simp
  from fdt_u32_moves [OF this] show "((m, t'), m, t) \<in> measure (\<lambda>(m, t). snd (tk_cur t))"
    by (auto dest: moves_len)
qed simp

declare fdt_token.simps [simp del]

definition fdt_rewind :: "fdt_tokenizer \<Rightarrow> fdt_tokenizer" where
  "fdt_rewind t = t\<lparr>tk_cur := (fst (tk_cur t) - of_nat FDT_TOKEN_ALIGNMENT, snd (tk_cur t) + FDT_TOKEN_ALIGNMENT)\<rparr>"

definition fdt_token_expect :: "(usize \<Rightarrow> u8) \<Rightarrow> FdtToken \<Rightarrow> fdt_tokenizer \<Rightarrow> FdtToken parsed" where
  "fdt_token_expect m expect t =
     parse_bind (fdt_token m t) (\<lambda>tok t. if tok \<noteq> expect then Ok (None, fdt_rewind t) else Ok (Some tok, t))"

text \<open>\<open>str\<close>: the bytes up to the first zero byte, which is included.\<close>

definition fdt_str :: "(usize \<Rightarrow> u8) \<Rightarrow> fdt_tokenizer \<Rightarrow> slice parsed" where
  "fdt_str m t =
     (let i = strnlen_loop m (fst (tk_cur t)) (snd (tk_cur t))
      in if i = snd (tk_cur t) then Ok (None, t) else fdt_take (i + 1) t)"

definition fdt_collapse :: "fdt_tokenizer \<Rightarrow> fdt_tokenizer" where
  "fdt_collapse t = t\<lparr>tk_cur := (fst (tk_cur t) + of_nat (snd (tk_cur t)), 0)\<rparr>"

text \<open>A guard, or an explicit call, collapses the tokenizer when an operation returns nothing.\<close>

definition or_collapse :: "'a parsed \<Rightarrow> 'a parsed" where
  "or_collapse r = (case r of Ok (None, t) \<Rightarrow> Ok (None, fdt_collapse t) | _ \<Rightarrow> r)"

definition next_property :: "(usize \<Rightarrow> u8) \<Rightarrow> fdt_tokenizer \<Rightarrow> (usize \<times> slice) parsed" where
  "next_property m t =
     parse_bind (fdt_token_expect m Prop t) (\<lambda>_ t. or_collapse
       (parse_bind (fdt_u32 m t) (\<lambda>sz t.
        parse_bind (fdt_u32 m t) (\<lambda>nameoff t.
        parse_bind (fdt_bytes (unat sz) t) (\<lambda>buf t.
          if unat nameoff \<le> snd (tk_strs t) then Ok (Some (fst (tk_strs t) + ucast nameoff, buf), t)
          else Panic)))))"

definition next_subnode :: "(usize \<Rightarrow> u8) \<Rightarrow> fdt_tokenizer \<Rightarrow> slice parsed" where
  "next_subnode m t =
     parse_bind (fdt_token_expect m BeginNode t) (\<lambda>_ t. or_collapse (fdt_str m t))"

section \<open>Progress of the tokenizer\<close>

lemma parse_bind_Ok:
  "parse_bind r f = Ok (y, t') \<longleftrightarrow>
     (\<exists>x t. r = Ok (Some x, t) \<and> f x t = Ok (y, t')) \<or> (r = Ok (None, t') \<and> y = None)"
  by (auto simp: parse_bind_def split: outcome.splits option.splits prod.splits)

lemma fdt_token_moves:
  "fdt_token m t = Ok (r, t') \<Longrightarrow> \<exists>k. moves t k t' \<and> (r \<noteq> None \<longrightarrow> 4 \<le> k)"
proof (induction m t rule: fdt_token.induct)
  case (1 m t)
  from 1(2) obtain u t1 where u: "fdt_u32 m t = Ok (u, t1)"
    by (subst (asm) fdt_token.simps) (auto split: outcome.splits)
  obtain k where k: "moves t k t1" "u \<noteq> None \<longrightarrow> 4 \<le> k" using fdt_u32_moves [OF u] by blast
  show ?case
  proof (cases u)
    case None
    then show ?thesis using 1(2) u k by (subst (asm) fdt_token.simps) auto
  next
    case (Some v)
    then obtain tok where tok: "FdtToken_try_from v = Ok tok"
      using 1(2) u by (subst (asm) fdt_token.simps) (auto split: outcome.splits)
    show ?thesis
    proof (cases "tok = Nop")
      case True
      then have "fdt_token m t1 = Ok (r, t')"
        using 1(2) u Some tok by (subst (asm) fdt_token.simps) simp
      then obtain l where "moves t1 l t'" using 1(1) [OF u refl Some tok] True by blast
      then show ?thesis using moves_trans [OF k(1)] k(2) Some by (intro exI [of _ "k + l"]) auto
    next
      case False
      then show ?thesis using 1(2) u Some tok k by (subst (asm) fdt_token.simps) auto
    qed
  qed
qed

lemma moves_rewind:
  assumes "moves t k t'" "4 \<le> k"
  shows "moves t (k - 4) (fdt_rewind t')"
proof -
  have "(of_nat k :: usize) = of_nat (k - 4) + 4"
    using assms(2) by (metis le_add_diff_inverse2 of_nat_add of_nat_numeral)
  then show ?thesis
    using assms by (auto simp: moves_def fdt_rewind_def FDT_TOKEN_ALIGNMENT_def)
qed

lemma fdt_token_expect_moves:
  assumes "fdt_token_expect m e t = Ok (r, t')"
  shows "\<exists>k. moves t k t' \<and> (r \<noteq> None \<longrightarrow> 4 \<le> k)"
  using assms unfolding fdt_token_expect_def parse_bind_Ok
proof (elim disjE exE conjE)
  fix tok t1
  assume "fdt_token m t = Ok (Some tok, t1)"
    and r: "(if tok \<noteq> e then Ok (None, fdt_rewind t1) else Ok (Some tok, t1)) = Ok (r, t')"
  then obtain k where k: "moves t k t1" "4 \<le> k" using fdt_token_moves by blast
  show ?thesis
    using r k moves_rewind [OF k] by (cases "tok = e") auto
qed (use fdt_token_moves in blast)

lemma moves_collapse: "moves t (snd (tk_cur t)) (fdt_collapse t)"
  by (simp add: moves_def fdt_collapse_def)

lemma or_collapse_moves:
  assumes "or_collapse p = Ok (r, t')" "\<And>s t1. p = Ok (s, t1) \<Longrightarrow> \<exists>k. moves t k t1"
  shows "\<exists>k. moves t k t'"
proof (cases "p = Ok (r, t') \<and> r \<noteq> None")
  case False
  with assms(1) obtain t1 where "p = Ok (None, t1)" "t' = fdt_collapse t1"
    by (auto simp: or_collapse_def split: outcome.splits option.splits prod.splits)
  then show ?thesis using assms(2) moves_collapse moves_trans by metis
qed (use assms(2) in blast)

lemma fdt_bytes_moves: "fdt_bytes n t = Ok (r, t') \<Longrightarrow> \<exists>k. moves t k t'"
  using fdt_take_moves [of n t r t'] moves_refl by (auto simp: fdt_bytes_def split: if_splits)

lemma fdt_str_moves: "fdt_str m t = Ok (r, t') \<Longrightarrow> \<exists>k. moves t k t'"
  using moves_refl by (auto simp: fdt_str_def Let_def split: if_splits dest: fdt_take_moves)

lemma parse_bind_moves:
  assumes "parse_bind p f = Ok (r, t')" "\<And>s t1. p = Ok (s, t1) \<Longrightarrow> \<exists>k. moves t k t1"
    "\<And>x t1. f x t1 = Ok (r, t') \<Longrightarrow> \<exists>k. moves t1 k t'"
  shows "\<exists>k. moves t k t'"
  using assms(1) unfolding parse_bind_Ok using assms(2,3) moves_trans by metis

lemma next_property_moves:
  assumes "next_property m t = Ok (r, t')"
  shows "\<exists>k. moves t k t' \<and> (r \<noteq> None \<longrightarrow> 4 \<le> k)"
  using assms unfolding next_property_def
proof (subst (asm) parse_bind_Ok, elim disjE exE conjE)
  fix tok t1
  let ?p = "\<lambda>t. parse_bind (fdt_u32 m t) (\<lambda>sz t. parse_bind (fdt_u32 m t) (\<lambda>nameoff t.
        parse_bind (fdt_bytes (unat sz) t) (\<lambda>buf t.
          if unat nameoff \<le> snd (tk_strs t) then Ok (Some (fst (tk_strs t) + ucast nameoff, buf), t)
          else Panic)))"
  assume 1: "fdt_token_expect m Prop t = Ok (Some tok, t1)" and 2: "or_collapse (?p t1) = Ok (r, t')"
  have "\<exists>k. moves t1 k t2" if "?p t1 = Ok (s, t2)" for s t2
    using that fdt_u32_moves fdt_bytes_moves moves_refl
    by (elim parse_bind_moves) (blast | auto split: if_splits)+
  then obtain l where "moves t1 l t'" using or_collapse_moves [OF 2] by blast
  moreover obtain k where "moves t k t1" "4 \<le> k" using fdt_token_expect_moves [OF 1] by auto
  ultimately show ?thesis using moves_trans trans_le_add1 by blast
qed (use fdt_token_expect_moves in blast)

lemma next_subnode_moves:
  assumes "next_subnode m t = Ok (r, t')"
  shows "\<exists>k. moves t k t' \<and> (r \<noteq> None \<longrightarrow> 4 \<le> k)"
  using assms unfolding next_subnode_def
proof (subst (asm) parse_bind_Ok, elim disjE exE conjE)
  fix tok t1
  assume 1: "fdt_token_expect m BeginNode t = Ok (Some tok, t1)" and 2: "or_collapse (fdt_str m t1) = Ok (r, t')"
  obtain l where "moves t1 l t'" using or_collapse_moves [OF 2] fdt_str_moves by blast
  moreover obtain k where "moves t k t1" "4 \<le> k" using fdt_token_expect_moves [OF 1] by auto
  ultimately show ?thesis using moves_trans trans_le_add1 by blast
qed (use fdt_token_expect_moves in blast)

section \<open>Loops of the tokenizer\<close>

function skip_properties :: "(usize \<Rightarrow> u8) \<Rightarrow> fdt_tokenizer \<Rightarrow> fdt_tokenizer res" where
  "skip_properties m t =
     (case next_property m t of
        Ok (Some _, t') \<Rightarrow> skip_properties m t'
      | Ok (None, t') \<Rightarrow> Ok t'
      | Err e \<Rightarrow> Err e
      | Panic \<Rightarrow> Panic)"
  by pat_completeness auto
termination
proof (relation "measure (\<lambda>(m, t). snd (tk_cur t))")
  fix m t x1 x t' v
  assume "next_property m t = Ok x1" "(x, t') = x1" "x = Some v"
  then have "next_property m t = Ok (Some v, t')" by simp
  from next_property_moves [OF this] show "((m, t'), m, t) \<in> measure (\<lambda>(m, t). snd (tk_cur t))"
    by (auto dest: moves_len)
qed simp

declare skip_properties.simps [simp del]

lemma skip_properties_moves: "skip_properties m t = Ok t' \<Longrightarrow> \<exists>k. moves t k t'"
proof (induction m t rule: skip_properties.induct)
  case (1 m t)
  from 1(2) obtain r t1 where r: "next_property m t = Ok (r, t1)"
    by (subst (asm) skip_properties.simps) (auto split: outcome.splits)
  show ?case
  proof (cases r)
    case None
    then show ?thesis using 1(2) r next_property_moves [OF r] by (subst (asm) skip_properties.simps) auto
  next
    case (Some v)
    then have "skip_properties m t1 = Ok t'" using 1(2) r by (subst (asm) skip_properties.simps) simp
    with 1(1) [OF r refl Some] next_property_moves [OF r] moves_trans show ?thesis by metis
  qed
qed

text \<open>
  The two loops of \<open>skip_node\<close>. The inner one enters the subnodes that follow and counts them.
\<close>

function skip_subnodes :: "(usize \<Rightarrow> u8) \<Rightarrow> nat \<Rightarrow> fdt_tokenizer \<Rightarrow> (nat \<times> fdt_tokenizer) res" where
  "skip_subnodes m pending t =
     (case next_subnode m t of
        Ok (Some _, t') \<Rightarrow>
          (case skip_properties m t' of
             Ok t'' \<Rightarrow> skip_subnodes m (pending + 1) t''
           | Err e \<Rightarrow> Err e
           | Panic \<Rightarrow> Panic)
      | Ok (None, t') \<Rightarrow> Ok (pending, t')
      | Err e \<Rightarrow> Err e
      | Panic \<Rightarrow> Panic)"
  by pat_completeness auto
termination
proof (relation "measure (\<lambda>(m, n, t). snd (tk_cur t))")
  fix m and pending :: nat and t x1 x t' v t''
  assume "next_subnode m t = Ok x1" "(x, t') = x1" "x = Some v" "skip_properties m t' = Ok t''"
  then have "next_subnode m t = Ok (Some v, t')" "skip_properties m t' = Ok t''" by simp_all
  from next_subnode_moves [OF this(1)] skip_properties_moves [OF this(2)]
  show "((m, pending + 1, t''), m, pending, t) \<in> measure (\<lambda>(m, n, t). snd (tk_cur t))"
    by (auto dest!: moves_len)
qed simp

declare skip_subnodes.simps [simp del]

lemma skip_subnodes_moves:
  "skip_subnodes m n t = Ok (n', t') \<Longrightarrow> \<exists>k. moves t k t'"
proof (induction m n t rule: skip_subnodes.induct)
  case (1 m n t)
  from 1(2) obtain r t1 where r: "next_subnode m t = Ok (r, t1)"
    by (subst (asm) skip_subnodes.simps) (auto split: outcome.splits)
  show ?case
  proof (cases r)
    case None
    then show ?thesis using 1(2) r next_subnode_moves [OF r] by (subst (asm) skip_subnodes.simps) auto
  next
    case (Some v)
    then obtain t2 where t2: "skip_properties m t1 = Ok t2" "skip_subnodes m (n + 1) t2 = Ok (n', t')"
      using 1(2) r by (subst (asm) skip_subnodes.simps) (auto split: outcome.splits)
    with 1(1) [OF r refl Some t2(1)] next_subnode_moves [OF r] skip_properties_moves [OF t2(1)] moves_trans
    show ?thesis by metis
  qed
qed

function skip_node_loop :: "(usize \<Rightarrow> u8) \<Rightarrow> nat \<Rightarrow> fdt_tokenizer \<Rightarrow> unit parsed" where
  "skip_node_loop m pending t =
     (if pending = 0 then Ok (Some (), t)
      else
        case skip_subnodes m pending t of
          Ok (pending', t') \<Rightarrow>
            (case fdt_token m t' of
               Ok (Some tok, t'') \<Rightarrow>
                 if tok \<noteq> EndNode then Ok (None, fdt_collapse t'')
                 else skip_node_loop m (pending' - 1) t''
             | Ok (None, t'') \<Rightarrow> Ok (None, t'')
             | Err e \<Rightarrow> Err e
             | Panic \<Rightarrow> Panic)
        | Err e \<Rightarrow> Err e
        | Panic \<Rightarrow> Panic)"
  by pat_completeness auto
termination
proof (relation "measure (\<lambda>(m, n, t). snd (tk_cur t))")
  fix m and pending :: nat and t x1 pending' t' x2 x t'' tok
  assume "skip_subnodes m pending t = Ok x1" "(pending', t') = x1" "fdt_token m t' = Ok x2" "(x, t'') = x2" "x = Some tok"
  then have "skip_subnodes m pending t = Ok (pending', t')" "fdt_token m t' = Ok (Some tok, t'')" by simp_all
  from skip_subnodes_moves [OF this(1)] fdt_token_moves [OF this(2)]
  show "((m, pending' - 1, t''), m, pending, t) \<in> measure (\<lambda>(m, n, t). snd (tk_cur t))"
    by (auto dest!: moves_len)
qed simp

declare skip_node_loop.simps [simp del]

definition skip_node :: "(usize \<Rightarrow> u8) \<Rightarrow> fdt_tokenizer \<Rightarrow> unit parsed" where
  "skip_node m t =
     (case skip_properties m t of
        Ok t' \<Rightarrow> skip_node_loop m 1 t'
      | Err e \<Rightarrow> Err e
      | Panic \<Rightarrow> Panic)"

lemma skip_node_loop_moves: "skip_node_loop m n t = Ok (r, t') \<Longrightarrow> \<exists>k. moves t k t'"
proof (induction m n t rule: skip_node_loop.induct)
  case (1 m n t)
  show ?case
  proof (cases "n = 0")
    case True
    then show ?thesis using 1(2) moves_refl by (subst (asm) skip_node_loop.simps) auto
  next
    case False
    then obtain n1 t1 x t2 where s: "skip_subnodes m n t = Ok (n1, t1)" "fdt_token m t1 = Ok (x, t2)"
      using 1(2) by (subst (asm) skip_node_loop.simps) (auto split: outcome.splits)
    obtain k where k: "moves t k t2"
      using skip_subnodes_moves [OF s(1)] fdt_token_moves [OF s(2)] moves_trans by metis
    show ?thesis
    proof (cases "x = Some EndNode")
      case True
      then have "skip_node_loop m (n1 - 1) t2 = Ok (r, t')"
        using 1(2) False s by (subst (asm) skip_node_loop.simps) simp
      then show ?thesis using 1(1) [OF False s(1) refl s(2) refl True] k moves_trans by metis
    next
      case False
      then have "t' = t2 \<or> t' = fdt_collapse t2"
        using 1(2) \<open>n \<noteq> 0\<close> s by (subst (asm) skip_node_loop.simps) (auto split: option.splits)
      then show ?thesis using k moves_collapse moves_trans by metis
    qed
  qed
qed

lemma skip_node_moves: "skip_node m t = Ok (r, t') \<Longrightarrow> \<exists>k. moves t k t'"
  using skip_properties_moves skip_node_loop_moves moves_trans
  by (fastforce simp: skip_node_def split: outcome.splits)

section \<open>Nodes\<close>

record FdtNode =
  fn_hdr :: usize
  fn_data :: slice
  fn_strs :: slice

text \<open>The fields of the header, as numbers in memory.\<close>

definition fdt_magic :: "(usize \<Rightarrow> u8) \<Rightarrow> usize \<Rightarrow> u32" where "fdt_magic m hdr = read_be_u32 m hdr"
definition fdt_totalsize :: "(usize \<Rightarrow> u8) \<Rightarrow> usize \<Rightarrow> u32" where "fdt_totalsize m hdr = read_be_u32 m (hdr + 4)"
definition fdt_off_dt_struct :: "(usize \<Rightarrow> u8) \<Rightarrow> usize \<Rightarrow> u32" where "fdt_off_dt_struct m hdr = read_be_u32 m (hdr + 8)"
definition fdt_off_dt_strings :: "(usize \<Rightarrow> u8) \<Rightarrow> usize \<Rightarrow> u32" where "fdt_off_dt_strings m hdr = read_be_u32 m (hdr + 12)"
definition fdt_off_mem_rsvmap :: "(usize \<Rightarrow> u8) \<Rightarrow> usize \<Rightarrow> u32" where "fdt_off_mem_rsvmap m hdr = read_be_u32 m (hdr + 16)"
definition fdt_version :: "(usize \<Rightarrow> u8) \<Rightarrow> usize \<Rightarrow> u32" where "fdt_version m hdr = read_be_u32 m (hdr + 20)"
definition fdt_last_comp_version :: "(usize \<Rightarrow> u8) \<Rightarrow> usize \<Rightarrow> u32" where "fdt_last_comp_version m hdr = read_be_u32 m (hdr + 24)"
definition fdt_size_dt_strings :: "(usize \<Rightarrow> u8) \<Rightarrow> usize \<Rightarrow> u32" where "fdt_size_dt_strings m hdr = read_be_u32 m (hdr + 32)"
definition fdt_size_dt_struct :: "(usize \<Rightarrow> u8) \<Rightarrow> usize \<Rightarrow> u32" where "fdt_size_dt_struct m hdr = read_be_u32 m (hdr + 36)"

definition size_of_FdtHeader :: usize where "size_of_FdtHeader = 40"
definition size_of_FdtReserveEntry :: nat where "size_of_FdtReserveEntry = 16"

definition fdt_parse_number :: "(usize \<Rightarrow> u8) \<Rightarrow> slice \<Rightarrow> u64 option res" where
  "fdt_parse_number m data =
     (if \<not> is_aligned (fst data) (of_nat FDT_TOKEN_ALIGNMENT) then Panic
      else if snd data = 4 then Ok (Some (ucast (read_be_u32 m (fst data))))
      else if snd data = 8 then Ok (Some (read_be_u64 m (fst data)))
      else Ok None)"

definition new_root :: "(usize \<Rightarrow> u8) \<Rightarrow> usize \<Rightarrow> FdtNode option" where
  "new_root m hdr =
     (if fdt_magic m hdr \<noteq> FDT_MAGIC then None
      else
        let max_ver = fdt_version m hdr;
            min_ver = fdt_last_comp_version m hdr
        in if FDT_VERSION < min_ver \<or> FDT_VERSION > max_ver then None
           else Some
             \<lparr>fn_hdr = hdr,
              fn_data = (hdr + ucast (fdt_off_dt_struct m hdr), unat (fdt_size_dt_struct m hdr)),
              fn_strs = (hdr + ucast (fdt_off_dt_strings m hdr), unat (fdt_size_dt_strings m hdr))\<rparr>)"

definition node_tokenizer :: "FdtNode \<Rightarrow> fdt_tokenizer" where
  "node_tokenizer n = \<lparr>tk_cur = fn_data n, tk_strs = fn_strs n\<rparr>"

function read_property_loop :: "(usize \<Rightarrow> u8) \<Rightarrow> usize \<Rightarrow> fdt_tokenizer \<Rightarrow> slice res option" where
  "read_property_loop m nm t =
     (case next_property m t of
        Ok (Some (prop_name, buf), t') \<Rightarrow>
          (case strcmp m prop_name nm of
             None \<Rightarrow> None
           | Some c \<Rightarrow> if c = 0 then Some (Ok buf) else read_property_loop m nm t')
      | Ok (None, t') \<Rightarrow> Some (Err ())
      | Err e \<Rightarrow> Some (Err e)
      | Panic \<Rightarrow> Some Panic)"
  by pat_completeness auto
termination
proof (relation "measure (\<lambda>(m, nm, t). snd (tk_cur t))")
  fix m and nm :: usize and t x1 x t' v
  assume "next_property m t = Ok x1" "(x, t') = x1" "x = Some v"
  then have "next_property m t = Ok (Some v, t')" by simp
  from next_property_moves [OF this] show "((m, nm, t'), m, nm, t) \<in> measure (\<lambda>(m, nm, t). snd (tk_cur t))"
    by (auto dest: moves_len)
qed simp

declare read_property_loop.simps [simp del]

definition read_property :: "(usize \<Rightarrow> u8) \<Rightarrow> usize \<Rightarrow> FdtNode \<Rightarrow> slice res option" where
  "read_property m nm n = read_property_loop m nm (node_tokenizer n)"

text \<open>The common end of \<open>first_child\<close> and \<open>next_sibling\<close>: enter the next subnode.\<close>

definition enter_subnode :: "(usize \<Rightarrow> u8) \<Rightarrow> fdt_tokenizer \<Rightarrow> FdtNode \<Rightarrow> (slice option \<times> FdtNode) res" where
  "enter_subnode m t n =
     (case next_subnode m t of
        Ok (Some nm, t') \<Rightarrow> Ok (Some nm, n\<lparr>fn_data := tk_cur t'\<rparr>)
      | Ok (None, t') \<Rightarrow> Ok (None, n)
      | Err e \<Rightarrow> Err e
      | Panic \<Rightarrow> Panic)"

definition first_child :: "(usize \<Rightarrow> u8) \<Rightarrow> FdtNode \<Rightarrow> (slice option \<times> FdtNode) res" where
  "first_child m n =
     (case skip_properties m (node_tokenizer n) of
        Ok t \<Rightarrow> enter_subnode m t n
      | Err e \<Rightarrow> Err e
      | Panic \<Rightarrow> Panic)"

definition next_sibling :: "(usize \<Rightarrow> u8) \<Rightarrow> FdtNode \<Rightarrow> (slice option \<times> FdtNode) res" where
  "next_sibling m n =
     (case skip_node m (node_tokenizer n) of
        Ok (Some _, t) \<Rightarrow> enter_subnode m t n
      | Ok (None, t) \<Rightarrow> Ok (None, n)
      | Err e \<Rightarrow> Err e
      | Panic \<Rightarrow> Panic)"

function find_child_loop :: "(usize \<Rightarrow> u8) \<Rightarrow> usize \<Rightarrow> fdt_tokenizer \<Rightarrow> slice option res option" where
  "find_child_loop m child t =
     (case next_subnode m t of
        Ok (Some nm, t') \<Rightarrow>
          (case strcmp m (fst nm) child of
             None \<Rightarrow> None
           | Some c \<Rightarrow>
               if c = 0 then Some (Ok (Some (tk_cur t')))
               else (case skip_node m t' of
                       Ok (_, t'') \<Rightarrow> find_child_loop m child t''
                     | Err e \<Rightarrow> Some (Err e)
                     | Panic \<Rightarrow> Some Panic))
      | Ok (None, t') \<Rightarrow> Some (Ok None)
      | Err e \<Rightarrow> Some (Err e)
      | Panic \<Rightarrow> Some Panic)"
  by pat_completeness auto
termination
proof (relation "measure (\<lambda>(m, nm, t). snd (tk_cur t))")
  fix m and child :: usize and t x1 x t' nm x2 r t''
  assume "next_subnode m t = Ok x1" "(x, t') = x1" "x = Some nm" "skip_node m t' = Ok x2" "(r, t'') = x2"
  then have "next_subnode m t = Ok (Some nm, t')" "skip_node m t' = Ok (r, t'')" by simp_all
  from next_subnode_moves [OF this(1)] skip_node_moves [OF this(2)]
  show "((m, child, t''), m, child, t) \<in> measure (\<lambda>(m, nm, t). snd (tk_cur t))"
    by (auto dest!: moves_len)
qed simp

declare find_child_loop.simps [simp del]

definition find_child :: "(usize \<Rightarrow> u8) \<Rightarrow> usize \<Rightarrow> FdtNode \<Rightarrow> (unit option \<times> FdtNode) res option" where
  "find_child m child n =
     (case skip_properties m (node_tokenizer n) of
        Ok t \<Rightarrow>
          (case find_child_loop m child t of
             None \<Rightarrow> None
           | Some (Ok (Some d)) \<Rightarrow> Some (Ok (Some (), n\<lparr>fn_data := d\<rparr>))
           | Some (Ok None) \<Rightarrow> Some (Ok (None, n))
           | Some (Err e) \<Rightarrow> Some (Err e)
           | Some Panic \<Rightarrow> Some Panic)
      | Err e \<Rightarrow> Some (Err e)
      | Panic \<Rightarrow> Some Panic)"

section \<open>Memory reservations\<close>

text \<open>
  \<open>add_mem_reservation\<close>: the offsets grow by the size of an entry, everything from the first entry
  on moves up (\<open>ptr::copy\<close> reads the old bytes first), and the new entry comes first.
\<close>

definition add_mem_reservation :: "usize \<Rightarrow> u64 \<Rightarrow> u64 \<Rightarrow> (usize \<Rightarrow> u8) \<Rightarrow> (usize \<Rightarrow> u8)" where
  "add_mem_reservation hdr addr len m =
     (let begin = hdr + ucast (fdt_off_mem_rsvmap m hdr);
          old_size = unat (fdt_totalsize m hdr - fdt_off_mem_rsvmap m hdr);
          sz = of_nat size_of_FdtReserveEntry;
          m = write_bytes (hdr + 4) (be_u32 (fdt_totalsize m hdr + sz)) m;
          m = write_bytes (hdr + 8) (be_u32 (fdt_off_dt_struct m hdr + sz)) m;
          m = write_bytes (hdr + 12) (be_u32 (fdt_off_dt_strings m hdr + sz)) m;
          m = copy_bytes m begin (begin + of_nat size_of_FdtReserveEntry) old_size m;
          m = write_bytes begin (be_u64 addr) m
      in write_bytes (begin + 8) (be_u64 len) m)"

section \<open>The C interface\<close>

text \<open>
  The C structure has two pointers for the data. The conversion from it does not use the second one:
  it takes the length from the header again.
\<close>

record fdt_node =
  cn_hdr :: usize
  cn_begin :: usize
  cn_end :: usize
  cn_strs :: usize

definition FdtNode_from :: "(usize \<Rightarrow> u8) \<Rightarrow> fdt_node \<Rightarrow> FdtNode" where
  "FdtNode_from m n =
     \<lparr>fn_hdr = cn_hdr n,
      fn_data = (cn_begin n, unat (fdt_size_dt_struct m (cn_hdr n))),
      fn_strs = (cn_strs n, unat (fdt_size_dt_strings m (cn_hdr n)))\<rparr>"

definition fdt_node_from :: "FdtNode \<Rightarrow> fdt_node" where
  "fdt_node_from n =
     \<lparr>cn_hdr = fn_hdr n, cn_begin = fst (fn_data n), cn_end = fst (fn_data n) + of_nat (snd (fn_data n)),
      cn_strs = fst (fn_strs n)\<rparr>"

definition fdt_root_node :: "(usize \<Rightarrow> u8) \<Rightarrow> fdt_node \<Rightarrow> usize \<Rightarrow> bool \<times> fdt_node" where
  "fdt_root_node m node hdr =
     (case new_root m hdr of None \<Rightarrow> (False, node) | Some n \<Rightarrow> (True, fdt_node_from n))"

definition fdt_find_child :: "(usize \<Rightarrow> u8) \<Rightarrow> usize \<Rightarrow> fdt_node \<Rightarrow> (bool \<times> fdt_node) res option" where
  "fdt_find_child m child c_node =
     map_option (\<lambda>r. case r of
        Ok (found, n) \<Rightarrow> Ok (found \<noteq> None, fdt_node_from n)
      | Err e \<Rightarrow> Err e
      | Panic \<Rightarrow> Panic) (find_child m child (FdtNode_from m c_node))"

definition fdt_read_property :: "(usize \<Rightarrow> u8) \<Rightarrow> usize \<Rightarrow> fdt_node \<Rightarrow> (usize \<times> u32) option res option" where
  "fdt_read_property m nm node =
     map_option (\<lambda>r. case r of
        Ok b \<Rightarrow> Ok (Some (fst b, of_nat (snd b)))
      | Err _ \<Rightarrow> Ok None
      | Panic \<Rightarrow> Panic) (read_property m nm (FdtNode_from m node))"

text \<open>
  So the slice of a node that has moved forward reaches beyond the end of the structure block, by as
  much as the node has moved.
\<close>

lemma fdt_node_overruns:
  assumes "new_root m hdr = Some root" "moves (node_tokenizer root) k t"
  shows "FdtNode_from m (fdt_node_from (root\<lparr>fn_data := tk_cur t\<rparr>)) = root\<lparr>fn_data := (fst (tk_cur t), snd (tk_cur t) + k)\<rparr>"
proof -
  have "snd (fn_data root) = unat (fdt_size_dt_struct m hdr)" "fn_hdr root = hdr"
    "snd (fn_strs root) = unat (fdt_size_dt_strings m hdr)"
    using assms(1) by (auto simp: new_root_def Let_def split: if_splits)
  then show ?thesis
    using moves_len [OF assms(2)] by (cases root) (auto simp: FdtNode_from_def fdt_node_from_def node_tokenizer_def)
qed

end
