(* ===== verification/Fdt_Tree.thy ===== *)
theory Fdt_Tree
  imports Fdt
begin

text \<open>
  Correctness of the device tree parser of theory \<open>Fdt\<close>: for any memory whatsoever the operations end
  and stay inside the slices they are given, and on memory that holds the encoding of a tree they are
  the operations of the tree.
\<close>

section \<open>Encoding of trees\<close>

text \<open>A property is the offset of its name in the string block, and its value.\<close>

type_synonym fdt_prop = "u32 \<times> u8 list"

datatype fdt_tree = FdtTree (tree_name: "u8 list") (tree_props: "fdt_prop list") (tree_children: "fdt_tree list")

definition padded :: "nat \<Rightarrow> nat" where
  "padded n = n + (4 - n mod 4) mod 4"

definition pad :: "u8 list \<Rightarrow> u8 list" where
  "pad bs = bs @ replicate ((4 - length bs mod 4) mod 4) 0"

definition enc_prop :: "fdt_prop \<Rightarrow> u8 list" where
  "enc_prop p = be_u32 3 @ be_u32 (of_nat (length (snd p))) @ be_u32 (fst p) @ pad (snd p)"

definition enc_props :: "fdt_prop list \<Rightarrow> u8 list" where
  "enc_props ps = concat (map enc_prop ps)"

primrec enc_tree :: "fdt_tree \<Rightarrow> u8 list" where
  "enc_tree (FdtTree nm ps cs) = be_u32 1 @ pad (nm @ [0]) @ enc_props ps @ concat (map enc_tree cs) @ be_u32 2"

definition enc_forest :: "fdt_tree list \<Rightarrow> u8 list" where
  "enc_forest cs = concat (map enc_tree cs)"

text \<open>What follows the name of a node.\<close>

definition enc_body :: "fdt_prop list \<Rightarrow> fdt_tree list \<Rightarrow> u8 list" where
  "enc_body ps cs = enc_props ps @ enc_forest cs @ be_u32 2"

definition wf_prop :: "nat \<Rightarrow> fdt_prop \<Rightarrow> bool" where
  "wf_prop strs_len p \<longleftrightarrow> length (snd p) < 2 ^ 32 \<and> unat (fst p) \<le> strs_len"

primrec wf_tree :: "nat \<Rightarrow> fdt_tree \<Rightarrow> bool" where
  "wf_tree n (FdtTree nm ps cs) \<longleftrightarrow> 0 \<notin> set nm \<and> list_all (wf_prop n) ps \<and> list_all (wf_tree n) cs"

lemma enc_tree_body: "enc_tree c = be_u32 1 @ pad (tree_name c @ [0]) @ enc_body (tree_props c) (tree_children c)"
  by (cases c) (simp add: enc_body_def enc_forest_def)

lemma enc_simps [simp]:
  "enc_props [] = []" "enc_props (p # ps) = enc_prop p @ enc_props ps"
  "enc_forest [] = []" "enc_forest (c # cs) = enc_tree c @ enc_forest cs"
  by (simp_all add: enc_props_def enc_forest_def)

lemma length_pad [simp]: "length (pad bs) = padded (length bs)"
  by (simp add: pad_def padded_def)

lemma padded_mod: "padded n mod 4 = 0"
proof -
  have "n mod 4 = 0 \<or> n mod 4 = 1 \<or> n mod 4 = 2 \<or> n mod 4 = 3" by linarith
  then show ?thesis by (elim disjE; simp add: padded_def; presburger)
qed

lemma padded_le: "n \<le> padded n"
  by (simp add: padded_def)

text \<open>All pieces of the encoding have whole words.\<close>

lemma words [simp]:
  "length (enc_prop p) mod 4 = 0" "length (enc_props ps) mod 4 = 0" "length (enc_tree c) mod 4 = 0"
  "length (enc_forest cs) mod 4 = 0" "length (enc_body ps cs) mod 4 = 0"
proof -
  have sum: "(a + b) mod 4 = 0" if "a mod 4 = 0" "b mod 4 = 0" for a b :: nat using that by presburger
  show p: "length (enc_prop p) mod 4 = 0" for p
    by (simp add: enc_prop_def sum padded_mod)
  show ps: "length (enc_props ps) mod 4 = 0" for ps by (induction ps) (simp_all add: sum p)
  show t: "length (enc_tree c) mod 4 = 0" for c
  proof (induction c)
    case (FdtTree nm qs cs)
    then have "length (concat (map enc_tree cs)) mod 4 = 0" by (induction cs) (simp_all add: sum)
    then show ?case by (simp add: sum padded_mod ps)
  qed
  show f: "length (enc_forest cs) mod 4 = 0" for cs by (induction cs) (simp_all add: sum t)
  show "length (enc_body ps cs) mod 4 = 0" by (simp add: enc_body_def sum ps f)
qed

section \<open>The tokenizer on encoded bytes\<close>

definition tok_at :: "(usize \<Rightarrow> u8) \<Rightarrow> fdt_tokenizer \<Rightarrow> u8 list \<Rightarrow> bool" where
  "tok_at m t bs \<longleftrightarrow> snd (tk_cur t) = length bs \<and> bytes_at m (fst (tk_cur t)) bs
     \<and> unat (fst (tk_cur t)) mod 4 = 0"

definition tok_skip :: "nat \<Rightarrow> fdt_tokenizer \<Rightarrow> fdt_tokenizer" where
  "tok_skip n t = t\<lparr>tk_cur := (fst (tk_cur t) + of_nat n, snd (tk_cur t) - n)\<rparr>"

lemma tok_skip_simps [simp]:
  "tk_strs (tok_skip n t) = tk_strs t" "fst (tk_cur (tok_skip n t)) = fst (tk_cur t) + of_nat n"
  "tok_skip k (tok_skip n t) = tok_skip (n + k) t" "tok_skip 0 t = t"
  by (simp_all add: tok_skip_def ac_simps)

lemma unat_add_mod4:
  fixes p :: usize
  shows "unat (p + of_nat n) mod 4 = (unat p + n) mod 4"
proof -
  have "unat (p + of_nat n) = (unat p + n) mod 2 ^ 64"
    by (simp add: unat_word_ariths(1) unat_of_nat mod_add_right_eq)
  then show ?thesis by (simp add: mod_mod_cancel)
qed

lemma add_mod4: "a mod 4 = 0 \<Longrightarrow> (a + b) mod 4 = b mod (4 :: nat)"
  by presburger

lemma tok_at_skip:
  assumes "tok_at m t (as @ bs)" "length as mod 4 = 0"
  shows "tok_at m (tok_skip (length as) t) bs"
proof -
  have "unat (fst (tk_cur t) + of_nat (length as)) mod 4 = 0"
    using assms by (simp add: tok_at_def unat_add_mod4 add_mod4)
  then show ?thesis using assms(1) by (simp add: tok_at_def tok_skip_def)
qed

lemma fdt_take_at:
  assumes "tok_at m t (pad as @ bs)"
  shows "fdt_take (length as) t = Ok (Some (fst (tk_cur t), length as), tok_skip (padded (length as)) t)"
proof -
  define n where "n = length as"
  define k where "k = (4 - n mod 4) mod 4"
  have al: "unat (fst (tk_cur t) + of_nat n) mod 4 = n mod 4"
    using assms by (simp add: tok_at_def unat_add_mod4 add_mod4)
  have p: "padded n = n + k" by (simp add: padded_def k_def)
  then have len: "snd (tk_cur t) = n + k + length bs" using assms by (simp add: tok_at_def n_def)
  have "fdt_align (t\<lparr>tk_cur := (fst (tk_cur t) + of_nat n, snd (tk_cur t) - n)\<rparr>) = Ok (tok_skip (n + k) t)"
    using len by (simp add: fdt_align_def split_at_def FDT_TOKEN_ALIGNMENT_def al tok_skip_def add.assoc flip: k_def)
  then show ?thesis
    using len by (simp add: fdt_take_def split_at_def p flip: n_def)
qed

lemma fdt_u32_at:
  assumes "tok_at m t (be_u32 v @ bs)"
  shows "fdt_u32 m t = Ok (Some v, tok_skip 4 t)"
proof -
  have p: "pad (be_u32 v) = be_u32 v" "padded 4 = 4" by (simp_all add: pad_def padded_def)
  have "fdt_take 4 t = Ok (Some (fst (tk_cur t), 4), tok_skip 4 t)"
    using fdt_take_at [of m t "be_u32 v" bs] assms p by simp
  moreover have "read_be_u32 m (fst (tk_cur t)) = v" "4 \<le> snd (tk_cur t)"
    using assms by (simp_all add: tok_at_def read_be_u32_bytes)
  ultimately show ?thesis by (simp add: fdt_u32_def fdt_bytes_def parse_bind_def)
qed

fun token_code :: "FdtToken \<Rightarrow> u32" where
  "token_code BeginNode = 1"
| "token_code EndNode = 2"
| "token_code Prop = 3"
| "token_code Nop = 4"
| "token_code End = 9"

lemma token_code_roundtrip [simp]: "FdtToken_try_from (token_code k) = Ok k"
  by (cases k) (simp_all add: FdtToken_try_from_def)

lemma fdt_token_at:
  assumes "tok_at m t (be_u32 (token_code k) @ bs)" "k \<noteq> Nop"
  shows "fdt_token m t = Ok (Some k, tok_skip 4 t)"
  using fdt_u32_at [OF assms(1)] assms(2) by (subst fdt_token.simps) simp

lemma fdt_token_expect_at:
  assumes "tok_at m t (be_u32 (token_code k) @ bs)" "k \<noteq> Nop"
  shows "fdt_token_expect m e t = Ok (if k = e then (Some k, tok_skip 4 t) else (None, t))"
proof -
  have "fdt_rewind (tok_skip 4 t) = t"
    using assms(1) by (cases t) (auto simp: fdt_rewind_def tok_skip_def tok_at_def FDT_TOKEN_ALIGNMENT_def prod_eq_iff)
  then show ?thesis using fdt_token_at [OF assms] by (simp add: fdt_token_expect_def parse_bind_def)
qed

lemma next_property_at:
  assumes at: "tok_at m t (enc_prop p @ bs)" and wf: "wf_prop (snd (tk_strs t)) p"
  shows "next_property m t =
    Ok (Some (fst (tk_strs t) + ucast (fst p), (fst (tk_cur t) + 12, length (snd p))), tok_skip (length (enc_prop p)) t)"
proof -
  let ?n = "length (snd p)"
  have 0: "tok_at m t (be_u32 (token_code Prop) @ be_u32 (of_nat ?n) @ be_u32 (fst p) @ pad (snd p) @ bs)"
    using at by (simp add: enc_prop_def)
  note 1 = tok_at_skip [OF 0, simplified]
  note 2 = tok_at_skip [OF 1, simplified]
  note 3 = tok_at_skip [OF 2, simplified]
  have n: "unat (of_nat ?n :: u32) = ?n" using wf by (simp add: wf_prop_def unat_of_nat)
  have "\<not> snd (tk_cur (tok_skip 12 t)) < ?n" using 3 padded_le [of ?n] by (simp add: tok_at_def)
  then have "fdt_bytes ?n (tok_skip 12 t) = Ok (Some (fst (tk_cur t) + 12, ?n), tok_skip (12 + padded ?n) t)"
    using fdt_take_at [OF 3] by (simp add: fdt_bytes_def)
  then show ?thesis
    using fdt_token_expect_at [OF 0, of Prop] fdt_u32_at [OF 1] fdt_u32_at [OF 2] wf n
    by (simp add: next_property_def parse_bind_def or_collapse_def wf_prop_def enc_prop_def)
qed

lemma next_property_other:
  assumes "tok_at m t (be_u32 (token_code k) @ bs)" "k \<noteq> Nop" "k \<noteq> Prop"
  shows "next_property m t = Ok (None, t)"
  using fdt_token_expect_at [OF assms(1,2), of Prop] assms(3) by (simp add: next_property_def parse_bind_def)

lemma next_subnode_other:
  assumes "tok_at m t (be_u32 (token_code k) @ bs)" "k \<noteq> Nop" "k \<noteq> BeginNode"
  shows "next_subnode m t = Ok (None, t)"
  using fdt_token_expect_at [OF assms(1,2), of BeginNode] assms(3) by (simp add: next_subnode_def parse_bind_def)

lemma strnlen_loop_cstr: "bytes_at m a (s @ [0]) \<Longrightarrow> 0 \<notin> set s \<Longrightarrow> length s < n \<Longrightarrow> strnlen_loop m a n = length s"
proof (induction s arbitrary: a n)
  case Nil
  then show ?case by (cases n) simp_all
next
  case (Cons x s)
  then show ?case by (cases n) (simp_all add: ac_simps)
qed

lemma next_subnode_at:
  assumes at: "tok_at m t (be_u32 1 @ pad (nm @ [0]) @ bs)" and wf: "0 \<notin> set nm"
  shows "next_subnode m t =
    Ok (Some (fst (tk_cur t) + 4, length nm + 1), tok_skip (4 + padded (length nm + 1)) t)"
    and "cstr_at m (fst (tk_cur t) + 4) nm"
proof -
  have 0: "tok_at m t (be_u32 (token_code BeginNode) @ pad (nm @ [0]) @ bs)" using at by simp
  note 1 = tok_at_skip [OF 0, simplified]
  have b: "bytes_at m (fst (tk_cur (tok_skip 4 t))) (nm @ [0])"
    using 1 by (simp add: tok_at_def pad_def)
  then show "cstr_at m (fst (tk_cur t) + 4) nm" using wf by (simp add: cstr_at_def)
  have "length nm < snd (tk_cur (tok_skip 4 t))"
    using 1 padded_le [of "length nm + 1"] by (simp add: tok_at_def)
  then have "strnlen_loop m (fst (tk_cur (tok_skip 4 t))) (snd (tk_cur (tok_skip 4 t))) = length nm"
    "length nm \<noteq> snd (tk_cur (tok_skip 4 t))"
    using strnlen_loop_cstr [OF b wf] by simp_all
  then have "fdt_str m (tok_skip 4 t) = Ok (Some (fst (tk_cur t) + 4, length nm + 1), tok_skip (4 + padded (length nm + 1)) t)"
    using fdt_take_at [OF 1] by (simp add: fdt_str_def Let_def tok_skip_def)
  then show "next_subnode m t = Ok (Some (fst (tk_cur t) + 4, length nm + 1), tok_skip (4 + padded (length nm + 1)) t)"
    using fdt_token_expect_at [OF 0, of BeginNode]
    by (simp add: next_subnode_def parse_bind_def or_collapse_def)
qed

section \<open>Skipping\<close>

text \<open>The token after the properties of a node.\<close>

lemma forest_token:
  obtains k bs' where "enc_forest cs @ be_u32 2 @ bs = be_u32 (token_code k) @ bs'" "k \<noteq> Nop" "k \<noteq> Prop"
proof (cases cs)
  case Nil
  then show ?thesis using that [of EndNode bs] by simp
next
  case (Cons c cs')
  then show ?thesis using that [of BeginNode] by (simp add: enc_tree_body)
qed

lemma skip_properties_at:
  "tok_at m t (enc_props ps @ enc_forest cs @ be_u32 2 @ bs) \<Longrightarrow> list_all (wf_prop (snd (tk_strs t))) ps \<Longrightarrow>
   skip_properties m t = Ok (tok_skip (length (enc_props ps)) t)"
proof (induction ps arbitrary: t)
  case Nil
  obtain k bs' where k: "enc_forest cs @ be_u32 2 @ bs = be_u32 (token_code k) @ bs'" "k \<noteq> Nop" "k \<noteq> Prop"
    by (rule forest_token)
  then have "next_property m t = Ok (None, t)" using next_property_other [of m t k bs'] Nil by simp
  then show ?case by (subst skip_properties.simps) simp
next
  case (Cons p ps)
  have at: "tok_at m t (enc_prop p @ enc_props ps @ enc_forest cs @ be_u32 2 @ bs)" using Cons.prems(1) by simp
  then have "next_property m t = Ok (Some (fst (tk_strs t) + ucast (fst p), (fst (tk_cur t) + 12, length (snd p))),
      tok_skip (length (enc_prop p)) t)"
    using next_property_at [OF at] Cons.prems(2) by simp
  then have "skip_properties m t = skip_properties m (tok_skip (length (enc_prop p)) t)"
    by (subst skip_properties.simps) simp
  also have "\<dots> = Ok (tok_skip (length (enc_props (p # ps))) t)"
    using Cons.IH [OF tok_at_skip [OF at]] Cons.prems(2) by simp
  finally show ?case .
qed

lemma subnode_step:
  assumes at: "tok_at m t (enc_tree c @ bs)" and wf: "wf_tree (snd (tk_strs t)) c"
  shows "next_subnode m t = Ok (Some (fst (tk_cur t) + 4, length (tree_name c) + 1),
      tok_skip (4 + padded (length (tree_name c) + 1)) t)"
    and "cstr_at m (fst (tk_cur t) + 4) (tree_name c)"
    and "tok_at m (tok_skip (4 + padded (length (tree_name c) + 1)) t) (enc_body (tree_props c) (tree_children c) @ bs)"
proof -
  let ?body = "enc_body (tree_props c) (tree_children c)"
  have at': "tok_at m t (be_u32 1 @ pad (tree_name c @ [0]) @ ?body @ bs)" using at by (simp add: enc_tree_body)
  have nm: "0 \<notin> set (tree_name c)" using wf by (cases c) simp
  show "next_subnode m t = Ok (Some (fst (tk_cur t) + 4, length (tree_name c) + 1),
      tok_skip (4 + padded (length (tree_name c) + 1)) t)"
    and "cstr_at m (fst (tk_cur t) + 4) (tree_name c)"
    using next_subnode_at [OF at' nm] by simp_all
  show "tok_at m (tok_skip (4 + padded (length (tree_name c) + 1)) t) (?body @ bs)"
    using tok_at_skip [of m t "be_u32 1 @ pad (tree_name c @ [0])" "?body @ bs"] at'
    by (simp add: padded_mod add_mod4)
qed

lemma wf_tree_parts: "wf_tree n c \<longleftrightarrow> 0 \<notin> set (tree_name c) \<and> list_all (wf_prop n) (tree_props c) \<and> list_all (wf_tree n) (tree_children c)"
  by (cases c) simp

lemma skip_forest:
  "tok_at m t (enc_forest cs @ be_u32 2 @ bs) \<Longrightarrow> list_all (wf_tree (snd (tk_strs t))) cs \<Longrightarrow>
   skip_node_loop m (Suc n) t = skip_node_loop m n (tok_skip (length (enc_forest cs) + 4) t)"
proof (induction "length (enc_forest cs)" arbitrary: cs t bs n rule: less_induct)
  case less
  show ?case
  proof (cases cs)
    case Nil
    then have at: "tok_at m t (be_u32 (token_code EndNode) @ bs)" using less.prems(1) by simp
    have "skip_subnodes m (Suc n) t = Ok (Suc n, t)"
      using next_subnode_other [OF at] by (subst skip_subnodes.simps) simp
    then show ?thesis using fdt_token_at [OF at] Nil by (subst skip_node_loop.simps) simp
  next
    case (Cons c cs')
    let ?t1 = "tok_skip (4 + padded (length (tree_name c) + 1)) t"
    let ?t2 = "tok_skip (length (enc_props (tree_props c))) ?t1"
    let ?rest = "enc_forest cs' @ be_u32 2 @ bs"
    have at: "tok_at m t (enc_tree c @ ?rest)" and wf: "wf_tree (snd (tk_strs t)) c"
      using less.prems Cons by simp_all
    note sub = subnode_step [OF at wf]
    have at1: "tok_at m ?t1 (enc_props (tree_props c) @ enc_forest (tree_children c) @ be_u32 2 @ ?rest)"
      using sub(3) by (simp add: enc_body_def)
    have "skip_properties m ?t1 = Ok ?t2"
      using skip_properties_at [OF at1] wf by (simp add: wf_tree_parts)
    then have "skip_subnodes m (Suc n) t = skip_subnodes m (Suc (Suc n)) ?t2"
      using sub(1) by (subst skip_subnodes.simps) simp
    then have "skip_node_loop m (Suc n) t = skip_node_loop m (Suc (Suc n)) ?t2"
      by (subst (1 2) skip_node_loop.simps) simp
    also have "\<dots> = skip_node_loop m (Suc n) (tok_skip (length (enc_forest (tree_children c)) + 4) ?t2)"
    proof (rule less.hyps)
      show "length (enc_forest (tree_children c)) < length (enc_forest cs)"
        using Cons by (simp add: enc_tree_body enc_body_def)
      show "tok_at m ?t2 (enc_forest (tree_children c) @ be_u32 2 @ ?rest)" using tok_at_skip [OF at1] by simp
    qed (use wf in \<open>simp add: wf_tree_parts\<close>)
    also have "tok_skip (length (enc_forest (tree_children c)) + 4) ?t2 = tok_skip (length (enc_tree c)) t"
      by (simp add: enc_tree_body enc_body_def ac_simps)
    also have "skip_node_loop m (Suc n) \<dots> = skip_node_loop m n (tok_skip (length (enc_forest cs') + 4) (tok_skip (length (enc_tree c)) t))"
    proof (rule less.hyps)
      show "length (enc_forest cs') < length (enc_forest cs)" using Cons by (simp add: enc_tree_body)
      show "tok_at m (tok_skip (length (enc_tree c)) t) (enc_forest cs' @ be_u32 2 @ bs)" using tok_at_skip [OF at] by simp
    qed (use less.prems(2) Cons in simp)
    finally show ?thesis using Cons by (simp add: ac_simps)
  qed
qed

lemma skip_node_at:
  assumes at: "tok_at m t (enc_body ps cs @ bs)"
    and wf: "list_all (wf_prop (snd (tk_strs t))) ps" "list_all (wf_tree (snd (tk_strs t))) cs"
  shows "skip_node m t = Ok (Some (), tok_skip (length (enc_body ps cs)) t)"
proof -
  have at': "tok_at m t (enc_props ps @ enc_forest cs @ be_u32 2 @ bs)" using at by (simp add: enc_body_def)
  note 1 = skip_properties_at [OF at' wf(1)]
  have "skip_node_loop m 1 (tok_skip (length (enc_props ps)) t)
      = skip_node_loop m 0 (tok_skip (length (enc_forest cs) + 4) (tok_skip (length (enc_props ps)) t))"
    using skip_forest [OF tok_at_skip [OF at'], of 0] wf(2) by simp
  then show ?thesis using 1 by (simp add: skip_node_def skip_node_loop.simps [of m 0] enc_body_def ac_simps)
qed

section \<open>Nodes of a tree\<close>

text \<open>The offsets of the names of all properties.\<close>

primrec offsets :: "fdt_tree \<Rightarrow> u32 set" where
  "offsets (FdtTree nm ps cs) = fst ` set ps \<union> \<Union> (set (map offsets cs))"

lemma offsets_parts: "offsets c = fst ` set (tree_props c) \<union> (\<Union>d \<in> set (tree_children c). offsets d)"
  by (cases c) simp

text \<open>
  A node of the parser stands at a node of the tree: it holds the body of the node, then the nodes
  that follow it under the same parent. \<open>names\<close> gives the names of the properties, by their offset.
\<close>

definition tree_ok :: "(usize \<Rightarrow> u8) \<Rightarrow> (u32 \<Rightarrow> u8 list) \<Rightarrow> slice \<Rightarrow> fdt_tree \<Rightarrow> bool" where
  "tree_ok m names strs c \<longleftrightarrow> wf_tree (snd strs) c \<and> (\<forall>off \<in> offsets c. cstr_at m (fst strs + ucast off) (names off))"

definition node_at ::
  "(usize \<Rightarrow> u8) \<Rightarrow> (u32 \<Rightarrow> u8 list) \<Rightarrow> FdtNode \<Rightarrow> fdt_tree \<Rightarrow> fdt_tree list \<Rightarrow> u8 list \<Rightarrow> bool" where
  "node_at m names n c sibs bs \<longleftrightarrow>
     tok_at m (node_tokenizer n) (enc_body (tree_props c) (tree_children c) @ enc_forest sibs @ be_u32 2 @ bs)
     \<and> tree_ok m names (fn_strs n) c \<and> list_all (tree_ok m names (fn_strs n)) sibs"

lemma tree_ok_parts:
  "tree_ok m names strs c \<longleftrightarrow> 0 \<notin> set (tree_name c) \<and> list_all (wf_prop (snd strs)) (tree_props c)
     \<and> list_all (\<lambda>p. cstr_at m (fst strs + ucast (fst p)) (names (fst p))) (tree_props c)
     \<and> list_all (tree_ok m names strs) (tree_children c)"
  by (cases c) (auto simp: tree_ok_def list_all_iff)

lemma tree_ok_wf:
  "list_all (tree_ok m names strs) cs \<Longrightarrow> list_all (wf_tree (snd strs)) cs"
  by (simp add: list_all_iff tree_ok_def)

lemma slice_bytes_at: "bytes_at m a bs \<Longrightarrow> slice_bytes m (a, length bs) = bs"
  by (rule nth_equalityI) (simp_all add: slice_bytes_def bytes_at_def)

lemma read_property_loop_at:
  assumes "tok_at m t (enc_props ps @ enc_forest cs @ be_u32 2 @ bs)" "list_all (wf_prop (snd (tk_strs t))) ps"
    "list_all (\<lambda>p. cstr_at m (fst (tk_strs t) + ucast (fst p)) (names (fst p))) ps" "cstr_at m nm s"
  shows "case find (\<lambda>p. names (fst p) = s) ps of
      None \<Rightarrow> read_property_loop m nm t = Some (Err ())
    | Some p \<Rightarrow> \<exists>a. read_property_loop m nm t = Some (Ok (a, length (snd p))) \<and> bytes_at m a (snd p) \<and> unat a mod 4 = 0"
  using assms(1-3)
proof (induction ps arbitrary: t)
  case Nil
  obtain k bs' where k: "enc_forest cs @ be_u32 2 @ bs = be_u32 (token_code k) @ bs'" "k \<noteq> Nop" "k \<noteq> Prop"
    by (rule forest_token)
  then have "next_property m t = Ok (None, t)" using next_property_other [of m t k bs'] Nil by simp
  then show ?case by (subst read_property_loop.simps) simp
next
  case (Cons p ps)
  let ?rest = "enc_props ps @ enc_forest cs @ be_u32 2 @ bs"
  let ?a = "fst (tk_cur t) + 12"
  have at: "tok_at m t (enc_prop p @ ?rest)" using Cons.prems(1) by simp
  then have np: "next_property m t = Ok (Some (fst (tk_strs t) + ucast (fst p), (?a, length (snd p))),
      tok_skip (length (enc_prop p)) t)"
    using next_property_at [OF at] Cons.prems(2) by simp
  obtain c where c: "strcmp m (fst (tk_strs t) + ucast (fst p)) nm = Some c" "c = 0 \<longleftrightarrow> names (fst p) = s"
    using strcmp_cstr [of m "fst (tk_strs t) + ucast (fst p)" "names (fst p)" nm s] Cons.prems(3) assms(4) by auto
  show ?case
  proof (cases "names (fst p) = s")
    case True
    have "bytes_at m ?a (snd p)" "unat ?a mod 4 = 0"
      using at unat_add_mod4 [of "fst (tk_cur t)" 12]
      by (simp_all add: tok_at_def enc_prop_def pad_def add_mod4 add.assoc)
    then show ?thesis using np c True by (subst read_property_loop.simps) simp
  next
    case False
    then have "read_property_loop m nm t = read_property_loop m nm (tok_skip (length (enc_prop p)) t)"
      using np c by (subst read_property_loop.simps) simp
    then show ?thesis using Cons.IH [OF tok_at_skip [OF at]] Cons.prems(2,3) False
      by (simp cong: option.case_cong)
  qed
qed

lemma read_property_at:
  assumes "node_at m names n c sibs bs" "cstr_at m nm s"
  shows "case find (\<lambda>p. names (fst p) = s) (tree_props c) of
      None \<Rightarrow> read_property m nm n = Some (Err ())
    | Some p \<Rightarrow> \<exists>a. read_property m nm n = Some (Ok (a, length (snd p))) \<and> bytes_at m a (snd p) \<and> unat a mod 4 = 0"
proof -
  have "tok_at m (node_tokenizer n) (enc_props (tree_props c) @ enc_forest (tree_children c) @ be_u32 2
      @ enc_forest sibs @ be_u32 2 @ bs)" and c: "tree_ok m names (fn_strs n) c"
    using assms(1) by (simp_all add: node_at_def enc_body_def)
  from read_property_loop_at [OF this(1) _ _ assms(2), of names] show ?thesis
    using c [unfolded tree_ok_parts [of m names _ c]] by (simp add: read_property_def node_tokenizer_def cong: option.case_cong)
qed

lemma enter_subnode_at:
  assumes at: "tok_at m t (enc_forest (c # cs) @ be_u32 2 @ bs)" and strs: "tk_strs t = fn_strs n"
    and ok: "list_all (tree_ok m names (fn_strs n)) (c # cs)"
  shows "\<exists>n'. enter_subnode m t n = Ok (Some (fst (tk_cur t) + 4, length (tree_name c) + 1), n')
    \<and> node_at m names n' c cs bs \<and> fn_strs n' = fn_strs n \<and> fn_hdr n' = fn_hdr n"
proof -
  have at': "tok_at m t (enc_tree c @ enc_forest cs @ be_u32 2 @ bs)" using at by simp
  have "wf_tree (snd (tk_strs t)) c" using ok strs by (simp add: tree_ok_def)
  note s = subnode_step [OF at' this]
  let ?t' = "tok_skip (4 + padded (length (tree_name c) + 1)) t"
  have "?t' = node_tokenizer (n\<lparr>fn_data := tk_cur ?t'\<rparr>)"
    using strs by (cases t) (simp add: node_tokenizer_def tok_skip_def)
  then have "node_at m names (n\<lparr>fn_data := tk_cur ?t'\<rparr>) c cs bs"
    using s(3) ok by (simp add: node_at_def)
  then show ?thesis using s(1) by (simp add: enter_subnode_def)
qed

lemma first_child_at:
  assumes "node_at m names n c sibs bs"
  shows "case tree_children c of
      [] \<Rightarrow> first_child m n = Ok (None, n)
    | d # ds \<Rightarrow> \<exists>s n'. first_child m n = Ok (Some s, n') \<and> node_at m names n' d ds (enc_forest sibs @ be_u32 2 @ bs)
        \<and> fn_strs n' = fn_strs n \<and> fn_hdr n' = fn_hdr n"
proof -
  let ?t = "node_tokenizer n" and ?rest = "enc_forest sibs @ be_u32 2 @ bs"
  have at: "tok_at m ?t (enc_props (tree_props c) @ enc_forest (tree_children c) @ be_u32 2 @ ?rest)"
    and ok: "list_all (tree_ok m names (fn_strs n)) (tree_children c)" "list_all (wf_prop (snd (fn_strs n))) (tree_props c)"
    using assms tree_ok_parts [of m names "fn_strs n" c] by (simp_all add: node_at_def enc_body_def)
  let ?t1 = "tok_skip (length (enc_props (tree_props c))) ?t"
  have 1: "skip_properties m ?t = Ok ?t1"
    using skip_properties_at [OF at] ok(2) by (simp add: node_tokenizer_def)
  have at1: "tok_at m ?t1 (enc_forest (tree_children c) @ be_u32 2 @ ?rest)" using tok_at_skip [OF at] by simp
  have strs: "tk_strs ?t1 = fn_strs n" by (simp add: node_tokenizer_def)
  show ?thesis
  proof (cases "tree_children c")
    case Nil
    then have "next_subnode m ?t1 = Ok (None, ?t1)" using next_subnode_other [of m ?t1 EndNode] at1 by simp
    then show ?thesis using 1 Nil by (simp add: first_child_def enter_subnode_def)
  next
    case (Cons d ds)
    then show ?thesis using enter_subnode_at [of m ?t1 d ds ?rest n names] at1 strs ok(1) 1
      by (fastforce simp: first_child_def)
  qed
qed

lemma next_sibling_at:
  assumes "node_at m names n c sibs bs"
  shows "case sibs of
      [] \<Rightarrow> next_sibling m n = Ok (None, n)
    | d # ds \<Rightarrow> \<exists>s n'. next_sibling m n = Ok (Some s, n') \<and> node_at m names n' d ds bs
        \<and> fn_strs n' = fn_strs n \<and> fn_hdr n' = fn_hdr n"
proof -
  let ?t = "node_tokenizer n" and ?rest = "enc_forest sibs @ be_u32 2 @ bs"
  have at: "tok_at m ?t (enc_body (tree_props c) (tree_children c) @ ?rest)"
    and sibs: "list_all (tree_ok m names (fn_strs n)) sibs" and c: "tree_ok m names (fn_strs n) c"
    using assms by (simp_all add: node_at_def)
  have ok: "list_all (wf_tree (snd (tk_strs ?t))) (tree_children c)" "list_all (wf_prop (snd (tk_strs ?t))) (tree_props c)"
    using c by (simp_all add: tree_ok_def wf_tree_parts node_tokenizer_def)
  let ?t1 = "tok_skip (length (enc_body (tree_props c) (tree_children c))) ?t"
  note 1 = skip_node_at [OF at ok(2,1)]
  have at1: "tok_at m ?t1 ?rest" using tok_at_skip [OF at] by simp
  have strs: "tk_strs ?t1 = fn_strs n" by (simp add: node_tokenizer_def)
  show ?thesis
  proof (cases sibs)
    case Nil
    then have "next_subnode m ?t1 = Ok (None, ?t1)" using next_subnode_other [of m ?t1 EndNode] at1 by simp
    then show ?thesis using 1 Nil by (simp add: next_sibling_def enter_subnode_def)
  next
    case (Cons d ds)
    then show ?thesis using enter_subnode_at [of m ?t1 d ds bs n names] at1 strs sibs 1
      by (fastforce simp: next_sibling_def)
  qed
qed

lemma find_child_loop_at:
  assumes "tok_at m t (enc_forest cs @ be_u32 2 @ bs)" "list_all (tree_ok m names (tk_strs t)) cs" "cstr_at m nm s"
  shows "case dropWhile (\<lambda>c. tree_name c \<noteq> s) cs of
      [] \<Rightarrow> find_child_loop m nm t = Some (Ok None)
    | d # ds \<Rightarrow> \<exists>t'. find_child_loop m nm t = Some (Ok (Some (tk_cur t')))
        \<and> tok_at m t' (enc_body (tree_props d) (tree_children d) @ enc_forest ds @ be_u32 2 @ bs)"
  using assms(1,2)
proof (induction cs arbitrary: t)
  case Nil
  then have "next_subnode m t = Ok (None, t)" using next_subnode_other [of m t EndNode] by simp
  then show ?case by (subst find_child_loop.simps) simp
next
  case (Cons c cs)
  let ?rest = "enc_forest cs @ be_u32 2 @ bs"
  have at: "tok_at m t (enc_tree c @ ?rest)" and wf: "wf_tree (snd (tk_strs t)) c"
    using Cons.prems by (simp_all add: tree_ok_def)
  note s = subnode_step [OF at wf]
  let ?t1 = "tok_skip (4 + padded (length (tree_name c) + 1)) t"
  obtain r where r: "strcmp m (fst (tk_cur t) + 4) nm = Some r" "r = 0 \<longleftrightarrow> tree_name c = s"
    using strcmp_cstr [OF s(2) assms(3)] by auto
  show ?case
  proof (cases "tree_name c = s")
    case True
    then show ?thesis using s(1,3) r by (subst find_child_loop.simps) auto
  next
    case False
    have "list_all (wf_prop (snd (tk_strs ?t1))) (tree_props c)" "list_all (wf_tree (snd (tk_strs ?t1))) (tree_children c)"
      using wf by (simp_all add: wf_tree_parts)
    note k = skip_node_at [OF s(3) this]
    have "tok_skip (length (enc_body (tree_props c) (tree_children c))) ?t1 = tok_skip (length (enc_tree c)) t"
      by (simp add: enc_tree_body ac_simps)
    then have "find_child_loop m nm t = find_child_loop m nm (tok_skip (length (enc_tree c)) t)"
      using s(1) r k False by (subst find_child_loop.simps) simp
    then show ?thesis using Cons.IH [OF tok_at_skip [OF at]] Cons.prems(2) False
      by (simp cong: list.case_cong)
  qed
qed

lemma find_child_at:
  assumes "node_at m names n c sibs bs" "cstr_at m nm s"
  shows "case dropWhile (\<lambda>c. tree_name c \<noteq> s) (tree_children c) of
      [] \<Rightarrow> find_child m nm n = Some (Ok (None, n))
    | d # ds \<Rightarrow> \<exists>n'. find_child m nm n = Some (Ok (Some (), n')) \<and> node_at m names n' d ds (enc_forest sibs @ be_u32 2 @ bs)
        \<and> fn_strs n' = fn_strs n \<and> fn_hdr n' = fn_hdr n"
proof -
  let ?t = "node_tokenizer n" and ?rest = "enc_forest sibs @ be_u32 2 @ bs"
  have at: "tok_at m ?t (enc_props (tree_props c) @ enc_forest (tree_children c) @ be_u32 2 @ ?rest)"
    and ok: "list_all (tree_ok m names (fn_strs n)) (tree_children c)" "list_all (wf_prop (snd (fn_strs n))) (tree_props c)"
    using assms(1) tree_ok_parts [of m names "fn_strs n" c] by (simp_all add: node_at_def enc_body_def)
  let ?t1 = "tok_skip (length (enc_props (tree_props c))) ?t"
  have 1: "skip_properties m ?t = Ok ?t1"
    using skip_properties_at [OF at] ok(2) by (simp add: node_tokenizer_def)
  have at1: "tok_at m ?t1 (enc_forest (tree_children c) @ be_u32 2 @ ?rest)" using tok_at_skip [OF at] by simp
  have "list_all (tree_ok m names (tk_strs ?t1)) (tree_children c)" using ok(1) by (simp add: node_tokenizer_def)
  note f = find_child_loop_at [OF at1 this assms(2)]
  show ?thesis
  proof (cases "dropWhile (\<lambda>c. tree_name c \<noteq> s) (tree_children c)")
    case Nil
    then have "find_child_loop m nm ?t1 = Some (Ok None)" using f by (simp only: list.case)
    then show ?thesis unfolding Nil using 1 by (simp add: find_child_def)
  next
    case (Cons d ds)
    then obtain t' where t': "find_child_loop m nm ?t1 = Some (Ok (Some (tk_cur t')))"
      "tok_at m t' (enc_body (tree_props d) (tree_children d) @ enc_forest ds @ be_u32 2 @ ?rest)"
      using f by auto
    let ?n' = "n\<lparr>fn_data := tk_cur t'\<rparr>"
    have "set (d # ds) \<subseteq> set (tree_children c)" using Cons by (metis set_dropWhileD subsetI)
    then have "list_all (tree_ok m names (fn_strs n)) (d # ds)" using ok(1) by (auto simp: list_all_iff)
    moreover have "tok_at m (node_tokenizer ?n') bs \<longleftrightarrow> tok_at m t' bs" for bs
      by (simp add: tok_at_def node_tokenizer_def)
    ultimately have "node_at m names ?n' d ds ?rest" using t'(2) by (simp add: node_at_def)
    then show ?thesis using 1 t'(1) Cons by (auto simp: find_child_def)
  qed
qed

section \<open>Any memory\<close>

text \<open>The slice lies inside another one.\<close>

definition inside :: "slice \<Rightarrow> slice \<Rightarrow> bool" where
  "inside s s0 \<longleftrightarrow> (\<exists>k. fst s = fst s0 + of_nat k \<and> k + snd s \<le> snd s0)"

lemma inside_refl [simp]: "inside s s"
  by (auto simp: inside_def intro!: exI [of _ 0])

lemma inside_trans: "inside s s1 \<Longrightarrow> inside s1 s0 \<Longrightarrow> inside s s0"
proof -
  assume "inside s s1" "inside s1 s0"
  then obtain k l where "fst s = fst s1 + of_nat k" "k + snd s \<le> snd s1" "fst s1 = fst s0 + of_nat l" "l + snd s1 \<le> snd s0"
    by (auto simp: inside_def)
  then show ?thesis unfolding inside_def by (intro exI [of _ "l + k"]) simp
qed

lemma moves_inside: "moves t k t' \<Longrightarrow> inside (tk_cur t') (tk_cur t) \<and> tk_strs t' = tk_strs t"
  by (auto simp: moves_def inside_def)

lemma take_inside:
  assumes "fdt_take n t = Ok (Some b, t')"
  shows "inside b (tk_cur t)"
proof -
  obtain k where "n \<le> k" "moves t k t'" "b = (fst (tk_cur t), n)" using fdt_take_moves [OF assms] by auto
  then show ?thesis by (auto simp: inside_def moves_def intro!: exI [of _ 0])
qed

lemma next_property_inside:
  assumes "next_property m t = Ok (Some (nm, b), t')"
  shows "inside b (tk_cur t) \<and> inside (nm, 0) (tk_strs t)"
proof -
  obtain tok t1 where 1: "fdt_token_expect m Prop t = Ok (Some tok, t1)"
    and p: "or_collapse (parse_bind (fdt_u32 m t1) (\<lambda>sz t. parse_bind (fdt_u32 m t) (\<lambda>nameoff t.
        parse_bind (fdt_bytes (unat sz) t) (\<lambda>buf t.
          if unat nameoff \<le> snd (tk_strs t) then Ok (Some (fst (tk_strs t) + ucast nameoff, buf), t)
          else Panic)))) = Ok (Some (nm, b), t')"
    using assms by (auto simp: next_property_def parse_bind_Ok)
  then obtain sz t2 off t3 t4 where 2: "fdt_u32 m t1 = Ok (Some sz, t2)" "fdt_u32 m t2 = Ok (Some off, t3)"
    "fdt_bytes (unat sz) t3 = Ok (Some b, t4)" "unat off \<le> snd (tk_strs t4)" "nm = fst (tk_strs t4) + ucast off"
    unfolding or_collapse_def
    by (fastforce simp: parse_bind_def split: outcome.splits option.splits prod.splits if_splits)
  have "inside b (tk_cur t3)" using take_inside [of "unat sz" t3 b t4] 2(3) by (auto simp: fdt_bytes_def split: if_splits)
  moreover have "inside (tk_cur t3) (tk_cur t)" "tk_strs t4 = tk_strs t"
    using fdt_token_expect_moves [OF 1] fdt_u32_moves [OF 2(1)] fdt_u32_moves [OF 2(2)] fdt_bytes_moves [OF 2(3)]
    by (metis moves_inside inside_trans)+
  moreover have "inside (nm, 0) (tk_strs t4)"
    using 2(4,5) by (auto simp: inside_def intro!: exI [of _ "unat off"])
  ultimately show ?thesis using inside_trans by metis
qed

lemma next_subnode_inside:
  assumes "next_subnode m t = Ok (Some b, t')"
  shows "inside b (tk_cur t)"
proof -
  obtain tok t1 where 1: "fdt_token_expect m BeginNode t = Ok (Some tok, t1)" "or_collapse (fdt_str m t1) = Ok (Some b, t')"
    using assms by (auto simp: next_subnode_def parse_bind_Ok)
  then have "fdt_str m t1 = Ok (Some b, t')"
    by (auto simp: or_collapse_def split: outcome.splits option.splits)
  then have "inside b (tk_cur t1)" by (auto simp: fdt_str_def Let_def split: if_splits dest: take_inside)
  then show ?thesis using fdt_token_expect_moves [OF 1(1)] moves_inside inside_trans by metis
qed

lemma read_property_loop_inside: "read_property_loop m nm t = Some (Ok b) \<Longrightarrow> inside b (tk_cur t)"
proof (induction m nm t rule: read_property_loop.induct)
  case (1 m nm t)
  from 1(2) obtain pn buf t' where p: "next_property m t = Ok (Some (pn, buf), t')"
    by (subst (asm) read_property_loop.simps) (auto split: outcome.splits option.splits)
  from 1(2) p obtain c where c: "strcmp m pn nm = Some c"
    by (subst (asm) read_property_loop.simps) (auto split: option.splits)
  show ?case
  proof (cases "c = 0")
    case True
    then show ?thesis using 1(2) p c next_property_inside [OF p] by (subst (asm) read_property_loop.simps) simp
  next
    case False
    then have "read_property_loop m nm t' = Some (Ok b)" using 1(2) p c by (subst (asm) read_property_loop.simps) simp
    from 1(1) [OF p refl refl refl c False this] show ?thesis
      using next_property_moves [OF p] moves_inside inside_trans by metis
  qed
qed

lemma enter_subnode_inside:
  assumes "enter_subnode m t n = Ok (r, n')" "inside (tk_cur t) (fn_data n)"
  shows "inside (fn_data n') (fn_data n) \<and> fn_strs n' = fn_strs n \<and> (\<forall>s. r = Some s \<longrightarrow> inside s (fn_data n))"
proof -
  obtain x t' where x: "next_subnode m t = Ok (x, t')" using assms(1) by (auto simp: enter_subnode_def split: outcome.splits)
  then have "inside (tk_cur t') (tk_cur t)" using next_subnode_moves moves_inside by blast
  then show ?thesis
    using assms x next_subnode_inside [of m t _ t'] inside_trans
    by (cases x) (auto simp: enter_subnode_def intro: inside_trans)
qed

lemma find_child_loop_inside: "find_child_loop m nm t = Some (Ok (Some d)) \<Longrightarrow> inside d (tk_cur t)"
proof (induction m nm t rule: find_child_loop.induct)
  case (1 m nm t)
  from 1(2) obtain s t' where p: "next_subnode m t = Ok (Some s, t')"
    by (subst (asm) find_child_loop.simps) (auto split: outcome.splits option.splits)
  from 1(2) p obtain c where c: "strcmp m (fst s) nm = Some c"
    by (subst (asm) find_child_loop.simps) (auto split: option.splits)
  have in': "inside (tk_cur t') (tk_cur t)" using next_subnode_moves [OF p] moves_inside by blast
  show ?case
  proof (cases "c = 0")
    case True
    then show ?thesis using 1(2) p c in' by (subst (asm) find_child_loop.simps) simp
  next
    case False
    then obtain r t'' where k: "skip_node m t' = Ok (r, t'')" "find_child_loop m nm t'' = Some (Ok (Some d))"
      using 1(2) p c by (subst (asm) find_child_loop.simps) (auto split: outcome.splits)
    from 1(1) [OF p refl refl c False k(1) refl k(2)] show ?thesis
      using skip_node_moves [OF k(1)] moves_inside inside_trans in' by metis
  qed
qed

lemma node_tokenizer_cur [simp]: "tk_cur (node_tokenizer n) = fn_data n"
  by (simp add: node_tokenizer_def)

lemma find_child_inside:
  assumes "find_child m nm n = Some (Ok (r, n'))"
  shows "inside (fn_data n') (fn_data n) \<and> fn_strs n' = fn_strs n"
proof -
  obtain t x where t: "skip_properties m (node_tokenizer n) = Ok t" "find_child_loop m nm t = Some (Ok x)"
    using assms by (auto simp: find_child_def split: outcome.splits option.splits)
  have "inside (tk_cur t) (fn_data n)" using skip_properties_moves [OF t(1)] moves_inside by fastforce
  then show ?thesis
    using assms t find_child_loop_inside [of m nm t] inside_trans by (cases x) (auto simp: find_child_def intro: inside_trans)
qed

lemma first_child_inside:
  assumes "first_child m n = Ok (r, n')"
  shows "inside (fn_data n') (fn_data n) \<and> fn_strs n' = fn_strs n \<and> (\<forall>s. r = Some s \<longrightarrow> inside s (fn_data n))"
proof -
  obtain t where t: "skip_properties m (node_tokenizer n) = Ok t" "enter_subnode m t n = Ok (r, n')"
    using assms by (auto simp: first_child_def split: outcome.splits)
  have "inside (tk_cur t) (fn_data n)" using skip_properties_moves [OF t(1)] moves_inside by fastforce
  then show ?thesis using enter_subnode_inside [OF t(2)] by blast
qed

lemma next_sibling_inside:
  assumes "next_sibling m n = Ok (r, n')"
  shows "inside (fn_data n') (fn_data n) \<and> fn_strs n' = fn_strs n \<and> (\<forall>s. r = Some s \<longrightarrow> inside s (fn_data n))"
proof -
  obtain x t where t: "skip_node m (node_tokenizer n) = Ok (x, t)"
    using assms by (auto simp: next_sibling_def split: outcome.splits)
  have i: "inside (tk_cur t) (fn_data n)" using skip_node_moves [OF t(1)] moves_inside by fastforce
  show ?thesis
  proof (cases x)
    case None
    then show ?thesis using assms t by (simp add: next_sibling_def)
  next
    case (Some y)
    then have "enter_subnode m t n = Ok (r, n')" using assms t by (simp add: next_sibling_def)
    then show ?thesis using enter_subnode_inside [OF _ i] by blast
  qed
qed

section \<open>Properties\<close>

text \<open>
  C38. The parser refines the tree. When a node of the parser stands at a node of the tree that the memory
  encodes, then reading a property gives the value of the first property with that name, or an error
  when there is none; looking for a child moves to the first child with that name, or leaves the node
  alone; and the first child and the next sibling are those of the tree. No operation panics, and all
  of them return.
\<close>

theorem fdt_refines_tree:
  assumes "node_at m names n c sibs bs" "cstr_at m nm s"
  shows "(case find (\<lambda>p. names (fst p) = s) (tree_props c) of
        None \<Rightarrow> read_property m nm n = Some (Err ())
      | Some p \<Rightarrow> \<exists>b. read_property m nm n = Some (Ok b) \<and> slice_bytes m b = snd p)
    \<and> (case dropWhile (\<lambda>c. tree_name c \<noteq> s) (tree_children c) of
        [] \<Rightarrow> find_child m nm n = Some (Ok (None, n))
      | d # ds \<Rightarrow> \<exists>n'. find_child m nm n = Some (Ok (Some (), n')) \<and> node_at m names n' d ds (enc_forest sibs @ be_u32 2 @ bs))
    \<and> (case tree_children c of
        [] \<Rightarrow> first_child m n = Ok (None, n)
      | d # ds \<Rightarrow> \<exists>x n'. first_child m n = Ok (Some x, n') \<and> node_at m names n' d ds (enc_forest sibs @ be_u32 2 @ bs))
    \<and> (case sibs of
        [] \<Rightarrow> next_sibling m n = Ok (None, n)
      | d # ds \<Rightarrow> \<exists>x n'. next_sibling m n = Ok (Some x, n') \<and> node_at m names n' d ds bs)"
proof (intro conjI)
  show "case find (\<lambda>p. names (fst p) = s) (tree_props c) of
        None \<Rightarrow> read_property m nm n = Some (Err ())
      | Some p \<Rightarrow> \<exists>b. read_property m nm n = Some (Ok b) \<and> slice_bytes m b = snd p"
    using read_property_at [OF assms] by (fastforce simp: slice_bytes_at split: option.splits)
  show "case dropWhile (\<lambda>c. tree_name c \<noteq> s) (tree_children c) of
        [] \<Rightarrow> find_child m nm n = Some (Ok (None, n))
      | d # ds \<Rightarrow> \<exists>n'. find_child m nm n = Some (Ok (Some (), n')) \<and> node_at m names n' d ds (enc_forest sibs @ be_u32 2 @ bs)"
    using find_child_at [OF assms] by (cases "dropWhile (\<lambda>c. tree_name c \<noteq> s) (tree_children c)") (simp_all only: list.case, blast)
  show "case tree_children c of
        [] \<Rightarrow> first_child m n = Ok (None, n)
      | d # ds \<Rightarrow> \<exists>x n'. first_child m n = Ok (Some x, n') \<and> node_at m names n' d ds (enc_forest sibs @ be_u32 2 @ bs)"
    using first_child_at [OF assms(1)] by (cases "tree_children c") (simp_all only: list.case, blast)
  show "case sibs of
        [] \<Rightarrow> next_sibling m n = Ok (None, n)
      | d # ds \<Rightarrow> \<exists>x n'. next_sibling m n = Ok (Some x, n') \<and> node_at m names n' d ds bs"
    using next_sibling_at [OF assms(1)] by (cases sibs) (simp_all only: list.case, blast)
qed

text \<open>A node with the property \<open>r = 5\<close> and the child \<open>c\<close>; the names are at 0x2000 and 0x3000.\<close>

definition demo_tree :: fdt_tree where
  "demo_tree = FdtTree [] [(0, [5])] [FdtTree [99] [] []]"

definition demo_fdt :: "usize \<Rightarrow> u8" where
  "demo_fdt = write_bytes 0x1000 (enc_body (tree_props demo_tree) (tree_children demo_tree) @ be_u32 2)
     (\<lambda>a. if a = 0x2000 then 114 else if a = 0x3000 then 99 else 0)"

definition demo_node :: FdtNode where
  "demo_node = \<lparr>fn_hdr = 0, fn_data = (0x1000, 36), fn_strs = (0x2000, 2)\<rparr>"

lemma bytes_at_write: "length bs < 2 ^ 64 \<Longrightarrow> bytes_at (write_bytes a bs m) a bs"
  by (simp add: bytes_at_def write_bytes_def unat_of_nat)

lemma demo_node_at: "node_at demo_fdt (\<lambda>_. [114]) demo_node demo_tree [] []"
proof -
  have len: "length (enc_body (tree_props demo_tree) (tree_children demo_tree) @ be_u32 2) = 36"
    by (simp add: demo_tree_def enc_body_def enc_prop_def enc_tree_body padded_def)
  have "cstr_at demo_fdt 0x2000 [114]"
    unfolding demo_fdt_def cstr_at_def write_bytes_def len by simp
  moreover have "tok_at demo_fdt (node_tokenizer demo_node) (enc_body (tree_props demo_tree) (tree_children demo_tree) @ be_u32 2)"
    unfolding tok_at_def len using bytes_at_write len by (simp add: demo_node_def node_tokenizer_def demo_fdt_def del: bytes_at_append)
  ultimately show ?thesis
    by (simp add: node_at_def tree_ok_def) (simp add: demo_node_def demo_tree_def wf_prop_def)
qed

theorem fdt_refines_tree_witness:
  "(\<exists>b. read_property demo_fdt 0x2000 demo_node = Some (Ok b) \<and> slice_bytes demo_fdt b = [5])
   \<and> (\<exists>n'. find_child demo_fdt 0x3000 demo_node = Some (Ok (Some (), n')))"
proof
  have "cstr_at demo_fdt 0x2000 [114]" "cstr_at demo_fdt 0x3000 [99]"
    unfolding demo_fdt_def cstr_at_def write_bytes_def
    by (simp_all add: demo_tree_def enc_body_def enc_prop_def enc_tree_body padded_def)
  note r = fdt_refines_tree [OF demo_node_at this(1)] fdt_refines_tree [OF demo_node_at this(2)]
  show "\<exists>b. read_property demo_fdt 0x2000 demo_node = Some (Ok b) \<and> slice_bytes demo_fdt b = [5]"
    using r(1) by (simp add: demo_tree_def)
  show "\<exists>n'. find_child demo_fdt 0x3000 demo_node = Some (Ok (Some (), n'))"
    using r(2) by (auto simp: demo_tree_def)
qed

text \<open>
  C39. Whatever the memory holds, the parser stays inside its slices: a property it returns lies in the data
  of the node, and the data of the node it moves to, and the name of that node, lie in the data of the
  node it came from; the string block does not change.
\<close>

theorem fdt_operations_inside:
  "(read_property m nm n = Some (Ok b) \<longrightarrow> inside b (fn_data n))
   \<and> (find_child m nm n = Some (Ok (r, n')) \<longrightarrow> inside (fn_data n') (fn_data n) \<and> fn_strs n' = fn_strs n)
   \<and> (first_child m n = Ok (x, n') \<or> next_sibling m n = Ok (x, n') \<longrightarrow>
        inside (fn_data n') (fn_data n) \<and> fn_strs n' = fn_strs n \<and> (case x of None \<Rightarrow> True | Some s \<Rightarrow> inside s (fn_data n)))"
proof (intro conjI impI)
  show "inside b (fn_data n)" if "read_property m nm n = Some (Ok b)"
    using read_property_loop_inside [of m nm "node_tokenizer n" b] that by (simp add: read_property_def)
  show "inside (fn_data n') (fn_data n)" "fn_strs n' = fn_strs n" if "find_child m nm n = Some (Ok (r, n'))"
    using find_child_inside [OF that] by simp_all
  assume "first_child m n = Ok (x, n') \<or> next_sibling m n = Ok (x, n')"
  then show "inside (fn_data n') (fn_data n)" "fn_strs n' = fn_strs n" "case x of None \<Rightarrow> True | Some s \<Rightarrow> inside s (fn_data n)"
    using first_child_inside [of m n x n'] next_sibling_inside [of m n x n'] by (auto split: option.splits)
qed

theorem fdt_operations_inside_witness:
  "\<exists>b. read_property demo_fdt 0x2000 demo_node = Some (Ok b) \<and> inside b (fn_data demo_node)"
proof -
  have "cstr_at demo_fdt 0x2000 [114]"
    unfolding demo_fdt_def cstr_at_def write_bytes_def
    by (simp add: demo_tree_def enc_body_def enc_prop_def enc_tree_body padded_def)
  from read_property_at [OF demo_node_at this] obtain a where a: "read_property demo_fdt 0x2000 demo_node = Some (Ok (a, 1))"
    by (auto simp: demo_tree_def)
  then show ?thesis using fdt_operations_inside [of demo_fdt "0x2000" demo_node "(a, 1)"] by blast
qed

end
