(* ===== verification/Fdt_Handler.thy ===== *)
theory Fdt_Handler
  imports Fdt_Tree Page_Table Arch_Aarch64 Regs
begin

text \<open>
  What the hypervisor reads from the device tree, and what it writes to it for the primary VM
  (src/hfo2/src/fdt_handler.rs), with the boot parameters (src/hfo2/src/boot_params.rs).

  \<open>lit\<close> gives the addresses of the string literals of the source, which end in a zero byte. Memory is
  byte memory, which \<open>patch\<close> changes; the page table of the hypervisor and the state of its pool are
  passed along. A result \<open>None\<close> says that a comparison of strings does not return.
\<close>

section \<open>Running fallible code that may not return\<close>

definition run_case ::
  "('a, 'e) outcome option \<Rightarrow> ('a \<Rightarrow> ('b, 'f) outcome option) \<Rightarrow> ('e \<Rightarrow> ('b, 'f) outcome option) \<Rightarrow> ('b, 'f) outcome option" where
  "run_case r f g =
     (case r of None \<Rightarrow> None | Some (Ok x) \<Rightarrow> f x | Some (Err e) \<Rightarrow> g e | Some Panic \<Rightarrow> Some Panic)"

text \<open>The operator \<open>?\<close>.\<close>

definition run_bind :: "('a, 'e) outcome option \<Rightarrow> ('a \<Rightarrow> ('b, 'e) outcome option) \<Rightarrow> ('b, 'e) outcome option" where
  "run_bind r f = run_case r f (\<lambda>e. Some (Err e))"

lemma run_case_simps [simp]:
  "run_case None f g = None" "run_case (Some (Ok x)) f g = f x" "run_case (Some (Err e)) f g = g e"
  "run_case (Some Panic) f g = Some Panic"
  "run_bind None f' = None" "run_bind (Some (Ok x)) f' = f' x" "run_bind (Some (Err e')) f' = Some (Err e')"
  "run_bind (Some Panic) f' = Some Panic"
  by (simp_all add: run_case_def run_bind_def)

lemma run_case_cong [fundef_cong]:
  "r = r' \<Longrightarrow> (\<And>x. r' = Some (Ok x) \<Longrightarrow> f x = f' x) \<Longrightarrow> (\<And>e. r' = Some (Err e) \<Longrightarrow> g e = g' e) \<Longrightarrow>
   run_case r f g = run_case r' f' g'"
  by (auto simp: run_case_def split: option.splits outcome.splits)

lemma run_case_eq_Ok:
  "run_case r f g = Some (Ok y) \<longleftrightarrow>
     (\<exists>x. r = Some (Ok x) \<and> f x = Some (Ok y)) \<or> (\<exists>e. r = Some (Err e) \<and> g e = Some (Ok y))"
  by (auto simp: run_case_def split: option.splits outcome.splits)

lemma run_bind_eq_Ok:
  "run_bind r f = Some (Ok y) \<longleftrightarrow> (\<exists>x. r = Some (Ok x) \<and> f x = Some (Ok y))"
  by (auto simp: run_bind_def run_case_def split: option.splits outcome.splits)

section \<open>Numbers in properties\<close>

type_synonym literals = "string \<Rightarrow> usize"

definition cbytes :: "string \<Rightarrow> u8 list" where
  "cbytes s = map of_char s @ [0]"

definition literals_ok :: "(usize \<Rightarrow> u8) \<Rightarrow> literals \<Rightarrow> bool" where
  "literals_ok m lit \<longleftrightarrow> (\<forall>s. bytes_at m (lit s) (cbytes s))"

definition read_number :: "(usize \<Rightarrow> u8) \<Rightarrow> usize \<Rightarrow> FdtNode \<Rightarrow> u64 res option" where
  "read_number m nm n =
     run_bind (read_property m nm n) (\<lambda>data.
       Some (case fdt_parse_number m data of
               Ok (Some v) \<Rightarrow> Ok v
             | Ok None \<Rightarrow> Err ()
             | Err e \<Rightarrow> Err e
             | Panic \<Rightarrow> Panic))"

definition write_number :: "usize \<Rightarrow> u64 \<Rightarrow> FdtNode \<Rightarrow> (usize \<Rightarrow> u8) \<Rightarrow> (usize \<Rightarrow> u8) res option" where
  "write_number nm value n m =
     run_bind (read_property m nm n) (\<lambda>data.
       Some (if snd data = 4 then Ok (write_bytes (fst data) (be_u32 (ucast value)) m)
             else if snd data = 8 then Ok (write_bytes (fst data) (be_u64 value) m)
             else Err ()))"

section \<open>Reading the device tree\<close>

definition find_initrd :: "(usize \<Rightarrow> u8) \<Rightarrow> literals \<Rightarrow> FdtNode \<Rightarrow> (paddr_t \<times> paddr_t) option res option" where
  "find_initrd m lit n =
     run_bind (find_child m (lit ''chosen'') n) (\<lambda>(found, node).
       if found = None then Some (Ok None)
       else
         run_case (read_number m (lit ''linux,initrd-start'') node) (\<lambda>initrd_begin.
           run_case (read_number m (lit ''linux,initrd-end'') node) (\<lambda>initrd_end.
             Some (Ok (Some (pa_init initrd_begin, pa_init initrd_end))))
             (\<lambda>_. Some (Ok None)))
           (\<lambda>_. Some (Ok None)))"

text \<open>The size in bytes that a number of cells stands for; one cell when there is no such property.\<close>

definition cells_size :: "(usize \<Rightarrow> u8) \<Rightarrow> usize \<Rightarrow> FdtNode \<Rightarrow> usize res option" where
  "cells_size m nm n = run_case (read_number m nm n) (\<lambda>sz. Some (Ok (sz * 4))) (\<lambda>_. Some (Ok 4))"

lemma next_sibling_shorter:
  assumes "next_sibling m n = Ok (Some s, n')"
  shows "snd (fn_data n') < snd (fn_data n)"
proof -
  obtain t where t: "skip_node m (node_tokenizer n) = Ok (Some (), t)" "enter_subnode m t n = Ok (Some s, n')"
    using assms by (auto simp: next_sibling_def split: outcome.splits option.splits)
  then obtain t' where t': "next_subnode m t = Ok (Some s, t')" "fn_data n' = tk_cur t'"
    by (auto simp: enter_subnode_def split: outcome.splits option.splits)
  obtain k l where "moves (node_tokenizer n) k t" "moves t l t'" "4 \<le> l"
    using skip_node_moves [OF t(1)] next_subnode_moves [OF t'(1)] by auto
  then show ?thesis using t'(2) by (auto dest!: moves_len)
qed

text \<open>
  The loops over the children of a node: the body is run for a node and all its following siblings,
  unless it returns early.
\<close>

function sibling_loop ::
  "(usize \<Rightarrow> u8) \<Rightarrow> (FdtNode \<Rightarrow> 'a \<Rightarrow> 'a option res option) \<Rightarrow> FdtNode \<Rightarrow> 'a \<Rightarrow> 'a option res option" where
  "sibling_loop m body n acc =
     run_case (body n acc) (\<lambda>r. case r of
         None \<Rightarrow> Some (Ok None)
       | Some acc' \<Rightarrow>
           (case next_sibling m n of
              Ok (Some _, n') \<Rightarrow> sibling_loop m body n' acc'
            | Ok (None, n') \<Rightarrow> Some (Ok (Some acc'))
            | Err e \<Rightarrow> Some (Err e)
            | Panic \<Rightarrow> Some Panic))
       (\<lambda>e. Some (Err e))"
  by pat_completeness auto
termination
  by (relation "measure (\<lambda>(m, body, n, acc). snd (fn_data n))") (auto dest: next_sibling_shorter)

declare sibling_loop.simps [simp del]

lemma fdt_parse_number_size: "fdt_parse_number m d = Ok (Some v) \<Longrightarrow> snd d = 4 \<or> snd d = 8"
  by (auto simp: fdt_parse_number_def split: if_splits)

text \<open>The IDs in the property \<open>reg\<close> of a CPU.\<close>

function read_cpu_ids :: "(usize \<Rightarrow> u8) \<Rightarrow> nat \<Rightarrow> slice \<Rightarrow> cpu_id_t list \<Rightarrow> cpu_id_t list option res" where
  "read_cpu_ids m address_size data cpu_ids =
     (if snd data \<ge> address_size then
        if length cpu_ids \<ge> MAX_CPUS then Ok None
        else
          case fdt_parse_number m (fst data, address_size) of
            Ok (Some v) \<Rightarrow>
              read_cpu_ids m address_size (fst data + of_nat address_size, snd data - address_size) (cpu_ids @ [v])
          | Ok None \<Rightarrow> Ok None
          | Err e \<Rightarrow> Err e
          | Panic \<Rightarrow> Panic
      else Ok (Some cpu_ids))"
  by pat_completeness auto
termination
  by (relation "measure (\<lambda>(m, k, d, ids). snd d)") (auto dest!: fdt_parse_number_size)

declare read_cpu_ids.simps [simp del]

text \<open>The body of both loops: nodes of another type, or without \<open>reg\<close>, are skipped.\<close>

definition for_device ::
  "(usize \<Rightarrow> u8) \<Rightarrow> literals \<Rightarrow> string \<Rightarrow> (slice \<Rightarrow> 'a \<Rightarrow> 'a option res) \<Rightarrow> FdtNode \<Rightarrow> 'a \<Rightarrow> 'a option res option" where
  "for_device m lit type body n acc =
     run_case (read_property m (lit ''device_type'') n) (\<lambda>data.
       if slice_bytes m data \<noteq> cbytes type then Some (Ok (Some acc))
       else run_case (read_property m (lit ''reg'') n) (\<lambda>data. Some (body data acc)) (\<lambda>_. Some (Ok (Some acc))))
       (\<lambda>_. Some (Ok (Some acc)))"

definition find_cpus :: "(usize \<Rightarrow> u8) \<Rightarrow> literals \<Rightarrow> FdtNode \<Rightarrow> cpu_id_t list option res option" where
  "find_cpus m lit n =
     run_bind (find_child m (lit ''cpus'') n) (\<lambda>(found, node).
       if found = None then Some (Ok None)
       else
         run_bind (cells_size m (lit ''#address-cells'') node) (\<lambda>address_size.
         run_bind (Some (first_child m node)) (\<lambda>(child, node).
           if child = None then Some (Ok None)
           else sibling_loop m (for_device m lit ''cpu'' (read_cpu_ids m (unat address_size))) node [])))"

section \<open>Boot parameters\<close>

definition MAX_MEM_RANGES :: nat where "MAX_MEM_RANGES = 20"

record mem_range =
  r_begin :: paddr_t
  r_end :: paddr_t

record boot_params =
  cpu_ids :: "cpu_id_t list"
  mem_ranges :: "mem_range list"
  mem_ranges_count :: nat
  initrd_begin :: paddr_t
  initrd_end :: paddr_t
  kernel_arg :: uintreg_t

record boot_params_update =
  reserved_ranges :: "mem_range list"
  reserved_ranges_count :: nat
  u_initrd_begin :: paddr_t
  u_initrd_end :: paddr_t

definition BootParamsUpdate_new :: "paddr_t \<Rightarrow> paddr_t \<Rightarrow> boot_params_update" where
  "BootParamsUpdate_new b e =
     \<lparr>reserved_ranges = replicate MAX_MEM_RANGES \<lparr>r_begin = pa_init 0, r_end = pa_init 0\<rparr>,
      reserved_ranges_count = 0, u_initrd_begin = b, u_initrd_end = e\<rparr>"

text \<open>
  The ranges in the property \<open>reg\<close> of a memory node, and the number of ranges so far. The slices
  panic when they are out of bounds, and so does the \<open>unwrap\<close> of a number of another size.
\<close>

function read_mem_ranges ::
  "(usize \<Rightarrow> u8) \<Rightarrow> nat \<Rightarrow> nat \<Rightarrow> slice \<Rightarrow> mem_range list \<times> nat \<Rightarrow> (mem_range list \<times> nat) option res" where
  "read_mem_ranges m address_size entry_bytes data acc =
     (if snd data \<ge> entry_bytes then
        if address_size > snd data \<or> address_size > entry_bytes then Panic
        else
          case fdt_parse_number m (fst data, address_size) of
            Ok (Some addr) \<Rightarrow>
              (case fdt_parse_number m (fst data + of_nat address_size, entry_bytes - address_size) of
                 Ok (Some len) \<Rightarrow>
                   read_mem_ranges m address_size entry_bytes (fst data + of_nat entry_bytes, snd data - entry_bytes)
                     (if snd acc < MAX_MEM_RANGES
                      then ((fst acc)[snd acc := \<lparr>r_begin = pa_init addr, r_end = pa_init (addr + len)\<rparr>], snd acc + 1)
                      else acc)
               | _ \<Rightarrow> Panic)
          | _ \<Rightarrow> Panic
      else Ok (Some acc))"
  by pat_completeness auto
termination
  by (relation "measure (\<lambda>(m, k, l, d, acc). snd d)") (auto dest!: fdt_parse_number_size)

declare read_mem_ranges.simps [simp del]

definition find_memory_ranges :: "(usize \<Rightarrow> u8) \<Rightarrow> literals \<Rightarrow> FdtNode \<Rightarrow> boot_params \<Rightarrow> boot_params option res option" where
  "find_memory_ranges m lit n p =
     run_bind (cells_size m (lit ''#address-cells'') n) (\<lambda>address_size.
     run_bind (cells_size m (lit ''#size-cells'') n) (\<lambda>size_size.
     run_bind (Some (first_child m n)) (\<lambda>(child, node).
       if child = None then Some (Ok None)
       else
         run_bind (sibling_loop m (for_device m lit ''memory''
             (read_mem_ranges m (unat address_size) (unat (address_size + size_size)))) node (mem_ranges p, 0))
           (\<lambda>r. Some (Ok (map_option (\<lambda>(ranges, k). p\<lparr>mem_ranges := ranges, mem_ranges_count := k\<rparr>) r))))))"

section \<open>Mapping and patching the device tree\<close>

text \<open>A scope guard that unmaps a range, whatever comes of it.\<close>

definition with_unmap :: "paddr_t \<Rightarrow> paddr_t \<Rightarrow> 'a res \<Rightarrow> ptable \<Rightarrow> menv \<Rightarrow> 'a res \<times> ptable \<times> menv" where
  "with_unmap b e r t env =
     (case PageTable_unmap aarch64_stage1 b e t env of
        (Panic, t, env) \<Rightarrow> (Panic, t, env)
      | (_, t, env) \<Rightarrow> (r, t, env))"

definition handler_map :: "(usize \<Rightarrow> u8) \<Rightarrow> paddr_t \<Rightarrow> ptable \<Rightarrow> menv \<Rightarrow> FdtNode option res \<times> ptable \<times> menv" where
  "handler_map m fdt_addr t env =
     (let hdr_end = pa_add fdt_addr size_of_FdtHeader
      in case identity_map aarch64_stage1 fdt_addr hdr_end MODE_R t env of
           (Ok _, t, env) \<Rightarrow>
             let fdt = pa_addr fdt_addr
             in (case new_root m fdt of
                   None \<Rightarrow> with_unmap fdt_addr hdr_end (Ok None) t env
                 | Some node \<Rightarrow>
                     (case identity_map aarch64_stage1 fdt_addr (pa_add fdt_addr (ucast (fdt_totalsize m fdt))) MODE_R t env of
                        (Ok _, t, env) \<Rightarrow> (Ok (Some node), t, env)
                      | (Err _, t, env) \<Rightarrow> with_unmap fdt_addr hdr_end (Ok None) t env
                      | (Panic, t, env) \<Rightarrow> (Panic, t, env)))
         | (Err _, t, env) \<Rightarrow> (Ok None, t, env)
         | (Panic, t, env) \<Rightarrow> (Panic, t, env))"

definition handler_unmap :: "(usize \<Rightarrow> u8) \<Rightarrow> usize \<Rightarrow> ptable \<Rightarrow> menv \<Rightarrow> unit res \<times> ptable \<times> menv" where
  "handler_unmap m fdt t env =
     (let fdt_addr = pa_init fdt
      in PageTable_unmap aarch64_stage1 fdt_addr (pa_add fdt_addr (ucast (fdt_totalsize m fdt))) t env)"

text \<open>The reservations for the image of the hypervisor and for the secondary VMs.\<close>

definition reserve_ranges :: "layout \<Rightarrow> usize \<Rightarrow> boot_params_update \<Rightarrow> (usize \<Rightarrow> u8) \<Rightarrow> unit res \<times> (usize \<Rightarrow> u8)" where
  "reserve_ranges lay fdt p m =
     (let m = add_mem_reservation fdt (pa_addr (text_begin lay)) (pa_difference (text_begin lay) (text_end lay)) m;
          m = add_mem_reservation fdt (pa_addr (rodata_begin lay)) (pa_difference (rodata_begin lay) (rodata_end lay)) m;
          m = add_mem_reservation fdt (pa_addr (data_begin lay)) (pa_difference (data_begin lay) (data_end lay)) m
      in if reserved_ranges_count p > length (reserved_ranges p) then (Panic, m)
         else (Ok (),
               fold (\<lambda>r. add_mem_reservation fdt (pa_addr (r_begin r)) (pa_addr (r_end r) - pa_addr (r_begin r)))
                 (take (reserved_ranges_count p) (reserved_ranges p)) m))"

text \<open>The part of \<open>patch\<close> between the mapping and the unmapping.\<close>

definition patch_tree ::
  "literals \<Rightarrow> layout \<Rightarrow> usize \<Rightarrow> boot_params_update \<Rightarrow> FdtNode \<Rightarrow> (usize \<Rightarrow> u8) \<Rightarrow> (unit res \<times> (usize \<Rightarrow> u8)) option" where
  "patch_tree lit lay fdt p node m =
     (case find_child m (lit []) node of
        Some (Ok (Some _, node)) \<Rightarrow>
          (case find_child m (lit ''chosen'') node of
             Some (Ok (Some _, node)) \<Rightarrow>
               (case write_number (lit ''linux,initrd-start'') (pa_addr (u_initrd_begin p)) node m of
                  Some (Ok m) \<Rightarrow>
                    (case write_number (lit ''linux,initrd-end'') (pa_addr (u_initrd_end p)) node m of
                       Some (Ok m) \<Rightarrow> Some (reserve_ranges lay fdt p m)
                     | Some (Err e) \<Rightarrow> Some (Err e, m)
                     | Some Panic \<Rightarrow> Some (Panic, m)
                     | None \<Rightarrow> None)
                | Some (Err e) \<Rightarrow> Some (Err e, m)
                | Some Panic \<Rightarrow> Some (Panic, m)
                | None \<Rightarrow> None)
           | Some (Ok (None, node)) \<Rightarrow> Some (Err (), m)
           | Some (Err e) \<Rightarrow> Some (Err e, m)
           | Some Panic \<Rightarrow> Some (Panic, m)
           | None \<Rightarrow> None)
      | Some (Ok (None, node)) \<Rightarrow> Some (Err (), m)
      | Some (Err e) \<Rightarrow> Some (Err e, m)
      | Some Panic \<Rightarrow> Some (Panic, m)
      | None \<Rightarrow> None)"

definition patch ::
  "literals \<Rightarrow> layout \<Rightarrow> paddr_t \<Rightarrow> boot_params_update \<Rightarrow> (usize \<Rightarrow> u8) \<Rightarrow> ptable \<Rightarrow> menv
     \<Rightarrow> (unit res \<times> (usize \<Rightarrow> u8) \<times> ptable \<times> menv) option" where
  "patch lit lay fdt_addr p m t env =
     (let hdr_end = pa_add fdt_addr size_of_FdtHeader;
          keep = (\<lambda>m (r, t, env). Some (r, m, t, env))
      in case identity_map aarch64_stage1 fdt_addr hdr_end MODE_R t env of
           (Ok _, t, env) \<Rightarrow>
             let fdt = pa_addr fdt_addr
             in (case new_root m fdt of
                   None \<Rightarrow> keep m (with_unmap fdt_addr hdr_end (Err ()) t env)
                 | Some node \<Rightarrow>
                     let all_end = pa_add fdt_addr (ucast (fdt_totalsize m fdt) + PAGE_SIZE)
                     in (case identity_map aarch64_stage1 fdt_addr all_end (MODE_R OR MODE_W) t env of
                           (Ok _, t, env) \<Rightarrow>
                             (case patch_tree lit lay fdt p node m of
                                None \<Rightarrow> None
                              | Some (Ok _, m) \<Rightarrow>
                                  keep m (PageTable_unmap aarch64_stage1 fdt_addr
                                    (pa_add fdt_addr (ucast (fdt_totalsize m fdt) + PAGE_SIZE)) t env)
                              | Some (Err e, m) \<Rightarrow> keep m (with_unmap fdt_addr all_end (Err e) t env)
                              | Some (Panic, m) \<Rightarrow> Some (Panic, m, t, env))
                         | (Err _, t, env) \<Rightarrow> keep m (with_unmap fdt_addr hdr_end (Err ()) t env)
                         | (Panic, t, env) \<Rightarrow> Some (Panic, m, t, env)))
         | (Err _, t, env) \<Rightarrow> Some (Err (), m, t, env)
         | (Panic, t, env) \<Rightarrow> Some (Panic, m, t, env))"

section \<open>The C interface\<close>

definition fdt_map ::
  "(usize \<Rightarrow> u8) \<Rightarrow> paddr_t \<Rightarrow> fdt_node \<Rightarrow> ptable \<Rightarrow> menv \<Rightarrow> (usize res \<times> fdt_node) \<times> ptable \<times> menv" where
  "fdt_map m fdt_addr n t env =
     (case handler_map m fdt_addr t env of
        (Ok (Some node), t, env) \<Rightarrow> ((Ok (pa_addr fdt_addr), fdt_node_from node), t, env)
      | (Ok None, t, env) \<Rightarrow> ((Ok 0, n), t, env)
      | (Err e, t, env) \<Rightarrow> ((Err e, n), t, env)
      | (Panic, t, env) \<Rightarrow> ((Panic, n), t, env))"

definition fdt_unmap :: "(usize \<Rightarrow> u8) \<Rightarrow> usize \<Rightarrow> ptable \<Rightarrow> menv \<Rightarrow> bool res \<times> ptable \<times> menv" where
  "fdt_unmap m fdt t env = (let (r, t, env) = handler_unmap m fdt t env in (ok_flag r, t, env))"

definition fdt_find_cpus :: "(usize \<Rightarrow> u8) \<Rightarrow> literals \<Rightarrow> fdt_node \<Rightarrow> cpu_id_t list res option" where
  "fdt_find_cpus m lit c_root =
     run_bind (find_cpus m lit (FdtNode_from m c_root)) (\<lambda>r. Some (Ok (case r of None \<Rightarrow> [] | Some ids \<Rightarrow> ids)))"

definition fdt_find_memory_ranges :: "(usize \<Rightarrow> u8) \<Rightarrow> literals \<Rightarrow> fdt_node \<Rightarrow> boot_params \<Rightarrow> boot_params res option" where
  "fdt_find_memory_ranges m lit c_root p =
     run_bind (find_memory_ranges m lit (FdtNode_from m c_root) p) (\<lambda>r. Some (Ok (case r of None \<Rightarrow> p | Some p' \<Rightarrow> p')))"

definition fdt_find_initrd :: "(usize \<Rightarrow> u8) \<Rightarrow> literals \<Rightarrow> fdt_node \<Rightarrow> paddr_t \<times> paddr_t \<Rightarrow> (bool \<times> paddr_t \<times> paddr_t) res option" where
  "fdt_find_initrd m lit n out =
     run_bind (find_initrd m lit (FdtNode_from m n)) (\<lambda>r. Some (Ok (case r of None \<Rightarrow> (False, out) | Some be \<Rightarrow> (True, be))))"

definition fdt_patch ::
  "literals \<Rightarrow> layout \<Rightarrow> paddr_t \<Rightarrow> boot_params_update \<Rightarrow> (usize \<Rightarrow> u8) \<Rightarrow> ptable \<Rightarrow> menv
     \<Rightarrow> (bool res \<times> (usize \<Rightarrow> u8) \<times> ptable \<times> menv) option" where
  "fdt_patch lit lay fdt_addr p m t env =
     map_option (\<lambda>(r, m, t, env). (ok_flag r, m, t, env)) (patch lit lay fdt_addr p m t env)"

end
