(* ===== verification/Memiter.thy ===== *)
theory Memiter
  imports Bytes
begin

text \<open>
  Memory iterators (src/hfo2/src/memiter.rs) and the cpio archive of the initial RAM disk
  (src/hfo2/src/cpio.rs).

  An iterator is the pair of its two pointers. The specification side is the list \<open>contents m it\<close> of
  the bytes between them. The loops are recursive functions on the distance of the pointers.
\<close>

section \<open>Iterators\<close>

record memiter =
  it_next :: usize
  it_limit :: usize

definition is_space :: "u8 \<Rightarrow> bool" where
  "is_space c \<longleftrightarrow> c = 32 \<or> c = 9 \<or> c = 10 \<or> c = 13"

definition as_digit :: "u8 \<Rightarrow> u8 option" where
  "as_digit c = (if 48 \<le> c \<and> c \<le> 57 then Some (c - 48) else None)"

definition MemIter_from_raw :: "usize \<Rightarrow> usize \<Rightarrow> memiter" where
  "MemIter_from_raw data sz = \<lparr>it_next = data, it_limit = data + sz\<rparr>"

definition peek :: "(usize \<Rightarrow> u8) \<Rightarrow> memiter \<Rightarrow> u8 option" where
  "peek m it = (if it_next it < it_limit it then Some (m (it_next it)) else None)"

definition it_step :: "memiter \<Rightarrow> memiter" where
  "it_step it = it\<lparr>it_next := it_next it + 1\<rparr>"

lemma step_closer:
  assumes "peek m it = Some c"
  shows "unat (it_limit it) - unat (it_next (it_step it)) < unat (it_limit it) - unat (it_next it)"
proof -
  have lt: "it_next it < it_limit it" using assms by (auto simp: peek_def split: if_splits)
  then have "unat (it_next it + 1) = unat (it_next it) + 1"
    using unat_lt64 [of "it_limit it"] by (simp add: unat_word_ariths(1) word_less_nat_alt)
  then show ?thesis using lt by (simp add: it_step_def word_less_nat_alt)
qed

function skip_space :: "(usize \<Rightarrow> u8) \<Rightarrow> memiter \<Rightarrow> memiter" where
  "skip_space m it =
     (case peek m it of
        Some c \<Rightarrow> if \<not> is_space c then it else skip_space m (it_step it)
      | None \<Rightarrow> it)"
  by pat_completeness auto
termination
  by (relation "measure (\<lambda>(m, it). unat (it_limit it) - unat (it_next it))")
    (auto simp: it_step_def dest!: step_closer)

function skip_word :: "(usize \<Rightarrow> u8) \<Rightarrow> memiter \<Rightarrow> memiter" where
  "skip_word m it =
     (case peek m it of
        Some c \<Rightarrow> if is_space c then it else skip_word m (it_step it)
      | None \<Rightarrow> it)"
  by pat_completeness auto
termination
  by (relation "measure (\<lambda>(m, it). unat (it_limit it) - unat (it_next it))")
    (auto simp: it_step_def dest!: step_closer)

function read_digits :: "(usize \<Rightarrow> u8) \<Rightarrow> u64 \<Rightarrow> memiter \<Rightarrow> u64 \<times> memiter" where
  "read_digits m v it =
     (case Option.bind (peek m it) as_digit of
        Some d \<Rightarrow> read_digits m (v * 10 + ucast d) (it_step it)
      | None \<Rightarrow> (v, it))"
  by pat_completeness auto
termination
  by (relation "measure (\<lambda>(m, v, it). unat (it_limit it) - unat (it_next it))")
    (auto simp: it_step_def bind_eq_Some_conv dest!: step_closer)

declare skip_space.simps [simp del] skip_word.simps [simp del] read_digits.simps [simp del]

definition parse_str :: "(usize \<Rightarrow> u8) \<Rightarrow> memiter \<Rightarrow> memiter option \<times> memiter" where
  "parse_str m it =
     (let it = skip_space m it;
          nxt = it_next it;
          it = skip_word m it;
          sz = it_next it - nxt
      in if sz = 0 then (None, it) else (Some (MemIter_from_raw nxt sz), it))"

definition parse_uint :: "(usize \<Rightarrow> u8) \<Rightarrow> memiter \<Rightarrow> u64 option \<times> memiter" where
  "parse_uint m it =
     (let it = skip_space m it;
          nxt = it_next it;
          (value, it) = read_digits m 0 it
      in if it_next it = nxt then (None, it) else (Some value, it))"

definition iseq :: "(usize \<Rightarrow> u8) \<Rightarrow> memiter \<Rightarrow> usize \<Rightarrow> bool" where
  "iseq m it str =
     (let self_len = it_limit it - it_next it;
          len = strnlen_s m str (self_len + 1)
      in len = unat self_len \<and> memcmp_rs m (it_next it) str len = 0)"

definition advance :: "usize \<Rightarrow> memiter \<Rightarrow> unit res \<times> memiter" where
  "advance v it =
     (let p = it_next it + v
      in if \<not> (it_next it \<le> p \<and> p \<le> it_limit it) then (Err (), it) else (Ok (), it\<lparr>it_next := p\<rparr>))"

definition it_read :: "usize \<Rightarrow> memiter \<Rightarrow> usize option \<times> memiter" where
  "it_read v it =
     (let nxt = it_next it
      in case advance v it of (Ok _, it) \<Rightarrow> (Some nxt, it) | (_, it) \<Rightarrow> (None, it))"

definition it_len :: "memiter \<Rightarrow> usize" where
  "it_len it = it_limit it - it_next it"

text \<open>The C interface.\<close>

definition memiter_init :: "usize \<Rightarrow> usize \<Rightarrow> memiter" where
  "memiter_init data sz = MemIter_from_raw data sz"

definition memiter_parse_str :: "(usize \<Rightarrow> u8) \<Rightarrow> memiter \<Rightarrow> memiter \<Rightarrow> bool \<times> memiter \<times> memiter" where
  "memiter_parse_str m it str =
     (case parse_str m it of (None, it) \<Rightarrow> (False, it, str) | (Some s, it) \<Rightarrow> (True, it, s))"

definition memiter_iseq :: "(usize \<Rightarrow> u8) \<Rightarrow> memiter \<Rightarrow> usize \<Rightarrow> bool" where
  "memiter_iseq m it str \<longleftrightarrow> iseq m it str"

section \<open>Cpio archives\<close>

record cpio_result =
  name :: usize
  cpio_contents :: usize
  cpio_size :: usize

text \<open>
  The header is 26 bytes; \<open>namesize\<close> is at offset 20 and the two halves of \<open>filesize\<close> at 22 and 24.
  \<open>trailer\<close> is the address of the string literal that the name is compared with.
\<close>

definition size_of_CpioHeader :: usize where "size_of_CpioHeader = 26"

definition parse_cpio ::
  "usize \<Rightarrow> (usize \<Rightarrow> u8) \<Rightarrow> memiter \<Rightarrow> (cpio_result option \<times> memiter) option" where
  "parse_cpio trailer m it =
     (case it_read size_of_CpioHeader it of
        (None, it) \<Rightarrow> Some (None, it)
      | (Some header, it) \<Rightarrow>
          let name_len = (read_u16 m (header + 20) + 1) AND NOT 1
          in case it_read (ucast name_len) it of
               (None, it) \<Rightarrow> Some (None, it)
             | (Some nm, it) \<Rightarrow>
                 let contents_len = push_bit 16 (ucast (read_u16 m (header + 22))) OR ucast (read_u16 m (header + 24))
                 in (case it_read ((contents_len + 1) AND NOT 1) it of
                       (None, it) \<Rightarrow> Some (None, it)
                     | (Some cont, it) \<Rightarrow>
                         (case strcmp m nm trailer of
                            None \<Rightarrow> None
                          | Some c \<Rightarrow>
                              if c = 0 then Some (None, it)
                              else Some (Some \<lparr>name = nm, cpio_contents = cont, cpio_size = contents_len\<rparr>, it))))"

lemma advance_ok:
  assumes "advance v it = (Ok u, it')"
  shows "it_next it \<le> it_next it' \<and> it_next it' \<le> it_limit it' \<and> it_limit it' = it_limit it
    \<and> unat (it_next it') = unat (it_next it) + unat v"
proof -
  have it': "it' = it\<lparr>it_next := it_next it + v\<rparr>" "it_next it \<le> it_next it + v" "it_next it + v \<le> it_limit it"
    using assms by (auto simp: advance_def Let_def split: if_splits)
  then have "unat (it_next it + v) = unat (it_next it) + unat v"
    using unat_lt64 [of v] by (simp add: unat_plus_if_size word_le_nat_alt word_size split: if_splits)
  then show ?thesis using it' by simp
qed

lemma it_read_some:
  assumes "it_read v it = (Some p, it')"
  shows "p = it_next it" "it_next it \<le> it_next it'" "it_next it' \<le> it_limit it'" "it_limit it' = it_limit it"
    "unat (it_next it') = unat (it_next it) + unat v"
proof -
  obtain u where "advance v it = (Ok u, it')" "p = it_next it"
    using assms by (auto simp: it_read_def Let_def split: prod.splits outcome.splits)
  then show "p = it_next it" "it_next it \<le> it_next it'" "it_next it' \<le> it_limit it'" "it_limit it' = it_limit it"
    "unat (it_next it') = unat (it_next it) + unat v"
    using advance_ok [of v it u it'] by auto
qed

lemma round_to_even:
  fixes c :: usize
  assumes "unat c < 2 ^ 32"
  shows "unat c \<le> unat ((c + 1) AND NOT 1)"
proof -
  have "unat (c + 1) = unat c + 1" using assms by (simp add: unat_word_ariths(1))
  moreover have "unat ((c + 1) AND NOT 1) = unat (c + 1) div 2 * 2"
    using unat_and_not_mask [of "c + 1" 1] by simp
  ultimately show ?thesis by simp
qed

lemma file_size_bound: "unat (push_bit 16 (ucast hi) OR ucast lo :: usize) < 2 ^ 32" for hi lo :: u16
proof -
  have eq: "push_bit 16 (ucast hi) OR ucast lo = (push_bit 16 (ucast hi) OR ucast lo :: usize) AND mask 32"
    by (rule bit_word_eqI) (auto simp: bit_simps dest: bit_imp_le_length)
  have "unat ((push_bit 16 (ucast hi) OR ucast lo :: usize) AND mask 32) < 2 ^ 32"
    by (simp only: unat_and_mask) simp
  then show ?thesis by (simp only: eq [symmetric])
qed

lemma parse_cpio_bounds:
  assumes "parse_cpio trailer m it = Some (Some r, it')"
  shows "unat (it_next it) + 26 \<le> unat (name r) \<and> name r \<le> cpio_contents r \<and>
    unat (cpio_contents r) + unat (cpio_size r) \<le> unat (it_limit it) \<and>
    it_limit it' = it_limit it \<and> it_next it' \<le> it_limit it \<and> unat (it_next it) + 26 \<le> unat (it_next it')"
proof -
  obtain header it1 nm it2 where
    1: "it_read size_of_CpioHeader it = (Some header, it1)"
    and 2: "it_read (ucast ((read_u16 m (header + 20) + 1) AND NOT 1)) it1 = (Some nm, it2)"
    using assms by (auto simp: parse_cpio_def Let_def split: prod.splits option.splits)
  define len :: usize where "len = push_bit 16 (ucast (read_u16 m (header + 22))) OR ucast (read_u16 m (header + 24))"
  obtain cont where 3: "it_read ((len + 1) AND NOT 1) it2 = (Some cont, it')" and r: "r = \<lparr>name = nm, cpio_contents = cont, cpio_size = len\<rparr>"
    using assms 1 2 by (auto simp: parse_cpio_def Let_def len_def split: prod.splits option.splits if_splits)
  note b = it_read_some [OF 1] it_read_some [OF 2] it_read_some [OF 3]
  have "unat len \<le> unat ((len + 1) AND NOT 1)"
    unfolding len_def by (rule round_to_even [OF file_size_bound])
  then show ?thesis
    using b by (simp add: r size_of_CpioHeader_def word_le_nat_alt)
qed

text \<open>\<open>find_file\<close> and \<open>find_file_memiter\<close>; the loop ends because every entry has a header.\<close>

function find_file_loop ::
  "(cpio_result \<Rightarrow> bool option) \<Rightarrow> usize \<Rightarrow> (usize \<Rightarrow> u8) \<Rightarrow> memiter \<Rightarrow> memiter option option" where
  "find_file_loop found trailer m it =
     (case parse_cpio trailer m it of
        None \<Rightarrow> None
      | Some (None, it') \<Rightarrow> Some None
      | Some (Some r, it') \<Rightarrow>
          (case found r of
             None \<Rightarrow> None
           | Some True \<Rightarrow> Some (Some (MemIter_from_raw (cpio_contents r) (cpio_size r)))
           | Some False \<Rightarrow> find_file_loop found trailer m it'))"
  by pat_completeness auto
termination
proof (relation "measure (\<lambda>(found, trailer, m, it). unat (it_limit it) - unat (it_next it))")
  fix found :: "cpio_result \<Rightarrow> bool option" and trailer m it x2 x1 it' r x2a
  assume "parse_cpio trailer m it = Some x2" "(x1, it') = x2" "x1 = Some r"
  then have "parse_cpio trailer m it = Some (Some r, it')" by simp
  from parse_cpio_bounds [OF this]
  show "((found, trailer, m, it'), found, trailer, m, it) \<in> measure (\<lambda>(found, trailer, m, it). unat (it_limit it) - unat (it_next it))"
    by (auto simp: word_le_nat_alt)
qed simp

declare find_file_loop.simps [simp del]

definition find_file_memiter :: "usize \<Rightarrow> (usize \<Rightarrow> u8) \<Rightarrow> memiter \<Rightarrow> memiter \<Rightarrow> memiter option option" where
  "find_file_memiter trailer m cpio filename =
     find_file_loop (\<lambda>r. Some (iseq m filename (name r))) trailer m cpio"

definition find_file :: "usize \<Rightarrow> (usize \<Rightarrow> u8) \<Rightarrow> memiter \<Rightarrow> usize \<Rightarrow> memiter option option" where
  "find_file trailer m cpio filename =
     find_file_loop (\<lambda>r. map_option (\<lambda>c. c = 0) (strcmp m filename (name r))) trailer m cpio"

lemma find_file_loop_bounds:
  "find_file_loop found trailer m it = Some (Some f) \<Longrightarrow>
    it_next it \<le> it_next f \<and> it_next f \<le> it_limit f \<and> it_limit f \<le> it_limit it"
proof (induction found trailer m it rule: find_file_loop.induct)
  case (1 found trailer m it)
  from 1(2) obtain r it' where p: "parse_cpio trailer m it = Some (Some r, it')"
    by (subst (asm) find_file_loop.simps) (auto split: option.splits prod.splits)
  note b = parse_cpio_bounds [OF p]
  show ?case
  proof (cases "found r")
    case None
    then show ?thesis using 1(2) p by (subst (asm) find_file_loop.simps) simp
  next
    case (Some x)
    show ?thesis
    proof (cases x)
      case True
      then have f: "f = MemIter_from_raw (cpio_contents r) (cpio_size r)"
        using 1(2) p Some by (subst (asm) find_file_loop.simps) simp
      have "unat (cpio_contents r + cpio_size r) = unat (cpio_contents r) + unat (cpio_size r)"
        using b unat_lt64 [of "it_limit it"] by (intro unat_add_no_wrap) simp
      then show ?thesis using b by (simp add: f MemIter_from_raw_def word_le_nat_alt)
    next
      case False
      then have "find_file_loop found trailer m it' = Some (Some f)"
        using 1(2) p Some by (subst (asm) find_file_loop.simps) simp
      then show ?thesis using 1(1) [OF p refl refl Some] False b by (simp add: word_le_nat_alt)
    qed
  qed
qed

text \<open>
  C37. A file that is found lies inside the archive: the contents that \<open>find_file\<close> returns begin after the
  start of the archive and end before its limit, however malformed the archive is. (The search itself
  always ends, because every entry has a header; only the comparison of names can run on.)
\<close>

theorem find_file_inside:
  assumes "find_file trailer m cpio filename = Some (Some f)"
  shows "it_next cpio \<le> it_next f \<and> it_next f \<le> it_limit f \<and> it_limit f \<le> it_limit cpio"
  using find_file_loop_bounds [OF assms [unfolded find_file_def]] .

text \<open>An archive with one file \<open>f\<close> of the one byte 7, at address 64; the literal is at 160 and the name at 176.\<close>

definition demo_archive :: "usize \<Rightarrow> u8" where
  "demo_archive a =
     (if a = 84 then 2 else if a = 88 then 1 else if a = 90 then 102 else if a = 92 then 7
      else if a = 160 then 84 else if a = 161 then 10 else if a = 176 then 102 else 0)"

lemma demo_parse:
  "parse_cpio 160 demo_archive \<lparr>it_next = 64, it_limit = 128\<rparr> =
     Some (Some \<lparr>name = 90, cpio_contents = 92, cpio_size = 1\<rparr>, \<lparr>it_next = 94, it_limit = 128\<rparr>)"
proof -
  have "strcmp demo_archive 90 160 = Some 18"
    by (subst strcmp_step) (simp add: demo_archive_def)
  then show ?thesis
    by (simp add: parse_cpio_def it_read_def advance_def size_of_CpioHeader_def read_u16_def demo_archive_def [of 84]
        demo_archive_def [of 85] demo_archive_def [of 86] demo_archive_def [of 87] demo_archive_def [of 88] demo_archive_def [of 89] Let_def)
qed

theorem find_file_inside_witness:
  "find_file 160 demo_archive \<lparr>it_next = 64, it_limit = 128\<rparr> 176 = Some (Some \<lparr>it_next = 92, it_limit = 93\<rparr>)
   \<and> (92 :: usize) \<le> 93 \<and> (93 :: usize) \<le> 128"
proof -
  have "strcmp demo_archive 176 90 = strcmp demo_archive 177 91"
    by (subst strcmp_step) (simp add: demo_archive_def)
  also have "\<dots> = Some 0" by (subst strcmp_step) (simp add: demo_archive_def)
  finally have "find_file 160 demo_archive \<lparr>it_next = 64, it_limit = 128\<rparr> 176 = Some (Some \<lparr>it_next = 92, it_limit = 93\<rparr>)"
    unfolding find_file_def by (subst find_file_loop.simps) (simp add: demo_parse MemIter_from_raw_def)
  with find_file_inside [OF this] show ?thesis by simp
qed

section \<open>The end marker\<close>

text \<open>
  The name of the end marker of an archive is \<open>TRAILER!!!\<close>, with a terminating zero byte; the literal of
  \<open>parse_cpio\<close> ends in a line feed instead. So the names differ, whatever follows the literal, and
  \<open>parse_cpio\<close> reports the marker as one more file.
\<close>

definition trailer_name :: "u8 list" where
  "trailer_name = [84, 82, 65, 73, 76, 69, 82, 33, 33, 33]"

lemma trailer_not_recognised:
  assumes "bytes_at m nm (trailer_name @ [0])" "bytes_at m trailer (trailer_name @ [10])"
  shows "strcmp m nm trailer = Some (-10)"
proof -
  have "strcmp m nm trailer = strcmp m (nm + 10) (trailer + 10)"
    using strcmp_common_prefix [of m nm trailer_name trailer] assms by (simp add: trailer_name_def)
  also have "m (nm + 10) = 0" "m (trailer + 10) = 10"
    using assms by (simp_all add: trailer_name_def ac_simps)
  then have "strcmp m (nm + 10) (trailer + 10) = Some (-10)" by (subst strcmp_step) simp
  finally show ?thesis .
qed

end
