(* ===== verification/Manifest.thy ===== *)
theory Manifest
  imports Fdt_Handler Memiter Abi
begin

text \<open>
  The manifest that describes the VMs (src/hfo2/src/manifest.rs).

  The manifest is read from the node \<open>hypervisor\<close> of the device tree. The errors are those of the
  source. \<open>buf\<close> is the address of the buffer in which the names of the nodes of the VMs are written;
  \<open>lit\<close> gives the addresses of the string literals.
\<close>

section \<open>Strings and numbers\<close>

datatype manifest_error =
    NoHypervisorFdtNode
  | NotCompatible
  | ReservedVmId
  | NoPrimaryVm
  | TooManyVms
  | PropertyNotFound
  | MalformedString
  | StringTooLong
  | MalformedStringList
  | MalformedInteger
  | IntegerOverflow

type_synonym 'a manifest_res = "('a, manifest_error) outcome option"

definition VM_NAME_BUF_SIZE :: nat where "VM_NAME_BUF_SIZE = 2 + 5 + 1"
definition MANIFEST_MAX_STRING_LENGTH :: nat where "MANIFEST_MAX_STRING_LENGTH = 32"

text \<open>\<open>map_err\<close> with a constant.\<close>

definition map_err :: "('a, 'e) outcome option \<Rightarrow> manifest_error \<Rightarrow> 'a manifest_res" where
  "map_err r e = run_case r (\<lambda>x. Some (Ok x)) (\<lambda>_. Some (Err e))"

text \<open>The decimal digits of a number, as \<open>write!\<close> prints it.\<close>

fun decimal :: "nat \<Rightarrow> u8 list" where
  "decimal n = (if n < 10 then [48 + of_nat n] else decimal (n div 10) @ [48 + of_nat (n mod 10)])"

declare decimal.simps [simp del]

definition generate_vm_node_name :: "spci_vm_id_t \<Rightarrow> (u8 list, manifest_error) outcome" where
  "generate_vm_node_name i =
     (let s = map of_char ''vm'' @ decimal (unat i) @ [0]
      in if length s \<le> VM_NAME_BUF_SIZE then Ok s else Panic)"

definition read_string ::
  "(usize \<Rightarrow> u8) \<Rightarrow> usize \<Rightarrow> FdtNode \<Rightarrow> u8 list \<Rightarrow> u8 list manifest_res" where
  "read_string m property n out =
     run_bind (map_err (read_property m property n) PropertyNotFound) (\<lambda>data.
       Some (let i = strnlen_loop m (fst data) (snd data)
             in if \<not> (i < snd data \<and> i = snd data - 1) then Err MalformedString
                else if snd data > length out then Err StringTooLong
                else Ok (slice_bytes m data @ drop (snd data) out)))"

definition read_prop_u64 :: "(usize \<Rightarrow> u8) \<Rightarrow> usize \<Rightarrow> FdtNode \<Rightarrow> u64 manifest_res" where
  "read_prop_u64 m property n =
     run_bind (map_err (read_property m property n) PropertyNotFound) (\<lambda>data.
       Some (case fdt_parse_number m data of
               Ok (Some v) \<Rightarrow> Ok v
             | Ok None \<Rightarrow> Err MalformedInteger
             | _ \<Rightarrow> Panic))"

definition read_prop_u16 :: "(usize \<Rightarrow> u8) \<Rightarrow> usize \<Rightarrow> FdtNode \<Rightarrow> u16 manifest_res" where
  "read_prop_u16 m property n =
     run_bind (read_prop_u64 m property n) (\<lambda>value.
       Some (if unat value < 2 ^ 16 then Ok (ucast value) else Err IntegerOverflow))"

section \<open>Lists of strings\<close>

definition StringList_read_from :: "(usize \<Rightarrow> u8) \<Rightarrow> FdtNode \<Rightarrow> usize \<Rightarrow> memiter manifest_res" where
  "StringList_read_from m n property =
     run_bind (map_err (read_property m property n) PropertyNotFound) (\<lambda>data.
       Some (if snd data = 0 then Panic
             else if m (fst data + of_nat (snd data - 1)) \<noteq> 0 then Err MalformedStringList
             else Ok (MemIter_from_raw (fst data) (of_nat (snd data - 1)))))"

definition has_next :: "memiter \<Rightarrow> bool" where
  "has_next it \<longleftrightarrow> it_len it > 0"

text \<open>\<open>get_next\<close>: the entry, and the list after it.\<close>

definition get_next :: "(usize \<Rightarrow> u8) \<Rightarrow> memiter \<Rightarrow> (memiter \<times> memiter) res" where
  "get_next m it =
     (if \<not> has_next it then Panic
      else
        let pos = strnlen_loop m (it_next it) (unat (it_len it))
        in if pos < unat (it_len it) then
             (case advance (of_nat pos + 1) it of
                (Ok _, it') \<Rightarrow> Ok (MemIter_from_raw (it_next it) (of_nat pos), it')
              | _ \<Rightarrow> Panic)
           else
             (case advance (it_len it) it of
                (Ok _, it') \<Rightarrow> Ok (it, it')
              | _ \<Rightarrow> Panic))"

lemma get_next_shorter:
  assumes "get_next m it = Ok (entry, it')"
  shows "unat (it_len it') < unat (it_len it)"
proof -
  have n: "0 < it_len it" using assms by (auto simp: get_next_def has_next_def split: if_splits)
  obtain v u where v: "advance v it = (Ok u, it')" "0 < v"
  proof (cases "strnlen_loop m (it_next it) (unat (it_len it)) < unat (it_len it)")
    case True
    define p where "p = strnlen_loop m (it_next it) (unat (it_len it))"
    have "unat (of_nat p + 1 :: usize) = p + 1"
      using True unat_lt64 [of "it_len it"] by (simp add: p_def unat_word_ariths(1) unat_of_nat)
    then have "0 < (of_nat p + 1 :: usize)" by (simp add: word_less_nat_alt)
    then show ?thesis using that assms True n
      by (auto simp: get_next_def Let_def has_next_def simp flip: p_def split: outcome.splits prod.splits)
  next
    case False
    then show ?thesis using that assms n by (auto simp: get_next_def Let_def has_next_def split: outcome.splits prod.splits)
  qed
  have "unat (it_next it) < unat (it_next it')" using advance_ok [OF v(1)] v(2) by (simp add: word_less_nat_alt)
  moreover have "it_next it' \<le> it_limit it'" "it_limit it' = it_limit it" using advance_ok [OF v(1)] by auto
  ultimately show ?thesis by (simp add: it_len_def unat_sub word_le_nat_alt)
qed

function StringList_contains :: "(usize \<Rightarrow> u8) \<Rightarrow> usize \<Rightarrow> memiter \<Rightarrow> bool res" where
  "StringList_contains m asciz it =
     (if has_next it then
        case get_next m it of
          Ok (entry, it') \<Rightarrow> if iseq m entry asciz then Ok True else StringList_contains m asciz it'
        | Err e \<Rightarrow> Err e
        | Panic \<Rightarrow> Panic
      else Ok False)"
  by pat_completeness auto
termination
  by (relation "measure (\<lambda>(m, a, it). unat (it_len it))") (auto dest: get_next_shorter)

declare StringList_contains.simps [simp del]

section \<open>VMs\<close>

record manifest_vm =
  debug_name :: "u8 list"
  kernel_filename :: "u8 list"
  mem_size :: u64
  mvm_vcpu_count :: spci_vcpu_count_t

definition ManifestVm_new :: "(usize \<Rightarrow> u8) \<Rightarrow> literals \<Rightarrow> FdtNode \<Rightarrow> spci_vm_id_t \<Rightarrow> manifest_vm manifest_res" where
  "ManifestVm_new m lit n i =
     (let empty_name = replicate MANIFEST_MAX_STRING_LENGTH 0
      in run_bind (read_string m (lit ''debug_name'') n empty_name) (\<lambda>dn.
           if i \<noteq> HF_PRIMARY_VM_ID then
             run_bind (read_string m (lit ''kernel_filename'') n empty_name) (\<lambda>kf.
             run_bind (read_prop_u64 m (lit ''mem_size'') n) (\<lambda>ms.
             run_bind (read_prop_u16 m (lit ''vcpu_count'') n) (\<lambda>vc.
               Some (Ok \<lparr>debug_name = dn, kernel_filename = kf, mem_size = ms, mvm_vcpu_count = vc\<rparr>))))
           else Some (Ok \<lparr>debug_name = dn, kernel_filename = empty_name, mem_size = 0, mvm_vcpu_count = 0\<rparr>)))"

text \<open>Look for the node of a VM below the node of the hypervisor.\<close>

definition find_vm_node ::
  "(usize \<Rightarrow> u8) \<Rightarrow> usize \<Rightarrow> FdtNode \<Rightarrow> spci_vm_id_t \<Rightarrow> ((unit option \<times> FdtNode) \<times> (usize \<Rightarrow> u8)) manifest_res" where
  "find_vm_node m buf hyp_node i =
     run_bind (Some (generate_vm_node_name i)) (\<lambda>vm_name.
       let m = write_bytes buf vm_name m
       in run_case (find_child m buf hyp_node) (\<lambda>r. Some (Ok (r, m))) (\<lambda>_. Some Panic))"

primrec check_reserved :: "(usize \<Rightarrow> u8) \<Rightarrow> usize \<Rightarrow> FdtNode \<Rightarrow> spci_vm_id_t list \<Rightarrow> (usize \<Rightarrow> u8) manifest_res" where
  "check_reserved m buf hyp_node [] = Some (Ok m)"
| "check_reserved m buf hyp_node (i # is) =
     run_bind (find_vm_node m buf hyp_node i) (\<lambda>((found, _), m).
       if found \<noteq> None then Some (Err ReservedVmId) else check_reserved m buf hyp_node is)"

primrec read_vms ::
  "literals \<Rightarrow> usize \<Rightarrow> FdtNode \<Rightarrow> nat list \<Rightarrow> (usize \<Rightarrow> u8) \<Rightarrow> bool \<times> manifest_vm list \<Rightarrow> (bool \<times> manifest_vm list) manifest_res" where
  "read_vms lit buf hyp_node [] m acc = Some (Ok acc)"
| "read_vms lit buf hyp_node (i # is) m acc =
     (let vm_id = HF_VM_ID_OFFSET + of_nat i
      in run_bind (find_vm_node m buf hyp_node vm_id) (\<lambda>((found, vm_node), m).
           if found = None then Some (Ok acc)
           else if i = MAX_VMS then Some (Err TooManyVms)
           else if vm_id = HF_PRIMARY_VM_ID \<and> fst acc then Some Panic
           else
             run_bind (ManifestVm_new m lit vm_node vm_id) (\<lambda>vm.
               if length (snd acc) \<ge> MAX_VMS then Some Panic
               else read_vms lit buf hyp_node is m (fst acc \<or> vm_id = HF_PRIMARY_VM_ID, snd acc @ [vm]))))"

definition Manifest_init :: "(usize \<Rightarrow> u8) \<Rightarrow> literals \<Rightarrow> usize \<Rightarrow> FdtNode \<Rightarrow> manifest_vm list manifest_res" where
  "Manifest_init m lit buf fdt =
     run_case (find_child m (lit ''hypervisor'') fdt) (\<lambda>(found, hyp_node).
       if found = None then Some (Err NoHypervisorFdtNode)
       else
         run_bind (StringList_read_from m hyp_node (lit ''compatible'')) (\<lambda>compatible_list.
         run_case (Some (StringList_contains m (lit ''hafnium,hafnium'') compatible_list)) (\<lambda>compatible.
           if \<not> compatible then Some (Err NotCompatible)
           else
             run_bind (check_reserved m buf hyp_node (map of_nat [0..<unat HF_VM_ID_OFFSET])) (\<lambda>m.
             run_bind (read_vms lit buf hyp_node [0..<MAX_VMS + 1] m (False, [])) (\<lambda>(found_primary_vm, vms).
               if \<not> found_primary_vm then Some (Err NoPrimaryVm) else Some (Ok vms))))
           (\<lambda>_. Some Panic)))
       (\<lambda>_. Some Panic)"

section \<open>What a manifest can hold\<close>

lemma strnlen_loop_less: "strnlen_loop m a n < n \<Longrightarrow> m (a + of_nat (strnlen_loop m a n)) = 0"
proof (induction n arbitrary: a)
  case (Suc n)
  then show ?case using Suc.IH [of "a + 1"] by (auto simp: ac_simps split: if_splits)
qed simp

text \<open>A string that was read fills the buffer, and has a zero byte.\<close>

definition buffer_string :: "u8 list \<Rightarrow> bool" where
  "buffer_string s \<longleftrightarrow> length s = MANIFEST_MAX_STRING_LENGTH \<and> 0 \<in> set s"

lemma read_string_buffer:
  assumes "read_string m p n out = Some (Ok s)" "length out = MANIFEST_MAX_STRING_LENGTH"
  shows "buffer_string s"
proof -
  obtain d where "(if \<not> (strnlen_loop m (fst d) (snd d) < snd d \<and> strnlen_loop m (fst d) (snd d) = snd d - 1)
      then Err MalformedString else if snd d > length out then Err StringTooLong
      else Ok (slice_bytes m d @ drop (snd d) out)) = Ok s"
    using assms(1) unfolding read_string_def run_bind_eq_Ok Let_def option.inject by blast
  then have d: "strnlen_loop m (fst d) (snd d) < snd d" "snd d \<le> length out" "s = slice_bytes m d @ drop (snd d) out"
    by (simp_all split: if_splits)
  have "m (fst d + of_nat (strnlen_loop m (fst d) (snd d))) \<in> set (slice_bytes m d)"
    using d(1) by (auto simp: slice_bytes_def)
  then show ?thesis using d assms(2) strnlen_loop_less [OF d(1)] by (simp add: buffer_string_def slice_bytes_def)
qed

lemma ManifestVm_new_ok:
  assumes "ManifestVm_new m lit n i = Some (Ok vm)"
  shows "buffer_string (debug_name vm) \<and> buffer_string (kernel_filename vm)
    \<and> (i = HF_PRIMARY_VM_ID \<longrightarrow> mem_size vm = 0 \<and> mvm_vcpu_count vm = 0)"
proof -
  have "0 \<in> set (replicate MANIFEST_MAX_STRING_LENGTH (0 :: u8))" by (simp add: MANIFEST_MAX_STRING_LENGTH_def)
  then have "buffer_string (replicate MANIFEST_MAX_STRING_LENGTH 0)" by (simp add: buffer_string_def)
  then show ?thesis
    using assms by (auto simp: ManifestVm_new_def Let_def run_bind_eq_Ok split: if_splits intro: read_string_buffer)
qed

text \<open>The VMs read so far: their number is the next index, and the first of them is the primary one.\<close>

definition vms_ok :: "manifest_vm list \<Rightarrow> bool" where
  "vms_ok vms \<longleftrightarrow> length vms \<le> MAX_VMS \<and> (\<forall>vm \<in> set vms. buffer_string (debug_name vm) \<and> buffer_string (kernel_filename vm))
     \<and> (vms \<noteq> [] \<longrightarrow> mem_size (hd vms) = 0 \<and> mvm_vcpu_count (hd vms) = 0)"

lemma read_vms_ok:
  "read_vms lit buf hyp [k..<n] m (k \<noteq> 0, vms) = Some (Ok (found, vms')) \<Longrightarrow> length vms = k \<Longrightarrow> k \<le> MAX_VMS \<Longrightarrow>
   n \<le> MAX_VMS + 1 \<Longrightarrow> vms_ok vms \<Longrightarrow> vms_ok vms' \<and> (found \<longleftrightarrow> vms' \<noteq> [])"
proof (induction "n - k" arbitrary: k m vms)
  case 0
  then show ?case by auto
next
  case (Suc d)
  let ?i = "HF_VM_ID_OFFSET + of_nat k"
  have upt: "[k..<n] = k # [Suc k..<n]" using Suc.hyps(2) by (simp add: upt_rec)
  have prim: "?i = HF_PRIMARY_VM_ID \<longleftrightarrow> k = 0"
    using Suc.prems(3) by (auto simp: HF_PRIMARY_VM_ID_def MAX_VMS_def word_of_nat_eq_0_iff dest: nat_dvd_not_less)
  obtain r node m1 where f: "find_vm_node m buf hyp ?i = Some (Ok ((r, node), m1))"
    using Suc.prems(1) upt by (auto simp: run_bind_eq_Ok Let_def)
  show ?case
  proof (cases "r = None")
    case True
    then show ?thesis using Suc.prems(1,2,5) upt f by auto
  next
    case False
    then have k: "k < MAX_VMS" using Suc.prems(1,3) upt f by (auto simp: Let_def split: if_splits)
    then obtain vm where vm: "ManifestVm_new m1 lit node ?i = Some (Ok vm)"
      "read_vms lit buf hyp [Suc k..<n] m1 (True, vms @ [vm]) = Some (Ok (found, vms'))"
      using Suc.prems(1,2) upt f False prim
      by (cases "k = 0") (auto simp: Let_def run_bind_eq_Ok split: if_splits)
    have "vms_ok (vms @ [vm])"
      using ManifestVm_new_ok [OF vm(1)] Suc.prems(2,5) k prim by (cases vms) (auto simp: vms_ok_def)
    then show ?thesis using Suc.hyps(1) [of "Suc k" m1 "vms @ [vm]"] Suc.hyps(2) Suc.prems(2,4) vm(2) k by auto
  qed
qed

text \<open>
  C40. A manifest that is accepted describes at least one VM and at most \<open>MAX_VMS\<close>. The first is the
  primary VM, for which no memory and no vCPUs are read; the names of all VMs and of their kernels
  are in buffers of the full length and have a terminating zero byte.
\<close>

theorem manifest_well_formed:
  assumes "Manifest_init m lit buf fdt = Some (Ok vms)"
  shows "1 \<le> length vms \<and> length vms \<le> MAX_VMS \<and> mem_size (hd vms) = 0 \<and> mvm_vcpu_count (hd vms) = 0
    \<and> list_all (\<lambda>vm. buffer_string (debug_name vm) \<and> buffer_string (kernel_filename vm)) vms"
proof -
  obtain hyp m1 where "read_vms lit buf hyp [0..<MAX_VMS + 1] m1 (False, []) = Some (Ok (True, vms))"
    using assms
    by (auto simp: Manifest_init_def run_bind_eq_Ok run_case_eq_Ok split: if_splits simp del: upt_Suc)
  from read_vms_ok [of lit buf hyp 0 "MAX_VMS + 1" m1 "[]" True vms] this have "vms_ok vms \<and> vms \<noteq> []"
    by (simp add: vms_ok_def)
  then show ?thesis by (cases vms) (auto simp: vms_ok_def list_all_iff)
qed

section \<open>An example\<close>

text \<open>What is written to the buffer of the names does not change what lies apart from it.\<close>

definition apart :: "usize \<Rightarrow> usize \<Rightarrow> nat \<Rightarrow> bool" where
  "apart buf a n \<longleftrightarrow> VM_NAME_BUF_SIZE \<le> unat (a - buf) \<and> unat (a - buf) + n \<le> 2 ^ 64"

lemma bytes_at_write_apart:
  assumes "length bs \<le> unat (a - d)" "unat (a - d) + length cs \<le> 2 ^ 64"
  shows "bytes_at (write_bytes d bs m) a cs \<longleftrightarrow> bytes_at m a cs"
proof -
  have "\<not> unat (a + of_nat i - d) < length bs" if "i < length cs" for i
  proof -
    have i: "i < 2 ^ 64" using that assms(2) by linarith
    have "unat (a + of_nat i - d) = unat ((a - d) + of_nat i)" by (simp add: algebra_simps)
    also have "\<dots> = unat (a - d) + i"
      using unat_add_no_wrap [of "a - d" "of_nat i"] that assms(2) i by (simp add: unat_of_nat)
    finally show ?thesis using assms(1) by simp
  qed
  then show ?thesis by (simp add: bytes_at_def write_bytes_def)
qed

lemma cstr_at_write_apart:
  assumes "cstr_at m a s" "apart buf a (length s + 1)" "length x \<le> VM_NAME_BUF_SIZE"
  shows "cstr_at (write_bytes buf x m) a s"
  using assms bytes_at_write_apart [of x a buf "s @ [0]" m]
  by (simp add: cstr_at_def apart_def del: bytes_at_append)

lemma node_at_write:
  assumes "node_at m names n c sibs bs" "length x \<le> VM_NAME_BUF_SIZE" "apart buf (fst (fn_data n)) (snd (fn_data n))"
    "\<And>d off. d \<in> set (c # sibs) \<Longrightarrow> off \<in> offsets d \<Longrightarrow> apart buf (fst (fn_strs n) + ucast off) (length (names off) + 1)"
  shows "node_at (write_bytes buf x m) names n c sibs bs"
proof -
  have "tree_ok (write_bytes buf x m) names (fn_strs n) d" if "tree_ok m names (fn_strs n) d" "d \<in> set (c # sibs)" for d
    using that assms(2,4) cstr_at_write_apart by (auto simp: tree_ok_def)
  moreover have "tok_at (write_bytes buf x m) t bs'" if "tok_at m t bs'" "tk_cur t = fn_data n" for t bs'
    using that assms(2,3) bytes_at_write_apart [of x "fst (fn_data n)" buf bs' m] by (simp add: tok_at_def apart_def)
  ultimately show ?thesis using assms(1) by (simp add: node_at_def list_all_iff)
qed

text \<open>A manifest with the primary VM only, whose name is \<open>p\<close>.\<close>

definition demo_vm1 :: fdt_tree where
  "demo_vm1 = FdtTree (map of_char ''vm1'') [(11, [112, 0])] []"

definition demo_hyp :: fdt_tree where
  "demo_hyp = FdtTree (map of_char ''hypervisor'') [(0, cbytes ''hafnium,hafnium'')] [demo_vm1]"

definition demo_root :: fdt_tree where
  "demo_root = FdtTree [] [] [demo_hyp]"

definition demo_names :: "u32 \<Rightarrow> u8 list" where
  "demo_names off = (if off = 0 then map of_char ''compatible'' else map of_char ''debug_name'')"

definition demo_lit :: literals where
  "demo_lit s =
     (if s = ''hypervisor'' then 0x3000 else if s = ''compatible'' then 0x3100
      else if s = ''hafnium,hafnium'' then 0x3200 else if s = ''debug_name'' then 0x3300 else 0x3400)"

definition demo_stream :: "u8 list" where
  "demo_stream = enc_body (tree_props demo_root) (tree_children demo_root) @ be_u32 2"

definition demo_manifest :: "usize \<Rightarrow> u8" where
  "demo_manifest =
     write_bytes 0x1000 demo_stream
       (write_bytes 0x2000 (cbytes ''compatible'' @ cbytes ''debug_name'')
         (write_bytes 0x3000 (cbytes ''hypervisor'')
           (write_bytes 0x3100 (cbytes ''compatible'')
             (write_bytes 0x3200 (cbytes ''hafnium,hafnium'')
               (write_bytes 0x3300 (cbytes ''debug_name'') (\<lambda>_. 0))))))"

definition demo_manifest_root :: FdtNode where
  "demo_manifest_root = \<lparr>fn_hdr = 0, fn_data = (0x1000, length demo_stream), fn_strs = (0x2000, 22)\<rparr>"

lemma demo_lengths: "length demo_stream = 84" "length (cbytes s) = length s + 1"
  by (simp_all add: demo_stream_def demo_root_def demo_hyp_def demo_vm1_def enc_body_def enc_prop_def enc_tree_body
      padded_def cbytes_def)

lemma demo_bytes:
  "bytes_at demo_manifest 0x1000 demo_stream"
  "bytes_at demo_manifest 0x2000 (cbytes ''compatible'' @ cbytes ''debug_name'')"
  "bytes_at demo_manifest 0x3000 (cbytes ''hypervisor'')"
  "bytes_at demo_manifest 0x3100 (cbytes ''compatible'')"
  "bytes_at demo_manifest 0x3200 (cbytes ''hafnium,hafnium'')"
  "bytes_at demo_manifest 0x3300 (cbytes ''debug_name'')"
  unfolding demo_manifest_def
  by (simp_all add: bytes_at_write_apart bytes_at_write demo_lengths del: bytes_at_append)

lemma demo_manifest_at: "node_at demo_manifest demo_names demo_manifest_root demo_root [] []"
proof -
  have "cstr_at demo_manifest 0x2000 (demo_names 0)" "cstr_at demo_manifest (0x2000 + 11) (demo_names 11)"
    using demo_bytes(2) by (simp_all add: cstr_at_def demo_names_def cbytes_def)
  then have "tree_ok demo_manifest demo_names (0x2000, 22) demo_root"
    by (simp add: tree_ok_def demo_root_def demo_hyp_def demo_vm1_def wf_prop_def demo_lengths)
  moreover have "tok_at demo_manifest (node_tokenizer demo_manifest_root) demo_stream"
    using demo_bytes(1) by (simp add: tok_at_def demo_manifest_root_def node_tokenizer_def)
  ultimately show ?thesis by (simp add: node_at_def demo_manifest_root_def demo_stream_def)
qed

lemma demo_apart: "inside s (0x1000, 84) \<Longrightarrow> apart 0x4000 (fst s) (snd s)"
proof -
  assume "inside s (0x1000, 84)"
  then obtain k where k: "fst s = 0x1000 + of_nat k" "k + snd s \<le> 84" by (auto simp: inside_def)
  have "unat (fst s - 0x4000) = unat (0x1000 - 0x4000 + of_nat k :: usize)" using k(1) by (simp add: algebra_simps)
  also have "\<dots> = unat (0x1000 - 0x4000 :: usize) + k"
    using unat_add_no_wrap [of "0x1000 - 0x4000 :: usize" "of_nat k"] k(2) by (simp add: unat_of_nat)
  finally show ?thesis using k(2) by (simp add: apart_def VM_NAME_BUF_SIZE_def)
qed

text \<open>Memory with names written to the buffer, and a node at the hypervisor.\<close>

inductive demo_state :: "(usize \<Rightarrow> u8) \<Rightarrow> bool" where
  start: "demo_state demo_manifest"
| wrote: "demo_state m \<Longrightarrow> length x \<le> VM_NAME_BUF_SIZE \<Longrightarrow> demo_state (write_bytes 0x4000 x m)"

lemma demo_state_root: "demo_state m \<Longrightarrow> node_at m demo_names demo_manifest_root demo_root [] []
    \<and> cstr_at m 0x3300 (map of_char ''debug_name'')"
proof (induction rule: demo_state.induct)
  case start
  then show ?case using demo_manifest_at demo_bytes(6) by (simp add: cstr_at_def cbytes_def)
next
  case (wrote m x)
  have off: "off = 0 \<or> off = 11" if "off \<in> offsets demo_root" for off
    using that by (auto simp: demo_root_def demo_hyp_def demo_vm1_def)
  have "apart 0x4000 (0x2000 + ucast off) (length (demo_names off) + 1)" if "off \<in> offsets demo_root" for off
    using off [OF that] by (auto simp: apart_def VM_NAME_BUF_SIZE_def demo_names_def)
  moreover have "apart 0x4000 0x1000 (length demo_stream)" by (simp add: apart_def VM_NAME_BUF_SIZE_def demo_lengths)
  ultimately have "node_at (write_bytes 0x4000 x m) demo_names demo_manifest_root demo_root [] []"
    using wrote.IH wrote.hyps(2) by (intro node_at_write) (auto simp: demo_manifest_root_def)
  moreover have "apart 0x4000 0x3300 (length (map of_char ''debug_name'' :: u8 list) + 1)"
    by (simp add: apart_def VM_NAME_BUF_SIZE_def)
  ultimately show ?case using wrote.IH wrote.hyps(2) cstr_at_write_apart by blast
qed

lemma demo_hyp_node:
  obtains hn where "find_child demo_manifest 0x3000 demo_manifest_root = Some (Ok (Some (), hn))"
    "\<And>m. demo_state m \<Longrightarrow> node_at m demo_names hn demo_hyp [] (be_u32 2)" "inside (fn_data hn) (0x1000, 84)"
proof -
  have h: "cstr_at demo_manifest 0x3000 (map of_char ''hypervisor'')"
    using demo_bytes(3) by (simp add: cstr_at_def cbytes_def)
  obtain hn where hn: "find_child demo_manifest 0x3000 demo_manifest_root = Some (Ok (Some (), hn))"
    "node_at demo_manifest demo_names hn demo_hyp [] (be_u32 2)"
    using find_child_at [OF demo_manifest_at h] by (auto simp: demo_root_def demo_hyp_def)
  have inn: "inside (fn_data hn) (0x1000, 84)" "fn_strs hn = (0x2000, 22)"
    using find_child_inside [OF hn(1)] by (simp_all add: demo_manifest_root_def demo_lengths)
  have off: "apart 0x4000 (0x2000 + ucast off) (length (demo_names off) + 1)" if "off \<in> offsets demo_hyp" for off
    using that by (auto simp: demo_hyp_def demo_vm1_def apart_def VM_NAME_BUF_SIZE_def demo_names_def)
  have "node_at m demo_names hn demo_hyp [] (be_u32 2)" if "demo_state m" for m
    using that
  proof (induction rule: demo_state.induct)
    case (wrote m x)
    then show ?case using demo_apart [OF inn(1)] off inn(2) by (intro node_at_write) auto
  qed (use hn in simp)
  with hn(1) inn(1) that show ?thesis by blast
qed

lemma demo_find_vm:
  assumes "demo_state m" "\<And>m. demo_state m \<Longrightarrow> node_at m demo_names hn demo_hyp [] (be_u32 2)" "i < 10"
  shows "\<exists>m'. demo_state m' \<and> (if i = 1
    then \<exists>n. find_vm_node m 0x4000 hn i = Some (Ok ((Some (), n), m')) \<and> node_at m' demo_names n demo_vm1 [] (be_u32 2 @ be_u32 2)
    else \<exists>n. find_vm_node m 0x4000 hn i = Some (Ok ((None, n), m')))"
proof -
  define k where "k = unat i"
  have k: "k < 10" using assms(3) by (simp add: word_less_nat_alt k_def)
  let ?s = "map of_char ''vm'' @ [48 + of_nat k :: u8]"
  have nm: "generate_vm_node_name i = Ok (?s @ [0])"
    using k by (simp add: generate_vm_node_name_def decimal.simps VM_NAME_BUF_SIZE_def flip: k_def)
  let ?m = "write_bytes 0x4000 (?s @ [0]) m"
  have st: "demo_state ?m" by (rule demo_state.wrote [OF assms(1)]) (simp add: VM_NAME_BUF_SIZE_def)
  have digit: "unat (48 + of_nat k :: u8) = 48 + k" using k by (simp add: unat_word_ariths(1) unat_of_nat)
  then have "48 + of_nat k \<noteq> (0 :: u8)" by (metis add_is_0 unat_0 zero_neq_numeral)
  then have c: "cstr_at ?m 0x4000 ?s"
    using bytes_at_write [of "?s @ [0]" "0x4000" m] by (auto simp: cstr_at_def simp del: bytes_at_append)
  have "(49 :: u8) = 48 + of_nat k \<longleftrightarrow> k = 1" using digit by (auto simp: word_unat_eq_iff)
  moreover have "k = 1 \<longleftrightarrow> i = 1" by (simp add: k_def word_unat_eq_iff)
  ultimately have eq: "tree_name demo_vm1 = ?s \<longleftrightarrow> i = 1" by (simp add: demo_vm1_def)
  from find_child_at [OF assms(2) [OF st] c] eq nm st show ?thesis
    by (intro exI [of _ ?m]) (auto simp: demo_hyp_def find_vm_node_def)
qed

lemma demo_compatible:
  assumes "node_at demo_manifest demo_names hn demo_hyp [] (be_u32 2)" "inside (fn_data hn) (0x1000, 84)"
  shows "\<exists>it. StringList_read_from demo_manifest hn 0x3100 = Some (Ok it) \<and> StringList_contains demo_manifest 0x3200 it = Ok True"
proof -
  let ?m = demo_manifest and ?s = "map of_char ''hafnium,hafnium'' :: u8 list"
  have "cstr_at ?m 0x3100 (map of_char ''compatible'')" using demo_bytes(4) by (simp add: cstr_at_def cbytes_def)
  from read_property_at [OF assms(1) this] obtain a where a: "read_property ?m 0x3100 hn = Some (Ok (a, 16))"
    "bytes_at ?m a (?s @ [0])"
    by (auto simp: demo_hyp_def demo_names_def cbytes_def)
  let ?it = "MemIter_from_raw a 15"
  have it: "StringList_read_from ?m hn 0x3100 = Some (Ok ?it)"
    using a by (simp add: StringList_read_from_def map_err_def add.commute [of _ a])
  have len: "it_len ?it = 15" "has_next ?it" "it_next ?it = a" by (simp_all add: it_len_def MemIter_from_raw_def has_next_def)
  have lit: "bytes_at ?m 0x3200 (?s @ [0])" using demo_bytes(5) by (simp add: cbytes_def)
  have "strnlen_loop ?m a 15 = 15"
  proof -
    have "strnlen_loop ?m a n = length s" if "bytes_at ?m a s" "0 \<notin> set s" "n = length s" for a n s
      using that by (induction s arbitrary: a n) auto
    from this [of a ?s 15] show ?thesis using a(2) by simp
  qed
  moreover have "\<exists>it'. advance 15 ?it = (Ok (), it')"
  proof -
    have "inside (a, 16) (0x1000, 84)"
      using read_property_loop_inside a(1) assms(2) inside_trans by (fastforce simp: read_property_def)
    then obtain k where "a = 0x1000 + of_nat k" "k + 16 \<le> 84" by (auto simp: inside_def)
    then have "unat a = 0x1000 + k" using unat_add_no_wrap [of "0x1000" "of_nat k :: usize"] by (simp add: unat_of_nat)
    then have "unat (a + 15) = unat a + 15" using \<open>k + 16 \<le> 84\<close> by (simp add: unat_word_ariths(1))
    then have "a \<le> a + 15" by (simp add: word_le_nat_alt)
    then show ?thesis by (simp add: advance_def MemIter_from_raw_def Let_def)
  qed
  ultimately obtain it' where g: "get_next ?m ?it = Ok (?it, it')"
    using len by (fastforce simp: get_next_def Let_def)
  have "iseq ?m ?it 0x3200"
  proof -
    have "strnlen_s ?m 0x3200 16 = 15"
      using strnlen_loop_cstr [OF lit, of 16] by (simp add: strnlen_s_def)
    moreover have "memcmp_rs ?m a 0x3200 15 = 0"
      using a(2) lit by (simp add: memcmp_rs_0 bytes_at_def nth_append)
    ultimately show ?thesis by (simp add: iseq_def MemIter_from_raw_def)
  qed
  then have "StringList_contains ?m 0x3200 ?it = Ok True"
    using len g by (subst StringList_contains.simps) simp
  with it show ?thesis by blast
qed

theorem manifest_well_formed_witness:
  "\<exists>vms. Manifest_init demo_manifest demo_lit 0x4000 demo_manifest_root = Some (Ok vms) \<and> 1 \<le> length vms \<and> length vms \<le> MAX_VMS"
proof -
  obtain hn where hn: "find_child demo_manifest 0x3000 demo_manifest_root = Some (Ok (Some (), hn))"
    "\<And>m. demo_state m \<Longrightarrow> node_at m demo_names hn demo_hyp [] (be_u32 2)" "inside (fn_data hn) (0x1000, 84)"
    by (rule demo_hyp_node) blast
  note st = demo_state.start
  obtain it where it: "StringList_read_from demo_manifest hn 0x3100 = Some (Ok it)" "StringList_contains demo_manifest 0x3200 it = Ok True"
    using demo_compatible [OF hn(2) [OF st] hn(3)] by blast
  obtain m0 n0 where m0: "demo_state m0" "find_vm_node demo_manifest 0x4000 hn 0 = Some (Ok ((None, n0), m0))"
    using demo_find_vm [OF st hn(2), of 0] by auto
  obtain m1 n1 where m1: "demo_state m1" "find_vm_node m0 0x4000 hn 1 = Some (Ok ((Some (), n1), m1))"
    "node_at m1 demo_names n1 demo_vm1 [] (be_u32 2 @ be_u32 2)"
    using demo_find_vm [OF m0(1) hn(2), of 1] by auto
  obtain m2 n2 where m2: "find_vm_node m1 0x4000 hn 2 = Some (Ok ((None, n2), m2))"
    using demo_find_vm [OF m1(1) hn(2), of 2] by auto
  obtain vm where vm: "ManifestVm_new m1 demo_lit n1 1 = Some (Ok vm)"
  proof -
    have "cstr_at m1 0x3300 (map of_char ''debug_name'')" using demo_state_root [OF m1(1)] by simp
    from read_property_at [OF m1(3) this] obtain a where a: "read_property m1 0x3300 n1 = Some (Ok (a, 2))" "bytes_at m1 a [112, 0]"
      by (auto simp: demo_vm1_def demo_names_def)
    have "strnlen_loop m1 a (Suc (Suc 0)) = 1" using a(2) by simp
    then have "strnlen_loop m1 a 2 = 1" by (simp only: numeral_2_eq_2)
    then show ?thesis using that a(1)
      by (simp add: ManifestVm_new_def read_string_def map_err_def demo_lit_def HF_PRIMARY_VM_ID_def HF_VM_ID_OFFSET_def
          MANIFEST_MAX_STRING_LENGTH_def)
  qed
  have upt: "[0..<MAX_VMS + 1] = 0 # 1 # [2..<MAX_VMS + 1]" by (simp add: MAX_VMS_def upt_rec)
  have "check_reserved demo_manifest 0x4000 hn (map of_nat [0..<unat HF_VM_ID_OFFSET]) = Some (Ok m0)"
    using m0(2) by (simp add: HF_VM_ID_OFFSET_def)
  moreover have "read_vms demo_lit 0x4000 hn [0..<MAX_VMS + 1] m0 (False, []) = Some (Ok (True, [vm]))"
    unfolding upt using m1(2) m2 vm by (simp add: HF_VM_ID_OFFSET_def HF_PRIMARY_VM_ID_def MAX_VMS_def del: upt_Suc)
  ultimately have "Manifest_init demo_manifest demo_lit 0x4000 demo_manifest_root = Some (Ok [vm])"
    using hn(1) it by (simp add: Manifest_init_def demo_lit_def del: upt_Suc)
  with manifest_well_formed [OF this] show ?thesis by blast
qed

end
