(* ===== verification/Load.thy ===== *)
theory Load
  imports Manifest Calls
begin

text \<open>
  Loading the VMs (src/hfo2/src/load.rs).

  The loader runs once, on one CPU, after the state of the hypervisor has been set up. It copies the
  kernels from the RAM disk, gives the primary VM all memory except that of the hypervisor, and then
  takes memory from the primary VM for each secondary VM of the manifest. \<open>raw\<close> is what the slot of a
  VM holds before it is initialised. \<open>names i\<close> is the address of the file name in the \<open>i\<close>th entry of
  the manifest. Log output is not modelled, but a name that is not UTF-8 panics where it is printed.
\<close>

section \<open>UTF-8\<close>

definition continuation :: "u8 \<Rightarrow> bool" where
  "continuation b \<longleftrightarrow> 0x80 \<le> b \<and> b \<le> 0xbf"

text \<open>What \<open>str::from_utf8\<close> accepts.\<close>

fun from_utf8 :: "u8 list \<Rightarrow> bool" where
  "from_utf8 [] \<longleftrightarrow> True"
| "from_utf8 (a # s) \<longleftrightarrow>
     (if a < 0x80 then from_utf8 s
      else case s of
        [] \<Rightarrow> False
      | b # s' \<Rightarrow>
          if 0xc2 \<le> a \<and> a \<le> 0xdf then continuation b \<and> from_utf8 s'
          else case s' of
            [] \<Rightarrow> False
          | c # s'' \<Rightarrow>
              if a = 0xe0 then 0xa0 \<le> b \<and> b \<le> 0xbf \<and> continuation c \<and> from_utf8 s''
              else if a = 0xed then 0x80 \<le> b \<and> b \<le> 0x9f \<and> continuation c \<and> from_utf8 s''
              else if 0xe1 \<le> a \<and> a \<le> 0xef then continuation b \<and> continuation c \<and> from_utf8 s''
              else case s'' of
                [] \<Rightarrow> False
              | d # s''' \<Rightarrow>
                  (if a = 0xf0 then 0x90 \<le> b \<and> b \<le> 0xbf
                   else if a = 0xf4 then 0x80 \<le> b \<and> b \<le> 0x8f
                   else 0xf1 \<le> a \<and> a \<le> 0xf3 \<and> continuation b)
                  \<and> continuation c \<and> continuation d \<and> from_utf8 s''')"

section \<open>Copying\<close>

definition copy_to_unmapped :: "paddr_t \<Rightarrow> memiter \<Rightarrow> hypervisor \<Rightarrow> bool res \<times> hypervisor" where
  "copy_to_unmapped to from_it h =
     (let from = it_next from_it;
          sz = it_len from_it;
          to_end = pa_add to sz
      in case identity_map aarch64_stage1 to to_end MODE_W (hyp_ptable h) (henv h) of
           (Ok _, t, en) \<Rightarrow>
             if \<not> hyp_writable t (pa_addr to) (unat sz) then (Panic, h\<lparr>hyp_ptable := t, henv := en\<rparr>)
             else let h = h\<lparr>mem := copy_bytes (mem h) from (pa_addr to) (unat sz) (mem h)\<rparr>
             in (case PageTable_unmap aarch64_stage1 to to_end t en of
                   (Ok _, t, en) \<Rightarrow> (Ok True, h\<lparr>hyp_ptable := t, henv := en\<rparr>)
                 | (_, t, en) \<Rightarrow> (Panic, h\<lparr>hyp_ptable := t, henv := en\<rparr>))
         | (Err _, t, en) \<Rightarrow> (Ok False, h\<lparr>hyp_ptable := t, henv := en\<rparr>)
         | (Panic, t, en) \<Rightarrow> (Panic, h\<lparr>hyp_ptable := t, henv := en\<rparr>))"

text \<open>\<open>new_vm\<close> and \<open>unmap\<close> on the state of the hypervisor.\<close>

definition create_vm :: "stage \<Rightarrow> vm \<Rightarrow> spci_vcpu_count_t \<Rightarrow> hypervisor \<Rightarrow> nat option res \<times> hypervisor" where
  "create_vm S raw vcpu_count h =
     (case new_vm S raw vcpu_count (vms h) (links h) (henv h) of
        (r, vs, ls, en) \<Rightarrow> (r, h\<lparr>vms := vs, links := ls, henv := en\<rparr>))"

definition unmap_in_vm :: "stage \<Rightarrow> nat \<Rightarrow> paddr_t \<Rightarrow> paddr_t \<Rightarrow> hypervisor \<Rightarrow> unit res \<times> hypervisor" where
  "unmap_in_vm S v begin e h =
     (case PageTable_unmap S begin e (ptable_of h v) (henv h) of
        (res, t, en) \<Rightarrow> (res, set_ptable v t (h\<lparr>henv := en\<rparr>)))"

section \<open>The primary VM\<close>

text \<open>The part of \<open>load_primary\<close> after the files were found: create the VM and give it the memory.\<close>

definition setup_primary :: "stage \<Rightarrow> layout \<Rightarrow> vm \<Rightarrow> paddr_t \<Rightarrow> uintreg_t \<Rightarrow> hypervisor \<Rightarrow> unit res \<times> hypervisor" where
  "setup_primary S lay raw primary_begin k_arg h =
     (case create_vm S raw (of_nat MAX_CPUS) h of
        (Ok (Some v), h) \<Rightarrow>
          if vm_id (vm_at h v) \<noteq> HF_PRIMARY_VM_ID then (Err (), h)
          else
            (case map_in_vm S v (pa_init 0) (pa_init (1024 * 1024 * 1024 * 1024)) (MODE_R OR MODE_W OR MODE_X) h of
               (Ok _, h) \<Rightarrow>
                 (case mm_vm_unmap_hypervisor S lay (ptable_of h v) (henv h) of
                    (r, t, en) \<Rightarrow>
                      let h = set_ptable v t (h\<lparr>henv := en\<rparr>)
                      in (case r of
                            Ok unmapped \<Rightarrow>
                              if \<not> unmapped then (Err (), h)
                              else (Ok (), update_vcpu_inner (v, 0) (VCpuInner_on (ipa_from_pa primary_begin) k_arg) h)
                          | Err e \<Rightarrow> (Err e, h)
                          | Panic \<Rightarrow> (Panic, h)))
             | (Err _, h) \<Rightarrow> (Err (), h)
             | (Panic, h) \<Rightarrow> (Panic, h))
      | (Ok None, h) \<Rightarrow> (Err (), h)
      | (Err e, h) \<Rightarrow> (Err e, h)
      | (Panic, h) \<Rightarrow> (Panic, h))"

definition load_primary ::
  "stage \<Rightarrow> literals \<Rightarrow> usize \<Rightarrow> layout \<Rightarrow> vm \<Rightarrow> paddr_t \<Rightarrow> memiter \<Rightarrow> uintreg_t \<Rightarrow> hypervisor
     \<Rightarrow> (memiter res \<times> hypervisor) option" where
  "load_primary S lit trailer lay raw primary_begin cpio k_arg h =
     (case find_file trailer (mem h) cpio (lit ''vmlinuz'') of
        None \<Rightarrow> None
      | Some None \<Rightarrow> Some (Err (), h)
      | Some (Some it) \<Rightarrow>
          (case copy_to_unmapped primary_begin it h of
             (Ok copied, h) \<Rightarrow>
               if \<not> copied then Some (Err (), h)
               else
                 (case find_file trailer (mem h) cpio (lit ''initrd.img'') of
                    None \<Rightarrow> None
                  | Some None \<Rightarrow> Some (Err (), h)
                  | Some (Some initrd) \<Rightarrow>
                      (case setup_primary S lay raw primary_begin k_arg h of
                         (Ok _, h) \<Rightarrow> Some (Ok initrd, h)
                       | (Err e, h) \<Rightarrow> Some (Err e, h)
                       | (Panic, h) \<Rightarrow> Some (Panic, h)))
           | (Err e, h) \<Rightarrow> Some (Err e, h)
           | (Panic, h) \<Rightarrow> Some (Panic, h)))"

section \<open>Memory ranges\<close>

primrec carve_out_mem_range :: "u64 \<Rightarrow> mem_range list \<Rightarrow> (paddr_t \<times> paddr_t) res \<times> mem_range list" where
  "carve_out_mem_range size_to_find [] = (Err (), [])"
| "carve_out_mem_range size_to_find (r # rs) =
     (if size_to_find \<le> pa_difference (r_begin r) (r_end r) then
        let found_end = r_end r;
            found_begin = pa_init (pa_addr (r_end r) - size_to_find)
        in (Ok (found_begin, found_end), r\<lparr>r_end := found_begin\<rparr> # rs)
      else let (res, rs) = carve_out_mem_range size_to_find rs in (res, r # rs))"

text \<open>Add one range to the reserved ones, with the check of the limit.\<close>

definition reserve_range :: "paddr_t \<Rightarrow> paddr_t \<Rightarrow> boot_params_update \<Rightarrow> boot_params_update res" where
  "reserve_range b e u =
     (if reserved_ranges_count u \<ge> MAX_MEM_RANGES then Err ()
      else Ok (u\<lparr>reserved_ranges := (reserved_ranges u)[reserved_ranges_count u := \<lparr>r_begin = b, r_end = e\<rparr>],
                 reserved_ranges_count := reserved_ranges_count u + 1\<rparr>))"

definition reserve_if :: "bool \<Rightarrow> paddr_t \<Rightarrow> paddr_t \<Rightarrow> boot_params_update \<Rightarrow> boot_params_update res" where
  "reserve_if cond b e u = (if cond then reserve_range b e u else Ok u)"

fun reserve_differences :: "(mem_range \<times> mem_range) list \<Rightarrow> boot_params_update \<Rightarrow> boot_params_update res" where
  "reserve_differences [] u = Ok u"
| "reserve_differences ((before, after) # rs) u =
     (case reserve_if (pa_addr (r_begin after) > pa_addr (r_begin before)) (r_begin before) (r_begin after) u of
        Ok u \<Rightarrow>
          (case reserve_if (pa_addr (r_end after) < pa_addr (r_end before)) (r_end after) (r_end before) u of
             Ok u \<Rightarrow> reserve_differences rs u
           | Err e \<Rightarrow> Err e
           | Panic \<Rightarrow> Panic)
      | Err e \<Rightarrow> Err e
      | Panic \<Rightarrow> Panic)"

definition update_reserved_ranges ::
  "boot_params_update \<Rightarrow> mem_range list \<Rightarrow> mem_range list \<Rightarrow> boot_params_update res" where
  "update_reserved_ranges update before after =
     (if length before \<noteq> length after then Panic else reserve_differences (zip before after) update)"

section \<open>Secondary VMs\<close>

text \<open>
  The body of the loop from the point where memory was found. \<open>Ok ()\<close> says that the loop goes on,
  which is also what most errors come to.
\<close>

definition start_secondary ::
  "stage \<Rightarrow> vm \<Rightarrow> spci_vcpu_count_t \<Rightarrow> memiter \<Rightarrow> paddr_t \<Rightarrow> paddr_t \<Rightarrow> hypervisor \<Rightarrow> (unit res \<times> hypervisor) option" where
  "start_secondary S raw vcpu_count kern mem_begin mem_end h =
     (case copy_to_unmapped mem_begin kern h of
        (Ok copied, h) \<Rightarrow>
          if \<not> copied then Some (Ok (), h)
          else if vms h = [] then Some (Panic, h)
          else
            (case unmap_in_vm S get_primary mem_begin mem_end h of
               (Ok _, h) \<Rightarrow>
                 (case create_vm S raw vcpu_count h of
                    (Ok (Some v), h) \<Rightarrow>
                      (case map_in_vm S v mem_begin mem_end (MODE_R OR MODE_W OR MODE_X) h of
                         (Ok _, h) \<Rightarrow>
                           if vcpus (vm_at h v) = [] then Some (Panic, h)
                           else
                             (case vcpu_secondary_reset_and_start (v, 0) (ipa_from_pa mem_begin)
                                     (pa_difference mem_begin mem_end) h of
                                None \<Rightarrow> None
                              | Some (Ok _, h) \<Rightarrow> Some (Ok (), h)
                              | Some (Err e, h) \<Rightarrow> Some (Err e, h)
                              | Some (Panic, h) \<Rightarrow> Some (Panic, h))
                       | (Err _, h) \<Rightarrow> Some (Ok (), h)
                       | (Panic, h) \<Rightarrow> Some (Panic, h))
                  | (Ok None, h) \<Rightarrow> Some (Ok (), h)
                  | (Err e, h) \<Rightarrow> Some (Err e, h)
                  | (Panic, h) \<Rightarrow> Some (Panic, h))
             | (Err e, h) \<Rightarrow> Some (Err e, h)
             | (Panic, h) \<Rightarrow> Some (Panic, h))
      | (Err e, h) \<Rightarrow> Some (Err e, h)
      | (Panic, h) \<Rightarrow> Some (Panic, h))"

definition load_one ::
  "stage \<Rightarrow> usize \<Rightarrow> vm \<Rightarrow> (nat \<Rightarrow> usize) \<Rightarrow> memiter \<Rightarrow> nat \<Rightarrow> manifest_vm \<Rightarrow> mem_range list \<Rightarrow> hypervisor
     \<Rightarrow> (unit res \<times> mem_range list \<times> hypervisor) option" where
  "load_one S trailer raw names cpio i mvm avail h =
     (let vm_id = HF_VM_ID_OFFSET + of_nat i
      in if vm_id = HF_PRIMARY_VM_ID then Some (Ok (), avail, h)
         else if \<not> from_utf8 (as_asciz (debug_name mvm)) then Some (Panic, avail, h)
         else
           let filename = MemIter_from_raw (names i) (of_nat (length (as_asciz (kernel_filename mvm))))
           in case find_file_memiter trailer (mem h) cpio filename of
                None \<Rightarrow> None
              | Some None \<Rightarrow>
                  if \<not> from_utf8 (as_asciz (kernel_filename mvm)) then Some (Panic, avail, h)
                  else Some (Ok (), avail, h)
              | Some (Some kern) \<Rightarrow>
                  let sz = round_up (mem_size mvm) PAGE_SIZE
                  in if sz < it_len kern then Some (Ok (), avail, h)
                     else
                       (case carve_out_mem_range sz avail of
                          (Ok (mem_begin, mem_end), avail) \<Rightarrow>
                            map_option (\<lambda>(r, h). (r, avail, h))
                              (start_secondary S raw (mvm_vcpu_count mvm) kern mem_begin mem_end h)
                        | (_, avail) \<Rightarrow> Some (Ok (), avail, h)))"

fun load_vms ::
  "stage \<Rightarrow> usize \<Rightarrow> vm \<Rightarrow> (nat \<Rightarrow> usize) \<Rightarrow> memiter \<Rightarrow> (nat \<times> manifest_vm) list \<Rightarrow> mem_range list \<Rightarrow> hypervisor
     \<Rightarrow> (unit res \<times> mem_range list \<times> hypervisor) option" where
  "load_vms S trailer raw names cpio [] avail h = Some (Ok (), avail, h)"
| "load_vms S trailer raw names cpio ((i, mvm) # rest) avail h =
     (case load_one S trailer raw names cpio i mvm avail h of
        None \<Rightarrow> None
      | Some (Ok _, avail, h) \<Rightarrow> load_vms S trailer raw names cpio rest avail h
      | Some (r, avail, h) \<Rightarrow> Some (r, avail, h))"

definition round_range_end :: "mem_range \<Rightarrow> mem_range" where
  "round_range_end r = r\<lparr>r_end := pa_init (round_down (pa_addr (r_end r)) PAGE_SIZE)\<rparr>"

definition load_secondary ::
  "stage \<Rightarrow> usize \<Rightarrow> vm \<Rightarrow> (nat \<Rightarrow> usize) \<Rightarrow> manifest_vm list \<Rightarrow> memiter \<Rightarrow> boot_params \<Rightarrow> boot_params_update \<Rightarrow> hypervisor
     \<Rightarrow> (boot_params_update res \<times> hypervisor) option" where
  "load_secondary S trailer raw names manifest cpio params update h =
     (let avail = map round_range_end (take (mem_ranges_count params) (mem_ranges params))
      in case load_vms S trailer raw names cpio (enumerate 0 manifest) avail h of
           None \<Rightarrow> None
         | Some (Ok _, avail, h) \<Rightarrow>
             if mem_ranges_count params > length (mem_ranges params) then Some (Panic, h)
             else Some (update_reserved_ranges update (take (mem_ranges_count params) (mem_ranges params)) avail, h)
         | Some (Err e, avail, h) \<Rightarrow> Some (Err e, h)
         | Some (Panic, avail, h) \<Rightarrow> Some (Panic, h))"

end
