(* ===== verification/Page_Table_Blocks.thy ===== *)
theory Page_Table_Blocks
  imports Page_Table_Props
begin

text \<open>
  Updates of whole blocks (src/hfo2/src/mm.rs). When both ends of a range are multiples of the size
  of an entry of the top level, an update replaces whole entries only: it needs no new page table,
  so it succeeds whatever the pool holds. The loader relies on this for the large ranges it maps
  for the VMs.
\<close>

text \<open>
  The loop over entries when every round succeeds. \<open>Q\<close> is what the rounds keep of an entry, and \<open>g\<close>
  what they keep of the environment.
\<close>

lemma for_blocks_all_ok:
  assumes f: "\<And>b x env. P b \<Longrightarrow> b < e \<Longrightarrow> \<exists>x' env'. f b x env = (Ok (), x', env') \<and> (Q x \<longrightarrow> Q x' \<and> g env' = g env)"
    and step: "\<And>b. P b \<Longrightarrow> b < e \<Longrightarrow> P (start_of_next_block b bs)"
  shows "P b \<Longrightarrow> \<exists>xs' env'. for_blocks f b e bs xs env = (Ok (), xs', env') \<and> length xs' = length xs \<and>
    (list_all Q xs \<longrightarrow> list_all Q xs' \<and> g env' = g env)"
proof (induction xs arbitrary: b env)
  case (Cons x xs)
  show ?case
  proof (cases "b < e")
    case True
    obtain x' env' where 1: "f b x env = (Ok (), x', env')" "Q x \<longrightarrow> Q x' \<and> g env' = g env"
      using f [OF Cons.prems True] by blast
    obtain xs' env'' where 2: "for_blocks f (start_of_next_block b bs) e bs xs env' = (Ok (), xs', env'')"
      "length xs' = length xs" "list_all Q xs \<longrightarrow> list_all Q xs' \<and> g env'' = g env'"
      using Cons.IH [OF step [OF Cons.prems True]] by blast
    show ?thesis using 1 2 True by simp
  next
    case False
    then show ?thesis by (simp add: not_less)
  qed
qed simp

text \<open>An entry at an aligned address, with the whole of its block before an aligned end.\<close>

lemma map_entry_block:
  assumes mm: "mm_stage S" and l: "l \<le> 3" and al: "esize l dvd unat b" "esize l dvd unat e" and be: "b < e" "unat e \<le> 2 ^ 48"
    and at: "attrs_ok S at" and how: "is_block_allowed S l \<or> flags_contains flags FLAG_UNMAP"
  shows "\<exists>p' env'. map_entry S rec e at l flags b p env = (Ok (), p', env') \<and>
    (\<not> is_table S p l \<longrightarrow> \<not> is_table S p' l \<and> mpool env' = mpool env)"
proof -
  have "unat b + esize l \<le> unat e"
  proof -
    obtain j k where jk: "unat b = esize l * j" "unat e = esize l * k" using al by (auto elim!: dvdE)
    then have "Suc j \<le> k" using be(1) by (auto simp: word_less_nat_alt)
    then have "esize l * Suc j \<le> esize l * k" by (rule mult_le_mono2)
    then show ?thesis by (simp add: jk)
  qed
  then have sz: "e - b \<ge> entry_size l"
    using l be(1) by (simp add: word_le_nat_alt unat_sub word_less_nat_alt unat_entry_size)
  define new where "new = (if flags_contains flags FLAG_UNMAP then pte_absent S l else pte_block S l (pa_init b) at)"
  have absent: "\<not> is_table S (pte_absent S l) l"
    using mm l by (simp add: is_table_def pte_absent_def mm_stage_def pte_split_def pte_codec.absent_not_table)
  have "frame_at l b" using al(1) be by (simp add: frame_at_def word_less_nat_alt)
  then have "is_block_allowed S l \<Longrightarrow> \<not> is_table S (pte_block S l (pa_init b) at) l"
    using mm l at by (simp add: is_table_def pte_block_def mm_stage_def pte_split_def pte_codec.block_not_table)
  then have "\<not> is_table S new l" using how absent by (auto simp: new_def)
  moreover obtain env2 where r: "pte_replace S p new b l env = (new, env2)"
    by (simp add: pte_replace_def Let_def case_prod_beta)
  moreover have "mpool env2 = mpool env" if "\<not> is_table S p l"
    using that absent r
    by (cases p) (auto simp: pte_replace_def drop_in_def invalidate_tlb_def emit_def is_table_def pte_absent_def Let_def split: if_splits)
  ultimately show ?thesis
    using sz al(1) how by (cases "flags_contains flags FLAG_COMMIT") (auto simp: map_entry_def Let_def entry_aligned new_def)
qed

lemma next_block_aligned:
  assumes "l \<le> L" "L \<le> 4" "unat b < 2 ^ 60"
  shows "esize l dvd unat (start_of_next_block b (entry_size L))"
proof -
  have "unat b + esize L < 2 ^ 64"
    using assms(2,3) esize_mono [of L 4] by (simp add: esize_def)
  then show ?thesis
    using assms(1,2) esize_dvd [of l L] by (subst unat_start_of_next_block) auto
qed

lemma map_table_blocks:
  assumes mm: "mm_stage S" and l: "l \<le> 3" and al: "esize l dvd unat b" "esize l dvd unat e" and e: "unat e \<le> 2 ^ 48"
    and at: "attrs_ok S at" and how: "is_block_allowed S l \<or> flags_contains flags FLAG_UNMAP"
  shows "\<exists>t' env'. map_table S rec e at l flags b t env = (Ok (), t', env') \<and>
    (list_all (\<lambda>p. \<not> is_table S p l) t \<longrightarrow> list_all (\<lambda>p. \<not> is_table S p l) t' \<and> mpool env' = mpool env)"
proof -
  let ?i = "unat (index b l)" and ?e = "min e (level_end b l)"
  have "\<exists>xs' env'. for_blocks (map_entry S rec e at l flags) b ?e (entry_size l) (drop ?i t) env = (Ok (), xs', env')
    \<and> length xs' = length (drop ?i t)
    \<and> (list_all (\<lambda>p. \<not> is_table S p l) (drop ?i t) \<longrightarrow> list_all (\<lambda>p. \<not> is_table S p l) xs' \<and> mpool env' = mpool env)"
  proof (rule for_blocks_all_ok [where P = "\<lambda>b. esize l dvd unat b"])
    fix b x env assume "esize l dvd unat b" "b < ?e"
    then show "\<exists>x' env'. map_entry S rec e at l flags b x env = (Ok (), x', env') \<and>
        (\<not> is_table S x l \<longrightarrow> \<not> is_table S x' l \<and> mpool env' = mpool env)"
      by (intro map_entry_block [OF mm l _ al(2) _ e at how]) auto
  next
    fix b assume "b < ?e"
    then have "b < e" by simp
    then have "unat b < 2 ^ 60" using e by (simp add: word_less_nat_alt)
    then show "esize l dvd unat (start_of_next_block b (entry_size l))"
      using l by (intro next_block_aligned) auto
  qed (rule al(1))
  then obtain xs' env' where x: "for_blocks (map_entry S rec e at l flags) b ?e (entry_size l) (drop ?i t) env = (Ok (), xs', env')"
    "list_all (\<lambda>p. \<not> is_table S p l) (drop ?i t) \<longrightarrow> list_all (\<lambda>p. \<not> is_table S p l) xs' \<and> mpool env' = mpool env"
    by blast
  then show ?thesis by (auto simp: map_table_def Let_def list_all_iff dest: in_set_takeD in_set_dropD)
qed

lemma map_level_blocks:
  assumes "mm_stage S" "l \<le> 3" "esize l dvd unat b" "esize l dvd unat e" "unat e \<le> 2 ^ 48"
    "attrs_ok S at" "is_block_allowed S l \<or> flags_contains flags FLAG_UNMAP"
  shows "\<exists>t' env'. map_level S e at flags l b t env = (Ok (), t', env') \<and>
    (list_all (\<lambda>p. \<not> is_table S p l) t \<longrightarrow> list_all (\<lambda>p. \<not> is_table S p l) t' \<and> mpool env' = mpool env)"
  using map_table_blocks [OF assms] by (cases l) simp_all

text \<open>A page table without any table below its roots.\<close>

definition flat :: "stage \<Rightarrow> ptable \<Rightarrow> bool" where
  "flat S t \<longleftrightarrow> list_all (list_all (\<lambda>p. \<not> is_table S p (max_level S))) (tables t)"

lemma map_root_blocks:
  assumes mm: "mm_stage S" and al: "esize (max_level S) dvd unat b" "esize (max_level S) dvd unat e" and e: "unat e \<le> 2 ^ 48"
    and at: "attrs_ok S at" and how: "is_block_allowed S (max_level S) \<or> flags_contains flags FLAG_UNMAP"
    and ix: "unat (index b (max_level S + 1)) \<le> length (tables t)"
  shows "\<exists>t' env'. map_root S b e at (max_level S + 1) flags t env = (Ok (), t', env') \<and>
    length (tables t') = length (tables t) \<and> (flat S t \<longrightarrow> flat S t' \<and> mpool env' = mpool env)"
proof -
  let ?l = "max_level S"
  let ?i = "unat (index b (?l + 1))" and ?Q = "list_all (\<lambda>p. \<not> is_table S p ?l)"
  have l: "?l \<le> 3" by (rule mm_stage.max_level_le [OF mm])
  have "\<exists>xs' env'. for_blocks (map_level S e at flags ?l) b e (entry_size (?l + 1)) (drop ?i (tables t)) env = (Ok (), xs', env')
    \<and> length xs' = length (drop ?i (tables t)) \<and> (list_all ?Q (drop ?i (tables t)) \<longrightarrow> list_all ?Q xs' \<and> mpool env' = mpool env)"
  proof (rule for_blocks_all_ok [where P = "\<lambda>b. esize ?l dvd unat b"])
    fix b :: usize and x env assume "esize ?l dvd unat b"
    then show "\<exists>x' env'. map_level S e at flags ?l b x env = (Ok (), x', env') \<and> (?Q x \<longrightarrow> ?Q x' \<and> mpool env' = mpool env)"
      by (rule map_level_blocks [OF mm l _ al(2) e at how])
  next
    fix b assume "b < e"
    then have "unat b < 2 ^ 60" using e by (simp add: word_less_nat_alt)
    then show "esize ?l dvd unat (start_of_next_block b (entry_size (?l + 1)))"
      using l by (intro next_block_aligned) auto
  qed (rule al(1))
  then obtain xs' env' where x: "for_blocks (map_level S e at flags ?l) b e (entry_size (?l + 1)) (drop ?i (tables t)) env = (Ok (), xs', env')"
    "length xs' = length (drop ?i (tables t))" "list_all ?Q (drop ?i (tables t)) \<longrightarrow> list_all ?Q xs' \<and> mpool env' = mpool env"
    by blast
  then show ?thesis
    using ix by (auto simp: map_root_def Let_def flat_def list_all_iff dest: in_set_takeD in_set_dropD)
qed

lemma identity_update_blocks:
  assumes mm: "mm_stage S" and wf: "wf_ptable S t" and rng: "unat (pa_addr b) < space S" "unat (pa_addr e) \<le> 2 ^ 48"
    and al: "esize (max_level S) dvd unat (pa_addr b)" "esize (max_level S) dvd unat (pa_addr e)" and at: "attrs_ok S at"
    and how: "is_block_allowed S (max_level S) \<or> flags_contains flags FLAG_UNMAP \<and> flags_contains (flags OR FLAG_COMMIT) FLAG_UNMAP"
  shows "\<exists>t' env'. identity_update S b e at flags t env = (Ok (), t', env') \<and> (flat S t \<longrightarrow> flat S t' \<and> mpool env' = mpool env)"
proof -
  let ?l = "max_level S"
  define b' c where "b' = pa_addr (clear_pa S b)" and "c = min (round_up_to_page (pa_addr e)) (ptable_addr_space_end S)"
  have fit: "unat (pa_addr e) + 4095 < 2 ^ 64" using rng(2) by simp
  note bc = mm_stage.identity_update_range [OF mm rng(1) fit, folded b'_def c_def]
  have "4096 dvd unat (pa_addr b)" "4096 dvd unat (pa_addr e)"
    using al page_dvd_esize dvd_trans by blast+
  then have eq: "unat b' = unat (pa_addr b)" "unat c = min (unat (pa_addr e)) (space S)"
    using bc(1,4) by (auto elim!: dvdE)
  have sp: "esize ?l dvd space S" unfolding space_def using esize_dvd [of ?l "?l + 1"] by simp
  have b: "esize ?l dvd unat b'" using al(1) eq(1) by simp
  have c: "esize ?l dvd unat c" "unat c \<le> 2 ^ 48" using al(2) sp eq(2) rng(2) by (auto simp: min_def)
  have "unat b' div esize (?l + 1) < root_table_count S"
    using rng(1) eq(1) by (simp add: space_def less_mult_imp_div_less)
  then have ix: "unat (index b' (?l + 1)) \<le> length (tables t)"
    using wf mod_less_eq_dividend [of "unat b' div esize (?l + 1)" 512] by (simp add: unat_index wf_ptable_def)
  note pass = map_root_blocks [OF mm b c at]
  obtain t1 env1 where p1: "map_root S b' c at (?l + 1) flags t env = (Ok (), t1, env1)" "length (tables t1) = length (tables t)"
    "flat S t \<longrightarrow> flat S t1 \<and> mpool env1 = mpool env"
    using pass [of flags t env] how ix by blast
  obtain t2 env2 where p2: "map_root S b' c at (?l + 1) (flags OR FLAG_COMMIT) t1 env1 = (Ok (), t2, env2)"
    "flat S t1 \<longrightarrow> flat S t2 \<and> mpool env2 = mpool env1"
    using pass [of "flags OR FLAG_COMMIT" t1 env1] how ix p1(2) by auto
  show ?thesis
    using p1 p2 by (auto simp: identity_update_def Let_def b'_def [symmetric] c_def [symmetric] invalidate_tlb_def emit_def)
qed

lemma block_updates:
  assumes "hf_stage S" "wf_ptable S t" "unat (pa_addr begin) < space S" "unat (pa_addr e) \<le> 2 ^ 48"
    and "esize (max_level S) dvd unat (pa_addr begin)" "esize (max_level S) dvd unat (pa_addr e)"
  shows "is_block_allowed S (max_level S) \<Longrightarrow>
      \<exists>t' env'. identity_map S begin e m t env = (Ok (), t', env') \<and> (flat S t \<longrightarrow> flat S t' \<and> mpool env' = mpool env)"
    "\<exists>t' env'. PageTable_unmap S begin e t env = (Ok (), t', env') \<and> (flat S t \<longrightarrow> flat S t' \<and> mpool env' = mpool env)"
proof -
  note mm = hf_stage_mm [OF assms(1)]
  have at: "attrs_ok S (mode_to_attrs S m)" for m
    using mm by (simp add: mm_stage_def pte_split_def pte_codec.mode_attrs_ok)
  have "flags_contains (FLAG_UNMAP OR FLAG_COMMIT) FLAG_UNMAP"
    by (simp add: flags_contains_def FLAG_UNMAP_def FLAG_COMMIT_def)
  then show "is_block_allowed S (max_level S) \<Longrightarrow>
      \<exists>t' env'. identity_map S begin e m t env = (Ok (), t', env') \<and> (flat S t \<longrightarrow> flat S t' \<and> mpool env' = mpool env)"
    "\<exists>t' env'. PageTable_unmap S begin e t env = (Ok (), t', env') \<and> (flat S t \<longrightarrow> flat S t' \<and> mpool env' = mpool env)"
    using identity_update_blocks [OF mm assms(2-) at] by (simp_all add: identity_map_def PageTable_unmap_def)
qed

end
