(* ===== verification/Load_Correct.thy ===== *)
theory Load_Correct
  imports Load Page_Table_Blocks
begin

text \<open>
  Correctness of the loader (src/hfo2/src/load.rs): the state it leaves satisfies the invariant of
  the hypervisor, so that isolation holds from the start, and the memory of the secondary VMs is
  exactly what it reserves. \<open>load_ok S taken h\<close> is the invariant while VMs are loaded.
\<close>

section \<open>Permissions after the updates of the loader\<close>

lemma perm_absent: "hf_stage2 S \<Longrightarrow> \<not> attrs_present S a \<Longrightarrow> attr_perm a = (False, False, False)"
  by (simp add: attr_perm_def attrs_present_def stage2_fields present_bits)

lemma not_in_pages_beyond:
  assumes "hf_stage S" "space S \<le> unat b" "x < space S"
  shows "\<not> in_pages (pa_init b) e x"
proof -
  have "space S div 4096 * 4096 = space S"
    using mm_stage.page_dvd_space [OF hf_stage_mm [OF assms(1)]] by simp
  moreover have "space S div 4096 \<le> unat b div 4096" using assms(2) by (rule div_le_mono)
  ultimately have "space S \<le> unat b div 4096 * 4096" by (metis mult_le_mono1)
  then show ?thesis using assms(3) by (simp add: in_pages_def)
qed

lemma map_perm_pages:
  assumes "hf_stage2 S" "wf_ptable S t" "env_ok env" "unat b < 2 ^ 48" "unat e + 4095 < 2 ^ 64"
    and run: "identity_map S (pa_init b) (pa_init e) m t env = (r, t', env')"
  shows "wf_ptable S t' \<and> env_ok env' \<and> (\<forall>x < space S. perm S t' x =
    (if r = Ok () \<and> in_pages (pa_init b) (pa_init e) x then mode_perm m else perm S t x))"
proof (cases "unat b < space S")
  case True
  note hf = hf_stage2_hf [OF assms(1)]
  note f = identity_map_facts [OF hf assms(2,3) _ _ run]
  have "perm S t' x = (if r = Ok () \<and> in_pages (pa_init b) (pa_init e) x then mode_perm m else perm S t x)" if "x < space S" for x
    using f True assms(5) that perm_visible [OF assms(1), of "lookup_ptable S t' x" "lookup_ptable S t x"]
    by (auto simp: view_step_def hit_def in_pages_def perm_def stage2_fields [OF assms(1)] perm_of_mode)
  then show ?thesis using map_any [OF hf assms(2-5) run] by blast
next
  case False
  note hf = hf_stage2_hf [OF assms(1)]
  have "t' = t"
    using update_beyond [OF hf assms(2), of "pa_init b" "pa_init e"] False assms(4,5) run
    by (auto simp: identity_map_def split: if_splits)
  then show ?thesis using map_any [OF hf assms(2-5) run] not_in_pages_beyond [OF hf, of b] False by simp
qed

lemma unmap_perm_pages:
  assumes "hf_stage2 S" "wf_ptable S t" "env_ok env" "unat b < 2 ^ 48" "unat e + 4095 < 2 ^ 64"
    and run: "PageTable_unmap S (pa_init b) (pa_init e) t env = (r, t', env')"
  shows "wf_ptable S t' \<and> env_ok env' \<and> (\<forall>x < space S. perm S t' x =
    (if r = Ok () \<and> in_pages (pa_init b) (pa_init e) x then (False, False, False) else perm S t x))"
proof (cases "unat b < space S")
  case True
  note hf = hf_stage2_hf [OF assms(1)]
  note f = unmap_facts [OF hf assms(2,3) _ _ run]
  have "perm S t' x = (if r = Ok () \<and> in_pages (pa_init b) (pa_init e) x then (False, False, False) else perm S t x)"
    if "x < space S" for x
    using f True assms(5) that perm_visible [OF assms(1), of "lookup_ptable S t' x" "lookup_ptable S t x"]
    by (auto simp: view_step_def hit_def in_pages_def perm_def perm_absent [OF assms(1)])
  then show ?thesis using unmap_any [OF hf assms(2-5) run] by blast
next
  case False
  note hf = hf_stage2_hf [OF assms(1)]
  have "t' = t"
    using update_beyond [OF hf assms(2), of "pa_init b" "pa_init e"] False assms(4,5) run
    by (auto simp: PageTable_unmap_def split: if_splits)
  then show ?thesis using unmap_any [OF hf assms(2-5) run] not_in_pages_beyond [OF hf, of b] False by simp
qed

section \<open>The invariant of the loader\<close>

definition in_range :: "mem_range \<Rightarrow> nat \<Rightarrow> bool" where
  "in_range r x \<longleftrightarrow> unat (pa_addr (r_begin r)) \<le> x \<and> x < unat (pa_addr (r_end r))"

text \<open>
  The ranges that are still available, and what they were before. An address is carved when it was
  taken from the end of one of them.
\<close>

definition shrunk :: "mem_range list \<Rightarrow> mem_range list \<Rightarrow> bool" where
  "shrunk before avail \<longleftrightarrow>
     list_all2 (\<lambda>b a. r_begin a = r_begin b \<and> unat (pa_addr (r_begin a)) \<le> unat (pa_addr (r_end a)) \<and>
       unat (pa_addr (r_end a)) \<le> unat (pa_addr (r_end b)) \<and> 4096 dvd unat (pa_addr (r_end a)) \<and>
       unat (pa_addr (r_end b)) < 2 ^ 48) before avail"

definition carved :: "mem_range list \<Rightarrow> mem_range list \<Rightarrow> nat \<Rightarrow> bool" where
  "carved before avail x \<longleftrightarrow>
     (\<exists>i < length before. unat (pa_addr (r_end (avail ! i))) \<le> x \<and> x < unat (pa_addr (r_end (before ! i))))"

definition separate :: "mem_range list \<Rightarrow> bool" where
  "separate rs \<longleftrightarrow> (\<forall>i < length rs. \<forall>j < length rs. i \<noteq> j \<longrightarrow> (\<forall>x. \<not> (in_range (rs ! i) x \<and> in_range (rs ! j) x)))"

text \<open>
  While the VMs are loaded an address is either not mapped for a VM or mapped with all rights, for
  at most one VM, and a secondary VM has only carved memory.
\<close>

definition sole :: "stage \<Rightarrow> (nat \<Rightarrow> bool) \<Rightarrow> hypervisor \<Rightarrow> nat \<Rightarrow> nat \<Rightarrow> bool" where
  "sole S taken h x v \<longleftrightarrow>
     perm S (ptable_of h v) x = (True, True, True) \<and> (v \<noteq> 0 \<longrightarrow> taken x) \<and>
     (\<forall>w < length (vms h). w \<noteq> v \<longrightarrow> perm S (ptable_of h w) x = (False, False, False))"

definition load_ok :: "stage \<Rightarrow> (nat \<Rightarrow> bool) \<Rightarrow> hypervisor \<Rightarrow> bool" where
  "load_ok S taken h \<longleftrightarrow>
     env_ok (henv h) \<and> wf_ptable aarch64_stage1 (hyp_ptable h) \<and> length (vms h) \<le> MAX_VMS \<and>
     (\<forall>v < length (vms h). wf_ptable S (ptable_of h v) \<and> vm_id (vm_at h v) = word_of_nat (v + 1)) \<and>
     (\<forall>x < space S. \<forall>v < length (vms h). perm S (ptable_of h v) x = (False, False, False) \<or> sole S taken h x v)"

lemma load_okD:
  assumes "load_ok S taken h" "x < space S" "v < length (vms h)" "perm S (ptable_of h v) x \<noteq> (False, False, False)"
  shows "sole S taken h x v"
proof -
  have "\<forall>x < space S. \<forall>v < length (vms h). perm S (ptable_of h v) x = (False, False, False) \<or> sole S taken h x v"
    using assms(1) by (simp add: load_ok_def)
  then show ?thesis using assms(2-) by blast
qed

lemma load_ok_parts:
  assumes "load_ok S taken h"
  shows "env_ok (henv h)" "wf_ptable aarch64_stage1 (hyp_ptable h)" "length (vms h) \<le> MAX_VMS"
    "v < length (vms h) \<Longrightarrow> wf_ptable S (ptable_of h v)" "v < length (vms h) \<Longrightarrow> vm_id (vm_at h v) = word_of_nat (v + 1)"
  using assms by (simp_all add: load_ok_def)

lemma load_okI:
  assumes "env_ok (henv h)" "wf_ptable aarch64_stage1 (hyp_ptable h)" "length (vms h) \<le> MAX_VMS"
    "\<And>v. v < length (vms h) \<Longrightarrow> wf_ptable S (ptable_of h v)" "\<And>v. v < length (vms h) \<Longrightarrow> vm_id (vm_at h v) = word_of_nat (v + 1)"
    "\<And>x v. x < space S \<Longrightarrow> v < length (vms h) \<Longrightarrow> perm S (ptable_of h v) x \<noteq> (False, False, False) \<Longrightarrow> sole S taken h x v"
  shows "load_ok S taken h"
  unfolding load_ok_def using assms by blast

lemma load_ok_hyp_ok:
  assumes "load_ok S taken h"
  shows "hyp_ok S h"
proof -
  have "compatible (perm S (ptable_of h v) x) (perm S (ptable_of h w) x)"
    if "x < space S" "v < length (vms h)" "w < length (vms h)" "v \<noteq> w" for x v w
  proof (cases "perm S (ptable_of h v) x = (False, False, False)")
    case True
    then show ?thesis by (simp add: compatible_def owns_def has_access_def exclusive_def)
  next
    case False
    then have "perm S (ptable_of h w) x = (False, False, False)"
      using load_okD [OF assms that(1,2)] that(3,4) by (simp add: sole_def)
    then show ?thesis by (simp add: compatible_def owns_def has_access_def exclusive_def)
  qed
  then have "isolated S h" by (simp add: isolated_def isolated_at_def)
  then show ?thesis using load_ok_parts [OF assms] by (simp add: hyp_ok_def)
qed

lemma load_ok_frame:
  assumes "load_ok S taken h" "mem_frame h h'"
  shows "load_ok S taken h'"
proof -
  have "henv h' = henv h" "hyp_ptable h' = hyp_ptable h" "length (vms h') = length (vms h)"
    "ptable_of h' v = ptable_of h v" "vm_id (vm_at h' v) = vm_id (vm_at h v)" for v
    using assms(2) by (simp_all add: mem_frame_def)
  then show ?thesis using assms(1) by (simp add: load_ok_def sole_def)
qed

lemma load_ok_mono:
  assumes "load_ok S taken h" "\<And>x. taken x \<Longrightarrow> taken' x"
  shows "load_ok S taken' h"
  using assms(1) by (auto simp: load_ok_def sole_def intro: assms(2))

text \<open>A new table for one VM.\<close>

lemma load_ok_set_ptable:
  assumes ok: "load_ok S taken h" and v: "v < length (vms h)" and t: "wf_ptable S t" "env_ok en"
    and step: "\<And>x. x < space S \<Longrightarrow> perm S t x = perm S (ptable_of h v) x \<or> perm S t x = (False, False, False) \<or>
      perm S t x = (True, True, True) \<and> (v \<noteq> 0 \<longrightarrow> taken x) \<and>
      (\<forall>w < length (vms h). w \<noteq> v \<longrightarrow> perm S (ptable_of h w) x = (False, False, False))"
  shows "load_ok S taken (set_ptable v t (h\<lparr>henv := en\<rparr>))"
proof -
  let ?h = "set_ptable v t (h\<lparr>henv := en\<rparr>)"
  have pt: "ptable_of ?h u = (if u = v then t else ptable_of h u)" for u
    using v by simp
  have fields: "length (vms ?h) = length (vms h)" "henv ?h = en" "hyp_ptable ?h = hyp_ptable h"
    "vm_id (vm_at ?h u) = vm_id (vm_at h u)" for u by simp_all
  have acc: "sole S taken ?h x u"
    if x: "x < space S" and u: "u < length (vms h)" and a: "perm S (ptable_of ?h u) x \<noteq> (False, False, False)" for x u
  proof (cases "u = v")
    case True
    then have n: "perm S t x \<noteq> (False, False, False)" using a pt by simp
    show ?thesis
    proof (cases "perm S t x = perm S (ptable_of h v) x")
      case same: True
      then show ?thesis using load_okD [OF ok x v] n True by (simp add: sole_def pt)
    next
      case False
      then show ?thesis using step [OF x] n True by (auto simp: sole_def pt)
    qed
  next
    case False
    then have o: "sole S taken h x u" using load_okD [OF ok x u] a pt by simp
    then have "perm S (ptable_of h v) x = (False, False, False)" using v False by (simp add: sole_def)
    moreover have "\<not> (\<forall>w < length (vms h). w \<noteq> v \<longrightarrow> perm S (ptable_of h w) x = (False, False, False))"
      using o u False by (auto simp: sole_def)
    ultimately have "perm S t x = (False, False, False)" using step [OF x] by metis
    then show ?thesis using o False by (simp add: sole_def pt)
  qed
  show ?thesis
    by (rule load_okI) (use acc load_ok_parts [OF ok] t in \<open>simp_all add: pt fields del: set_ptable_simps\<close>)
qed

lemma unmap_in_vm_ok:
  assumes S: "hf_stage2 S" and ok: "load_ok S taken h" and v: "v < length (vms h)"
    and rng: "unat (pa_addr b) < 2 ^ 48" "unat (pa_addr e) + 4095 < 2 ^ 64"
    and run: "unmap_in_vm S v b e h = (r, h')"
  shows "load_ok S taken h'" "vms h = [] \<longleftrightarrow> vms h' = []" "length (vms h') = length (vms h)"
    "x < space S \<Longrightarrow> u < length (vms h) \<Longrightarrow> perm S (ptable_of h' u) x =
       (if u = v \<and> r = Ok () \<and> in_pages b e x then (False, False, False) else perm S (ptable_of h u) x)"
proof -
  obtain t en where um: "PageTable_unmap S b e (ptable_of h v) (henv h) = (r, t, en)"
    and h': "h' = set_ptable v t (h\<lparr>henv := en\<rparr>)"
    using run by (auto simp: unmap_in_vm_def split: prod.splits)
  have p: "pa_init (pa_addr q) = q" for q by (simp add: addr_defs)
  note f = unmap_perm_pages [OF S load_ok_parts(4) [OF ok v] load_ok_parts(1) [OF ok] rng, unfolded p, OF um]
  show "load_ok S taken h'"
    unfolding h' by (rule load_ok_set_ptable [OF ok v]) (use f in auto)
  show "length (vms h') = length (vms h)" by (simp add: h')
  then show "vms h = [] \<longleftrightarrow> vms h' = []" by (metis length_0_conv)
  show "x < space S \<Longrightarrow> u < length (vms h) \<Longrightarrow> perm S (ptable_of h' u) x =
       (if u = v \<and> r = Ok () \<and> in_pages b e x then (False, False, False) else perm S (ptable_of h u) x)"
    using f v by (auto simp: h')
qed

lemma map_in_vm_ok:
  assumes S: "hf_stage2 S" and ok: "load_ok S taken h" and v: "v < length (vms h)"
    and rng: "unat (pa_addr b) < 2 ^ 48" "unat (pa_addr e) + 4095 < 2 ^ 64"
    and m: "mode_perm m = (True, True, True)"
    and free: "\<And>x w. x < space S \<Longrightarrow> in_pages b e x \<Longrightarrow> w < length (vms h) \<Longrightarrow> w \<noteq> v \<Longrightarrow>
      perm S (ptable_of h w) x = (False, False, False)"
    and tk: "\<And>x. x < space S \<Longrightarrow> in_pages b e x \<Longrightarrow> v \<noteq> 0 \<Longrightarrow> taken x"
    and run: "map_in_vm S v b e m h = (r, h')"
  shows "load_ok S taken h'" "length (vms h') = length (vms h)"
proof -
  obtain t en where im: "identity_map S b e m (ptable_of h v) (henv h) = (r, t, en)"
    and h': "h' = set_ptable v t (h\<lparr>henv := en\<rparr>)"
    using run by (auto simp: map_in_vm_def split: prod.splits)
  have p: "pa_init (pa_addr q) = q" for q by (simp add: addr_defs)
  note f = map_perm_pages [OF S load_ok_parts(4) [OF ok v] load_ok_parts(1) [OF ok] rng, unfolded p, OF im]
  show "load_ok S taken h'"
    unfolding h' by (rule load_ok_set_ptable [OF ok v]) (use f free tk m in auto)
  show "length (vms h') = length (vms h)" by (simp add: h')
qed

lemma PageTable_new_fails:
  assumes "mm_stage S" "env_ok env" "PageTable_new S env = (r, env')" "\<not> is_ok r"
  shows "env' = env"
proof -
  let ?n = "word_of_nat (root_table_count S) :: usize"
  have "unat ?n * 4096 < 2 ^ 64"
    using mm_stage.unat_root_count [OF assms(1)] mm_stage.root_count_le [OF assms(1)] by simp
  then show ?thesis
    using MPool_alloc_pages_conserves [of "mpool env" ?n ?n] assms(2-)
    by (auto simp: PageTable_new_def env_ok_def Let_def split: prod.splits outcome.splits)
qed

lemma create_vm_cases:
  assumes "create_vm S raw n h = (r, h')"
  obtains (failed) q where "vms h' = vms h" "hyp_ptable h' = hyp_ptable h" "\<And>v. r \<noteq> Ok (Some v)"
      "henv h' = henv h \<or> PageTable_new S (henv h) = (q, henv h') \<and> \<not> is_ok q"
  | (created) t w where "PageTable_new S (henv h) = (Ok t, henv h')" "vms h' = vms h @ [w]" "hyp_ptable h' = hyp_ptable h"
      "vm_id w = word_of_nat (length (vms h) + 1)" "vm_ptable (vm_inner w) = t" "r = Ok (Some (length (vms h)))"
      "length (vms h) < MAX_VMS"
proof (cases "length (vms h) \<ge> MAX_VMS")
  case True
  then show ?thesis using assms by (intro failed) (auto simp: create_vm_def new_vm_def)
next
  case False
  obtain q env' where p: "PageTable_new S (henv h) = (q, env')" by fastforce
  obtain mb ls' where mb: "Mailbox_init (length (vms h)) (links h) = (mb, ls')" by fastforce
  note d = create_vm_def new_vm_def Vm_init_def VmInner_init_def mm_vm_init_def ok_flag_def Let_def HF_VM_ID_OFFSET_def
  show ?thesis
  proof (cases q)
    case (Ok t)
    then show ?thesis using assms False p mb created by (auto simp: d)
  next
    case (Err e)
    then show ?thesis using assms False p mb by (intro failed [of q]) (auto simp: d is_ok_def)
  next
    case Panic
    then show ?thesis using assms False p mb by (intro failed [of q]) (auto simp: d is_ok_def)
  qed
qed

lemma create_vm_ok:
  assumes S: "hf_stage2 S" and ok: "load_ok S taken h" and run: "create_vm S raw n h = (r, h')"
  shows "load_ok S taken h'" "(\<And>v. r \<noteq> Ok (Some v)) \<Longrightarrow> vms h' = vms h"
    "r = Ok (Some v) \<Longrightarrow> v = length (vms h) \<and> length (vms h') = Suc v"
    "r = Ok (Some v) \<Longrightarrow> u < length (vms h) \<Longrightarrow> ptable_of h' u = ptable_of h u"
    "r = Ok (Some v) \<Longrightarrow> x < space S \<Longrightarrow> perm S (ptable_of h' v) x = (False, False, False)"
proof -
  note mm = hf_stage_mm [OF hf_stage2_hf [OF S]]
  have "load_ok S taken h' \<and> ((\<forall>v. r \<noteq> Ok (Some v)) \<longrightarrow> vms h' = vms h) \<and> (\<forall>v. r = Ok (Some v) \<longrightarrow>
      v = length (vms h) \<and> length (vms h') = Suc v \<and> (\<forall>u < v. ptable_of h' u = ptable_of h u) \<and>
      (\<forall>x < space S. perm S (ptable_of h' v) x = (False, False, False)))"
    using run
  proof (cases rule: create_vm_cases)
    case (failed q)
    have "henv h' = henv h" using failed(4) PageTable_new_fails [OF mm load_ok_parts(1) [OF ok]] by blast
    then have "mem_frame h h'" using failed by (simp add: mem_frame_def ptable_of_def vm_at_def)
    then show ?thesis using load_ok_frame [OF ok] failed by simp
  next
    case (created t w)
    note new = mm_stage.PageTable_new_spec [OF mm load_ok_parts(1) [OF ok] created(1)]
    have old: "vm_at h' u = vm_at h u" "ptable_of h' u = ptable_of h u" if "u < length (vms h)" for u
      using that by (simp_all add: ptable_of_def vm_at_def created(2) nth_append)
    have new_vm: "vm_at h' (length (vms h)) = w" "ptable_of h' (length (vms h)) = t"
      by (simp_all add: ptable_of_def vm_at_def created(2,5))
    have none: "perm S t x = (False, False, False)" if "x < space S" for x
      using new that by (simp add: perm_def perm_absent [OF S])
    have "load_ok S taken h'"
    proof (rule load_okI)
      fix v assume v: "v < length (vms h')"
      show "wf_ptable S (ptable_of h' v)" "vm_id (vm_at h' v) = word_of_nat (v + 1)"
        using v old [of v] new_vm new load_ok_parts(4,5) [OF ok, of v] created(4)
        by (cases "v < length (vms h)"; simp add: created(2) less_Suc_eq)+
      fix x assume x: "x < space S" and a: "perm S (ptable_of h' v) x \<noteq> (False, False, False)"
      then have lt: "v < length (vms h)"
        using v new_vm none [OF x] by (cases "v = length (vms h)") (auto simp: created(2))
      then have o: "sole S taken h x v" using load_okD [OF ok x lt] a old(2) by simp
      have "perm S (ptable_of h' k) x = (False, False, False)" if "k < length (vms h')" "k \<noteq> v" for k
        using that o new_vm(2) none [OF x] old(2) [of k]
        by (cases "k = length (vms h)") (auto simp: sole_def created(2) less_Suc_eq)
      then show "sole S taken h' x v" using o old(2) [OF lt] by (simp add: sole_def)
    qed (use new load_ok_parts [OF ok] created in simp_all)
    then show ?thesis using created old new_vm none by simp
  qed
  then show "load_ok S taken h'" "(\<And>v. r \<noteq> Ok (Some v)) \<Longrightarrow> vms h' = vms h"
    "r = Ok (Some v) \<Longrightarrow> v = length (vms h) \<and> length (vms h') = Suc v"
    "r = Ok (Some v) \<Longrightarrow> u < length (vms h) \<Longrightarrow> ptable_of h' u = ptable_of h u"
    "r = Ok (Some v) \<Longrightarrow> x < space S \<Longrightarrow> perm S (ptable_of h' v) x = (False, False, False)"
    by auto
qed

lemma copy_to_unmapped_ok:
  assumes ok: "load_ok S taken h" and to: "unat (pa_addr to) < 2 ^ 48" and sz: "unat (it_len it) < 2 ^ 63"
    and run: "copy_to_unmapped to it h = (r, h')"
  shows "load_ok S taken h'" "vms h' = vms h"
proof -
  let ?e = "pa_add to (it_len it)"
  have p: "pa_init (pa_addr q) = q" for q by (simp add: addr_defs)
  have "unat (pa_addr ?e) \<le> unat (pa_addr to) + unat (it_len it)"
    by (simp add: addr_defs unat_word_ariths)
  then have e: "unat (pa_addr ?e) + 4095 < 2 ^ 64" using to sz by simp
  obtain r1 t1 en1 where m: "identity_map aarch64_stage1 to ?e MODE_W (hyp_ptable h) (henv h) = (r1, t1, en1)"
    by (metis prod.exhaust)
  have 1: "wf_ptable aarch64_stage1 t1" "env_ok en1"
    using map_any [OF hf_stage1_hf load_ok_parts(2,1) [OF ok] to e, unfolded p, OF m] by auto
  obtain r2 t2 en2 where u: "PageTable_unmap aarch64_stage1 to ?e t1 en1 = (r2, t2, en2)"
    by (metis prod.exhaust)
  have 2: "wf_ptable aarch64_stage1 t2" "env_ok en2"
    using unmap_any [OF hf_stage1_hf 1 to e, unfolded p, OF u] by auto
  have h': "vms h' = vms h \<and> (hyp_ptable h' = t1 \<and> henv h' = en1 \<or> hyp_ptable h' = t2 \<and> henv h' = en2)"
    using run by (auto simp: copy_to_unmapped_def Let_def m u split: outcome.splits if_splits)
  then show "vms h' = vms h" by simp
  then have "ptable_of h' v = ptable_of h v" "vm_at h' v = vm_at h v" for v
    by (simp_all add: ptable_of_def vm_at_def)
  moreover have "wf_ptable aarch64_stage1 (hyp_ptable h')" "env_ok (henv h')" using h' 1 2 by auto
  ultimately show "load_ok S taken h'"
    using ok h' by (simp add: load_ok_def sole_def)
qed

lemma carve_out_mem_range_spec:
  "carve_out_mem_range sz avail = (r, avail') \<Longrightarrow> shrunk before avail \<Longrightarrow>
   (r = Err () \<and> avail' = avail) \<or>
   (\<exists>i b. i < length avail \<and> r = Ok (b, r_end (avail ! i)) \<and> avail' = avail[i := (avail ! i)\<lparr>r_end := b\<rparr>] \<and>
      unat (pa_addr b) + unat sz = unat (pa_addr (r_end (avail ! i))) \<and>
      unat (pa_addr (r_begin (avail ! i))) \<le> unat (pa_addr b))"
proof (induction avail arbitrary: before avail' r)
  case (Cons a avail)
  obtain b bs where before: "before = b # bs" "shrunk bs avail"
    and le: "unat (pa_addr (r_begin a)) \<le> unat (pa_addr (r_end a))"
    using Cons.prems(2) by (cases before) (auto simp: shrunk_def)
  show ?case
  proof (cases "sz \<le> pa_difference (r_begin a) (r_end a)")
    case True
    then have "unat sz \<le> unat (pa_addr (r_end a)) - unat (pa_addr (r_begin a))"
      using le by (simp add: pa_difference_def word_le_nat_alt unat_sub)
    moreover from this have "sz \<le> pa_addr (r_end a)" by (simp add: word_le_nat_alt)
    ultimately show ?thesis
      using True Cons.prems(1) le
      by (intro disjI2 exI [of _ 0] exI [of _ "pa_init (pa_addr (r_end a) - sz)"]) (auto simp: Let_def unat_sub word_le_nat_alt)
  next
    case False
    obtain q avail1 where c: "carve_out_mem_range sz avail = (q, avail1)" by fastforce
    then have e: "r = q" "avail' = a # avail1" using False Cons.prems(1) by auto
    show ?thesis
      using Cons.IH [OF c before(2)]
    proof
      assume "\<exists>i b. i < length avail \<and> q = Ok (b, r_end (avail ! i)) \<and> avail1 = avail[i := (avail ! i)\<lparr>r_end := b\<rparr>] \<and>
        unat (pa_addr b) + unat sz = unat (pa_addr (r_end (avail ! i))) \<and> unat (pa_addr (r_begin (avail ! i))) \<le> unat (pa_addr b)"
      then obtain i b where "i < length avail" "q = Ok (b, r_end (avail ! i))" "avail1 = avail[i := (avail ! i)\<lparr>r_end := b\<rparr>]"
        "unat (pa_addr b) + unat sz = unat (pa_addr (r_end (avail ! i)))" "unat (pa_addr (r_begin (avail ! i))) \<le> unat (pa_addr b)"
        by blast
      then show ?thesis using e by (intro disjI2 exI [of _ "Suc i"] exI [of _ b]) simp
    qed (use e in simp)
  qed
qed simp

section \<open>Secondary VMs get memory of their own\<close>

lemma in_pages_aligned:
  assumes "4096 dvd unat (pa_addr b)" "4096 dvd unat (pa_addr e)"
  shows "in_pages b e x \<longleftrightarrow> unat (pa_addr b) \<le> x \<and> x < unat (pa_addr e)"
  using assms by (auto simp: in_pages_def elim!: dvdE)

lemma dvd_round_up: "4096 dvd unat (round_up w PAGE_SIZE)"
proof -
  have "unat (k * PAGE_SIZE) = unat k * 4096 mod 2 ^ 64" for k :: usize
    by (simp add: unat_word_ariths PAGE_SIZE_def PAGE_BITS_def)
  moreover have "(4096 :: nat) dvd 2 ^ 64" by simp
  ultimately show ?thesis unfolding round_up_def by (simp add: dvd_mod)
qed

lemma shrunk_nth:
  assumes "shrunk before avail"
  shows "length before = length avail"
    "i < length avail \<Longrightarrow> r_begin (avail ! i) = r_begin (before ! i)"
    "i < length avail \<Longrightarrow> unat (pa_addr (r_begin (avail ! i))) \<le> unat (pa_addr (r_end (avail ! i)))"
    "i < length avail \<Longrightarrow> unat (pa_addr (r_end (avail ! i))) \<le> unat (pa_addr (r_end (before ! i)))"
    "i < length avail \<Longrightarrow> 4096 dvd unat (pa_addr (r_end (avail ! i)))"
    "i < length avail \<Longrightarrow> unat (pa_addr (r_end (before ! i))) < 2 ^ 48"
  using assms by (auto simp: shrunk_def list_all2_conv_all_nth)

lemma not_carved:
  assumes "separate before" "shrunk before avail" "i < length avail"
    "unat (pa_addr (r_begin (avail ! i))) \<le> x" "x < unat (pa_addr (r_end (avail ! i)))"
  shows "\<not> carved before avail x"
proof
  note sh = shrunk_nth [OF assms(2)]
  assume "carved before avail x"
  then obtain j where j: "j < length avail" "unat (pa_addr (r_end (avail ! j))) \<le> x" "x < unat (pa_addr (r_end (before ! j)))"
    using sh(1) by (auto simp: carved_def)
  then have "in_range (before ! j) x" "in_range (before ! i) x" "j \<noteq> i"
    using sh(2,3,4) [OF assms(3)] sh(2,3) [OF j(1)] assms(4,5) by (auto simp: in_range_def)
  then show False using assms(1,3) j(1) sh(1) unfolding separate_def by metis
qed

text \<open>What \<open>carve_out_mem_range\<close> does to the bookkeeping.\<close>

lemma carve_steps:
  assumes sh: "shrunk before avail" and i: "i < length avail" and b: "unat (pa_addr b) \<le> unat (pa_addr (r_end (avail ! i)))"
    "unat (pa_addr (r_begin (avail ! i))) \<le> unat (pa_addr b)" "4096 dvd unat (pa_addr b)"
  shows "shrunk before (avail[i := (avail ! i)\<lparr>r_end := b\<rparr>])"
    "carved before avail x \<Longrightarrow> carved before (avail[i := (avail ! i)\<lparr>r_end := b\<rparr>]) x"
    "unat (pa_addr b) \<le> x \<Longrightarrow> x < unat (pa_addr (r_end (avail ! i))) \<Longrightarrow> carved before (avail[i := (avail ! i)\<lparr>r_end := b\<rparr>]) x"
proof -
  note n = shrunk_nth [OF sh]
  let ?avail = "avail[i := (avail ! i)\<lparr>r_end := b\<rparr>]"
  have nth: "?avail ! j = (if j = i then (avail ! i)\<lparr>r_end := b\<rparr> else avail ! j)" if "j < length avail" for j
    using that i by simp
  show "shrunk before ?avail"
    unfolding shrunk_def list_all2_conv_all_nth
  proof (intro conjI allI impI)
    fix j assume j: "j < length before"
    show "r_begin (?avail ! j) = r_begin (before ! j)" "unat (pa_addr (r_begin (?avail ! j))) \<le> unat (pa_addr (r_end (?avail ! j)))"
      "unat (pa_addr (r_end (?avail ! j))) \<le> unat (pa_addr (r_end (before ! j)))" "4096 dvd unat (pa_addr (r_end (?avail ! j)))"
      "unat (pa_addr (r_end (before ! j))) < 2 ^ 48"
      using n(2-6) [of j] j n(1) b by (auto simp: nth)
  qed (simp add: n(1))
  show "carved before ?avail x" if c: "carved before avail x"
  proof -
    obtain j where j: "j < length before" "unat (pa_addr (r_end (avail ! j))) \<le> x" "x < unat (pa_addr (r_end (before ! j)))"
      using c by (auto simp: carved_def)
    then have "unat (pa_addr (r_end (?avail ! j))) \<le> x" using b(1) n(1) by (auto simp: nth)
    then show ?thesis using j unfolding carved_def by blast
  qed
  show "carved before ?avail x" if x: "unat (pa_addr b) \<le> x" "x < unat (pa_addr (r_end (avail ! i)))"
  proof -
    have "unat (pa_addr (r_end (?avail ! i))) \<le> x" "x < unat (pa_addr (r_end (before ! i)))"
      using x n(4) [OF i] i by (simp_all add: nth)
    then show ?thesis using i n(1) unfolding carved_def by metis
  qed
qed

lemma full_mode: "mode_perm (MODE_R OR MODE_W OR MODE_X) = (True, True, True)"
  by (simp add: mode_perm_def mode_defs)

text \<open>From the point where the range \<open>b\<close> to \<open>e\<close> belongs to nobody.\<close>

lemma create_and_map_ok:
  assumes S: "hf_stage2 S" and ok: "load_ok S taken h" and ne: "vms h \<noteq> []"
    and rng: "unat (pa_addr b) < 2 ^ 48" "unat (pa_addr e) + 4095 < 2 ^ 64"
    and free: "\<And>x w. x < space S \<Longrightarrow> in_pages b e x \<Longrightarrow> w < length (vms h) \<Longrightarrow> perm S (ptable_of h w) x = (False, False, False)"
    and tk: "\<And>x. x < space S \<Longrightarrow> in_pages b e x \<Longrightarrow> taken x"
    and cr: "create_vm S raw n h = (Ok (Some v), h1)" and mp: "map_in_vm S v b e (MODE_R OR MODE_W OR MODE_X) h1 = (r, h2)"
  shows "load_ok S taken h1 \<and> load_ok S taken h2 \<and> vms h1 \<noteq> [] \<and> vms h2 \<noteq> []"
proof -
  note c = create_vm_ok [OF S ok cr]
  have v: "v = length (vms h)" "length (vms h1) = Suc v" using c(3) [OF refl] by simp_all
  have fr: "perm S (ptable_of h1 w) x = (False, False, False)"
    if "x < space S" "in_pages b e x" "w < length (vms h1)" "w \<noteq> v" for x w
    using that c(4) [OF refl, of w] free [of x w] v by simp
  have "load_ok S taken h2" "length (vms h2) = length (vms h1)"
    by (rule map_in_vm_ok [OF S c(1) _ rng full_mode _ _ mp]; use fr tk v in simp)+
  then show ?thesis using c(1) v by auto
qed

lemma start_secondary_ok:
  assumes S: "hf_stage2 S" and ok: "load_ok S (carved before avail) h" and sh: "shrunk before avail" and sep: "separate before"
    and i: "i < length avail" and b: "unat (pa_addr b) \<le> unat (pa_addr (r_end (avail ! i)))"
      "unat (pa_addr (r_begin (avail ! i))) \<le> unat (pa_addr b)" "4096 dvd unat (pa_addr b)"
    and sz: "unat (it_len kern) < 2 ^ 63" and avail': "avail' = avail[i := (avail ! i)\<lparr>r_end := b\<rparr>]"
    and run: "start_secondary S raw n kern b (r_end (avail ! i)) h = Some (r, h')" and ne: "vms h \<noteq> []"
  shows "load_ok S (carved before avail') h' \<and> vms h' \<noteq> []"
proof -
  define e taken where "e = r_end (avail ! i)" and "taken = carved before avail'"
  note st = carve_steps [OF sh i b, folded avail']
  note n = shrunk_nth [OF sh]
  have rng: "unat (pa_addr b) < 2 ^ 48" "unat (pa_addr e) + 4095 < 2 ^ 64"
    using n(4,6) [OF i] b(1) by (simp_all add: e_def)
  have pages: "in_pages b e x \<longleftrightarrow> unat (pa_addr b) \<le> x \<and> x < unat (pa_addr e)" for x
    by (rule in_pages_aligned [OF b(3)]) (simp add: e_def n(5) [OF i])
  obtain q1 h1 where cp: "copy_to_unmapped b kern h = (q1, h1)" by fastforce
  note c1 = copy_to_unmapped_ok [OF ok rng(1) sz cp]
  have ok1: "load_ok S taken h1" using load_ok_mono [OF c1(1)] st(2) by (simp add: taken_def)
  have l1: "0 < length (vms h1)" using c1(2) ne by simp
  obtain q2 h2 where um: "unmap_in_vm S 0 b e h1 = (q2, h2)" by fastforce
  note c2 = unmap_in_vm_ok [OF S ok1 l1 rng um]
  obtain q3 h3 where cr: "create_vm S raw n h2 = (q3, h3)" by fastforce
  show ?thesis
  proof (cases "q1 = Ok True \<and> q2 = Ok () \<and> (\<exists>v. q3 = Ok (Some v))")
    case False
    then have "h' = h1 \<or> h' = h2 \<or> h' = h3 \<and> (\<forall>v. q3 \<noteq> Ok (Some v))"
      using run l1 by (auto simp: start_secondary_def cp um cr get_primary_def e_def [symmetric] split: outcome.splits if_splits option.splits)
    then show ?thesis
      using ok1 c1(2) ne c2(1,2) create_vm_ok(1,2) [OF S c2(1) cr] by (auto simp: taken_def)
  next
    case True
    then obtain v where v: "q1 = Ok True" "q2 = Ok ()" "q3 = Ok (Some v)" by blast
    obtain q4 h4 where mp: "map_in_vm S v b e (MODE_R OR MODE_W OR MODE_X) h3 = (q4, h4)" by fastforce
    have "perm S (ptable_of h1 w) x = (False, False, False)" if "x < space S" "in_pages b e x" "w < length (vms h1)" "w \<noteq> 0" for x w
    proof (rule ccontr)
      assume "perm S (ptable_of h1 w) x \<noteq> (False, False, False)"
      then have "carved before avail x" using load_okD [OF c1(1) that(1,3)] that(4) by (simp add: sole_def)
      moreover have "unat (pa_addr (r_begin (avail ! i))) \<le> x" "x < unat (pa_addr (r_end (avail ! i)))"
        using that(2) [unfolded pages] b(2) by (auto simp: e_def)
      ultimately show False using not_carved [OF sep sh i] by blast
    qed
    then have free: "perm S (ptable_of h2 w) x = (False, False, False)" if "x < space S" "in_pages b e x" "w < length (vms h2)" for x w
      using that c2(3) c2(4) [of x w] v(2) by (cases "w = 0") auto
    have tk: "taken x" if "in_pages b e x" for x
      using that [unfolded pages] st(3) [of x] by (auto simp: taken_def e_def)
    have "load_ok S taken h3 \<and> load_ok S taken h4 \<and> vms h3 \<noteq> [] \<and> vms h4 \<noteq> []"
      by (rule create_and_map_ok [OF S c2(1) _ rng free tk cr [unfolded v] mp]) (use l1 c2(2) in auto)
    moreover have "mem_frame h4 h'"
      using run l1 c2(2) by (auto simp: start_secondary_def cp um cr v mp get_primary_def e_def [symmetric]
          split: outcome.splits if_splits option.splits dest: reset_frame)
    ultimately show ?thesis using load_ok_frame by (metis length_0_conv mem_frame_def taken_def)
  qed
qed

lemma found_len:
  assumes "find_file_loop found trailer m cpio = Some (Some f)" "unat (it_limit cpio) < 2 ^ 63"
  shows "unat (it_len f) < 2 ^ 63"
  using find_file_loop_bounds [OF assms(1)] assms(2) by (auto simp: it_len_def unat_sub word_le_nat_alt)

lemma load_one_ok:
  assumes S: "hf_stage2 S" and ok: "load_ok S (carved before avail) h" and sh: "shrunk before avail" and sep: "separate before"
    and cpio: "unat (it_limit cpio) < 2 ^ 63" and ne: "vms h \<noteq> []"
    and run: "load_one S trailer raw names cpio i mvm avail h = Some (r, avail', h')"
  shows "shrunk before avail' \<and> load_ok S (carved before avail') h' \<and> vms h' \<noteq> []"
proof (cases "avail' = avail \<and> h' = h")
  case False
  let ?sz = "round_up (mem_size mvm) PAGE_SIZE"
  obtain kern q avail1 where f: "find_file_memiter trailer (mem h) cpio
        (MemIter_from_raw (names i) (of_nat (length (as_asciz (kernel_filename mvm))))) = Some (Some kern)"
    and c: "carve_out_mem_range ?sz avail = (q, avail1)"
    and rest: "(case q of Ok (b, e) \<Rightarrow> map_option (\<lambda>(r, h). (r, avail1, h)) (start_secondary S raw (mvm_vcpu_count mvm) kern b e h)
        | _ \<Rightarrow> Some (Ok (), avail1, h)) = Some (r, avail', h')"
    using run False
    by (auto simp: load_one_def Let_def split: if_splits option.splits prod.splits outcome.splits)
  have len: "unat (it_len kern) < 2 ^ 63"
    using found_len [OF f [unfolded find_file_memiter_def] cpio] .
  from carve_out_mem_range_spec [OF c sh] show ?thesis
  proof (elim disjE exE conjE)
    assume "q = Err ()" "avail1 = avail"
    then show ?thesis using rest False by simp
  next
    fix j b
    assume j: "j < length avail" "q = Ok (b, r_end (avail ! j))" "avail1 = avail[j := (avail ! j)\<lparr>r_end := b\<rparr>]"
      "unat (pa_addr b) + unat ?sz = unat (pa_addr (r_end (avail ! j)))" "unat (pa_addr (r_begin (avail ! j))) \<le> unat (pa_addr b)"
    have al: "4096 dvd unat (pa_addr b)"
      using shrunk_nth(5) [OF sh j(1)] dvd_round_up [of "mem_size mvm"] by (simp add: j(4) [symmetric] dvd_add_left_iff)
    have s: "start_secondary S raw (mvm_vcpu_count mvm) kern b (r_end (avail ! j)) h = Some (r, h')" "avail' = avail1"
      using rest j(2) by auto
    have le: "unat (pa_addr b) \<le> unat (pa_addr (r_end (avail ! j)))" using j(4) by simp
    show ?thesis
      using start_secondary_ok [OF S ok sh sep j(1) le j(5) al len refl s(1) ne] carve_steps(1) [OF sh j(1) le j(5) al] s(2) j(3)
      by simp
  qed
qed (use ok sh ne in simp)

lemma load_vms_ok:
  assumes S: "hf_stage2 S" and sep: "separate before" and cpio: "unat (it_limit cpio) < 2 ^ 63"
  shows "load_vms S trailer raw names cpio ms avail h = Some (r, avail', h') \<Longrightarrow> load_ok S (carved before avail) h \<Longrightarrow>
    shrunk before avail \<Longrightarrow> vms h \<noteq> [] \<Longrightarrow> shrunk before avail' \<and> load_ok S (carved before avail') h' \<and> vms h' \<noteq> []"
proof (induction ms arbitrary: avail h)
  case (Cons im ms)
  obtain i mvm where im: "im = (i, mvm)" by fastforce
  obtain q avail1 h1 where one: "load_one S trailer raw names cpio i mvm avail h = Some (q, avail1, h1)"
    using Cons.prems(1) by (auto simp: im split: option.splits)
  note o = load_one_ok [OF S Cons.prems(2,3) sep cpio Cons.prems(4) one]
  show ?case
  proof (cases "q = Ok ()")
    case True
    then show ?thesis using Cons.prems(1) Cons.IH [of avail1 h1] o by (simp add: im one)
  next
    case False
    then show ?thesis using Cons.prems(1) o by (cases q) (auto simp: im one)
  qed
qed simp

section \<open>The primary VM gets the rest\<close>

text \<open>The image of the hypervisor lies in memory that can be addressed.\<close>

definition layout_ok :: "layout \<Rightarrow> bool" where
  "layout_ok lay \<longleftrightarrow>
     (\<forall>b \<in> {text_begin lay, rodata_begin lay, data_begin lay}. unat (pa_addr b) < 2 ^ 48) \<and>
     (\<forall>e \<in> {text_end lay, rodata_end lay, data_end lay}. unat (pa_addr e) + 4095 < 2 ^ 64)"

lemma unmap_hypervisor_perm:
  assumes S: "hf_stage2 S" and wf: "wf_ptable S t" "env_ok env" and lay: "layout_ok lay"
    and run: "mm_vm_unmap_hypervisor S lay t env = (r, t', env')"
  shows "wf_ptable S t' \<and> env_ok env' \<and> (\<forall>x < space S. perm S t' x = perm S t x \<or> perm S t' x = (False, False, False))"
proof -
  have p: "pa_init (pa_addr q) = q" for q by (simp add: addr_defs)
  have step: "wf_ptable S t2 \<and> env_ok en2 \<and> (\<forall>x < space S. perm S t2 x = perm S t x \<or> perm S t2 x = (False, False, False))"
    if "wf_ptable S t1 \<and> env_ok en1 \<and> (\<forall>x < space S. perm S t1 x = perm S t x \<or> perm S t1 x = (False, False, False))"
      "PageTable_unmap S b e t1 en1 = (q, t2, en2)" "unat (pa_addr b) < 2 ^ 48" "unat (pa_addr e) + 4095 < 2 ^ 64"
    for t1 en1 b e q t2 en2
    using unmap_perm_pages [OF S _ _ that(3,4), unfolded p, OF _ _ that(2)] that(1) by auto
  obtain q1 t1 en1 where u1: "PageTable_unmap S (text_begin lay) (text_end lay) t env = (q1, t1, en1)" by (metis prod.exhaust)
  obtain q2 t2 en2 where u2: "PageTable_unmap S (rodata_begin lay) (rodata_end lay) t1 en1 = (q2, t2, en2)" by (metis prod.exhaust)
  obtain q3 t3 en3 where u3: "PageTable_unmap S (data_begin lay) (data_end lay) t2 en2 = (q3, t3, en3)" by (metis prod.exhaust)
  note s1 = step [OF _ u1]
  note s2 = step [OF s1 u2]
  note s3 = step [OF s2 u3]
  have "t' = t1 \<and> env' = en1 \<or> t' = t2 \<and> env' = en2 \<or> t' = t3 \<and> env' = en3"
    using run by (auto simp: mm_vm_unmap_hypervisor_def vm_unmap_hypervisor_def u1 u2 u3 split: outcome.splits)
  then show ?thesis using s1 s2 s3 wf lay by (auto simp: layout_ok_def)
qed

lemma setup_primary_ok:
  assumes S: "hf_stage2 S" and ok: "load_ok S taken h" and none: "vms h = []" and lay: "layout_ok lay"
    and run: "setup_primary S lay raw pb k h = (r, h')"
  shows "load_ok S taken h' \<and> (r = Ok () \<longrightarrow> vms h' \<noteq> [])"
proof -
  let ?m = "MODE_R OR MODE_W OR MODE_X"
  define e where "e = pa_init (1024 * 1024 * 1024 * 1024)"
  note run = run [unfolded setup_primary_def, folded e_def]
  have e: "unat (pa_addr e) + 4095 < 2 ^ 64" by (simp add: e_def)
  obtain q1 h1 where cr: "create_vm S raw (of_nat MAX_CPUS) h = (q1, h1)" by fastforce
  note c = create_vm_ok [OF S ok cr]
  show ?thesis
  proof (cases "\<exists>v. q1 = Ok (Some v)")
    case False
    then have "h' = h1" "r \<noteq> Ok ()" using run by (auto simp: cr split: outcome.splits option.splits)
    then show ?thesis using c(1) by simp
  next
    case True
    then have q1: "q1 = Ok (Some 0)" and l1: "length (vms h1) = Suc 0" using c(3) none by auto
    obtain q2 h2 where mp: "map_in_vm S 0 (pa_init 0) e ?m h1 = (q2, h2)" by fastforce
    have m: "load_ok S taken h2" "length (vms h2) = length (vms h1)"
      by (rule map_in_vm_ok [OF S c(1) _ _ _ full_mode _ _ mp]; use l1 e in simp)+
    obtain q3 t en where um: "mm_vm_unmap_hypervisor S lay (ptable_of h2 0) (henv h2) = (q3, t, en)" by (metis prod.exhaust)
    have u: "wf_ptable S t \<and> env_ok en \<and>
        (\<forall>x < space S. perm S t x = perm S (ptable_of h2 0) x \<or> perm S t x = (False, False, False))"
      by (rule unmap_hypervisor_perm [OF S _ _ lay um]) (use load_ok_parts [OF m(1)] m(2) l1 in auto)
    let ?h3 = "set_ptable 0 t (h2\<lparr>henv := en\<rparr>)"
    have h3: "load_ok S taken ?h3"
      by (rule load_ok_set_ptable [OF m(1)]) (use u m(2) l1 in auto)
    have "h' = h1 \<and> r \<noteq> Ok () \<or> h' = h2 \<and> r \<noteq> Ok () \<or> mem_frame ?h3 h'"
      using run by (auto simp: cr q1 mp um Let_def split: outcome.splits if_splits)
    moreover have "length (vms ?h3) = Suc 0" using m(2) l1 by simp
    ultimately show ?thesis
      using c(1) m(1) load_ok_frame [OF h3] by (metis length_0_conv mem_frame_def nat.distinct(1))
  qed
qed

lemma load_primary_ok:
  assumes S: "hf_stage2 S" and ok: "load_ok S taken h" and none: "vms h = []" and lay: "layout_ok lay"
    and pb: "unat (pa_addr pb) < 2 ^ 48" and cpio: "unat (it_limit cpio) < 2 ^ 63"
    and run: "load_primary S lit trailer lay raw pb cpio k h = Some (Ok initrd, h')"
  shows "load_ok S taken h' \<and> vms h' \<noteq> []"
proof -
  obtain it h1 where f: "find_file trailer (mem h) cpio (lit ''vmlinuz'') = Some (Some it)"
    and cp: "copy_to_unmapped pb it h = (Ok True, h1)" and su: "setup_primary S lay raw pb k h1 = (Ok (), h')"
    using run by (auto simp: load_primary_def split: option.splits outcome.splits prod.splits if_splits)
  note c = copy_to_unmapped_ok [OF ok pb found_len [OF f [unfolded find_file_def] cpio] cp]
  show ?thesis
    using setup_primary_ok [OF S c(1) _ lay su] c(2) none by simp
qed

section \<open>Memory ranges and reservations\<close>

text \<open>
  What the memory ranges of the boot parameters have to satisfy: they do not overlap, each holds the
  page of its last address when it is rounded down, and they are within the physical addresses.
\<close>

definition ranges_ok :: "mem_range list \<Rightarrow> bool" where
  "ranges_ok rs \<longleftrightarrow> separate rs \<and>
     (\<forall>r \<in> set rs. unat (pa_addr (r_begin r)) \<le> unat (pa_addr (r_end r)) div 4096 * 4096 \<and> unat (pa_addr (r_end r)) < 2 ^ 48)"

definition reserved :: "boot_params_update \<Rightarrow> nat \<Rightarrow> bool" where
  "reserved u x \<longleftrightarrow> (\<exists>r \<in> set (take (reserved_ranges_count u) (reserved_ranges u)). in_range r x)"

lemma round_range_end_simps:
  "r_begin (round_range_end r) = r_begin r" "unat (pa_addr (r_end (round_range_end r))) = unat (pa_addr (r_end r)) div 4096 * 4096"
proof -
  have "unat (a div 4096 * 4096) = unat a div 4096 * 4096" for a :: usize
  proof -
    have "unat (a div 4096) * unat (4096 :: usize) < 2 ^ LENGTH(64)"
      using unat_lt64 [of a] by (simp add: unat_div)
    then show ?thesis by (subst unat_mult_lem [THEN iffD1]) (simp_all add: unat_div)
  qed
  then show "unat (pa_addr (r_end (round_range_end r))) = unat (pa_addr (r_end r)) div 4096 * 4096"
    by (simp add: round_range_end_def round_down_def div_floor_def PAGE_SIZE_def PAGE_BITS_def)
qed (simp add: round_range_end_def)

lemma ranges_ok_start:
  assumes "ranges_ok rs"
  shows "separate (map round_range_end rs)" "shrunk (map round_range_end rs) (map round_range_end rs)"
    "\<not> carved (map round_range_end rs) (map round_range_end rs) x"
proof -
  have sub: "in_range (round_range_end r) x \<Longrightarrow> in_range r x" for r x
    using div_times_less_eq_dividend [of "unat (pa_addr (r_end r))" 4096]
    by (auto simp: in_range_def round_range_end_simps)
  show "separate (map round_range_end rs)"
    using assms sub unfolding ranges_ok_def separate_def by (metis length_map nth_map)
  have "unat (pa_addr (r_end r)) div 4096 * 4096 < 2 ^ 48" if "r \<in> set rs" for r
    using assms that div_times_less_eq_dividend [of "unat (pa_addr (r_end r))" 4096] by (fastforce simp: ranges_ok_def)
  then show "shrunk (map round_range_end rs) (map round_range_end rs)"
    using assms by (auto simp: shrunk_def list_all2_conv_all_nth round_range_end_simps ranges_ok_def)
  show "\<not> carved (map round_range_end rs) (map round_range_end rs) x"
    by (auto simp: carved_def)
qed

lemma reserve_if_spec:
  assumes "reserve_if cond b e u = Ok u'" "length (reserved_ranges u) = MAX_MEM_RANGES"
  shows "length (reserved_ranges u') = MAX_MEM_RANGES \<and>
    (\<forall>x. reserved u' x \<longleftrightarrow> reserved u x \<or> cond \<and> in_range \<lparr>r_begin = b, r_end = e\<rparr> x)"
proof (cases cond)
  case True
  then have c: "reserved_ranges_count u < length (reserved_ranges u)"
    and u': "u' = u\<lparr>reserved_ranges := (reserved_ranges u)[reserved_ranges_count u := \<lparr>r_begin = b, r_end = e\<rparr>],
                reserved_ranges_count := reserved_ranges_count u + 1\<rparr>"
    using assms by (auto simp: reserve_if_def reserve_range_def split: if_splits)
  have "take (reserved_ranges_count u + 1) ((reserved_ranges u)[reserved_ranges_count u := r])
      = take (reserved_ranges_count u) (reserved_ranges u) @ [r]" for r
    using c by (simp add: take_Suc_conv_app_nth)
  then show ?thesis using True assms(2) by (auto simp: u' reserved_def)
qed (use assms in \<open>simp add: reserve_if_def\<close>)

lemma reserve_differences_spec:
  "reserve_differences prs u = Ok u' \<Longrightarrow> length (reserved_ranges u) = MAX_MEM_RANGES \<Longrightarrow>
   (\<And>b a. (b, a) \<in> set prs \<Longrightarrow> r_begin a = r_begin b) \<Longrightarrow>
   reserved u' x \<longleftrightarrow> reserved u x \<or>
     (\<exists>(b, a) \<in> set prs. unat (pa_addr (r_end a)) \<le> x \<and> x < unat (pa_addr (r_end b)))"
proof (induction prs u rule: reserve_differences.induct)
  case (2 before after rs u)
  obtain u1 where u1: "reserve_if (pa_addr (r_begin after) > pa_addr (r_begin before)) (r_begin before) (r_begin after) u = Ok u1"
    using "2.prems"(1) by (auto split: outcome.splits)
  obtain u2 where u2: "reserve_if (pa_addr (r_end after) < pa_addr (r_end before)) (r_end after) (r_end before) u1 = Ok u2"
    and rest: "reserve_differences rs u2 = Ok u'"
    using "2.prems"(1) u1 by (auto split: outcome.splits)
  note s1 = reserve_if_spec [OF u1 "2.prems"(2)]
  note s2 = reserve_if_spec [OF u2 s1 [THEN conjunct1]]
  have "r_begin after = r_begin before" by (rule "2.prems"(3)) simp
  then have s: "reserved u2 x \<longleftrightarrow> reserved u x \<or> unat (pa_addr (r_end after)) \<le> x \<and> x < unat (pa_addr (r_end before))"
    using s1 s2 by (auto simp: in_range_def word_less_nat_alt)
  have ih: "reserved u' x \<longleftrightarrow> reserved u2 x \<or>
     (\<exists>(b, a) \<in> set rs. unat (pa_addr (r_end a)) \<le> x \<and> x < unat (pa_addr (r_end b)))"
    by (rule "2.IH" [OF u1 u2 rest s2 [THEN conjunct1]]) (rule "2.prems"(3), simp)
  show ?case unfolding ih s by auto
qed simp

lemma load_secondary_ok:
  assumes S: "hf_stage2 S" and ok: "load_ok S (\<lambda>_. False) h" and ne: "vms h \<noteq> []" and cpio: "unat (it_limit cpio) < 2 ^ 63"
    and rs: "rs = take (mem_ranges_count params) (mem_ranges params)" "ranges_ok rs"
    and u: "length (reserved_ranges u) = MAX_MEM_RANGES"
    and run: "load_secondary S trailer raw names manifest cpio params u h = Some (Ok u', h')"
  obtains avail where "shrunk (map round_range_end rs) avail" "load_ok S (carved (map round_range_end rs) avail) h'"
    "\<And>x. reserved u' x \<longleftrightarrow> reserved u x \<or>
       (\<exists>i < length rs. unat (pa_addr (r_end (avail ! i))) \<le> x \<and> x < unat (pa_addr (r_end (rs ! i))))"
proof -
  let ?before = "map round_range_end rs"
  note st = ranges_ok_start [OF rs(2)]
  obtain avail where lv: "load_vms S trailer raw names cpio (enumerate 0 manifest) ?before h = Some (Ok (), avail, h')"
    and up: "update_reserved_ranges u rs avail = Ok u'"
    using run by (auto simp: load_secondary_def Let_def rs(1) [symmetric] split: option.splits outcome.splits if_splits prod.splits)
  have ok0: "load_ok S (carved ?before ?before) h" by (rule load_ok_mono [OF ok]) simp
  have l: "shrunk ?before avail" "load_ok S (carved ?before avail) h'"
    using load_vms_ok [OF S st(1) cpio lv ok0 st(2) ne] by simp_all
  have len: "length avail = length rs" using shrunk_nth(1) [OF l(1)] by simp
  have beg: "r_begin a = r_begin b" if "(b, a) \<in> set (zip rs avail)" for b a
    using that shrunk_nth(2) [OF l(1)] len by (auto simp: in_set_zip round_range_end_simps)
  have "reserved u' x \<longleftrightarrow> reserved u x \<or> (\<exists>(b, a) \<in> set (zip rs avail). unat (pa_addr (r_end a)) \<le> x \<and> x < unat (pa_addr (r_end b)))" for x
    by (rule reserve_differences_spec [OF _ u beg]) (use up len in \<open>simp add: update_reserved_ranges_def\<close>)
  moreover have "(\<exists>(b, a) \<in> set (zip rs avail). P b a) \<longleftrightarrow> (\<exists>i < length rs. P (rs ! i) (avail ! i))" for P
    using len by (force simp: set_zip)
  ultimately show ?thesis using l by (intro that) simp_all
qed

text \<open>The state in which the loader starts.\<close>

lemma load_ok_init:
  assumes "env_ok (henv h)" "wf_ptable aarch64_stage1 (hyp_ptable h)" "vms h = []"
  shows "load_ok S taken h"
  using assms by (intro load_okI) simp_all

lemma carved_range:
  assumes "shrunk (map round_range_end rs) avail" "i < length rs" "unat (pa_addr (r_end (avail ! i))) \<le> x" "x < unat (pa_addr (r_end (rs ! i)))"
  shows "\<exists>r \<in> set rs. in_range r x"
proof -
  have "i < length avail" using shrunk_nth(1) [OF assms(1)] assms(2) by simp
  then have "in_range (rs ! i) x"
    using shrunk_nth(2,3) [OF assms(1)] assms(2-) by (force simp: in_range_def round_range_end_simps)
  then show ?thesis using assms(2) by (metis nth_mem)
qed

lemma load_all:
  assumes S: "hf_stage2 S" and init: "env_ok (henv h)" "wf_ptable aarch64_stage1 (hyp_ptable h)" "vms h = []"
    and lay: "layout_ok lay" and pb: "unat (pa_addr pb) < 2 ^ 48" and cpio: "unat (it_limit cpio) < 2 ^ 63"
    and rs: "rs = take (mem_ranges_count params) (mem_ranges params)" "ranges_ok rs"
    and p: "load_primary S lit trailer lay raw pb cpio k h = Some (Ok initrd, h1)"
    and s: "load_secondary S trailer raw names manifest cpio params (BootParamsUpdate_new b e) h1 = Some (Ok u, h2)"
  shows "hyp_ok S h2" "reserved u x \<Longrightarrow> \<exists>r \<in> set rs. in_range r x"
    "x < space S \<Longrightarrow> v < length (vms h2) \<Longrightarrow> v \<noteq> 0 \<Longrightarrow> has_access (perm S (ptable_of h2 v) x) \<Longrightarrow>
      reserved u x \<and> perm S (ptable_of h2 v) x = (True, True, True) \<and>
      (\<forall>w < length (vms h2). w \<noteq> v \<longrightarrow> perm S (ptable_of h2 w) x = (False, False, False))"
proof -
  let ?u = "BootParamsUpdate_new b e"
  have p1: "load_ok S (\<lambda>_. False) h1 \<and> vms h1 \<noteq> []"
    by (rule load_primary_ok [OF S load_ok_init [OF init] init(3) lay pb cpio p])
  have u: "length (reserved_ranges ?u) = MAX_MEM_RANGES" "\<not> reserved ?u x" for x
    by (simp_all add: BootParamsUpdate_new_def reserved_def)
  obtain avail where l: "shrunk (map round_range_end rs) avail" "load_ok S (carved (map round_range_end rs) avail) h2"
    "\<And>x. reserved u x \<longleftrightarrow> reserved ?u x \<or>
       (\<exists>i < length rs. unat (pa_addr (r_end (avail ! i))) \<le> x \<and> x < unat (pa_addr (r_end (rs ! i))))"
    using load_secondary_ok [OF S conjunct1 [OF p1] conjunct2 [OF p1] cpio rs u(1) s] by blast
  show "hyp_ok S h2" by (rule load_ok_hyp_ok [OF l(2)])
  show "reserved u x \<Longrightarrow> \<exists>r \<in> set rs. in_range r x"
    using carved_range [OF l(1)] l(3) [of x] u(2) by blast
  show "reserved u x \<and> perm S (ptable_of h2 v) x = (True, True, True) \<and>
      (\<forall>w < length (vms h2). w \<noteq> v \<longrightarrow> perm S (ptable_of h2 w) x = (False, False, False))"
    if x: "x < space S" "v < length (vms h2)" "v \<noteq> 0" "has_access (perm S (ptable_of h2 v) x)"
  proof -
    have "perm S (ptable_of h2 v) x \<noteq> (False, False, False)" using x(4) by (auto simp: has_access_def)
    then have so: "sole S (carved (map round_range_end rs) avail) h2 x v" by (rule load_okD [OF l(2) x(1,2)])
    then have "carved (map round_range_end rs) avail x" using x(3) by (simp add: sole_def)
    then obtain i where i: "i < length rs" "unat (pa_addr (r_end (avail ! i))) \<le> x" "x < unat (pa_addr (r_end (round_range_end (rs ! i))))"
      by (auto simp: carved_def)
    then have "x < unat (pa_addr (r_end (rs ! i)))"
      using div_times_less_eq_dividend [of "unat (pa_addr (r_end (rs ! i)))" 4096] by (simp add: round_range_end_simps)
    then have "reserved u x" using l(3) i by blast
    then show ?thesis using so by (simp add: sole_def)
  qed
qed

end
