(* ===== verification/Load_Props.thy ===== *)
theory Load_Props
  imports Load_Correct
begin

text \<open>
  What loading the VMs establishes (src/hfo2/src/load.rs), and an example in which a primary and a
  secondary VM are loaded from a RAM disk with three empty files.
\<close>

section \<open>An example\<close>

definition demo_cpio_entry :: "u8 \<Rightarrow> u8 list \<Rightarrow> u8 list" where
  "demo_cpio_entry n nm = replicate 20 0 @ [n, 0, 0, 0, 0, 0] @ nm"

definition demo_ramdisk :: "u8 list" where
  "demo_ramdisk = demo_cpio_entry 8 (cbytes ''vmlinuz'') @ demo_cpio_entry 11 (cbytes ''initrd.img'' @ [0])
     @ demo_cpio_entry 4 (cbytes ''vm2'')"

definition demo_memory :: "usize \<Rightarrow> u8" where
  "demo_memory = write_bytes 0x1000 demo_ramdisk (write_bytes 0x2000 [84, 10, 0] (\<lambda>_. 0))"

lemma demo_memory_headers:
  "read_u16 demo_memory 0x1014 = 8" "read_u16 demo_memory 0x1016 = 0" "read_u16 demo_memory 0x1018 = 0"
  "read_u16 demo_memory 0x1036 = 11" "read_u16 demo_memory 0x1038 = 0" "read_u16 demo_memory 0x103a = 0"
  "read_u16 demo_memory 0x105c = 4" "read_u16 demo_memory 0x105e = 0" "read_u16 demo_memory 0x1060 = 0"
  by (simp_all add: read_u16_def demo_memory_def write_bytes_def demo_ramdisk_def demo_cpio_entry_def cbytes_def nth_append)

lemma demo_memory_strings:
  "cstr_at demo_memory 0x101a (map of_char ''vmlinuz'')" "cstr_at demo_memory 0x103c (map of_char ''initrd.img'')"
  "cstr_at demo_memory 0x1062 (map of_char ''vm2'')" "cstr_at demo_memory 0x2000 [84, 10]"
  by (simp_all add: cstr_at_def demo_memory_def write_bytes_def demo_ramdisk_def demo_cpio_entry_def cbytes_def nth_append)

definition demo_cpio :: memiter where "demo_cpio = \<lparr>it_next = 0x1000, it_limit = 0x1066\<rparr>"

lemma demo_parses:
  "parse_cpio 0x2000 demo_memory demo_cpio =
     Some (Some \<lparr>name = 0x101a, cpio_contents = 0x1022, cpio_size = 0\<rparr>, demo_cpio\<lparr>it_next := 0x1022\<rparr>)"
  "parse_cpio 0x2000 demo_memory (demo_cpio\<lparr>it_next := 0x1022\<rparr>) =
     Some (Some \<lparr>name = 0x103c, cpio_contents = 0x1048, cpio_size = 0\<rparr>, demo_cpio\<lparr>it_next := 0x1048\<rparr>)"
  "parse_cpio 0x2000 demo_memory (demo_cpio\<lparr>it_next := 0x1048\<rparr>) =
     Some (Some \<lparr>name = 0x1062, cpio_contents = 0x1066, cpio_size = 0\<rparr>, demo_cpio\<lparr>it_next := 0x1066\<rparr>)"
proof -
  obtain c1 c2 c3 where c: "strcmp demo_memory 0x101a 0x2000 = Some c1" "c1 \<noteq> 0"
    "strcmp demo_memory 0x103c 0x2000 = Some c2" "c2 \<noteq> 0" "strcmp demo_memory 0x1062 0x2000 = Some c3" "c3 \<noteq> 0"
    using strcmp_cstr [OF demo_memory_strings(1) demo_memory_strings(4)] strcmp_cstr [OF demo_memory_strings(2) demo_memory_strings(4)]
      strcmp_cstr [OF demo_memory_strings(3) demo_memory_strings(4)] by auto
  note d = parse_cpio_def it_read_def advance_def size_of_CpioHeader_def demo_cpio_def Let_def
  show "parse_cpio 0x2000 demo_memory demo_cpio =
     Some (Some \<lparr>name = 0x101a, cpio_contents = 0x1022, cpio_size = 0\<rparr>, demo_cpio\<lparr>it_next := 0x1022\<rparr>)"
    using c by (simp add: d demo_memory_headers)
  show "parse_cpio 0x2000 demo_memory (demo_cpio\<lparr>it_next := 0x1022\<rparr>) =
     Some (Some \<lparr>name = 0x103c, cpio_contents = 0x1048, cpio_size = 0\<rparr>, demo_cpio\<lparr>it_next := 0x1048\<rparr>)"
    using c by (simp add: d demo_memory_headers)
  show "parse_cpio 0x2000 demo_memory (demo_cpio\<lparr>it_next := 0x1048\<rparr>) =
     Some (Some \<lparr>name = 0x1062, cpio_contents = 0x1066, cpio_size = 0\<rparr>, demo_cpio\<lparr>it_next := 0x1066\<rparr>)"
    using c by (simp add: d demo_memory_headers)
qed

text \<open>The names in the archive serve as literals.\<close>

definition demo_load_lit :: literals where
  "demo_load_lit s = (if s = ''vmlinuz'' then 0x101a else 0x103c)"

lemma demo_find_files:
  "find_file 0x2000 demo_memory demo_cpio 0x101a = Some (Some \<lparr>it_next = 0x1022, it_limit = 0x1022\<rparr>)"
  "find_file 0x2000 demo_memory demo_cpio 0x103c = Some (Some \<lparr>it_next = 0x1048, it_limit = 0x1048\<rparr>)"
  "find_file_memiter 0x2000 demo_memory demo_cpio (MemIter_from_raw 0x1062 3) = Some (Some \<lparr>it_next = 0x1066, it_limit = 0x1066\<rparr>)"
proof -
  note f = find_file_loop.simps [of _ "0x2000" demo_memory demo_cpio] find_file_loop.simps [of _ "0x2000" demo_memory "demo_cpio\<lparr>it_next := 0x1022\<rparr>"]
    find_file_loop.simps [of _ "0x2000" demo_memory "demo_cpio\<lparr>it_next := 0x1048\<rparr>"]
  note c = strcmp_cstr [OF demo_memory_strings(1) demo_memory_strings(1)]
    strcmp_cstr [OF demo_memory_strings(2) demo_memory_strings(1)] strcmp_cstr [OF demo_memory_strings(2) demo_memory_strings(2)]
  show "find_file 0x2000 demo_memory demo_cpio 0x101a = Some (Some \<lparr>it_next = 0x1022, it_limit = 0x1022\<rparr>)"
    using c(1) by (auto simp: find_file_def f demo_parses MemIter_from_raw_def)
  show "find_file 0x2000 demo_memory demo_cpio 0x103c = Some (Some \<lparr>it_next = 0x1048, it_limit = 0x1048\<rparr>)"
    using c(2,3) by (auto simp: find_file_def f demo_parses MemIter_from_raw_def)
  have n: "(4 :: nat) = Suc (Suc (Suc (Suc 0)))" by simp
  have len: "strnlen_loop demo_memory 0x101a 4 = 4" "strnlen_loop demo_memory 0x103c 4 = 4" "strnlen_loop demo_memory 0x1062 4 = 3"
    using demo_memory_strings by (subst n; simp add: cstr_at_def)+
  show "find_file_memiter 0x2000 demo_memory demo_cpio (MemIter_from_raw 0x1062 3) = Some (Some \<lparr>it_next = 0x1066, it_limit = 0x1066\<rparr>)"
  proof -
    let ?it = "MemIter_from_raw 0x1062 3"
    have "\<not> iseq demo_memory ?it 0x101a" "\<not> iseq demo_memory ?it 0x103c" "iseq demo_memory ?it 0x1062"
      using len by (simp_all add: iseq_def MemIter_from_raw_def strnlen_s_def Let_def memcmp_rs_0)
    then show ?thesis by (simp add: find_file_memiter_def f demo_parses) (simp add: MemIter_from_raw_def)
  qed
qed

definition demo_boot_pool :: "nat \<Rightarrow> mpool" where
  "demo_boot_pool n = MPool \<lparr>chunk_list = (if n = 0 then [(0x10000, 4)] else if n = 1 then [(0x12000, 2)] else []), entry_list = []\<rparr> None"

definition demo_boot_state :: hypervisor where
  "demo_boot_state =
     \<lparr>henv = \<lparr>mpool = demo_boot_pool 0, stage2_invalidate = False, trace = []\<rparr>, hyp_ptable = demo_hyp_ptable, cpus = [],
      vms = [], links = (\<lambda>e. \<lparr>next = e, prev = e\<rparr>), mem = demo_memory, msg_buffers = (\<lambda>_. 0),
      machine = \<lparr>cntvct = 0, cntfrq = 1, cntv_ctl = 0, cntv_cval = 0, MDCR_EL2 = 0, PMCR_EL0 = 0\<rparr>\<rparr>"

text \<open>States on the way: \<open>n\<close> VMs have been created, and no table has sub-tables.\<close>

definition demo_loading :: "nat \<Rightarrow> hypervisor \<Rightarrow> bool" where
  "demo_loading n h \<longleftrightarrow>
     wf_ptable aarch64_stage1 (hyp_ptable h) \<and> flat aarch64_stage1 (hyp_ptable h) \<and> env_ok (henv h) \<and>
     mpool (henv h) = demo_boot_pool n \<and> mem h = demo_memory \<and> length (vms h) = n \<and>
     (\<forall>v < n. wf_ptable demo_stage (ptable_of h v) \<and> flat demo_stage (ptable_of h v) \<and>
        vm_id (vm_at h v) = word_of_nat (v + 1) \<and> vcpus (vm_at h v) \<noteq> [] \<and> list_all (\<lambda>c. \<not> inner_lock c) (vcpus (vm_at h v)))"

lemma demo_loading_start: "demo_loading 0 demo_boot_state"
proof -
  have "flat aarch64_stage1 demo_hyp_ptable"
    by (simp add: flat_def demo_hyp_ptable_def list_all_iff aarch64_stage1_def is_table_def pte_absent_def arch_mm_absent_pte_def table_bits)
  moreover have "env_ok (henv demo_boot_state)"
    by (simp add: demo_boot_state_def demo_boot_pool_def env_ok_def pool_ok_def chunk_ok_def pool_pages_def chunk_pages_def
        upt_rec frame_at_def esize_0 PAGE_SIZE_def PAGE_BITS_def)
  ultimately show ?thesis
    using demo_hyp_ptable_wf by (simp add: demo_loading_def) (simp add: demo_boot_state_def)
qed

lemma demo_block_range:
  assumes "unat (pa_addr b) = j * 0x40000000" "unat (pa_addr e) = k * 0x40000000" "j < 4" "k \<le> 1024"
  shows "unat (pa_addr b) < space demo_stage" "unat (pa_addr b) < space aarch64_stage1" "unat (pa_addr e) \<le> 2 ^ 48"
    "unat (pa_addr b) < 2 ^ 48" "unat (pa_addr e) + 4095 < 2 ^ 64"
    "esize (max_level demo_stage) dvd unat (pa_addr b)" "esize (max_level demo_stage) dvd unat (pa_addr e)"
    "esize (max_level aarch64_stage1) dvd unat (pa_addr b)" "esize (max_level aarch64_stage1) dvd unat (pa_addr e)"
  using assms by (simp_all add: demo_space space_def esize_def aarch64_stage1_def)

lemma demo_copy:
  assumes "demo_loading n h" "it_len it = 0" "unat (pa_addr to) = k * 0x40000000" "k < 4"
  shows "\<exists>h'. copy_to_unmapped to it h = (Ok True, h') \<and> demo_loading n h'"
proof -
  have l: "wf_ptable aarch64_stage1 (hyp_ptable h)" "flat aarch64_stage1 (hyp_ptable h)" "env_ok (henv h)"
    using assms(1) by (simp_all add: demo_loading_def)
  have p: "pa_init (pa_addr q) = q" for q by (simp add: addr_defs)
  have to_end: "pa_add to (it_len it) = to" using assms(2) by (simp add: addr_defs)
  have k: "k \<le> 1024" using assms(4) by simp
  note r = demo_block_range [OF assms(3,3,4) k]
  have al: "is_block_allowed aarch64_stage1 (max_level aarch64_stage1)"
    by (simp add: aarch64_stage1_def arch_mm_is_block_allowed_def)
  obtain t1 en1 where m: "identity_map aarch64_stage1 to to MODE_W (hyp_ptable h) (henv h) = (Ok (), t1, en1)"
    "flat aarch64_stage1 t1" "mpool en1 = mpool (henv h)"
    using block_updates(1) [OF hf_stage1_hf l(1) r(2,3,8,9) al, of MODE_W "henv h"] l(2) by blast
  have w1: "wf_ptable aarch64_stage1 t1" "env_ok en1"
    using map_any [OF hf_stage1_hf l(1,3) r(4,5), unfolded p, OF m(1)] by simp_all
  obtain t2 en2 where u: "PageTable_unmap aarch64_stage1 to to t1 en1 = (Ok (), t2, en2)"
    "flat aarch64_stage1 t2" "mpool en2 = mpool (henv h)"
    using block_updates(2) [OF hf_stage1_hf w1(1) r(2,3,8,9), of en1] m(2,3) by auto
  have w2: "wf_ptable aarch64_stage1 t2" "env_ok en2"
    using unmap_any [OF hf_stage1_hf w1 r(4,5), unfolded p, OF u(1)] by simp_all
  have "copy_bytes (mem h) a b 0 (mem h) = mem h" for a b by (simp add: copy_bytes_def)
  then have "copy_to_unmapped to it h = (Ok True, h\<lparr>hyp_ptable := t2, henv := en2\<rparr>)"
    using to_end by (simp add: copy_to_unmapped_def Let_def m u assms(2) hyp_writable_def)
  moreover have "demo_loading n (h\<lparr>hyp_ptable := t2, henv := en2\<rparr>)"
    using assms(1) w2 u by (simp add: demo_loading_def ptable_of_def vm_at_def)
  ultimately show ?thesis by blast
qed

lemma demo_loading_set_ptable:
  assumes "demo_loading n h" "wf_ptable demo_stage t" "flat demo_stage t" "env_ok en" "mpool en = mpool (henv h)" "v < n"
  shows "demo_loading n (set_ptable v t (h\<lparr>henv := en\<rparr>))"
proof -
  have "vcpus (vm_at (set_ptable v t (h\<lparr>henv := en\<rparr>)) u) = vcpus (vm_at h u)" for u
    by (simp add: set_ptable_def update_inner_def vm_at_update)
  moreover have "mem (set_ptable v t (h\<lparr>henv := en\<rparr>)) = mem h" by (simp add: set_ptable_def update_inner_def)
  moreover have "v < length (vms h)" using assms by (simp add: demo_loading_def)
  ultimately show ?thesis using assms by (simp add: demo_loading_def)
qed

lemma demo_update_vm:
  assumes "demo_loading n h" "v < n" "unat (pa_addr b) = j * 0x40000000" "unat (pa_addr e) = k * 0x40000000" "j < 4" "k \<le> 1024"
  shows "\<exists>h'. map_in_vm demo_stage v b e m h = (Ok (), h') \<and> demo_loading n h' \<and>
      (\<forall>x < space demo_stage. in_pages b e x \<longrightarrow> perm demo_stage (ptable_of h' v) x = mode_perm m)"
    "\<exists>t en. PageTable_unmap demo_stage b e (ptable_of h v) (henv h) = (Ok (), t, en) \<and> demo_loading n (set_ptable v t (h\<lparr>henv := en\<rparr>))
      \<and> wf_ptable demo_stage t \<and> flat demo_stage t \<and> env_ok en \<and> mpool en = mpool (henv h)"
proof -
  have l: "wf_ptable demo_stage (ptable_of h v)" "flat demo_stage (ptable_of h v)" "env_ok (henv h)" "v < length (vms h)"
    using assms(1,2) by (simp_all add: demo_loading_def)
  have p: "pa_init (pa_addr q) = q" for q by (simp add: addr_defs)
  note r = demo_block_range [OF assms(3-)]
  obtain t1 en1 where m: "identity_map demo_stage b e m (ptable_of h v) (henv h) = (Ok (), t1, en1)"
    "flat demo_stage t1" "mpool en1 = mpool (henv h)"
    using block_updates(1) [OF demo_stage_hf l(1) r(1,3,6,7), of m "henv h"] l(2) by (auto simp: arch_mm_is_block_allowed_def)
  note pm = map_perm_pages [OF demo_hf_stage2 l(1,3) r(4,5), unfolded p, OF m(1)]
  show "\<exists>h'. map_in_vm demo_stage v b e m h = (Ok (), h') \<and> demo_loading n h' \<and>
      (\<forall>x < space demo_stage. in_pages b e x \<longrightarrow> perm demo_stage (ptable_of h' v) x = mode_perm m)"
    using pm m demo_loading_set_ptable [OF assms(1) _ m(2) _ m(3) assms(2)] l(4)
    by (intro exI [of _ "set_ptable v t1 (h\<lparr>henv := en1\<rparr>)"]) (simp add: map_in_vm_def)
  obtain t2 en2 where u: "PageTable_unmap demo_stage b e (ptable_of h v) (henv h) = (Ok (), t2, en2)"
    "flat demo_stage t2" "mpool en2 = mpool (henv h)"
    using block_updates(2) [OF demo_stage_hf l(1) r(1,3,6,7), of "henv h"] l(2) by auto
  note pu = unmap_any [OF demo_stage_hf l(1,3) r(4,5), unfolded p, OF u(1)]
  show "\<exists>t en. PageTable_unmap demo_stage b e (ptable_of h v) (henv h) = (Ok (), t, en) \<and> demo_loading n (set_ptable v t (h\<lparr>henv := en\<rparr>))
      \<and> wf_ptable demo_stage t \<and> flat demo_stage t \<and> env_ok en \<and> mpool en = mpool (henv h)"
    using u pu demo_loading_set_ptable [OF assms(1) _ u(2) _ u(3) assms(2)] by blast
qed

lemma demo_create:
  assumes l: "demo_loading n h" and n: "n < 2" and k: "k \<noteq> 0"
  shows "\<exists>h'. create_vm demo_stage raw k h = (Ok (Some n), h') \<and> demo_loading (Suc n) h'"
proof -
  let ?en = "(henv h)\<lparr>mpool := demo_boot_pool (Suc n)\<rparr>"
  define s :: usize where "s = (if n = 0 then 0x10000 else 0x12000)"
  define t where "t = demo_table\<lparr>root := pa_init s\<rparr>"
  have pool: "mpool (henv h) = demo_boot_pool n" "length (vms h) = n" using l by (simp_all add: demo_loading_def)
  have "MPool_alloc_pages (demo_boot_pool n) 2 2 = (Ok (s, 2), demo_boot_pool (Suc n))"
    using n by (auto simp: s_def demo_boot_pool_def Pool_alloc_pages_def chunk_fits_def round_up_def div_ceil_def PAGE_SIZE_def PAGE_BITS_def Let_def)
  then have new: "PageTable_new demo_stage (henv h) = (Ok t, ?en)"
    using pool by (simp add: PageTable_new_def demo_table_def t_def PTE_PER_PAGE_eq)
  note spec = mm_stage.PageTable_new_spec [OF hf_stage_mm [OF demo_stage_hf] _ new]
  have ok: "env_ok (henv h)" using l by (simp add: demo_loading_def)
  obtain mb ls where mb: "Mailbox_init n (links h) = (mb, ls)" by fastforce
  define w where "w = raw\<lparr>vm_id := word_of_nat (n + 1), vcpus := replicate (unat k) VCpu_new,
      aborting := False, vm_inner := (vm_inner raw)\<lparr>mailbox := mb, vm_ptable := t\<rparr>\<rparr>"
  define h' where "h' = h\<lparr>vms := vms h @ [w], links := init_entries n ls, henv := ?en\<rparr>"
  have cr: "create_vm demo_stage raw k h = (Ok (Some n), h')"
    using pool n new mb
    by (simp add: create_vm_def new_vm_def Vm_init_def VmInner_init_def mm_vm_init_def ok_flag_def MAX_VMS_def HF_VM_ID_OFFSET_def h'_def w_def)
  have at: "vm_at h' v = (if v < n then vm_at h v else w)" if "v < Suc n" for v
    using that by (auto simp: vm_at_def h'_def nth_append pool(2) less_Suc_eq)
  have "flat demo_stage t" by (simp add: t_def flat_def demo_table_def list_all_iff demo_absent)
  moreover have "0 < unat k" using k by (simp add: unat_gt_0)
  moreover have "length (vms h') = Suc n" "mem h' = mem h" "hyp_ptable h' = hyp_ptable h" "henv h' = ?en"
    by (simp_all add: h'_def pool(2))
  ultimately have "demo_loading (Suc n) h'"
    using l spec [OF ok] at unfolding demo_loading_def
    by (auto simp: less_Suc_eq ptable_of_def list_all_iff VCpu_new_def w_def)
  with cr show ?thesis by blast
qed

definition demo_layout :: layout where
  "demo_layout = \<lparr>text_begin = pa_init 0, text_end = pa_init 0, rodata_begin = pa_init 0, rodata_end = pa_init 0,
     data_begin = pa_init 0, data_end = pa_init 0\<rparr>"

lemma demo_unmap_hypervisor:
  assumes "demo_loading n h" "0 < n"
  shows "\<exists>t en. mm_vm_unmap_hypervisor demo_stage demo_layout (ptable_of h 0) (henv h) = (Ok True, t, en)
    \<and> demo_loading n (set_ptable 0 t (h\<lparr>henv := en\<rparr>))"
proof -
  have z: "unat (pa_addr (pa_init 0)) = 0 * 0x40000000" by simp
  have step: "\<exists>t' en'. PageTable_unmap demo_stage (pa_init 0) (pa_init 0) t en = (Ok (), t', en') \<and> demo_loading n (set_ptable 0 t' (h\<lparr>henv := en'\<rparr>))"
    if "demo_loading n (set_ptable 0 t (h\<lparr>henv := en\<rparr>))" for t en
  proof -
    have "0 < length (vms h)" using assms by (simp add: demo_loading_def)
    moreover have "set_ptable 0 t' (set_ptable 0 t (h\<lparr>henv := en\<rparr>)\<lparr>henv := en'\<rparr>) = set_ptable 0 t' (h\<lparr>henv := en'\<rparr>)" for t' en'
      by (cases "vms h") (simp_all add: set_ptable_def update_inner_def update_vm_def)
    ultimately show ?thesis
      using demo_update_vm(2) [OF that assms(2) z z] by auto
  qed
  have "demo_loading n (set_ptable 0 (ptable_of h 0) (h\<lparr>henv := henv h\<rparr>))"
    using assms by (intro demo_loading_set_ptable) (simp_all add: demo_loading_def)
  from step [OF this] obtain t1 en1 where 1: "PageTable_unmap demo_stage (pa_init 0) (pa_init 0) (ptable_of h 0) (henv h) = (Ok (), t1, en1)"
    "demo_loading n (set_ptable 0 t1 (h\<lparr>henv := en1\<rparr>))" by auto
  from step [OF 1(2)] obtain t2 en2 where 2: "PageTable_unmap demo_stage (pa_init 0) (pa_init 0) t1 en1 = (Ok (), t2, en2)"
    "demo_loading n (set_ptable 0 t2 (h\<lparr>henv := en2\<rparr>))" by auto
  from step [OF 2(2)] obtain t3 en3 where 3: "PageTable_unmap demo_stage (pa_init 0) (pa_init 0) t2 en2 = (Ok (), t3, en3)"
    "demo_loading n (set_ptable 0 t3 (h\<lparr>henv := en3\<rparr>))" by auto
  show ?thesis
    using 1(1) 2(1) 3 by (simp add: mm_vm_unmap_hypervisor_def vm_unmap_hypervisor_def demo_layout_def ok_flag_def)
qed

lemma demo_loading_vcpu:
  assumes "demo_loading n h" "\<And>c. inner_lock (f c) = inner_lock c"
  shows "demo_loading n (update_vcpu c f h)"
proof -
  have "vm_at (update_vcpu c f h) v = (if v = fst c \<and> fst c < length (vms h)
      then (vm_at h v)\<lparr>vcpus := (vcpus (vm_at h v))[snd c := f (vcpus (vm_at h v) ! snd c)]\<rparr> else vm_at h v)" for v
    by (auto simp: update_vcpu_def vm_at_update)
  moreover have "\<forall>x \<in> set (xs[i := f (xs ! i)]). \<not> inner_lock x" if "\<forall>x \<in> set xs. \<not> inner_lock x" for xs i
  proof (cases "i < length xs")
    case True
    then show ?thesis using that assms(2) by (auto dest!: set_update_subset_insert [THEN subsetD])
  qed (use that in \<open>simp add: list_update_beyond\<close>)
  moreover have "mem (update_vcpu c f h) = mem h" "henv (update_vcpu c f h) = henv h" "hyp_ptable (update_vcpu c f h) = hyp_ptable h"
    "length (vms (update_vcpu c f h)) = length (vms h)" by (simp_all add: update_vcpu_def)
  ultimately show ?thesis
    using assms(1) by (auto simp: demo_loading_def ptable_of_def list_all_iff)
qed

lemma demo_load_primary:
  "\<exists>h'. load_primary demo_stage demo_load_lit 0x2000 demo_layout raw (pa_init 0x80000000) demo_cpio k demo_boot_state
      = Some (Ok \<lparr>it_next = 0x1048, it_limit = 0x1048\<rparr>, h') \<and> demo_loading 1 h'"
proof -
  obtain h1 where 1: "copy_to_unmapped (pa_init 0x80000000) \<lparr>it_next = 0x1022, it_limit = 0x1022\<rparr> demo_boot_state = (Ok True, h1)" "demo_loading 0 h1"
    using demo_copy [OF demo_loading_start, of "\<lparr>it_next = 0x1022, it_limit = 0x1022\<rparr>" "pa_init 0x80000000" 2] by (auto simp: it_len_def)
  obtain h2 where 2: "create_vm demo_stage raw (of_nat MAX_CPUS) h1 = (Ok (Some 0), h2)" "demo_loading 1 h2"
    using demo_create [OF 1(2), of "of_nat MAX_CPUS" raw] by (auto simp: MAX_CPUS_def)
  obtain h3 where 3: "map_in_vm demo_stage 0 (pa_init 0) (pa_init (1024 * 1024 * 1024 * 1024)) (MODE_R OR MODE_W OR MODE_X) h2 = (Ok (), h3)" "demo_loading 1 h3"
    using demo_update_vm(1) [OF 2(2), of 0 "pa_init 0" 0 "pa_init (1024 * 1024 * 1024 * 1024)" 1024] by auto
  obtain t en where 4: "mm_vm_unmap_hypervisor demo_stage demo_layout (ptable_of h3 0) (henv h3) = (Ok True, t, en)"
    "demo_loading 1 (set_ptable 0 t (h3\<lparr>henv := en\<rparr>))"
    using demo_unmap_hypervisor [OF 3(2)] by auto
  let ?h = "update_vcpu_inner (0, 0) (VCpuInner_on (ipa_from_pa (pa_init 0x80000000)) k) (set_ptable 0 t (h3\<lparr>henv := en\<rparr>))"
  have "vm_id (vm_at h2 0) = HF_PRIMARY_VM_ID" "mem h1 = demo_memory" "mem demo_boot_state = demo_memory"
    using 1(2) 2(2) by (simp_all add: demo_loading_def HF_PRIMARY_VM_ID_def HF_VM_ID_OFFSET_def demo_boot_state_def)
  then have "load_primary demo_stage demo_load_lit 0x2000 demo_layout raw (pa_init 0x80000000) demo_cpio k demo_boot_state
      = Some (Ok \<lparr>it_next = 0x1048, it_limit = 0x1048\<rparr>, ?h)"
    unfolding load_primary_def setup_primary_def using 1 2 3 4 by (simp add: demo_load_lit_def demo_find_files Let_def)
  moreover have "demo_loading 1 ?h"
    unfolding update_vcpu_inner_def by (rule demo_loading_vcpu [OF 4(2)]) simp
  ultimately show ?thesis by blast
qed

definition demo_params :: boot_params where
  "demo_params = \<lparr>cpu_ids = [], mem_ranges = [\<lparr>r_begin = pa_init 0x40000000, r_end = pa_init 0x80000000\<rparr>], mem_ranges_count = 1,
     initrd_begin = pa_init 0x1000, initrd_end = pa_init 0x1066, kernel_arg = 0\<rparr>"

definition demo_vms_manifest :: "manifest_vm list" where
  "demo_vms_manifest =
     [\<lparr>debug_name = cbytes ''p'', kernel_filename = [0], mem_size = 0, mvm_vcpu_count = 0\<rparr>,
      \<lparr>debug_name = cbytes ''s'', kernel_filename = cbytes ''vm2'', mem_size = 0x40000000, mvm_vcpu_count = 1\<rparr>]"

lemma demo_start_secondary:
  assumes "demo_loading 1 h"
  shows "\<exists>h'. start_secondary demo_stage raw 1 \<lparr>it_next = 0x1066, it_limit = 0x1066\<rparr> (pa_init 0x40000000) (pa_init 0x80000000) h = Some (Ok (), h')
    \<and> length (vms h') = 2 \<and> perm demo_stage (ptable_of h' 1) 0x40001000 = (True, True, True)"
proof -
  obtain h1 where 1: "copy_to_unmapped (pa_init 0x40000000) \<lparr>it_next = 0x1066, it_limit = 0x1066\<rparr> h = (Ok True, h1)" "demo_loading 1 h1"
    using demo_copy [OF assms, of "\<lparr>it_next = 0x1066, it_limit = 0x1066\<rparr>" "pa_init 0x40000000" 1] by (auto simp: it_len_def)
  obtain t en where 2: "PageTable_unmap demo_stage (pa_init 0x40000000) (pa_init 0x80000000) (ptable_of h1 0) (henv h1) = (Ok (), t, en)"
      "demo_loading 1 (set_ptable 0 t (h1\<lparr>henv := en\<rparr>))"
    using demo_update_vm(2) [OF 1(2), of 0 "pa_init 0x40000000" 1 "pa_init 0x80000000" 2] by auto
  let ?h2 = "set_ptable 0 t (h1\<lparr>henv := en\<rparr>)"
  obtain h3 where 3: "create_vm demo_stage raw 1 ?h2 = (Ok (Some 1), h3)" "demo_loading 2 h3"
    using demo_create [OF 2(2), of 1 raw] by (auto simp: numeral_2_eq_2)
  obtain h4 where 4: "map_in_vm demo_stage 1 (pa_init 0x40000000) (pa_init 0x80000000) (MODE_R OR MODE_W OR MODE_X) h3 = (Ok (), h4)" "demo_loading 2 h4"
      "\<forall>x < space demo_stage. in_pages (pa_init 0x40000000) (pa_init 0x80000000) x \<longrightarrow> perm demo_stage (ptable_of h4 1) x = (True, True, True)"
    using demo_update_vm(1) [OF 3(2), of 1 "pa_init 0x40000000" 1 "pa_init 0x80000000" 2 "MODE_R OR MODE_W OR MODE_X"] full_mode by auto
  have v: "vcpus (vm_at h4 1) \<noteq> []" "vm_id (vm_at h4 1) = 2" "list_all (\<lambda>c. \<not> inner_lock c) (vcpus (vm_at h4 1))" "length (vms h4) = 2"
    using 4(2) by (simp_all add: demo_loading_def)
  then have "\<not> inner_lock (vcpu_at h4 (1, 0))" by (cases "vcpus (vm_at h4 1)") (simp_all add: vcpu_at_def)
  then have "\<exists>b h5. vcpu_secondary_reset_and_start (1, 0) (ipa_from_pa (pa_init 0x40000000)) (pa_difference (pa_init 0x40000000) (pa_init 0x80000000)) h4 = Some (Ok b, h5)"
    using v(2) by (cases "is_off (vc_inner (vcpu_at h4 (1, 0)))")
      (auto simp: vcpu_secondary_reset_and_start_def Let_def vcpu_lock_def vcpu_index_def HF_PRIMARY_VM_ID_def HF_VM_ID_OFFSET_def)
  then obtain b h5 where 5: "vcpu_secondary_reset_and_start (1, 0) (ipa_from_pa (pa_init 0x40000000))
      (pa_difference (pa_init 0x40000000) (pa_init 0x80000000)) h4 = Some (Ok b, h5)" by blast
  note fr = reset_frame [OF 5]
  have "vms h1 \<noteq> []" using 1(2) by (auto simp: demo_loading_def)
  then have "start_secondary demo_stage raw 1 \<lparr>it_next = 0x1066, it_limit = 0x1066\<rparr> (pa_init 0x40000000) (pa_init 0x80000000) h = Some (Ok (), h5)"
    using 1 2 3 4 5 v(1) by (simp add: start_secondary_def unmap_in_vm_def get_primary_def)
  moreover have "perm demo_stage (ptable_of h4 1) 0x40001000 = (True, True, True)"
    using 4(3) by (simp add: demo_space in_pages_def)
  ultimately show ?thesis using fr v(4) by (auto simp: mem_frame_def)
qed

lemma demo_load_secondary:
  assumes "demo_loading 1 h"
  shows "\<exists>u h'. load_secondary demo_stage 0x2000 raw (\<lambda>_. 0x1062) demo_vms_manifest demo_cpio demo_params (BootParamsUpdate_new b e) h = Some (Ok u, h')
    \<and> length (vms h') = 2 \<and> perm demo_stage (ptable_of h' 1) 0x40001000 = (True, True, True)"
proof -
  obtain h' where st: "start_secondary demo_stage raw 1 \<lparr>it_next = 0x1066, it_limit = 0x1066\<rparr> (pa_init 0x40000000) (pa_init 0x80000000) h = Some (Ok (), h')"
    and h': "length (vms h') = 2" "perm demo_stage (ptable_of h' 1) 0x40001000 = (True, True, True)"
    using demo_start_secondary [OF assms] by blast
  let ?r = "\<lparr>r_begin = pa_init 0x40000000, r_end = pa_init 0x80000000\<rparr>"
  have r: "round_range_end ?r = ?r"
    by (simp add: round_range_end_def round_down_def div_floor_def PAGE_SIZE_def PAGE_BITS_def)
  have m: "mem h = demo_memory" using assms by (simp add: demo_loading_def)
  have up: "round_up 0x40000000 PAGE_SIZE = 0x40000000"
    by (simp add: round_up_def div_ceil_def PAGE_SIZE_def PAGE_BITS_def)
  have one: "load_one demo_stage 0x2000 raw (\<lambda>_. 0x1062) demo_cpio 1 (demo_vms_manifest ! 1) [?r] h = Some (Ok (), [?r\<lparr>r_end := pa_init 0x40000000\<rparr>], h')"
    using demo_find_files(3) st m
    by (simp add: load_one_def demo_vms_manifest_def HF_VM_ID_OFFSET_def HF_PRIMARY_VM_ID_def Let_def as_asciz_def cbytes_def
        up it_len_def pa_difference_def)
  have "\<exists>u. update_reserved_ranges (BootParamsUpdate_new b e) [?r] [?r\<lparr>r_end := pa_init 0x40000000\<rparr>] = Ok u"
    by (simp add: update_reserved_ranges_def reserve_if_def reserve_range_def BootParamsUpdate_new_def MAX_MEM_RANGES_def)
  then show ?thesis
    using one h' r
    by (auto simp: load_secondary_def demo_params_def demo_vms_manifest_def load_one_def HF_VM_ID_OFFSET_def HF_PRIMARY_VM_ID_def Let_def)
qed

lemma demo_boot_facts:
  "env_ok (henv demo_boot_state)" "wf_ptable aarch64_stage1 (hyp_ptable demo_boot_state)" "vms demo_boot_state = []"
  "layout_ok demo_layout" "unat (it_limit demo_cpio) < 2 ^ 63"
  "ranges_ok (take (mem_ranges_count demo_params) (mem_ranges demo_params))"
  using demo_loading_start
  by (simp_all add: demo_loading_def layout_ok_def demo_layout_def demo_cpio_def ranges_ok_def separate_def demo_params_def in_range_def)

section \<open>Properties\<close>

text \<open>
  C3. Isolation holds from the start. When the loader has loaded the primary VM and the secondary VMs
  of the manifest, from a state with no VM and on memory ranges that do not overlap, the invariant
  of the hypervisor holds, so the memory of the VMs is isolated in every state that calls and guests
  reach from there. (\<open>reduce_law\<close> is the documented behaviour of the crate \<open>reduce\<close>.)
\<close>

theorem boot_isolation:
  assumes "hf_stage2 S" "reduce_law red" "env_ok (henv h)" "wf_ptable aarch64_stage1 (hyp_ptable h)" "vms h = []"
    and "layout_ok lay" "unat (pa_addr primary_begin) < 2 ^ 48" "unat (it_limit cpio) < 2 ^ 63"
    and "ranges_ok (take (mem_ranges_count params) (mem_ranges params))"
    and "load_primary S lit trailer lay raw primary_begin cpio k_arg h = Some (Ok initrd, h1)"
    and "load_secondary S trailer raw names manifest cpio params (BootParamsUpdate_new b e) h1 = Some (Ok update, h2)"
    and "(hyp_step S red)\<^sup>*\<^sup>* h2 h3"
  shows "hyp_ok S h2 \<and> isolated S h3"
proof -
  have ok: "hyp_ok S h2" by (rule load_all(1) [OF assms(1,3-8) refl assms(9-11)])
  then have "hyp_ok S h3" using hyp_steps_ok [OF assms(12,1,2)] by blast
  with ok show ?thesis by (simp add: hyp_ok_def)
qed

theorem boot_isolation_witness:
  "\<exists>h1 h2 update. load_primary demo_stage demo_load_lit 0x2000 demo_layout (demo_vm 0 demo_table) (pa_init 0x80000000) demo_cpio 0 demo_boot_state
       = Some (Ok \<lparr>it_next = 0x1048, it_limit = 0x1048\<rparr>, h1)
     \<and> load_secondary demo_stage 0x2000 (demo_vm 0 demo_table) (\<lambda>_. 0x1062) demo_vms_manifest demo_cpio demo_params
         (BootParamsUpdate_new (pa_init 0x1048) (pa_init 0x1048)) h1 = Some (Ok update, h2)
     \<and> length (vms h2) = 2 \<and> isolated demo_stage h2"
proof -
  obtain h1 where 1: "load_primary demo_stage demo_load_lit 0x2000 demo_layout (demo_vm 0 demo_table) (pa_init 0x80000000) demo_cpio 0 demo_boot_state
       = Some (Ok \<lparr>it_next = 0x1048, it_limit = 0x1048\<rparr>, h1)" "demo_loading 1 h1"
    using demo_load_primary by blast
  obtain update h2 where 2: "load_secondary demo_stage 0x2000 (demo_vm 0 demo_table) (\<lambda>_. 0x1062) demo_vms_manifest demo_cpio demo_params
         (BootParamsUpdate_new (pa_init 0x1048) (pa_init 0x1048)) h1 = Some (Ok update, h2)" "length (vms h2) = 2"
    using demo_load_secondary [OF 1(2)] by blast
  from boot_isolation [OF demo_hf_stage2 demo_reduce_law demo_boot_facts(1-4) _ demo_boot_facts(5,6) 1(1) 2(1) rtranclp.rtrancl_refl]
  have "isolated demo_stage h2" by simp
  with 1(1) 2 show ?thesis by blast
qed

text \<open>
  C10. The memory of the secondary VMs is reserved. After loading, every address that a secondary VM
  can access is in one of the reserved ranges that are written to the device tree of the primary
  VM, and neither the primary VM nor another VM has any right to it; only memory of the ranges of the
  boot parameters is reserved.
\<close>

theorem secondary_memory_reserved:
  assumes "hf_stage2 S" "env_ok (henv h)" "wf_ptable aarch64_stage1 (hyp_ptable h)" "vms h = []"
    and "layout_ok lay" "unat (pa_addr primary_begin) < 2 ^ 48" "unat (it_limit cpio) < 2 ^ 63"
    and "ranges_ok (take (mem_ranges_count params) (mem_ranges params))"
    and "load_primary S lit trailer lay raw primary_begin cpio k_arg h = Some (Ok initrd, h1)"
    and "load_secondary S trailer raw names manifest cpio params (BootParamsUpdate_new b e) h1 = Some (Ok update, h2)"
  shows "(\<forall>v x. 0 < v \<and> v < length (vms h2) \<and> x < space S \<and> has_access (perm S (ptable_of h2 v) x) \<longrightarrow>
       reserved update x \<and> (\<forall>w. w < length (vms h2) \<and> w \<noteq> v \<longrightarrow>
         \<not> has_access (perm S (ptable_of h2 w) x) \<and> \<not> owns (perm S (ptable_of h2 w) x)))
    \<and> (\<forall>x. reserved update x \<longrightarrow> (\<exists>r \<in> set (take (mem_ranges_count params) (mem_ranges params)). in_range r x))"
  using load_all(2,3) [OF assms(1-7) refl assms(8-10)] by (auto simp: has_access_def owns_def)

theorem secondary_memory_reserved_witness:
  "\<exists>h1 h2 update. load_secondary demo_stage 0x2000 (demo_vm 0 demo_table) (\<lambda>_. 0x1062) demo_vms_manifest demo_cpio demo_params
       (BootParamsUpdate_new (pa_init 0x1048) (pa_init 0x1048)) h1 = Some (Ok update, h2)
     \<and> has_access (perm demo_stage (ptable_of h2 1) 0x40001000) \<and> reserved update 0x40001000
     \<and> \<not> has_access (perm demo_stage (ptable_of h2 0) 0x40001000)"
proof -
  obtain h1 where 1: "load_primary demo_stage demo_load_lit 0x2000 demo_layout (demo_vm 0 demo_table) (pa_init 0x80000000) demo_cpio 0 demo_boot_state
       = Some (Ok \<lparr>it_next = 0x1048, it_limit = 0x1048\<rparr>, h1)" "demo_loading 1 h1"
    using demo_load_primary by blast
  obtain update h2 where 2: "load_secondary demo_stage 0x2000 (demo_vm 0 demo_table) (\<lambda>_. 0x1062) demo_vms_manifest demo_cpio demo_params
         (BootParamsUpdate_new (pa_init 0x1048) (pa_init 0x1048)) h1 = Some (Ok update, h2)" "length (vms h2) = 2"
       "perm demo_stage (ptable_of h2 1) 0x40001000 = (True, True, True)"
    using demo_load_secondary [OF 1(2)] by blast
  have acc: "has_access (perm demo_stage (ptable_of h2 1) 0x40001000)" by (simp only: 2(3)) (simp add: has_access_def)
  note res = secondary_memory_reserved [OF demo_hf_stage2 demo_boot_facts(1-4) _ demo_boot_facts(5,6) 1(1) 2(1)]
  have "reserved update 0x40001000 \<and> \<not> has_access (perm demo_stage (ptable_of h2 0) 0x40001000)"
    using res [THEN conjunct1, THEN spec [of _ 1], THEN spec [of _ "0x40001000"]] acc 2(2) by (simp add: demo_space)
  with acc 2(1) show ?thesis by blast
qed

end
