(* ===== verification/Api.thy ===== *)
theory Api
  imports Calls
begin

text \<open>
  The C interface of the hypervisor (src/hfo2/src/api.rs), as the exception handlers call it.

  The pointer \<open>next\<close> of an entry point is an argument and a component of the result; \<open>None\<close> is the null
  pointer. Return codes are \<open>int\<close>. An entry point takes the vCPU that made the call as
  \<open>VCpuExecutionLocked\<close> and does not drop it, so its lock stays as it is.
\<close>

section \<open>Out parameters\<close>

definition set_next :: "vref option \<Rightarrow> vref option \<Rightarrow> vref option" where
  "set_next vcpu nxt = (case vcpu of None \<Rightarrow> nxt | Some c \<Rightarrow> Some c)"

definition with_next :: "vref option \<Rightarrow> ('a \<times> vref option) res \<times> hypervisor \<Rightarrow> ('a \<times> vref option) res \<times> hypervisor" where
  "with_next nxt r = (case r of (Ok (ret, vcpu), h) \<Rightarrow> (Ok (ret, set_next vcpu nxt), h) | (Err e, h) \<Rightarrow> (Err e, h) | (Panic, h) \<Rightarrow> (Panic, h))"

text \<open>The codes \<open>0\<close> and \<open>-1\<close> for a result.\<close>

definition status_code :: "unit res \<times> hypervisor \<Rightarrow> int res \<times> hypervisor" where
  "status_code r = (case r of (Ok _, h) \<Rightarrow> (Ok 0, h) | (Err _, h) \<Rightarrow> (Ok (-1), h) | (Panic, h) \<Rightarrow> (Panic, h))"

definition id_or_error :: "spci_vm_id_t option \<Rightarrow> int" where
  "id_or_error r = (case r of None \<Rightarrow> -1 | Some i \<Rightarrow> uint i)"

section \<open>Entry points\<close>

definition api_preempt :: "vref \<Rightarrow> hypervisor \<Rightarrow> vref res \<times> hypervisor" where
  "api_preempt current h = preempt current h"

definition api_wait_for_interrupt :: "vref \<Rightarrow> hypervisor \<Rightarrow> vref res \<times> hypervisor" where
  "api_wait_for_interrupt current h = wait_for_interrupt current h"

definition api_vcpu_off :: "vref \<Rightarrow> hypervisor \<Rightarrow> vref res \<times> hypervisor" where
  "api_vcpu_off current h = vcpu_off current h"

definition api_spci_yield :: "vref \<Rightarrow> vref option \<Rightarrow> hypervisor \<Rightarrow> (SpciReturn \<times> vref option) res \<times> hypervisor" where
  "api_spci_yield current nxt h =
     (case spci_yield current h of
        (Ok vcpu, h) \<Rightarrow> (Ok (Success, set_next vcpu nxt), h)
      | (Err e, h) \<Rightarrow> (Err e, h)
      | (Panic, h) \<Rightarrow> (Panic, h))"

definition api_wake_up :: "vref \<Rightarrow> vref \<Rightarrow> hypervisor \<Rightarrow> vref res \<times> hypervisor" where
  "api_wake_up current target_vcpu h = wake_up current target_vcpu h"

definition api_abort :: "vref \<Rightarrow> hypervisor \<Rightarrow> (vref res \<times> hypervisor) option" where
  "api_abort current h = abort current h"

definition api_vm_get_id :: "vref \<Rightarrow> hypervisor \<Rightarrow> spci_vm_id_t" where
  "api_vm_get_id current h = vm_get_id current h"

definition api_vm_get_count :: "hypervisor \<Rightarrow> u16" where
  "api_vm_get_count h = vm_get_count h"

definition api_vcpu_get_count :: "spci_vm_id_t \<Rightarrow> vref \<Rightarrow> hypervisor \<Rightarrow> spci_vcpu_count_t res" where
  "api_vcpu_get_count i current h =
     (case vcpu_get_count i current h of Ok (Some n) \<Rightarrow> Ok n | Ok None \<Rightarrow> Ok 0 | Err e \<Rightarrow> Err e | Panic \<Rightarrow> Panic)"

definition api_vcpu_run ::
  "spci_vm_id_t \<Rightarrow> spci_vcpu_index_t \<Rightarrow> vref \<Rightarrow> vref option \<Rightarrow> hypervisor \<Rightarrow> (u64 \<times> vref option) res \<times> hypervisor" where
  "api_vcpu_run i idx current nxt h =
     (case vcpu_run i idx current h of
        (Ok vcpu, h) \<Rightarrow> (Ok (into_raw Preempted, Some vcpu), h)
      | (Err ret, h) \<Rightarrow> (Ok (into_raw ret, nxt), h)
      | (Panic, h) \<Rightarrow> (Panic, h))"

definition api_vm_configure ::
  "stage \<Rightarrow> reducer \<Rightarrow> ipaddr_t \<Rightarrow> ipaddr_t \<Rightarrow> vref \<Rightarrow> vref option \<Rightarrow> hypervisor \<Rightarrow> (int \<times> vref option) res \<times> hypervisor" where
  "api_vm_configure S red sd rc current nxt h = with_next nxt (vm_configure S red sd rc current h)"

definition api_spci_msg_send ::
  "stage \<Rightarrow> reducer \<Rightarrow> u32 \<Rightarrow> vref \<Rightarrow> vref option \<Rightarrow> hypervisor \<Rightarrow> (SpciReturn \<times> vref option) res \<times> hypervisor" where
  "api_spci_msg_send S red attributes current nxt h = with_next nxt (spci_msg_send S red attributes current h)"

definition api_spci_msg_recv :: "u32 \<Rightarrow> vref \<Rightarrow> vref option \<Rightarrow> hypervisor \<Rightarrow> (SpciReturn \<times> vref option) res \<times> hypervisor" where
  "api_spci_msg_recv attributes current nxt h = with_next nxt (spci_msg_recv attributes current h)"

definition api_mailbox_writable_get :: "vref \<Rightarrow> hypervisor \<Rightarrow> int \<times> hypervisor" where
  "api_mailbox_writable_get current h =
     (case mailbox_writable_get current h of (res, h) \<Rightarrow> (id_or_error res, h))"

definition api_mailbox_waiter_get :: "spci_vm_id_t \<Rightarrow> vref \<Rightarrow> hypervisor \<Rightarrow> int res \<times> hypervisor" where
  "api_mailbox_waiter_get i current h =
     (case mailbox_waiter_get i current h of
        (Ok res, h) \<Rightarrow> (Ok (id_or_error res), h)
      | (Err e, h) \<Rightarrow> (Err e, h)
      | (Panic, h) \<Rightarrow> (Panic, h))"

definition api_mailbox_clear :: "vref \<Rightarrow> vref option \<Rightarrow> hypervisor \<Rightarrow> (int \<times> vref option) res \<times> hypervisor" where
  "api_mailbox_clear current nxt h = with_next nxt (mailbox_clear current h)"

definition api_interrupt_enable :: "intid_t \<Rightarrow> bool \<Rightarrow> vref \<Rightarrow> hypervisor \<Rightarrow> int res \<times> hypervisor" where
  "api_interrupt_enable intid on current h = status_code (interrupt_enable intid on current h)"

definition api_interrupt_get :: "vref \<Rightarrow> hypervisor \<Rightarrow> intid_t \<times> hypervisor" where
  "api_interrupt_get current h = interrupt_get current h"

definition api_interrupt_inject ::
  "spci_vm_id_t \<Rightarrow> spci_vcpu_index_t \<Rightarrow> intid_t \<Rightarrow> vref \<Rightarrow> vref option \<Rightarrow> hypervisor \<Rightarrow> (int \<times> vref option) res \<times> hypervisor" where
  "api_interrupt_inject i idx intid current nxt h = with_next nxt (interrupt_inject i idx intid current h)"

definition api_share_memory ::
  "stage \<Rightarrow> reducer \<Rightarrow> spci_vm_id_t \<Rightarrow> ipaddr_t \<Rightarrow> usize \<Rightarrow> usize \<Rightarrow> vref \<Rightarrow> hypervisor \<Rightarrow> int res \<times> hypervisor" where
  "api_share_memory S red i addr sz share current h =
     (case HfShare_try_from share of
        Ok sh \<Rightarrow> status_code (share_memory S red i addr sz sh current h)
      | Err _ \<Rightarrow> (Ok (-1), h)
      | Panic \<Rightarrow> (Panic, h))"

definition api_spci_version :: "32 word" where
  "api_spci_version = spci_version"

definition api_debug_log :: "u8 \<Rightarrow> vref \<Rightarrow> hypervisor \<Rightarrow> int res \<times> hypervisor" where
  "api_debug_log c current h =
     (case debug_log c current h of (Panic, h) \<Rightarrow> (Panic, h) | (_, h) \<Rightarrow> (Ok 0, h))"

section \<open>Entry points are calls\<close>

lemma with_next_state: "with_next nxt r = (q, h') \<Longrightarrow> \<exists>p. r = (p, h') \<and> (q \<noteq> Panic \<longrightarrow> p \<noteq> Panic)"
  by (auto simp: with_next_def split: prod.splits outcome.splits)

lemma status_code_state: "status_code r = (q, h') \<Longrightarrow> \<exists>p. r = (p, h') \<and> (q \<noteq> Panic \<longrightarrow> p \<noteq> Panic)"
  by (auto simp: status_code_def split: prod.splits outcome.splits)

text \<open>
  Whatever its arguments are, an entry point that returns makes one of the steps of \<open>hyp_call\<close> or
  leaves the state as it is.
\<close>

lemma api_calls:
  assumes "fst c < length (vms h)"
  shows "api_preempt c h = (r, h') \<Longrightarrow> r \<noteq> Panic \<Longrightarrow> hyp_call S red c h h'"
    "api_wait_for_interrupt c h = (r, h') \<Longrightarrow> r \<noteq> Panic \<Longrightarrow> hyp_call S red c h h'"
    "api_vcpu_off c h = (r, h') \<Longrightarrow> r \<noteq> Panic \<Longrightarrow> hyp_call S red c h h'"
    "api_abort c h = Some (r, h') \<Longrightarrow> r \<noteq> Panic \<Longrightarrow> hyp_call S red c h h'"
    "api_spci_yield c nxt h = (sr, h') \<Longrightarrow> sr \<noteq> Panic \<Longrightarrow> hyp_call S red c h h'"
    "api_vcpu_run i idx c nxt h = (rr, h') \<Longrightarrow> rr \<noteq> Panic \<Longrightarrow> hyp_call S red c h h'"
    "api_vm_configure S red sd rc c nxt h = (ir, h') \<Longrightarrow> ir \<noteq> Panic \<Longrightarrow> hyp_call S red c h h'"
    "api_spci_msg_send S red at c nxt h = (sr, h') \<Longrightarrow> sr \<noteq> Panic \<Longrightarrow> hyp_call S red c h h'"
    "api_spci_msg_recv at c nxt h = (sr, h') \<Longrightarrow> sr \<noteq> Panic \<Longrightarrow> hyp_call S red c h h'"
    "api_mailbox_writable_get c h = (k, h') \<Longrightarrow> hyp_call S red c h h'"
    "api_mailbox_waiter_get i c h = (kr, h') \<Longrightarrow> kr \<noteq> Panic \<Longrightarrow> hyp_call S red c h h'"
    "api_mailbox_clear c nxt h = (ir, h') \<Longrightarrow> ir \<noteq> Panic \<Longrightarrow> hyp_call S red c h h'"
    "api_interrupt_enable intid on c h = (kr, h') \<Longrightarrow> kr \<noteq> Panic \<Longrightarrow> hyp_call S red c h h'"
    "api_interrupt_get c h = (intid, h') \<Longrightarrow> hyp_call S red c h h'"
    "api_interrupt_inject i idx intid c nxt h = (ir, h') \<Longrightarrow> ir \<noteq> Panic \<Longrightarrow> hyp_call S red c h h'"
    "api_debug_log ch c h = (kr, h') \<Longrightarrow> kr \<noteq> Panic \<Longrightarrow> hyp_call S red c h h'"
    "api_share_memory S red i addr sz share c h = (kr, h') \<Longrightarrow> kr \<noteq> Panic \<Longrightarrow> h' = h \<or> hyp_call S red c h h'"
  using assms
  by (auto simp: api_preempt_def api_wait_for_interrupt_def api_vcpu_off_def api_abort_def api_spci_yield_def api_vcpu_run_def
      api_vm_configure_def api_spci_msg_send_def api_spci_msg_recv_def api_mailbox_writable_get_def api_mailbox_waiter_get_def
      api_mailbox_clear_def api_interrupt_enable_def api_interrupt_get_def api_interrupt_inject_def api_debug_log_def
      api_share_memory_def
      split: prod.splits outcome.splits dest!: with_next_state status_code_state intro: hyp_call.intros)

end
