(* ===== verification/Handler.thy ===== *)
theory Handler
  imports Api
begin

text \<open>
  The handlers of exceptions from VMs: src/src/arch/aarch64/hypervisor/psci_handler.c and handler.c.
  They decode the registers of the vCPU that made a call and dispatch to the interface of api.rs.

  The firmware is an argument: the version of its power interface (PSCI) and the first result of its
  calls, which is \<open>None\<close> when the firmware does not return. The result of a handler is \<open>None\<close> when
  the hypervisor spins forever. Locals that C leaves uninitialised are arguments as well. Constants in
  conditions have the types of C: \<open>~SMCCC_CONVENTION_MASK\<close> is negative, so in 64 bits its upper half is
  set.
\<close>

section \<open>Identifiers (psci.h, smc.h)\<close>

abbreviation PSCI_VERSION :: u32 where "PSCI_VERSION \<equiv> 0x84000000"
abbreviation PSCI_CPU_SUSPEND :: u32 where "PSCI_CPU_SUSPEND \<equiv> 0x84000001"
abbreviation PSCI_CPU_OFF :: u32 where "PSCI_CPU_OFF \<equiv> 0x84000002"
abbreviation PSCI_CPU_ON :: u32 where "PSCI_CPU_ON \<equiv> 0x84000003"
abbreviation PSCI_AFFINITY_INFO :: u32 where "PSCI_AFFINITY_INFO \<equiv> 0x84000004"
abbreviation PSCI_SYSTEM_OFF :: u32 where "PSCI_SYSTEM_OFF \<equiv> 0x84000008"
abbreviation PSCI_SYSTEM_RESET :: u32 where "PSCI_SYSTEM_RESET \<equiv> 0x84000009"
abbreviation PSCI_FEATURES :: u32 where "PSCI_FEATURES \<equiv> 0x8400000a"

text \<open>\<open>PSCI_MIGRATE\<close> to \<open>PSCI_MIGRATE_INFO_UP_CPU\<close>, and \<open>PSCI_CPU_FREEZE\<close> to \<open>PSCI_MEM_PROTECT_CHECK_RANGE\<close>.\<close>

definition PSCI_BLOCKED :: "u32 list" where
  "PSCI_BLOCKED = [0x84000005, 0x84000006, 0x84000007, 0x8400000b, 0x8400000c, 0x8400000d, 0x8400000e, 0x8400000f,
     0x84000010, 0x84000011, 0x84000012, 0x84000013, 0x84000014]"

abbreviation PSCI_VERSION_0_2 :: u32 where "PSCI_VERSION_0_2 \<equiv> 2"
abbreviation PSCI_VERSION_1_0 :: u32 where "PSCI_VERSION_1_0 \<equiv> 0x10000"
abbreviation PSCI_VERSION_1_1 :: u32 where "PSCI_VERSION_1_1 \<equiv> 0x10001"

abbreviation PSCI_RETURN_SUCCESS :: u64 where "PSCI_RETURN_SUCCESS \<equiv> 0"
abbreviation PSCI_RETURN_ON :: u64 where "PSCI_RETURN_ON \<equiv> 0"
abbreviation PSCI_RETURN_OFF :: u64 where "PSCI_RETURN_OFF \<equiv> 1"
abbreviation PSCI_ERROR_NOT_SUPPORTED :: u64 where "PSCI_ERROR_NOT_SUPPORTED \<equiv> - 1"
abbreviation PSCI_ERROR_INVALID_PARAMETERS :: u64 where "PSCI_ERROR_INVALID_PARAMETERS \<equiv> - 2"
abbreviation PSCI_ERROR_DENIED :: u64 where "PSCI_ERROR_DENIED \<equiv> - 3"
abbreviation PSCI_ERROR_ALREADY_ON :: u64 where "PSCI_ERROR_ALREADY_ON \<equiv> - 4"

section \<open>The firmware\<close>

record firmware =
  el3_psci_version :: u32
  smc :: "u32 \<Rightarrow> u64 \<Rightarrow> nat \<Rightarrow> u64 option"

text \<open>\<open>arch_one_time_init\<close>, on the version that the firmware reports.\<close>

definition arch_one_time_init :: "u32 \<Rightarrow> u32" where
  "arch_one_time_init v = (if v = PSCI_VERSION_0_2 \<or> v = PSCI_VERSION_1_0 \<or> v = PSCI_VERSION_1_1 then v else 0)"

text \<open>The loop that asks the firmware to turn on a CPU until the CPU is not reported to be on.\<close>

partial_function (option) smc_cpu_on :: "firmware \<Rightarrow> u64 \<Rightarrow> nat \<Rightarrow> u64 option" where
  "smc_cpu_on fw target n =
     Option.bind (smc fw PSCI_CPU_ON target n) (\<lambda>r.
       if r = PSCI_ERROR_ALREADY_ON then smc_cpu_on fw target (Suc n) else Some r)"

section \<open>PSCI calls of the primary VM\<close>

datatype psci_result = NotPsci | PsciDone u64 "vref option" | PoweredDown

text \<open>The position of the CPU that \<open>cpu_find\<close> returns.\<close>

definition cpu_find_index :: "cpu list \<Rightarrow> cpu_id_t \<Rightarrow> nat option" where
  "cpu_find_index cs i = map_option fst (find (\<lambda>(k, c). cpu_id c = i) (enumerate 0 cs))"

definition psci_features_primary :: "firmware \<Rightarrow> u32 \<Rightarrow> u64 \<Rightarrow> u64 option" where
  "psci_features_primary fw func arg0 =
     (let f = arg0 AND NOT 0x40000000
      in if f = ucast PSCI_CPU_SUSPEND then
           if el3_psci_version fw = PSCI_VERSION_0_2 then Some 0
           else map_option (\<lambda>r. r AND 3) (smc fw func (ucast (ucast arg0 :: u32)) 0)
         else if f \<in> ucast ` {PSCI_VERSION, PSCI_FEATURES, PSCI_SYSTEM_OFF, PSCI_SYSTEM_RESET, PSCI_AFFINITY_INFO, PSCI_CPU_OFF, PSCI_CPU_ON}
         then Some 0
         else Some PSCI_ERROR_NOT_SUPPORTED)"

definition psci_cpu_on :: "firmware \<Rightarrow> u64 \<Rightarrow> u64 \<Rightarrow> u64 \<Rightarrow> hypervisor \<Rightarrow> (psci_result res \<times> hypervisor) option" where
  "psci_cpu_on fw arg0 arg1 arg2 h =
     (case cpu_find_index (cpus h) arg0 of
        None \<Rightarrow> Some (Ok (PsciDone PSCI_ERROR_INVALID_PARAMETERS None), h)
      | Some c \<Rightarrow>
          (case cpu_on c (ipa_init arg1) arg2 h of
             None \<Rightarrow> None
           | Some (Ok True, h) \<Rightarrow> Some (Ok (PsciDone PSCI_ERROR_ALREADY_ON None), h)
           | Some (Ok False, h) \<Rightarrow>
               (case smc_cpu_on fw arg0 0 of
                  None \<Rightarrow> None
                | Some r \<Rightarrow>
                    Some (Ok (PsciDone r None), if r \<noteq> PSCI_RETURN_SUCCESS then h\<lparr>cpus := cpu_off c (cpus h)\<rparr> else h))
           | Some (Err e, h) \<Rightarrow> Some (Err e, h)
           | Some (Panic, h) \<Rightarrow> Some (Panic, h)))"

definition psci_cpu_off :: "firmware \<Rightarrow> vref \<Rightarrow> hypervisor \<Rightarrow> psci_result res \<times> hypervisor" where
  "psci_cpu_off fw current h =
     (case cpu (vc_inner (vcpu_at h current)) of
        None \<Rightarrow> (Panic, h)
      | Some c \<Rightarrow> (if smc fw PSCI_CPU_OFF 0 0 = None then Ok PoweredDown else Panic, h\<lparr>cpus := cpu_off c (cpus h)\<rparr>))"

definition psci_primary_vm_handler ::
  "firmware \<Rightarrow> vref \<Rightarrow> u32 \<Rightarrow> u64 \<Rightarrow> u64 \<Rightarrow> u64 \<Rightarrow> hypervisor \<Rightarrow> (psci_result res \<times> hypervisor) option" where
  "psci_primary_vm_handler fw current func arg0 arg1 arg2 h =
     (let f = func AND NOT 0x40000000;
          ret = (\<lambda>r. Some (Ok (PsciDone r None), h))
      in if el3_psci_version fw = 0 then
           if func AND 0x3f000000 = 0x04000000 then ret (- 1) else Some (Ok NotPsci, h)
         else if f = PSCI_VERSION then ret (ucast PSCI_VERSION_1_1)
         else if f = PSCI_FEATURES then
           (case psci_features_primary fw func arg0 of None \<Rightarrow> Some (Ok PoweredDown, h) | Some r \<Rightarrow> ret r)
         else if f = PSCI_SYSTEM_OFF \<or> f = PSCI_SYSTEM_RESET then
           Some (if smc fw f 0 0 = None then Ok PoweredDown else Panic, h)
         else if f = PSCI_AFFINITY_INFO then
           (case cpu_find_index (cpus h) arg0 of
              None \<Rightarrow> ret PSCI_ERROR_INVALID_PARAMETERS
            | Some c \<Rightarrow>
                if arg1 \<noteq> 0 then ret PSCI_ERROR_NOT_SUPPORTED
                else if is_on (cpus h ! c) then ret PSCI_RETURN_ON
                else ret PSCI_RETURN_OFF)
         else if f = PSCI_CPU_SUSPEND then
           let h = update_vcpu_inner current (\<lambda>i. i\<lparr>regs := arch_regs_set_pc_arg (ipa_init arg1) arg2 (regs i)\<rparr>) h
           in Some (case smc fw PSCI_CPU_SUSPEND arg0 0 of None \<Rightarrow> Ok PoweredDown | Some r \<Rightarrow> Ok (PsciDone r None), h)
         else if f = PSCI_CPU_OFF then Some (psci_cpu_off fw current h)
         else if f = PSCI_CPU_ON then psci_cpu_on fw arg0 arg1 arg2 h
         else if f \<in> set PSCI_BLOCKED then ret PSCI_ERROR_NOT_SUPPORTED
         else Some (Ok NotPsci, h))"

section \<open>PSCI calls of a secondary VM\<close>

definition vcpu_id_to_index :: "cpu_id_t \<Rightarrow> spci_vcpu_index_t" where
  "vcpu_id_to_index i = ucast i"

text \<open>A call that returns the vCPU to switch to.\<close>

definition psci_switch :: "u64 \<Rightarrow> vref res \<times> hypervisor \<Rightarrow> psci_result res \<times> hypervisor" where
  "psci_switch ret r = (case r of (Ok c, h) \<Rightarrow> (Ok (PsciDone ret (Some c)), h) | (Err e, h) \<Rightarrow> (Err e, h) | (Panic, h) \<Rightarrow> (Panic, h))"

definition psci_features_secondary :: "u64 \<Rightarrow> u64" where
  "psci_features_secondary arg0 =
     (let f = arg0 AND NOT 0x40000000
      in if f = ucast PSCI_CPU_SUSPEND then 2
         else if f \<in> ucast ` {PSCI_VERSION, PSCI_FEATURES, PSCI_AFFINITY_INFO, PSCI_CPU_OFF, PSCI_CPU_ON} then 0
         else PSCI_ERROR_NOT_SUPPORTED)"

text \<open>The index is below the count in 16 bits here, so the assertion of \<open>vm_get_vcpu\<close> holds.\<close>

definition psci_affinity_info :: "vref \<Rightarrow> u64 \<Rightarrow> u64 \<Rightarrow> hypervisor \<Rightarrow> u64 \<times> hypervisor" where
  "psci_affinity_info current arg0 arg1 h =
     (let i = vcpu_id_to_index arg0;
          target = (fst current, unat i)
      in if (ucast arg1 :: u32) \<noteq> 0 then (PSCI_ERROR_INVALID_PARAMETERS, h)
         else if i \<ge> vm_get_vcpu_count (vm_at h (fst current)) then (PSCI_ERROR_INVALID_PARAMETERS, h)
         else
           let (locked, x) = vcpu_try_lock (vcpu_at h target)
           in if \<not> locked then (PSCI_RETURN_ON, update_vcpu target (\<lambda>_. x) h)
              else (if vcpu_is_off x then PSCI_RETURN_OFF else PSCI_RETURN_ON, update_vcpu target (\<lambda>_. vcpu_unlock x) h))"

definition psci_vcpu_on :: "vref \<Rightarrow> u64 \<Rightarrow> u64 \<Rightarrow> u64 \<Rightarrow> hypervisor \<Rightarrow> (psci_result res \<times> hypervisor) option" where
  "psci_vcpu_on current arg0 arg1 arg2 h =
     (let i = vcpu_id_to_index arg0;
          target = (fst current, unat i)
      in if i \<ge> vm_get_vcpu_count (vm_at h (fst current)) then Some (Ok (PsciDone PSCI_ERROR_INVALID_PARAMETERS None), h)
         else
           (case vcpu_secondary_reset_and_start target (ipa_init arg1) arg2 h of
              None \<Rightarrow> None
            | Some (Ok True, h) \<Rightarrow> Some (psci_switch PSCI_RETURN_SUCCESS (api_wake_up current target h))
            | Some (Ok False, h) \<Rightarrow> Some (Ok (PsciDone PSCI_ERROR_ALREADY_ON None), h)
            | Some (Err e, h) \<Rightarrow> Some (Err e, h)
            | Some (Panic, h) \<Rightarrow> Some (Panic, h)))"

definition psci_secondary_vm_handler ::
  "vref \<Rightarrow> u32 \<Rightarrow> u64 \<Rightarrow> u64 \<Rightarrow> u64 \<Rightarrow> hypervisor \<Rightarrow> (psci_result res \<times> hypervisor) option" where
  "psci_secondary_vm_handler current func arg0 arg1 arg2 h =
     (let f = func AND NOT 0x40000000;
          ret = (\<lambda>r. Some (Ok (PsciDone r None), h))
      in if f = PSCI_VERSION then ret (ucast PSCI_VERSION_1_1)
         else if f = PSCI_FEATURES then ret (psci_features_secondary arg0)
         else if f = PSCI_AFFINITY_INFO then
           (case psci_affinity_info current arg0 arg1 h of (r, h) \<Rightarrow> Some (Ok (PsciDone r None), h))
         else if f = PSCI_CPU_SUSPEND then Some (psci_switch PSCI_RETURN_SUCCESS (api_wait_for_interrupt current h))
         else if f = PSCI_CPU_OFF then Some (psci_switch PSCI_ERROR_DENIED (api_vcpu_off current h))
         else if f = PSCI_CPU_ON then psci_vcpu_on current arg0 arg1 arg2 h
         else if f = PSCI_SYSTEM_OFF \<or> f = PSCI_SYSTEM_RESET \<or> f \<in> set PSCI_BLOCKED then ret PSCI_ERROR_NOT_SUPPORTED
         else Some (Ok NotPsci, h))"

definition psci_handler ::
  "firmware \<Rightarrow> vref \<Rightarrow> u32 \<Rightarrow> u64 \<Rightarrow> u64 \<Rightarrow> u64 \<Rightarrow> hypervisor \<Rightarrow> (psci_result res \<times> hypervisor) option" where
  "psci_handler fw current func arg0 arg1 arg2 h =
     (if current_id h current = HF_PRIMARY_VM_ID then psci_primary_vm_handler fw current func arg0 arg1 arg2 h
      else psci_secondary_vm_handler current func arg0 arg1 arg2 h)"

section \<open>Calls (handler.c)\<close>

definition spci_code :: "(SpciReturn \<times> vref option) res \<times> hypervisor \<Rightarrow> (u64 \<times> vref option) res \<times> hypervisor" where
  "spci_code r =
     (case r of
        (Ok (ret, nxt), h) \<Rightarrow> (Ok (word_of_int (SpciReturn_value ret), nxt), h)
      | (Err e, h) \<Rightarrow> (Err e, h)
      | (Panic, h) \<Rightarrow> (Panic, h))"

definition int_code :: "(int \<times> vref option) res \<times> hypervisor \<Rightarrow> (u64 \<times> vref option) res \<times> hypervisor" where
  "int_code r =
     (case r of
        (Ok (ret, nxt), h) \<Rightarrow> (Ok (word_of_int ret, nxt), h)
      | (Err e, h) \<Rightarrow> (Err e, h)
      | (Panic, h) \<Rightarrow> (Panic, h))"

definition plain_code :: "int res \<times> hypervisor \<Rightarrow> (u64 \<times> vref option) res \<times> hypervisor" where
  "plain_code r = (case r of (Ok ret, h) \<Rightarrow> (Ok (word_of_int ret, None), h) | (Err e, h) \<Rightarrow> (Err e, h) | (Panic, h) \<Rightarrow> (Panic, h))"

text \<open>The result is \<open>None\<close> when the function is not one of SPCI.\<close>

definition spci_handler ::
  "stage \<Rightarrow> reducer \<Rightarrow> u64 \<Rightarrow> u64 \<Rightarrow> vref \<Rightarrow> hypervisor \<Rightarrow> ((u64 \<times> vref option) res \<times> hypervisor) option" where
  "spci_handler S red func arg1 current h =
     (let f = func AND NOT 0x40000000
      in if f = 0x84000060 then Some (Ok (scast api_spci_version, None), h)
         else if f = 0x84000067 then Some (spci_code (api_spci_yield current None h))
         else if f = 0x84000064 then Some (spci_code (api_spci_msg_send S red (ucast arg1) current None h))
         else if f = 0x84000062 then Some (spci_code (api_spci_msg_recv (ucast arg1) current None h))
         else None)"

definition set_virtual_interrupt :: "bool \<Rightarrow> arch_regs \<Rightarrow> arch_regs" where
  "set_virtual_interrupt on rs =
     rs\<lparr>lazy := (lazy rs)\<lparr>hcr_el2 := if on then hcr_el2 (lazy rs) OR push_bit 7 1 else hcr_el2 (lazy rs) AND NOT (push_bit 7 1)\<rparr>\<rparr>"

text \<open>
  \<open>update_vi\<close> writes the bit to the register of the CPU, which is the first component of the result,
  or to the saved register of the vCPU to which it switches.
\<close>

definition update_vi :: "vref \<Rightarrow> vref option \<Rightarrow> hypervisor \<Rightarrow> bool option \<times> hypervisor" where
  "update_vi current nxt h =
     (case nxt of
        None \<Rightarrow> (Some (vcpu_is_interrupted (vcpu_at h current)), h)
      | Some n \<Rightarrow>
          (None, update_vcpu_inner n (\<lambda>i. i\<lparr>regs := set_virtual_interrupt (vcpu_is_interrupted (vcpu_at h n)) (regs i)\<rparr>) h))"

text \<open>The \<open>switch\<close> of \<open>hvc_handler\<close>.\<close>

definition hf_calls ::
  "stage \<Rightarrow> reducer \<Rightarrow> u64 \<Rightarrow> u64 \<Rightarrow> u64 \<Rightarrow> u64 \<Rightarrow> vref \<Rightarrow> hypervisor \<Rightarrow> (u64 \<times> vref option) res \<times> hypervisor" where
  "hf_calls S red arg0 arg1 arg2 arg3 current h =
     (let f = ucast arg0 :: u32
      in if f = 0xff00 then (Ok (ucast (api_vm_get_id current h), None), h)
         else if f = 0xff01 then (Ok (ucast (api_vm_get_count h), None), h)
         else if f = 0xff02 then
           (case api_vcpu_get_count (ucast arg1) current h of Ok n \<Rightarrow> (Ok (ucast n, None), h) | Err e \<Rightarrow> (Err e, h) | Panic \<Rightarrow> (Panic, h))
         else if f = 0xff03 then api_vcpu_run (ucast arg1) (ucast arg2) current None h
         else if f = 0xff05 then int_code (api_vm_configure S red (ipa_init arg1) (ipa_init arg2) current None h)
         else if f = 0xff08 then int_code (api_mailbox_clear current None h)
         else if f = 0xff09 then (case api_mailbox_writable_get current h of (r, h) \<Rightarrow> (Ok (word_of_int r, None), h))
         else if f = 0xff0a then plain_code (api_mailbox_waiter_get (ucast arg1) current h)
         else if f = 0xff0b then plain_code (api_interrupt_enable (ucast arg1) (arg2 \<noteq> 0) current h)
         else if f = 0xff0c then (case api_interrupt_get current h of (r, h) \<Rightarrow> (Ok (ucast r, None), h))
         else if f = 0xff0d then int_code (api_interrupt_inject (ucast arg1) (ucast arg2) (ucast arg3) current None h)
         else if f = 0xff0e then
           plain_code (api_share_memory S red (ucast (drop_bit 32 arg1 :: u64)) (ipa_init arg2) arg3 (arg1 AND 0xffffffff) current h)
         else if f = 0xbd000000 then plain_code (api_debug_log (ucast arg1) current h)
         else (Ok (- 1, None), h))"

record hvc_handler_return =
  user_ret :: u64
  new_vcpu :: "vref option"
  vi_bit :: "bool option"

definition finish_hvc :: "vref \<Rightarrow> (u64 \<times> vref option) res \<times> hypervisor \<Rightarrow> hvc_handler_return option res \<times> hypervisor" where
  "finish_hvc current r =
     (case r of
        (Ok (ret, nxt), h) \<Rightarrow>
          (case update_vi current nxt h of (vi, h) \<Rightarrow> (Ok (Some \<lparr>user_ret = ret, new_vcpu = nxt, vi_bit = vi\<rparr>), h))
      | (Err e, h) \<Rightarrow> (Err e, h)
      | (Panic, h) \<Rightarrow> (Panic, h))"

text \<open>\<open>Ok None\<close> is a call after which the firmware has turned off the CPU.\<close>

definition hvc_handler ::
  "stage \<Rightarrow> reducer \<Rightarrow> firmware \<Rightarrow> u64 \<Rightarrow> u64 \<Rightarrow> u64 \<Rightarrow> u64 \<Rightarrow> vref \<Rightarrow> hypervisor \<Rightarrow> (hvc_handler_return option res \<times> hypervisor) option" where
  "hvc_handler S red fw arg0 arg1 arg2 arg3 current h =
     (case psci_handler fw current (ucast arg0) arg1 arg2 arg3 h of
        None \<Rightarrow> None
      | Some (Ok (PsciDone ret nxt), h) \<Rightarrow> Some (Ok (Some \<lparr>user_ret = ret, new_vcpu = nxt, vi_bit = None\<rparr>), h)
      | Some (Ok PoweredDown, h) \<Rightarrow> Some (Ok None, h)
      | Some (Ok NotPsci, h) \<Rightarrow>
          (case spci_handler S red arg0 arg1 current h of
             Some r \<Rightarrow> Some (finish_hvc current r)
           | None \<Rightarrow> Some (finish_hvc current (hf_calls S red arg0 arg1 arg2 arg3 current h)))
      | Some (Err e, h) \<Rightarrow> Some (Err e, h)
      | Some (Panic, h) \<Rightarrow> Some (Panic, h))"

section \<open>Exceptions from a VM (handler.c)\<close>

definition irq_lower :: "vref \<Rightarrow> hypervisor \<Rightarrow> vref res \<times> hypervisor" where
  "irq_lower current h = api_preempt current h"

definition fiq_lower :: "vref \<Rightarrow> hypervisor \<Rightarrow> vref res \<times> hypervisor" where
  "fiq_lower current h = irq_lower current h"

definition serr_lower :: "vref \<Rightarrow> hypervisor \<Rightarrow> (vref res \<times> hypervisor) option" where
  "serr_lower current h = api_abort current h"

definition vcpu_regs :: "hypervisor \<Rightarrow> vref \<Rightarrow> arch_regs" where
  "vcpu_regs h c = regs (vc_inner (vcpu_at h c))"

text \<open>\<open>hpfar\<close> and \<open>far\<close> are the fault address registers of the CPU.\<close>

definition fault_info_init :: "u64 \<Rightarrow> u64 \<Rightarrow> u64 \<Rightarrow> arch_regs \<Rightarrow> mode \<Rightarrow> fault_info" where
  "fault_info_init esr hpfar far rs md =
     (if esr AND 0x3f = 0x10 \<and> esr AND push_bit 10 1 \<noteq> 0 then
        \<lparr>ipaddr = ipa_init (push_bit 8 hpfar), vaddr = va_init 0, fault_pc = va_init (regs_pc rs), fault_mode = md\<rparr>
      else
        \<lparr>ipaddr = ipa_init (push_bit 8 hpfar OR (far AND (PAGE_SIZE - 1))), vaddr = va_init far,
         fault_pc = va_init (regs_pc rs), fault_mode = md\<rparr>)"

definition GET_NEXT_PC_INC :: "u64 \<Rightarrow> u64" where
  "GET_NEXT_PC_INC esr = (if esr AND push_bit 25 1 \<noteq> 0 then 4 else 2)"

text \<open>
  \<open>smc_handler\<close>, whose result is the first word of \<open>ret\<close> and \<open>next\<close>. No client has the privilege
  to have a call forwarded to the firmware, so the other words of \<open>ret\<close> are never written; \<open>junk\<close> is
  what the first word holds before.
\<close>

definition smc_handler ::
  "firmware \<Rightarrow> u64 \<Rightarrow> vref \<Rightarrow> hypervisor \<Rightarrow> (psci_result res \<times> hypervisor) option" where
  "smc_handler fw junk c h =
     (let r = regs_r (vcpu_regs h c);
          func = ucast (r ! 0) :: u32
      in case psci_handler fw c func (r ! 1) (r ! 2) (r ! 3) h of
           Some (Ok NotPsci, h) \<Rightarrow>
             if func AND NOT 0x40000000 = 0xbd000000 then
               (case api_debug_log (ucast (r ! 1)) c h of
                  (Ok _, h) \<Rightarrow> Some (Ok (PsciDone junk None), h)
                | (Err e, h) \<Rightarrow> Some (Err e, h)
                | (Panic, h) \<Rightarrow> Some (Panic, h))
             else Some (Ok NotPsci, h)
         | res \<Rightarrow> res)"

text \<open>An SMC: the result goes to the registers \<open>r0\<close> to \<open>r3\<close>, and the instruction is skipped.\<close>

definition handle_smc ::
  "firmware \<Rightarrow> u64 \<times> u64 \<times> u64 \<times> u64 \<Rightarrow> u64 \<Rightarrow> vref \<Rightarrow> hypervisor \<Rightarrow> (vref option option res \<times> hypervisor) option" where
  "handle_smc fw junk esr c h =
     (let (j0, j1, j2, j3) = junk;
          smc_pc = regs_pc (vcpu_regs h c);
          finish = (\<lambda>ret nxt h.
            Some (Ok (Some nxt), update_vcpu_inner c (\<lambda>i. i\<lparr>regs := (regs i)\<lparr>regs_pc := smc_pc + GET_NEXT_PC_INC esr,
              regs_r := (regs_r (regs i))[0 := ret, 1 := j1, 2 := j2, 3 := j3]\<rparr>\<rparr>) h))
      in case smc_handler fw j0 c h of
           None \<Rightarrow> None
         | Some (Ok (PsciDone ret nxt), h) \<Rightarrow> finish ret nxt h
         | Some (Ok NotPsci, h) \<Rightarrow> finish PSCI_ERROR_NOT_SUPPORTED None h
         | Some (Ok PoweredDown, h) \<Rightarrow> Some (Ok None, h)
         | Some (Err e, h) \<Rightarrow> Some (Err e, h)
         | Some (Panic, h) \<Rightarrow> Some (Panic, h))"

definition as_next :: "vref res \<times> hypervisor \<Rightarrow> vref option option res \<times> hypervisor" where
  "as_next r = (case r of (Ok c, h) \<Rightarrow> (Ok (Some (Some c)), h) | (Err e, h) \<Rightarrow> (Err e, h) | (Panic, h) \<Rightarrow> (Panic, h))"

text \<open>
  A synchronous exception. \<open>Ok (Some None)\<close> is the null pointer: the vCPU continues. \<open>junk_vcpu\<close> is
  the uninitialised \<open>new_vcpu\<close>, which the primary VM would get for a trapped \<open>wfe\<close>.
\<close>

definition sync_lower_exception ::
  "stage \<Rightarrow> firmware \<Rightarrow> u64 \<times> u64 \<times> u64 \<times> u64 \<Rightarrow> vref option \<Rightarrow> u64 \<Rightarrow> u64 \<Rightarrow> u64 \<Rightarrow> vref \<Rightarrow> hypervisor
     \<Rightarrow> (vref option option res \<times> hypervisor) option" where
  "sync_lower_exception S fw junk junk_vcpu hpfar far esr c h =
     (let ec = drop_bit 26 esr;
          abort_vm = (\<lambda>h. map_option as_next (api_abort c h));
          page_fault = (\<lambda>md.
            case vcpu_handle_page_fault S c (fault_info_init esr hpfar far (vcpu_regs h c) md) h of
              Ok True \<Rightarrow> Some (Ok (Some None), h)
            | Ok False \<Rightarrow> abort_vm h
            | Err e \<Rightarrow> Some (Err e, h)
            | Panic \<Rightarrow> Some (Panic, h))
      in if ec = 0x01 then
           let h = update_vcpu_inner c (\<lambda>i. i\<lparr>regs := (regs i)\<lparr>regs_pc := regs_pc (regs i) + GET_NEXT_PC_INC esr\<rparr>\<rparr>) h
           in if esr AND 1 \<noteq> 0 then
                (case api_spci_yield c junk_vcpu h of
                   (Ok (_, nxt), h) \<Rightarrow> Some (Ok (Some nxt), h)
                 | (Err e, h) \<Rightarrow> Some (Err e, h)
                 | (Panic, h) \<Rightarrow> Some (Panic, h))
              else Some (as_next (api_wait_for_interrupt c h))
         else if ec = 0x24 then page_fault (if esr AND push_bit 6 1 \<noteq> 0 then MODE_W else MODE_R)
         else if ec = 0x20 then page_fault MODE_X
         else if ec = 0x17 then handle_smc fw junk esr c h
         else if ec = 0x18 then Some (Panic, h)
         else abort_vm h)"

section \<open>Switching (handler.c)\<close>

text \<open>The timer of the vCPU is saved and restored; the timer of EL2 is not part of the state.\<close>

definition complete_saving_state :: "vref \<Rightarrow> hypervisor \<Rightarrow> hypervisor" where
  "complete_saving_state c h =
     api_regs_state_saved c
       (update_vcpu_inner c (\<lambda>i. i\<lparr>regs := (regs i)\<lparr>cntv_cval_el0 := cntv_cval (machine h), cntv_ctl_el0 := cntv_ctl (machine h)\<rparr>\<rparr>) h)"

definition begin_restoring_state :: "vref \<Rightarrow> hypervisor \<Rightarrow> hypervisor" where
  "begin_restoring_state c h =
     h\<lparr>machine := (machine h)\<lparr>cntv_cval := cntv_cval_el0 (vcpu_regs h c), cntv_ctl := cntv_ctl_el0 (vcpu_regs h c)\<rparr>\<rparr>"

section \<open>Isolation\<close>

lemma psci_switch_state: "psci_switch ret r = (q, h') \<Longrightarrow> snd r = h'"
  by (auto simp: psci_switch_def split: prod.splits outcome.splits)

lemma psci_cpu_on_frame: "psci_cpu_on fw a b d h = Some (r, h') \<Longrightarrow> mem_frame h h'"
  by (auto simp: psci_cpu_on_def split: option.splits outcome.splits bool.splits prod.splits if_splits dest!: cpu_on_frame)

lemma psci_cpu_off_frame: "psci_cpu_off fw c h = (r, h') \<Longrightarrow> mem_frame h h'"
  by (auto simp: psci_cpu_off_def split: option.splits)

lemma psci_primary_frame: "psci_primary_vm_handler fw c f a b d h = Some (r, h') \<Longrightarrow> mem_frame h h'"
  by (auto simp: psci_primary_vm_handler_def Let_def split: if_splits option.splits dest: psci_cpu_on_frame psci_cpu_off_frame)

lemma psci_vcpu_on_frame:
  assumes "psci_vcpu_on c a b d h = Some (r, h')"
  shows "mem_frame h h'"
proof -
  have "mem_frame h2 (snd (wake_up c t h2))" for t h2
    by (cases "switch_to_primary c (WakeUp (current_id h2 t) (word_of_nat (snd t))) Ready h2")
      (auto simp: wake_up_def vcpu_index_def dest: switch_frame)
  then show ?thesis
    using assms
    by (auto simp: psci_vcpu_on_def api_wake_up_def Let_def split: if_splits option.splits outcome.splits bool.splits prod.splits
        dest!: reset_frame psci_switch_state intro: mem_frame_trans)
qed

lemma psci_affinity_frame: "psci_affinity_info c a b h = (r, h') \<Longrightarrow> mem_frame h h'"
  by (auto simp: psci_affinity_info_def Let_def split: if_splits prod.splits)

lemma psci_secondary_frame:
  assumes "psci_secondary_vm_handler c f a b d h = Some (r, h')"
  shows "mem_frame h h'"
proof -
  have w: "mem_frame h (snd (wait_for_interrupt c h))" "mem_frame h (snd (vcpu_off c h))"
    using simple_frames(2,3) [of c h] by (metis prod.collapse)+
  show ?thesis
    using assms w
    by (auto simp: psci_secondary_vm_handler_def api_wait_for_interrupt_def api_vcpu_off_def Let_def
        split: if_splits prod.splits dest!: psci_switch_state dest: psci_vcpu_on_frame psci_affinity_frame)
qed

lemma psci_frame: "psci_handler fw c f a b d h = Some (r, h') \<Longrightarrow> mem_frame h h'"
  by (auto simp: psci_handler_def split: if_splits dest: psci_primary_frame psci_secondary_frame)

lemma code_states:
  "spci_code sr = (q, h') \<Longrightarrow> \<exists>p. sr = (p, h') \<and> (q \<noteq> Panic \<longrightarrow> p \<noteq> Panic)"
  "int_code ir = (q, h') \<Longrightarrow> \<exists>p. ir = (p, h') \<and> (q \<noteq> Panic \<longrightarrow> p \<noteq> Panic)"
  "plain_code kr = (q, h') \<Longrightarrow> \<exists>p. kr = (p, h') \<and> (q \<noteq> Panic \<longrightarrow> p \<noteq> Panic)"
  by (auto simp: spci_code_def int_code_def plain_code_def split: prod.splits outcome.splits)

lemma spci_handler_call:
  assumes "spci_handler S red f a c h = Some (r, h')" "r \<noteq> Panic" "fst c < length (vms h)"
  shows "h' = h \<or> hyp_call S red c h h'"
  using assms by (auto simp: spci_handler_def Let_def split: if_splits dest!: code_states intro: api_calls)

lemma hf_calls_call:
  assumes "hf_calls S red a0 a1 a2 a3 c h = (r, h')" "r \<noteq> Panic" "fst c < length (vms h)"
  shows "h' = h \<or> hyp_call S red c h h'"
  using assms
  by (auto simp: hf_calls_def Let_def split: if_splits prod.splits outcome.splits dest!: code_states
      intro: api_calls(1-16) dest: api_calls(17))

lemma finish_hvc_frame:
  assumes "finish_hvc c (q, h1) = (r, h')"
  shows "mem_frame h1 h' \<and> (r \<noteq> Panic \<longrightarrow> q \<noteq> Panic)"
  using assms by (auto simp: finish_hvc_def update_vi_def split: prod.splits outcome.splits option.splits)

lemma call_or_same_safe:
  assumes "hf_stage2 S" "reduce_law red" "hyp_ok S h" "h1 = h \<or> hyp_call S red c h h1" "mem_frame h1 h'"
  shows "safe S (fst c) h h'"
  using assms(4) hyp_call_safe [OF assms(1-3)] safe_frame [OF assms(3) mem_frame_refl] safe_then_frame assms(5) by blast

lemma hvc_handler_safe:
  assumes "hf_stage2 S" "reduce_law red" "hyp_ok S h" "fst c < length (vms h)"
    and run: "hvc_handler S red fw a0 a1 a2 a3 c h = Some (r, h')" "r \<noteq> Panic"
  shows "safe S (fst c) h h'"
proof -
  obtain q h1 where p: "psci_handler fw c (ucast a0) a1 a2 a3 h = Some (q, h1)"
    using run(1) by (auto simp: hvc_handler_def split: option.splits)
  note f = psci_frame [OF p]
  have ok1: "hyp_ok S h1" "fst c < length (vms h1)"
    using hyp_ok_frame [OF assms(3) f] f assms(4) by (simp_all add: mem_frame_def)
  have "safe S (fst c) h1 h'"
  proof (cases "q = Ok NotPsci")
    case True
    obtain r2 h2 where h2: "h2 = h1 \<or> hyp_call S red c h1 h2" "mem_frame h2 h'"
    proof (cases "spci_handler S red a0 a1 c h1")
      case None
      obtain r2 h2 where c2: "hf_calls S red a0 a1 a2 a3 c h1 = (r2, h2)" by (metis prod.exhaust)
      then have "finish_hvc c (r2, h2) = (r, h')" using run(1) by (simp add: hvc_handler_def p True None)
      with finish_hvc_frame [OF this] run(2) hf_calls_call [OF c2 _ ok1(2)] that show ?thesis by blast
    next
      case (Some x)
      obtain r2 h2 where c2: "x = (r2, h2)" by (metis prod.exhaust)
      then have "finish_hvc c (r2, h2) = (r, h')" using run(1) Some by (simp add: hvc_handler_def p True)
      with finish_hvc_frame [OF this] run(2) spci_handler_call [OF Some [unfolded c2] _ ok1(2)] that show ?thesis by blast
    qed
    then show ?thesis using call_or_same_safe [OF assms(1,2) ok1(1)] by blast
  next
    case False
    then have "h' = h1" using run by (auto simp: hvc_handler_def p split: outcome.splits psci_result.splits)
    then show ?thesis using safe_frame [OF ok1(1) mem_frame_refl] by simp
  qed
  then show ?thesis using f by (simp add: safe_def mem_frame_def)
qed

end
