(* ===== verification/Sharing.thy ===== *)
theory Sharing
  imports Calls
begin

text \<open>
  What a successful call to \<open>share_memory\<close> does, and which calls may run a vCPU
  (src/hfo2/src/hypervisor.rs).
\<close>

section \<open>Sharing\<close>

lemma map_in_vm_mem [simp]: "mem (snd (map_in_vm S v b e m h)) = mem h"
  by (simp add: map_in_vm_def set_ptable_def update_inner_def case_prod_beta)

lemma clear_memory_zero:
  assumes "clear_memory red (pa_init b) (pa_init e) h = (Ok u, h')" "unat b < unat e"
  shows "mem h' a = (if unat b \<le> unat a \<and> unat a < unat e then 0 else mem h a)"
proof -
  have "mem h' = copy_bytes (\<lambda>_. 0) 0 b (unat (e - b)) (mem h)"
    using assms(1) by (auto simp: clear_memory_def Let_def pa_difference_def split: prod.splits outcome.splits if_splits)
  moreover have "unat (a - b) < unat (e - b) \<longleftrightarrow> unat b \<le> unat a \<and> unat a < unat e"
  proof (cases "unat b \<le> unat a")
    case True
    then show ?thesis using assms(2) by (auto simp: unat_sub word_le_nat_alt)
  next
    case False
    then have "unat (a - b) = 2 ^ 64 - unat b + unat a"
      using unsigned_less [of b, where ?'a = nat] by (simp add: unat_sub_if' word_less_nat_alt word_le_nat_alt)
    moreover have "unat (e - b) = unat e - unat b" using assms(2) by (simp add: unat_sub word_le_nat_alt)
    ultimately show ?thesis using False unsigned_less [of e, where ?'a = nat] by simp
  qed
  ultimately show ?thesis by (simp add: copy_bytes_def)
qed

text \<open>What a successful mapping makes of the entries of the table, the rights of the accesses included.\<close>

definition remapped :: "stage \<Rightarrow> u64 \<Rightarrow> u64 \<Rightarrow> mode \<Rightarrow> ptable \<Rightarrow> ptable \<Rightarrow> bool" where
  "remapped S b e m t t' \<longleftrightarrow> (\<forall>x < space S.
     if unat b \<le> x \<and> x < unat e then lookup_ptable S t' x = mode_to_attrs S m
     else visible S (lookup_ptable S t' x) = visible S (lookup_ptable S t x))"

lemma map_in_vm_remapped:
  assumes "hf_stage2 S" "wf_ptable S (ptable_of h u)" "env_ok (henv h)" "u < length (vms h)"
    and rng: "unat b < unat e" "unat e \<le> space S" "4096 dvd unat b" "4096 dvd unat e"
    and run: "map_in_vm S u (pa_init b) (pa_init e) m h = (Ok (), h')"
  shows "remapped S b e m (ptable_of h u) (ptable_of h' u)"
proof -
  have hf: "hf_stage S" by (rule hf_stage2_hf [OF assms(1)])
  have "space S \<le> 2 ^ 48" by (rule mm_stage.space_le [OF hf_stage_mm [OF hf]])
  then have pre: "unat (pa_addr (pa_init b)) < space S" "unat (pa_addr (pa_init e)) + 4095 < 2 ^ 64" using rng by simp_all
  obtain t en where im: "identity_map S (pa_init b) (pa_init e) m (ptable_of h u) (henv h) = (Ok (), t, en)"
    and h': "h' = set_ptable u t (h\<lparr>henv := en\<rparr>)"
    using run by (auto simp: map_in_vm_def split: prod.splits)
  have al: "unat b div 4096 * 4096 = unat b" "(unat e + 4095) div 4096 * 4096 = unat e"
    using rng(3,4) by (auto elim!: dvdE)
  show ?thesis
    using identity_map_facts [OF hf assms(2,3) pre im] assms(4)
    unfolding h' pa_addr_init al by (simp add: remapped_def view_step_def hit_def)
qed

lemma share_pages_done:
  assumes S: "hf_stage2 S" "reduce_law red" and vw: "v < length (vms h)" "w < length (vms h)" "v \<noteq> w" and f0: "two_frame S v w h h"
    and rng: "unat b < unat e" "unat e \<le> space S" "4096 dvd unat b" "4096 dvd unat e"
    and run: "share_pages S red v w (pa_init b) (pa_init e) orig fm tm h = (Ok u, h')"
  shows "remapped S b e fm (ptable_of h v) (ptable_of h' v)" "remapped S b e tm (ptable_of h w) (ptable_of h' w)"
    "k \<noteq> v \<Longrightarrow> k \<noteq> w \<Longrightarrow> ptable_of h' k = ptable_of h k"
    "mem h' a = (if unat b \<le> unat a \<and> unat a < unat e then 0 else mem h a)"
proof -
  have sp: "space S \<le> 2 ^ 48" by (rule mm_stage.space_le [OF hf_stage_mm [OF hf_stage2_hf [OF S(1)]]])
  have e48: "unat b < 2 ^ 48" "unat e \<le> 2 ^ 48" using rng sp by simp_all
  obtain r1 h1 where m1: "map_in_vm S v (pa_init b) (pa_init e) fm h = (r1, h1)" by fastforce
  obtain r2 h2 where m2: "clear_memory red (pa_init b) (pa_init e) h1 = (r2, h2)" by fastforce
  obtain r3 h3 where m3: "map_in_vm S w (pa_init b) (pa_init e) tm h2 = (r3, h3)" by fastforce
  have r: "r1 = Ok ()" "r2 = Ok ()" "r3 = Ok ()" "h' = h3"
    using run by (auto simp: share_pages_def m1 m2 m3 split: outcome.splits prod.splits)
  note p1 = map_in_vm_spec [OF S(1) f0 vw(1) rng m1 disjI1 [OF refl] vw(1)]
  have p2: "two_frame S v w h h2 \<and> (\<forall>u. ptable_of h2 u = ptable_of h1 u)"
    using p1 by (intro clear_memory_spec [OF S(2) _ e48 m2]) simp
  have p3: "\<forall>k. k \<noteq> w \<longrightarrow> ptable_of h3 k = ptable_of h2 k"
    using p2 map_in_vm_spec [OF S(1) _ vw(1) rng m3 disjI2 [OF refl] vw(2)] by blast
  have "remapped S b e fm (ptable_of h v) (ptable_of h1 v)"
    using f0 vw(1) m1 r(1) by (intro map_in_vm_remapped [OF S(1) _ _ _ rng]) (simp_all add: two_frame_def)
  then show "remapped S b e fm (ptable_of h v) (ptable_of h' v)" using p2 p3 vw(3) r(4) by simp
  have "remapped S b e tm (ptable_of h2 w) (ptable_of h3 w)"
    using conjunct1 [OF p2] vw(2) m3 r(3) by (intro map_in_vm_remapped [OF S(1) _ _ _ rng]) (simp_all add: two_frame_def)
  then show "remapped S b e tm (ptable_of h w) (ptable_of h' w)" using p1 p2 vw(3) r(4) by simp
  show "k \<noteq> v \<Longrightarrow> k \<noteq> w \<Longrightarrow> ptable_of h' k = ptable_of h k" using p1 p2 p3 r(4) by simp
  show "mem h' a = (if unat b \<le> unat a \<and> unat a < unat e then 0 else mem h a)"
    using clear_memory_zero [of red b e h1 "()" h2 a] m2 r rng(1) m1 m3
      map_in_vm_mem [of S w "pa_init b" "pa_init e" tm h2] map_in_vm_mem [of S v "pa_init b" "pa_init e" fm h] by simp
qed

lemma share_memory_success:
  assumes "share_memory S red i (ipa_init b) sz share c h = (Ok u, h')"
  obtains w orig h1 where "VmManager_get i (vms h) = Ok (Some w)" "i \<noteq> vm_id (vm_at h (fst c))"
    "4096 dvd unat b" "4096 dvd unat (b + sz)"
    "share_check S share (ipa_init b) (ipa_init (b + sz)) (ptable_of h (fst c)) (ptable_of h w) = Ok orig"
    "share_pages S red (fst c) w (pa_init b) (pa_init (b + sz)) orig (fst (share_modes share)) (snd (share_modes share))
       (h\<lparr>henv := local_pool (henv h)\<rparr>) = (Ok u, h1)"
    "h' = h1\<lparr>henv := drop_local_pool (henv h1)\<rparr>"
proof -
  let ?h = "h\<lparr>henv := local_pool (henv h)\<rparr>" and ?fm = "fst (share_modes share)" and ?tm = "snd (share_modes share)"
  obtain w orig where w: "VmManager_get i (vms h) = Ok (Some w)" "i \<noteq> vm_id (vm_at h (fst c))" "4096 dvd unat b" "4096 dvd unat (b + sz)"
    and chk: "share_check S share (ipa_init b) (ipa_init (b + sz)) (ptable_of h (fst c)) (ptable_of h w) = Ok orig"
    using assms by (auto simp: share_memory_def Let_def is_aligned_page case_prod_beta end_local_def
        split: if_splits outcome.splits option.splits)
  obtain q h1 where sp: "share_pages S red (fst c) w (pa_init b) (pa_init (b + sz)) orig ?fm ?tm ?h = (q, h1)" by fastforce
  have "q = Ok u" "h' = h1\<lparr>henv := drop_local_pool (henv h1)\<rparr>"
    using assms w chk sp by (auto simp: share_memory_def Let_def is_aligned_page case_prod_beta end_local_def split: outcome.splits)
  then show thesis using that [OF w chk] sp by simp
qed

text \<open>
  C5. A successful call to share memory: the sender had access to the whole range, and it or the
  recipient owned it. Afterwards the tables of the sender and of the recipient map every address of
  the range with exactly the attributes of the modes that the kind of sharing asks for, with their
  read, write and execute rights; outside the range the two tables show what they showed, the tables
  of all other VMs are the same, every byte of the range is zero and no other byte has changed.
\<close>

theorem share_memory_correct:
  assumes S: "hf_stage2 S" "reduce_law red" and ok: "hyp_ok S h" and c: "fst c < length (vms h)"
    and run: "share_memory S red i (ipa_init b) sz share c h = (Ok (), h')"
  shows "\<exists>w. VmManager_get i (vms h) = Ok (Some w) \<and> w \<noteq> fst c \<and> unat b < unat (b + sz) \<and>
    (\<forall>x. unat b \<le> x \<and> x < unat (b + sz) \<longrightarrow>
       has_access (perm S (ptable_of h (fst c)) x) \<and>
       (owns (perm S (ptable_of h (fst c)) x) \<or> owns (perm S (ptable_of h w) x)) \<and>
       lookup_ptable S (ptable_of h' (fst c)) x = mode_to_attrs S (fst (share_modes share)) \<and>
       lookup_ptable S (ptable_of h' w) x = mode_to_attrs S (snd (share_modes share))) \<and>
    (\<forall>x u. x < space S \<and> (x < unat b \<or> unat (b + sz) \<le> x) \<and> u \<in> {fst c, w} \<longrightarrow>
       visible S (lookup_ptable S (ptable_of h' u) x) = visible S (lookup_ptable S (ptable_of h u) x)) \<and>
    (\<forall>u. u \<notin> {fst c, w} \<longrightarrow> ptable_of h' u = ptable_of h u) \<and>
    (\<forall>a. mem h' a = (if unat b \<le> unat a \<and> unat a < unat (b + sz) then 0 else mem h a))"
proof -
  let ?h = "h\<lparr>henv := local_pool (henv h)\<rparr>" and ?v = "fst c"
  obtain w orig h1 where w: "VmManager_get i (vms h) = Ok (Some w)" "i \<noteq> vm_id (vm_at h ?v)"
    and al: "4096 dvd unat b" "4096 dvd unat (b + sz)"
    and chk: "share_check S share (ipa_init b) (ipa_init (b + sz)) (ptable_of h ?v) (ptable_of h w) = Ok orig"
    and sp: "share_pages S red ?v w (pa_init b) (pa_init (b + sz)) orig (fst (share_modes share)) (snd (share_modes share)) ?h
       = (Ok (), h1)" and h': "h' = h1\<lparr>henv := drop_local_pool (henv h1)\<rparr>"
    by (rule share_memory_success [OF run])
  note g = get_distinct [OF ok w(1)]
  have vw: "?v < length (vms ?h)" "w < length (vms ?h)" "?v \<noteq> w" using c g w(2) by auto
  have wf: "wf_ptable S (ptable_of h ?v)" "wf_ptable S (ptable_of h w)" using ok vw by (simp_all add: hyp_ok_def)
  have f0: "two_frame S ?v w ?h ?h"
    using ok vw local_pool_ok by (simp add: two_frame_def hyp_ok_def)
  note ck = share_check_good [OF S(1) wf al chk]
  have rng: "unat b < unat (b + sz)" "unat (b + sz) \<le> space S" using ck by simp_all
  note d = share_pages_done [OF S vw f0 rng al sp]
  have same: "ptable_of ?h k = ptable_of h k" "ptable_of h' k = ptable_of h1 k" "mem ?h = mem h" "mem h' = mem h1" for k
    by (simp_all add: h')
  have acc: "has_access (mode_perm orig)"
    using chk by (auto simp: share_check_def state_bits has_access_def mode_perm_def split: outcome.splits if_splits)
  have 1: "has_access (perm S (ptable_of h ?v) x) \<and> (owns (perm S (ptable_of h ?v) x) \<or> owns (perm S (ptable_of h w) x)) \<and>
      lookup_ptable S (ptable_of h' ?v) x = mode_to_attrs S (fst (share_modes share)) \<and>
      lookup_ptable S (ptable_of h' w) x = mode_to_attrs S (snd (share_modes share))"
    if x: "unat b \<le> x" "x < unat (b + sz)" for x
    using ck acc d(1,2) x rng(2) unfolding same remapped_def by (auto simp: settled_def)
  have 2: "visible S (lookup_ptable S (ptable_of h' u) x) = visible S (lookup_ptable S (ptable_of h u) x)"
    if x: "x < space S" "x < unat b \<or> unat (b + sz) \<le> x" and u: "u \<in> {?v, w}" for x u
    using d(1,2) x u unfolding same remapped_def by (auto split: if_splits)
  have 3: "ptable_of h' u = ptable_of h u" if "u \<notin> {?v, w}" for u
    using d(3) [of u] that unfolding same by simp
  have 4: "mem h' a = (if unat b \<le> unat a \<and> unat a < unat (b + sz) then 0 else mem h a)" for a
    using d(4) [of a] unfolding same .
  show ?thesis using w(1) vw(3) rng(1) 1 2 3 4 by blast
qed

section \<open>A gigabyte at a time\<close>

text \<open>Mapping or unmapping the first gigabyte replaces one entry and needs no page.\<close>

lemma one_gib_level:
  assumes "is_block_allowed S 2"
  shows "\<exists>p' env'. map_level S 0x40000000 at fl 2 0 (p # ps) env = (Ok (), p' # ps, env')"
  using assms unfolding map_level_2 map_table_def Let_def demo_sizes
  by (simp add: map_entry_def Let_def case_prod_beta demo_sizes min_def)

lemma one_gib_root:
  assumes "is_block_allowed S 2" "tables t = (p # ps) # ts"
  shows "\<exists>p' env'. map_root S 0 0x40000000 at 3 fl t env = (Ok (), t\<lparr>tables := (p' # ps) # ts\<rparr>, env')"
proof -
  obtain p' env' where "map_level S 0x40000000 at fl 2 0 (p # ps) env = (Ok (), p' # ps, env')"
    using one_gib_level [OF assms(1)] by blast
  then have "map_root S 0 0x40000000 at 3 fl t env = (Ok (), t\<lparr>tables := (p' # ps) # ts\<rparr>, env')"
    using assms(2) by (simp add: map_root_def Let_def demo_sizes)
  then show ?thesis by blast
qed

lemma one_gib_update:
  assumes "hf_stage S" "max_level S = 2" "wf_ptable S t"
  shows "\<exists>t' env'. identity_update S (pa_init 0) (pa_init 0x40000000) at fl t env = (Ok (), t', env')"
proof -
  have blk: "is_block_allowed S 2" and clr: "pa_addr (clear_pa S (pa_init 0)) = 0"
    using assms(1) by (auto simp: hf_stage_def aarch64_stage2_def aarch64_stage1_def arch_mm_is_block_allowed_def demo_addresses)
  note mm = hf_stage_mm [OF assms(1)]
  have "0 < root_table_count S" using mm by (simp add: mm_stage_def mm_stage_axioms_def)
  then have "0x8000000000 \<le> unat (ptable_addr_space_end S)"
    using mm_stage.unat_addr_space_end [OF mm] assms(2) by (simp add: space_def esize_def)
  then have e: "min (round_up_to_page 0x40000000) (ptable_addr_space_end S) = 0x40000000"
    using demo_addresses(1) by (simp add: min_def round_up_to_page_def round_down_to_page_def PAGE_SIZE_def PAGE_BITS_def word_le_nat_alt)
  obtain p ps ts where t: "tables t = (p # ps) # ts"
  proof -
    have "length (tables t) = root_table_count S" "length (tables t ! 0) = 512"
      using assms(3) \<open>0 < root_table_count S\<close> by (simp_all add: wf_ptable_def wf_table_def)
    then show thesis
      using \<open>0 < root_table_count S\<close> that by (cases "tables t"; cases "hd (tables t)") auto
  qed
  obtain p1 env1 where m1: "map_root S 0 0x40000000 at 3 fl t env = (Ok (), t\<lparr>tables := (p1 # ps) # ts\<rparr>, env1)"
    using one_gib_root [OF blk t] by blast
  obtain p2 env2 where "map_root S 0 0x40000000 at 3 (fl OR FLAG_COMMIT) (t\<lparr>tables := (p1 # ps) # ts\<rparr>) env1
      = (Ok (), t\<lparr>tables := (p2 # ps) # ts\<rparr>, env2)"
    using one_gib_root [OF blk, of "t\<lparr>tables := (p1 # ps) # ts\<rparr>" p1 ps ts] by fastforce
  then show ?thesis
    using m1 by (simp add: identity_update_def Let_def e clr assms(2))
qed

lemma one_gib_map:
  assumes "hf_stage S" "max_level S = 2" "wf_ptable S t"
  shows "\<exists>t' env'. identity_map S (pa_init 0) (pa_init 0x40000000) m t env = (Ok (), t', env')"
    and "\<exists>t' env'. PageTable_unmap S (pa_init 0) (pa_init 0x40000000) t env = (Ok (), t', env')"
  unfolding identity_map_def PageTable_unmap_def by (rule one_gib_update [OF assms])+

lemma demo_owned_mode: "\<exists>m. get_mode demo_stage (ipa_init 0) (ipa_init 0x40000000) demo_owned = Ok m \<and> mode_perm m = (True, True, True)"
proof -
  let ?m = "MODE_R OR MODE_W OR MODE_X"
  obtain t env' where run: "identity_map demo_stage (pa_init 0) (pa_init 0x40000000) ?m demo_table demo_env = (Ok (), t, env')"
    using demo_map_ok by blast
  then have t: "demo_owned = t" by (simp add: demo_owned_def)
  have "lookup_ptable demo_stage t x = mode_to_attrs demo_stage ?m" if "x < 0x40000000" for x
    using identity_map_facts [OF demo_stage_hf demo_wf demo_env_ok _ _ run] that
    by (simp add: demo_space view_step_def hit_def)
  then have "get_attrs demo_stage 0 0x40000000 t = Ok (mode_to_attrs demo_stage ?m)"
    using mm_stage.get_attrs_spec(2) [OF hf_stage_mm [OF demo_stage_hf] demo_owned_perm(1), of 0 "0x40000000"]
    by (simp add: demo_space t)
  then obtain m where m: "get_mode demo_stage (ipa_init 0) (ipa_init 0x40000000) demo_owned = Ok m"
    by (simp add: get_mode_def stage2_fields [OF demo_hf_stage2] t)
  have "perm demo_stage demo_owned 0 = mode_perm m"
    by (rule get_mode_perm [OF demo_hf_stage2 demo_owned_perm(1) m]) simp_all
  then show ?thesis using m demo_owned_perm(2) [of 0] by simp
qed

lemma demo_share_pages:
  fixes h :: hypervisor
  assumes S: "hf_stage2 S" "reduce_law red" "max_level S = 2"
    and f: "two_frame S v w h h" and vw: "v < length (vms h)" "w < length (vms h)" "v \<noteq> w"
  shows "\<exists>h'. share_pages S red v w (pa_init 0) (pa_init 0x40000000) orig fm tm h = (Ok (), h')"
proof -
  note hf = hf_stage2_hf [OF S(1)]
  have g: "0x40000000 \<le> space S" using S(3) mm_stage.root_count_pos [OF hf_stage_mm [OF hf]]
    by (simp add: space_def esize_def)
  have rng: "unat (0 :: usize) < unat (0x40000000 :: usize)" "unat (0x40000000 :: usize) \<le> space S"
    "4096 dvd unat (0 :: usize)" "4096 dvd unat (0x40000000 :: usize)" using g by simp_all
  have map: "\<exists>h'. map_in_vm S u (pa_init 0) (pa_init 0x40000000) m h1 = (Ok (), h')"
    if "two_frame S v w h h1" "u = v \<or> u = w" for u m h1
  proof -
    have "wf_ptable S (ptable_of h1 u)" using that by (auto simp: two_frame_def)
    then obtain t en where "identity_map S (pa_init 0) (pa_init 0x40000000) m (ptable_of h1 u) (henv h1) = (Ok (), t, en)"
      using one_gib_map(1) [OF hf S(3)] by blast
    then show ?thesis by (simp add: map_in_vm_def)
  qed
  obtain h1 where h1: "map_in_vm S v (pa_init 0) (pa_init 0x40000000) fm h = (Ok (), h1)" using map [OF f] by blast
  have f1: "two_frame S v w h h1"
    using map_in_vm_spec [OF S(1) f vw(1) rng h1 disjI1 [OF refl] vw(1)] by simp
  have st1: "max_level aarch64_stage1 = 2" by (simp add: aarch64_stage1_def)
  have wf1: "wf_ptable aarch64_stage1 (hyp_ptable h1)" "env_ok (henv h1)" using f1 by (simp_all add: two_frame_def)
  obtain t1 en1 where m: "identity_map aarch64_stage1 (pa_init 0) (pa_init 0x40000000) MODE_W (hyp_ptable h1) (henv h1) = (Ok (), t1, en1)"
    using one_gib_map(1) [OF hf_stage1_hf st1 wf1(1)] by blast
  have wf2: "wf_ptable aarch64_stage1 t1" using map_any [OF hf_stage1_hf wf1 _ _ m] by simp
  obtain t2 en2 where "PageTable_unmap aarch64_stage1 (pa_init 0) (pa_init 0x40000000) t1 en1 = (Ok (), t2, en2)"
    using one_gib_map(2) [OF hf_stage1_hf st1 wf2] by blast
  moreover have "hyp_writable t1 0 0x40000000"
    using map_writable [OF wf1 _ _ m, of "0x40000000"] by (simp add: space_def esize_def aarch64_stage1_def)
  ultimately obtain h2 where h2: "clear_memory red (pa_init 0) (pa_init 0x40000000) h1 = (Ok (), h2)"
    using m by (simp add: clear_memory_def Let_def pa_difference_def)
  have f2: "two_frame S v w h h2"
    using clear_memory_spec [OF S(2) f1 _ _ h2] by simp
  obtain h3 where "map_in_vm S w (pa_init 0) (pa_init 0x40000000) tm h2 = (Ok (), h3)" using map [OF f2] by blast
  then show ?thesis by (simp add: share_pages_def h1 h2)
qed

lemma demo_share:
  "\<exists>h'. share_memory demo_stage demo_reduce 2 (ipa_init 0) 0x40000000 Give (0, 0) demo_hypervisor = (Ok (), h')"
proof -
  let ?h = "demo_hypervisor\<lparr>henv := local_pool (henv demo_hypervisor)\<rparr>"
  obtain m where m: "get_mode demo_stage (ipa_init 0) (ipa_init 0x40000000) demo_owned = Ok m" "mode_perm m = (True, True, True)"
    using demo_owned_mode by blast
  have get: "VmManager_get 2 (vms demo_hypervisor) = Ok (Some (Suc 0))"
    by (simp add: VmManager_get_def get_vm_index_def HF_VM_ID_OFFSET_def demo_vms)
  have f: "two_frame demo_stage 0 (Suc 0) ?h ?h"
    using demo_hyp_ok local_pool_ok demo_owned_perm(1) demo_wf by (simp add: two_frame_def hyp_ok_def demo_vms)
  have "\<exists>h'. share_pages demo_stage demo_reduce 0 (Suc 0) (pa_init 0) (pa_init 0x40000000) m
      (fst (share_modes Give)) (snd (share_modes Give)) ?h = (Ok (), h')"
    by (rule demo_share_pages [OF demo_hf_stage2 demo_reduce_law _ f]) (simp_all add: demo_vms)
  then obtain h' where "share_pages demo_stage demo_reduce 0 (Suc 0) (pa_init 0) (pa_init 0x40000000) m
      (fst (share_modes Give)) (snd (share_modes Give)) ?h = (Ok (), h')" ..
  then show ?thesis
    using m by (simp add: share_memory_def demo_vms get Let_def share_check_def end_local_def is_aligned_page state_bits mode_perm_def)
qed

theorem share_memory_correct_witness:
  "\<exists>h'. share_memory demo_stage demo_reduce 2 (ipa_init 0) 0x40000000 Give (0, 0) demo_hypervisor = (Ok (), h')
     \<and> lookup_ptable demo_stage (ptable_of h' 0) 0x1000 = mode_to_attrs demo_stage (MODE_INVALID OR MODE_UNOWNED)
     \<and> lookup_ptable demo_stage (ptable_of h' 1) 0x1000 = mode_to_attrs demo_stage (MODE_R OR MODE_W OR MODE_X)
     \<and> mem h' 0x1234 = 0 \<and> mem h' 0x40000000 = mem demo_hypervisor 0x40000000"
proof -
  obtain h' where run: "share_memory demo_stage demo_reduce 2 (ipa_init 0) 0x40000000 Give (0, 0) demo_hypervisor = (Ok (), h')"
    using demo_share by blast
  have get: "VmManager_get 2 (vms demo_hypervisor) = Ok (Some 1)"
    by (simp add: VmManager_get_def get_vm_index_def HF_VM_ID_OFFSET_def demo_vms)
  have look: "\<forall>x. unat (0 :: u64) \<le> x \<and> x < unat (0 + 0x40000000 :: u64) \<longrightarrow>
      lookup_ptable demo_stage (ptable_of h' 0) x = mode_to_attrs demo_stage (fst (share_modes Give)) \<and>
      lookup_ptable demo_stage (ptable_of h' 1) x = mode_to_attrs demo_stage (snd (share_modes Give))"
    and mem: "\<forall>a. mem h' a = (if unat (0 :: u64) \<le> unat a \<and> unat a < unat (0 + 0x40000000 :: u64) then 0 else mem demo_hypervisor a)"
    using share_memory_correct [OF demo_hf_stage2 demo_reduce_law demo_hyp_ok _ run]
    unfolding get outcome.inject option.inject fst_conv by (force simp only: demo_vms)+
  show ?thesis
    using run spec [OF look, of "0x1000"] spec [OF mem, of "0x1234"] spec [OF mem, of "0x40000000"] by simp
qed

section \<open>Running vCPUs\<close>

definition valid_vcpu :: "hypervisor \<Rightarrow> vref \<Rightarrow> bool" where
  "valid_vcpu h t \<longleftrightarrow> fst t < length (vms h) \<and> snd t < length (vcpus (vm_at h (fst t)))"

lemma vcpu_at_update:
  "valid_vcpu h t \<Longrightarrow> vcpu_at (update_vcpu t f h) u = (if u = t then f (vcpu_at h t) else vcpu_at h u)"
  by (cases t; cases u) (auto simp: vcpu_at_def update_vcpu_def vm_at_update valid_vcpu_def)

lemma vcpu_at_update_inner:
  "valid_vcpu h t \<Longrightarrow> vcpu_at (update_vcpu_inner t f h) u =
     (if u = t then (vcpu_at h t)\<lparr>vc_inner := f (vc_inner (vcpu_at h t))\<rparr> else vcpu_at h u)"
  by (simp add: update_vcpu_inner_def vcpu_at_update)

lemma vcpu_at_unlock: "valid_vcpu h t \<Longrightarrow> vcpu_at (unlock t h) u = (if u = t then vcpu_unlock (vcpu_at h t) else vcpu_at h u)"
  by (simp add: unlock_def vcpu_at_update)

lemma vcpu_at_mailbox [simp]: "vcpu_at (update_mailbox v f h) u = vcpu_at h u"
  by (simp add: vcpu_at_def update_mailbox_def update_inner_def vm_at_update)

lemma valid_vcpu_updates [simp]:
  "valid_vcpu (update_vcpu c f h) t = valid_vcpu h t" "valid_vcpu (update_vcpu_inner c g h) t = valid_vcpu h t"
  "valid_vcpu (update_mailbox v k h) t = valid_vcpu h t"
  by (auto simp: valid_vcpu_def update_vcpu_inner_def update_vcpu_def update_mailbox_def update_inner_def vm_at_update)

lemma aborting_updates [simp]: "aborting (vm_at (update_vcpu c f h) v) = aborting (vm_at h v)"
  by (simp add: update_vcpu_def vm_at_update)

lemma prepare_run_spec:
  assumes v: "valid_vcpu h t" and ct: "c \<noteq> t" and run: "vcpu_prepare_run c t ret h = (r, h')"
  shows "(case r of
       Ok _ \<Rightarrow> \<not> inner_lock (vcpu_at h t) \<and> inner_lock (vcpu_at h' t) \<and> cpu (vc_inner (vcpu_at h' t)) = cpu (vc_inner (vcpu_at h c))
         \<and> state (vc_inner (vcpu_at h t)) \<noteq> Off \<and> state (vc_inner (vcpu_at h t)) \<noteq> Aborted \<and> \<not> aborting (vm_at h (fst t))
     | _ \<Rightarrow> inner_lock (vcpu_at h' t) = inner_lock (vcpu_at h t))
    \<and> r \<noteq> Panic \<and> valid_vcpu h' t \<and> (\<forall>u. u \<noteq> t \<longrightarrow> vcpu_at h' u = vcpu_at h u)"
  using run v ct
  by (auto simp: vcpu_prepare_run_def Let_def case_prod_beta vcpu_at_update vcpu_at_update_inner vcpu_at_unlock vcpu_unlock_def unlock_def
      split: if_splits)

text \<open>
  C15. Only the primary VM runs vCPUs, and never one of its own. A vCPU that is handed out was free: its
  lock was not held, it is neither off nor aborted, and its VM is not aborting. Afterwards its lock is
  held and it is on the physical CPU of the caller, so no other CPU can run it until its registers are
  saved. In every other case no lock changes hands, and no other vCPU is touched.
\<close>

theorem vcpu_run_exclusive:
  assumes ok: "hyp_ok S h" and c: "fst c < length (vms h)" and run: "vcpu_run i idx c h = (r, h')"
  shows "case r of
      Ok t \<Rightarrow> current_id h c = HF_PRIMARY_VM_ID \<and> vm_id (vm_at h (fst t)) = i \<and> i \<noteq> HF_PRIMARY_VM_ID
        \<and> \<not> inner_lock (vcpu_at h t) \<and> inner_lock (vcpu_at h' t) \<and> cpu (vc_inner (vcpu_at h' t)) = cpu (vc_inner (vcpu_at h c))
        \<and> state (vc_inner (vcpu_at h t)) \<noteq> Off \<and> state (vc_inner (vcpu_at h t)) \<noteq> Aborted \<and> \<not> aborting (vm_at h (fst t))
        \<and> (\<forall>u. u \<noteq> t \<longrightarrow> vcpu_at h' u = vcpu_at h u)
    | _ \<Rightarrow> \<forall>u. inner_lock (vcpu_at h' u) = inner_lock (vcpu_at h u)"
proof (cases "\<exists>v. current_id h c = HF_PRIMARY_VM_ID \<and> i \<noteq> HF_PRIMARY_VM_ID \<and> VmManager_get i (vms h) = Ok (Some v)
    \<and> unat idx < length (vcpus (vm_at h v))")
  case False
  then have "h' = h" "\<nexists>t. r = Ok t"
    using run by (auto simp: vcpu_run_def Let_def split: if_splits outcome.splits option.splits)
  then show ?thesis by (simp split: outcome.split)
next
  case True
  then obtain v where p: "current_id h c = HF_PRIMARY_VM_ID" "i \<noteq> HF_PRIMARY_VM_ID" and v: "VmManager_get i (vms h) = Ok (Some v)"
    and idx: "unat idx < length (vcpus (vm_at h v))" by blast
  define t where "t = (v, unat idx)"
  note g = get_distinct [OF ok v]
  have t: "valid_vcpu h t" using g(1) idx by (simp add: valid_vcpu_def t_def)
  have ct: "c \<noteq> t" using p g(2) by (auto simp: current_id_def t_def)
  obtain q h1 where pr: "vcpu_prepare_run c t (WaitForInterrupt HF_SLEEP_INDEFINITE) h = (q, h1)" by fastforce
  note f = prepare_run_spec [OF t ct pr]
  have run: "(case q of
      Ok _ \<Rightarrow> if arch_timer_pending (machine h1) (regs (vc_inner (vcpu_at h1 t)))
        then (case internal_interrupt_inject t HF_VIRTUAL_TIMER_INTID t h1 of (Panic, h) \<Rightarrow> (Panic, h)
              | (_, h) \<Rightarrow> (Ok t, update_vcpu_inner t (\<lambda>i. i\<lparr>regs := arch_timer_mask (regs i)\<rparr>) h))
        else (Ok t, h1)
    | Err e \<Rightarrow> (Err e, h1) | Panic \<Rightarrow> (Panic, h1)) = (r, h')"
    unfolding t_def using run p v idx pr [unfolded t_def] by (simp add: vcpu_run_def Let_def)
  show ?thesis
  proof (cases q)
    case (Ok x)
    obtain ri ints where ij: "inject HF_VIRTUAL_TIMER_INTID (interrupts (vcpu_at h1 t)) = (ri, ints)" by fastforce
    have h': "r = Ok t \<and> (h' = h1 \<or> h' = update_vcpu_inner t (\<lambda>i. i\<lparr>regs := arch_timer_mask (regs i)\<rparr>)
        (update_vcpu t (\<lambda>x. x\<lparr>interrupts := ints\<rparr>) h1))"
      using run Ok by (auto simp: internal_interrupt_inject_def ij Let_def split: if_splits outcome.splits)
    then have at: "inner_lock (vcpu_at h' u) = inner_lock (vcpu_at h1 u)" "cpu (vc_inner (vcpu_at h' u)) = cpu (vc_inner (vcpu_at h1 u))"
      "u \<noteq> t \<Longrightarrow> vcpu_at h' u = vcpu_at h1 u" for u
      using f by (cases "u = t"; auto simp: vcpu_at_update vcpu_at_update_inner)+
    show ?thesis using f Ok h' at p g(2) by (simp add: t_def)
  next
    case (Err e)
    then have "inner_lock (vcpu_at h1 u) = inner_lock (vcpu_at h u)" for u
      using f Err by (cases u; cases "u = t") simp_all
    then show ?thesis using run Err by auto
  next
    case Panic
    then show ?thesis using f by simp
  qed
qed

theorem vcpu_run_exclusive_witness:
  "\<exists>h'. vcpu_run 2 0 (0, 0) (update_vcpu_inner (1, 0) (\<lambda>i. i\<lparr>state := Ready\<rparr>) demo_hypervisor) = (Ok (1, 0), h')
     \<and> inner_lock (vcpu_at h' (1, 0))"
proof -
  let ?h = "update_vcpu_inner (1, 0) (\<lambda>i. i\<lparr>state := Ready\<rparr>) demo_hypervisor"
  have ok: "hyp_ok demo_stage ?h" by (rule hyp_ok_frame [OF demo_hyp_ok]) simp
  have at: "vcpu_at ?h (1, 0) = VCpu_new\<lparr>vc_inner := VCpuInner_new\<lparr>state := Ready\<rparr>\<rparr>" "\<not> aborting (vm_at ?h 1)"
    "length (vms ?h) = 2" "vm_id (vm_at ?h 0) = 1" "length (vcpus (vm_at ?h 1)) = 1"
    by (simp_all add: vcpu_at_def vm_at_def update_vcpu_inner_def update_vcpu_def update_vm_def demo_hypervisor_def demo_vm_def VCpu_new_def)
  have get: "VmManager_get 2 (vms ?h) = Ok (Some 1)"
    using at by (simp add: VmManager_get_def get_vm_index_def HF_VM_ID_OFFSET_def)
  have v: "valid_vcpu ?h (1, 0)" using at by (simp add: valid_vcpu_def)
  have "fst (vcpu_prepare_run (0, 0) (1, 0) (WaitForInterrupt HF_SLEEP_INDEFINITE) ?h) = Ok ()"
    using at v by (simp add: vcpu_prepare_run_def Let_def case_prod_beta vcpu_at_update VCpu_new_def VCpuInner_new_def)
  then obtain h1 where pr: "vcpu_prepare_run (0, 0) (1, 0) (WaitForInterrupt HF_SLEEP_INDEFINITE) ?h = (Ok (), h1)"
    by (metis prod.collapse)
  obtain r h' where run: "vcpu_run 2 0 (0, 0) ?h = (r, h')" by fastforce
  have r: "r = Ok (1, 0)"
    using run pr get at
    by (auto simp: vcpu_run_def Let_def current_id_def HF_PRIMARY_VM_ID_def HF_VM_ID_OFFSET_def internal_interrupt_inject_def
        case_prod_beta split: if_splits outcome.splits)
  have "fst (0 :: nat, 0 :: nat) < length (vms ?h)" using at(3) by simp
  from vcpu_run_exclusive [OF ok this run, unfolded r] have "inner_lock (vcpu_at h' (1, 0))" by simp
  then show ?thesis using run r by blast
qed

end
