(* ===== verification/Handler_Props.thy ===== *)
theory Handler_Props
  imports Handler Sharing
begin

text \<open>
  What holds in every state that the exception handlers reach, whatever the VMs put in their
  registers (src/src/arch/aarch64/hypervisor/handler.c and psci_handler.c), and two ways in which the
  handlers of PSCI and of SMC go wrong.
\<close>

section \<open>Exceptions are safe\<close>

lemma smc_handler_frame:
  assumes "smc_handler fw j c h = Some (r, h')"
  shows "mem_frame h h'"
proof -
  let ?r = "regs_r (vcpu_regs h c)"
  obtain q h1 where p: "psci_handler fw c (ucast (?r ! 0)) (?r ! Suc 0) (?r ! 2) (?r ! 3) h = Some (q, h1)"
    using assms by (auto simp: smc_handler_def Let_def split: option.splits)
  obtain q2 h2 where d: "debug_log (ucast (?r ! Suc 0)) c h1 = (q2, h2)" by (metis prod.exhaust)
  have "h' = h1 \<or> h' = h2"
    using assms by (auto simp: smc_handler_def Let_def p d api_debug_log_def split: outcome.splits psci_result.splits if_splits)
  then show ?thesis using psci_frame [OF p] mem_frame_trans [OF psci_frame [OF p] debug_log_frame [OF d]] by auto
qed

lemma handle_smc_frame: "handle_smc fw junk esr c h = Some (r, h') \<Longrightarrow> mem_frame h h'"
  by (auto simp: handle_smc_def Let_def split: option.splits outcome.splits psci_result.splits prod.splits dest!: smc_handler_frame)

lemma as_next_state: "as_next r = (q, h') \<Longrightarrow> snd r = h'"
  by (auto simp: as_next_def split: prod.splits outcome.splits)

lemma api_abort_frame: "api_abort c h = Some (r, h') \<Longrightarrow> mem_frame h h'"
  by (auto simp: api_abort_def dest: simple_frames(5))

lemma sync_lower_exception_frame:
  assumes "sync_lower_exception S fw junk jv hpfar far esr c h = Some (r, h')"
  shows "mem_frame h h'"
proof -
  have w: "mem_frame h1 (snd (wait_for_interrupt c h1))" "mem_frame h1 (snd (spci_yield c h1))" for h1
    using simple_frames(2,4) [of c h1] by (metis prod.collapse)+
  let ?h = "update_vcpu_inner c (\<lambda>i. i\<lparr>regs := (regs i)\<lparr>regs_pc := regs_pc (regs i) + GET_NEXT_PC_INC esr\<rparr>\<rparr>) h"
  show ?thesis
    using assms w [of ?h]
    by (auto simp: sync_lower_exception_def Let_def api_wait_for_interrupt_def api_spci_yield_def
        split: if_splits prod.splits outcome.splits bool.splits dest!: as_next_state dest: handle_smc_frame api_abort_frame)
qed

section \<open>Events\<close>

text \<open>
  An event of a vCPU \<open>c\<close>: it runs, it makes a hypercall or takes another exception, its state is saved
  or restored. Registers, fault addresses, the firmware and uninitialised locals are arbitrary. A panic
  stops the system.
\<close>

inductive vm_event :: "stage \<Rightarrow> reducer \<Rightarrow> hypervisor \<Rightarrow> hypervisor \<Rightarrow> bool" for S red where
  runs: "fst c < length (vms h) \<Longrightarrow>
    vm_event S red h (update_vcpu_inner c (\<lambda>i. i\<lparr>regs := rs\<rparr>) (h\<lparr>mem := m, machine := M\<rparr>))"
| hvc: "fst c < length (vms h) \<Longrightarrow> hvc_handler S red fw a0 a1 a2 a3 c h = Some (r, h') \<Longrightarrow> r \<noteq> Panic \<Longrightarrow> vm_event S red h h'"
| sync: "fst c < length (vms h) \<Longrightarrow> sync_lower_exception S fw junk jv hpfar far esr c h = Some (q, h') \<Longrightarrow> q \<noteq> Panic
    \<Longrightarrow> vm_event S red h h'"
| irq: "fst c < length (vms h) \<Longrightarrow> irq_lower c h = (p, h') \<Longrightarrow> p \<noteq> Panic \<Longrightarrow> vm_event S red h h'"
| fiq: "fst c < length (vms h) \<Longrightarrow> fiq_lower c h = (p, h') \<Longrightarrow> p \<noteq> Panic \<Longrightarrow> vm_event S red h h'"
| serr: "fst c < length (vms h) \<Longrightarrow> serr_lower c h = Some (p, h') \<Longrightarrow> p \<noteq> Panic \<Longrightarrow> vm_event S red h h'"
| save: "fst c < length (vms h) \<Longrightarrow> vm_event S red h (complete_saving_state c h)"
| restore: "fst c < length (vms h) \<Longrightarrow> vm_event S red h (begin_restoring_state c h)"

lemma save_restore_frame: "mem_frame h (complete_saving_state c h)" "mem_frame h (begin_restoring_state c h)"
  by (simp_all add: complete_saving_state_def begin_restoring_state_def api_regs_state_saved_def)

lemma irq_frame: "irq_lower c h = (p, h') \<Longrightarrow> mem_frame h h'" "fiq_lower c h = (p, h') \<Longrightarrow> mem_frame h h'"
  "serr_lower c h = Some (p, h') \<Longrightarrow> mem_frame h h'"
  by (auto simp: irq_lower_def fiq_lower_def serr_lower_def api_preempt_def api_abort_def dest: simple_frames(1,5))

lemma vm_event_safe:
  assumes "vm_event S red h h'" "hf_stage2 S" "reduce_law red" "hyp_ok S h"
  shows "(\<exists>v. safe S v h h') \<or> mem_frame h h'"
  using assms(1)
proof cases
  case (hvc c fw a0 a1 a2 a3 r)
  then show ?thesis using hvc_handler_safe [OF assms(2-4)] by blast
qed (auto intro: save_restore_frame dest: irq_frame sync_lower_exception_frame)

lemma vm_event_ok:
  assumes "vm_event S red h h'" "hf_stage2 S" "reduce_law red" "hyp_ok S h"
  shows "hyp_ok S h' \<and> length (vms h') = length (vms h)"
  using vm_event_safe [OF assms] hyp_ok_frame [OF assms(4)] by (auto simp: safe_def mem_frame_def)

lemma vm_events_ok:
  assumes "(vm_event S red)\<^sup>*\<^sup>* h h'" "hf_stage2 S" "reduce_law red" "hyp_ok S h"
  shows "hyp_ok S h' \<and> length (vms h') = length (vms h)"
  using assms(1)
proof induction
  case (step h1 h2)
  then show ?case using vm_event_ok [OF step.hyps(2) assms(2,3)] by simp
qed (use assms(4) in simp)

section \<open>Properties\<close>


definition demo_firmware :: firmware where
  "demo_firmware = \<lparr>el3_psci_version = PSCI_VERSION_1_1, smc = (\<lambda>_ _ _. Some 0)\<rparr>"

lemma demo_share_refused:
  "\<exists>h'. share_memory demo_stage demo_reduce 1 (ipa_init 0x1000) 0x1000 Give (1, 0) demo_hypervisor = (Err (), h')"
proof -
  obtain m where m: "get_mode demo_stage (ipa_init 0x1000) (ipa_init 0x2000) demo_table = Ok m" "mode_contains m MODE_INVALID"
    using demo_get_mode by blast
  have "VmManager_get 1 (vms demo_hypervisor) = Ok (Some 0)"
    by (simp add: VmManager_get_def get_vm_index_def HF_VM_ID_OFFSET_def demo_vms)
  then show ?thesis
    using m by (simp add: share_memory_def demo_vms Let_def share_check_def end_local_def is_aligned_page)
qed

text \<open>The secondary VM gives a page to the primary VM that it does not own.\<close>

lemma demo_hvc:
  "\<exists>h' b. hvc_handler demo_stage demo_reduce demo_firmware 0xff0e 0x100000000 0x1000 0x1000 (1, 0) demo_hypervisor
     = Some (Ok (Some \<lparr>user_ret = - 1, new_vcpu = None, vi_bit = Some b\<rparr>), h')"
proof -
  obtain h' where run: "share_memory demo_stage demo_reduce 1 (ipa_init 0x1000) 0x1000 Give (Suc 0, 0) demo_hypervisor = (Err (), h')"
    using demo_share_refused by auto
  have psci: "psci_handler demo_firmware (Suc 0, 0) 0xff0e 0x100000000 0x1000 0x1000 demo_hypervisor = Some (Ok NotPsci, demo_hypervisor)"
    by (simp add: psci_handler_def current_id_def demo_vms HF_PRIMARY_VM_ID_def HF_VM_ID_OFFSET_def psci_secondary_vm_handler_def
        PSCI_BLOCKED_def)
  have spci: "spci_handler demo_stage demo_reduce 0xff0e 0x100000000 (Suc 0, 0) demo_hypervisor = None"
    by (simp add: spci_handler_def)
  have call: "hf_calls demo_stage demo_reduce 0xff0e 0x100000000 0x1000 0x1000 (Suc 0, 0) demo_hypervisor = (Ok (- 1, None), h')"
    by (simp add: hf_calls_def api_share_memory_def HfShare_try_from_def run status_code_def plain_code_def)
  show ?thesis by (simp add: hvc_handler_def psci spci call finish_hvc_def update_vi_def)
qed


text \<open>
  C17. A vCPU of a secondary VM that asks PSCI to turn on itself never gets an answer: the hypervisor
  waits for the lock of the vCPU, which is held as long as the vCPU runs, and the CPU is lost. PSCI
  asks for the result \<open>ALREADY_ON\<close>.
\<close>

theorem cpu_on_self_hangs:
  assumes "current_id h c \<noteq> HF_PRIMARY_VM_ID" "snd c < length (vcpus (vm_at h (fst c)))" "length (vcpus (vm_at h (fst c))) < 65536"
    and "inner_lock (vcpu_at h c)"
  shows "hvc_handler S red fw 0x84000003 (word_of_nat (snd c)) entry context c h = None"
proof -
  have i: "unat (vcpu_id_to_index (word_of_nat (snd c))) = snd c"
    using assms(2,3) by (simp add: vcpu_id_to_index_def unat_of_nat unsigned_ucast_eq take_bit_nat_def)
  moreover have "vcpu_id_to_index (word_of_nat (snd c)) < vm_get_vcpu_count (vm_at h (fst c))"
    using i assms(2,3) by (simp add: word_less_nat_alt vm_get_vcpu_count_def unat_of_nat)
  moreover have "vcpu_secondary_reset_and_start c (ipa_init entry) context h = None"
    using assms(1,4) by (simp add: vcpu_secondary_reset_and_start_def Let_def vcpu_lock_def current_id_def)
  ultimately have "psci_vcpu_on c (word_of_nat (snd c)) entry context h = None"
    by (simp add: psci_vcpu_on_def Let_def not_le)
  then show ?thesis
    using assms(1) by (simp add: hvc_handler_def psci_handler_def psci_secondary_vm_handler_def)
qed

theorem cpu_on_self_hangs_witness:
  "hvc_handler demo_stage demo_reduce demo_firmware 0x84000003 0 0x80000 7 (1, 0)
     (update_vcpu (1, 0) (\<lambda>x. x\<lparr>inner_lock := True\<rparr>) demo_hypervisor) = None"
proof -
  let ?h = "update_vcpu (1, 0) (\<lambda>x. x\<lparr>inner_lock := True\<rparr>) demo_hypervisor"
  have "current_id ?h (1, 0) \<noteq> HF_PRIMARY_VM_ID" "length (vcpus (vm_at ?h (fst (1, 0)))) = 1" "inner_lock (vcpu_at ?h (1, 0))"
    by (simp_all add: current_id_def vcpu_at_def vm_at_def update_vcpu_def update_vm_def demo_hypervisor_def demo_vm_def
        HF_PRIMARY_VM_ID_def HF_VM_ID_OFFSET_def)
  then show ?thesis
    using cpu_on_self_hangs [of ?h "(1, 0)" demo_stage demo_reduce demo_firmware "0x80000" 7] by simp
qed

text \<open>
  C16. Any VM can stop the machine with one hypercall: the identifier \<open>0\<close> as the target of an interrupt
  fails the assertion of \<open>get_vm_index\<close>, before it is checked whether the caller may inject
  interrupts, and the hypervisor panics. The interface documents the result \<open>-1\<close> for a VM that does
  not exist.
\<close>

theorem inject_zero_panics: "\<exists>h'. hvc_handler S red fw 0xff0d 0 idx intid c h = Some (Panic, h')"
proof -
  have "psci_handler fw c 0xff0d 0 idx intid h = Some (Ok NotPsci, h)"
    by (simp add: psci_handler_def psci_primary_vm_handler_def psci_secondary_vm_handler_def PSCI_BLOCKED_def)
  moreover have "spci_handler S red 0xff0d 0 c h = None"
    by (simp add: spci_handler_def)
  moreover have "hf_calls S red 0xff0d 0 idx intid c h = (Panic, h)"
    by (simp add: hf_calls_def api_interrupt_inject_def interrupt_inject_def VmManager_get_def get_vm_index_def HF_VM_ID_OFFSET_def
        with_next_def int_code_def)
  ultimately show ?thesis by (simp add: hvc_handler_def finish_hvc_def)
qed

text \<open>
  After an SMC the registers \<open>r1\<close> to \<open>r3\<close> of the VM hold what was on the stack of the hypervisor,
  since only the first word of the result is written.
\<close>

lemma smc_leaks_stack:
  assumes "handle_smc fw (j0, j1, j2, j3) esr c h = Some (Ok (Some nxt), h')"
  shows "\<exists>h1 ret. h' = update_vcpu_inner c (\<lambda>i. i\<lparr>regs := (regs i)\<lparr>regs_pc := regs_pc (vcpu_regs h c) + GET_NEXT_PC_INC esr,
    regs_r := (regs_r (regs i))[0 := ret, 1 := j1, 2 := j2, 3 := j3]\<rparr>\<rparr>) h1"
  using assms by (auto simp: handle_smc_def Let_def split: option.splits outcome.splits psci_result.splits prod.splits)

end
