(* ===== verification/Boot.thy ===== *)
theory Boot
  imports Load_Correct Handler_Props
begin

text \<open>
  The boot sequence: src/hfo2/src/init.rs, src/hfo2/src/boot_flow.rs and the rest of
  src/hfo2/src/boot_params.rs, with the two boot flows of src/src/boot_flow.

  \<open>one_time_init\<close> runs on the boot CPU before any other CPU is on: it creates the pool and the
  page table of the hypervisor, reads the manifest and the boot parameters from the device tree,
  loads the VMs and patches the device tree. An error is a panic there (\<open>expect\<close>). What the linker
  and the firmware provide is collected in the record \<open>platform\<close>; the console driver is an
  argument, and enabling the MMU and the locks of the log and of the pool has no counterpart in the
  state. The buffer for the names of VM nodes is on the stack, so what \<open>Manifest::init\<close> leaves in
  it is dropped.
\<close>

section \<open>Boot flows\<close>

text \<open>
  The device tree is passed by the boot loader (src/src/boot_flow/linux.c), or it is part of the image
  of the hypervisor together with the RAM disk (src/src/boot_flow/android.c).
\<close>

datatype boot_flow =
    LinuxFlow (plat_fdt_addr: uintreg_t)
  | AndroidFlow (layout_fdt_begin: paddr_t) (layout_initrd_begin: paddr_t) (layout_initrd_end: paddr_t)

fun plat_get_fdt_addr :: "boot_flow \<Rightarrow> paddr_t" where
  "plat_get_fdt_addr (LinuxFlow a) = pa_init a"
| "plat_get_fdt_addr (AndroidFlow fdt b e) = fdt"

fun plat_get_kernel_arg :: "boot_flow \<Rightarrow> uintreg_t" where
  "plat_get_kernel_arg (LinuxFlow a) = a"
| "plat_get_kernel_arg (AndroidFlow fdt b e) = 0"

fun plat_get_initrd_range ::
  "boot_flow \<Rightarrow> (usize \<Rightarrow> u8) \<Rightarrow> literals \<Rightarrow> fdt_node \<Rightarrow> paddr_t \<times> paddr_t \<Rightarrow> (bool \<times> paddr_t \<times> paddr_t) res option" where
  "plat_get_initrd_range (LinuxFlow a) m lit n out = fdt_find_initrd m lit n out"
| "plat_get_initrd_range (AndroidFlow fdt b e) m lit n out = Some (Ok (True, b, e))"

definition get_initrd_range :: "boot_flow \<Rightarrow> (usize \<Rightarrow> u8) \<Rightarrow> literals \<Rightarrow> FdtNode \<Rightarrow> (paddr_t \<times> paddr_t) res option" where
  "get_initrd_range flow m lit fdt_root =
     run_bind (plat_get_initrd_range flow m lit (fdt_node_from fdt_root) (pa_init 0, pa_init 0)) (\<lambda>(found, range).
       Some (if found then Ok range else Err ()))"

section \<open>Boot parameters\<close>

definition BootParams_init ::
  "boot_flow \<Rightarrow> (usize \<Rightarrow> u8) \<Rightarrow> literals \<Rightarrow> FdtNode \<Rightarrow> boot_params \<Rightarrow> boot_params res option" where
  "BootParams_init flow m lit fdt_root p =
     (let p = p\<lparr>mem_ranges_count := 0, kernel_arg := plat_get_kernel_arg flow\<rparr>
      in run_bind (get_initrd_range flow m lit fdt_root) (\<lambda>(b, e).
         let p = p\<lparr>initrd_begin := b, initrd_end := e\<rparr>
         in run_bind (find_cpus m lit fdt_root) (\<lambda>found.
            case found of
              None \<Rightarrow> Some (Err ())
            | Some xs \<Rightarrow>
                run_bind (find_memory_ranges m lit fdt_root (p\<lparr>cpu_ids := xs\<rparr>)) (\<lambda>r.
                  Some (case r of None \<Rightarrow> Err () | Some p' \<Rightarrow> Ok p')))))"

definition boot_params_patch_fdt ::
  "literals \<Rightarrow> layout \<Rightarrow> boot_flow \<Rightarrow> boot_params_update \<Rightarrow> (usize \<Rightarrow> u8) \<Rightarrow> ptable \<Rightarrow> menv
     \<Rightarrow> (unit res \<times> (usize \<Rightarrow> u8) \<times> ptable \<times> menv) option" where
  "boot_params_patch_fdt lit lay flow p m t env = patch lit lay (plat_get_fdt_addr flow) p m t env"

section \<open>Reading the device tree\<close>

text \<open>The \<open>try\<close> block of \<open>boot_flow_init\<close>.\<close>

definition read_boot_data ::
  "boot_flow \<Rightarrow> (usize \<Rightarrow> u8) \<Rightarrow> literals \<Rightarrow> usize \<Rightarrow> FdtNode \<Rightarrow> boot_params \<Rightarrow> (manifest_vm list \<times> boot_params) res option" where
  "read_boot_data flow m lit buf fdt_root p =
     run_bind (find_child m (lit []) fdt_root) (\<lambda>(found, fdt_root).
       if found = None then Some (Err ())
       else
         run_case (Manifest_init m lit buf fdt_root) (\<lambda>manifest.
           run_bind (BootParams_init flow m lit fdt_root p) (\<lambda>p. Some (Ok (manifest, p))))
           (\<lambda>_. Some (Err ())))"

definition boot_flow_init ::
  "boot_flow \<Rightarrow> (usize \<Rightarrow> u8) \<Rightarrow> literals \<Rightarrow> usize \<Rightarrow> boot_params \<Rightarrow> ptable \<Rightarrow> menv
     \<Rightarrow> ((manifest_vm list \<times> boot_params) res \<times> ptable \<times> menv) option" where
  "boot_flow_init flow m lit buf p t env =
     (case handler_map m (plat_get_fdt_addr flow) t env of
        (Ok (Some fdt_root), t, env) \<Rightarrow>
          (case read_boot_data flow m lit buf fdt_root p of
             None \<Rightarrow> None
           | Some Panic \<Rightarrow> Some (Panic, t, env)
           | Some ret \<Rightarrow>
               (case handler_unmap m (pa_addr (plat_get_fdt_addr flow)) t env of
                  (Ok _, t, env) \<Rightarrow> Some (ret, t, env)
                | (Err _, t, env) \<Rightarrow> Some (Err (), t, env)
                | (Panic, t, env) \<Rightarrow> Some (Panic, t, env)))
      | (Ok None, t, env) \<Rightarrow> Some (Err (), t, env)
      | (Err e, t, env) \<Rightarrow> Some (Err e, t, env)
      | (Panic, t, env) \<Rightarrow> Some (Panic, t, env))"

section \<open>Initialisation\<close>

definition HEAP_PAGES :: usize where "HEAP_PAGES = 60"

record platform =
  pl_flow :: boot_flow
  pl_layout :: layout
  pl_primary_begin :: paddr_t
  pl_literals :: literals
  pl_trailer :: usize
  pl_name_buf :: usize
  pl_names :: "nat \<Rightarrow> usize"
  pl_ptable_buf :: usize
  pl_callstacks :: "usize list"
  pl_boot_cpu_id :: cpu_id_t
  pl_features :: u64
  pl_console :: "ptable \<Rightarrow> menv \<Rightarrow> ptable \<times> menv"
  pl_raw_vm :: vm
  pl_raw_params :: boot_params

text \<open>\<open>Hypervisor::new\<close> with no VM.\<close>

definition Hypervisor_new :: "menv \<Rightarrow> ptable \<Rightarrow> cpu list \<Rightarrow> links \<Rightarrow> (usize \<Rightarrow> u8) \<Rightarrow> (usize \<Rightarrow> u8) \<Rightarrow> machine \<Rightarrow> hypervisor" where
  "Hypervisor_new env t cs ls m mb M =
     \<lparr>henv = env, hyp_ptable = t, cpus = cs, vms = [], links = ls, mem = m, msg_buffers = mb, machine = M\<rparr>"

text \<open>From the creation of the pool to the creation of \<open>HYPERVISOR\<close>.\<close>

definition init_hypervisor ::
  "platform \<Rightarrow> links \<Rightarrow> (usize \<Rightarrow> u8) \<Rightarrow> (usize \<Rightarrow> u8) \<Rightarrow> machine \<Rightarrow> (stage \<times> manifest_vm list \<times> boot_params \<times> hypervisor) res option" where
  "init_hypervisor P ls m mb M =
     (let env = \<lparr>mpool = MPool_free_pages MPool_new (pl_ptable_buf P, HEAP_PAGES), stage2_invalidate = False, trace = []\<rparr>;
          geometry = arch_mm_init (pl_features P)
      in case MemoryManager_new aarch64_stage1 (pl_layout P) (pl_console P) (geometry \<noteq> None) env of
           (Ok mm, env) \<Rightarrow>
             (case boot_flow_init (pl_flow P) m (pl_literals P) (pl_name_buf P) (pl_raw_params P) (hypervisor_ptable mm) env of
                None \<Rightarrow> None
              | Some (Ok (manifest, params), t, env) \<Rightarrow>
                  (case CpuManager_new (cpu_ids params) (pl_boot_cpu_id P) (pl_callstacks P) of
                     Ok cs \<Rightarrow>
                       let (ml, rc) = the geometry
                       in Some (Ok (aarch64_stage2 ml rc, manifest, params, Hypervisor_new env t cs ls m mb M))
                   | _ \<Rightarrow> Some Panic)
              | Some _ \<Rightarrow> Some Panic)
         | _ \<Rightarrow> Some Panic)"

text \<open>
  From the loop that logs the memory ranges, which panics out of the bounds of the array, and the
  mapping of the RAM disk to the end.
\<close>

definition load_hypervisor ::
  "platform \<Rightarrow> reducer \<Rightarrow> stage \<Rightarrow> manifest_vm list \<Rightarrow> boot_params \<Rightarrow> hypervisor \<Rightarrow> hypervisor res option" where
  "load_hypervisor P red S manifest params h =
     (if mem_ranges_count params > length (mem_ranges params) then Some Panic
      else case identity_map aarch64_stage1 (initrd_begin params) (initrd_end params) MODE_R (hyp_ptable h) (henv h) of
        (Ok _, t, env) \<Rightarrow>
          let h = h\<lparr>hyp_ptable := t, henv := env\<rparr>;
              initrd = pa_addr (initrd_begin params);
              cpio = MemIter_from_raw initrd (pa_difference (initrd_begin params) (initrd_end params))
          in (case load_primary S (pl_literals P) (pl_trailer P) (pl_layout P) (pl_raw_vm P) (pl_primary_begin P) cpio (kernel_arg params) h of
                None \<Rightarrow> None
              | Some (Ok primary_initrd, h) \<Rightarrow>
                  let update = BootParamsUpdate_new (pa_init (it_next primary_initrd)) (pa_init (it_limit primary_initrd))
                  in (case load_secondary S (pl_trailer P) (pl_raw_vm P) (pl_names P) manifest cpio params update h of
                        None \<Rightarrow> None
                      | Some (Ok update, h) \<Rightarrow>
                          (case boot_params_patch_fdt (pl_literals P) (pl_layout P) (pl_flow P) update (mem h) (hyp_ptable h) (henv h) of
                             None \<Rightarrow> None
                           | Some (Ok _, m, t, env) \<Rightarrow>
                               let (t, env) = PageTable_defrag aarch64_stage1 red t env
                               in Some (Ok (h\<lparr>mem := m, hyp_ptable := t, henv := mm_vm_enable_invalidation env\<rparr>))
                           | Some _ \<Rightarrow> Some Panic)
                      | Some _ \<Rightarrow> Some Panic)
              | Some _ \<Rightarrow> Some Panic)
      | _ \<Rightarrow> Some Panic)"

text \<open>
  A CPU is the record \<open>boot_cpu\<close> of the entry code, or one of the CPUs of the manager. \<open>None\<close> is the
  state before \<open>INITED\<close> is set.
\<close>

datatype cpu_ptr = BootCpu | ManagedCpu nat

definition one_time_init ::
  "platform \<Rightarrow> reducer \<Rightarrow> links \<Rightarrow> (usize \<Rightarrow> u8) \<Rightarrow> (usize \<Rightarrow> u8) \<Rightarrow> machine \<Rightarrow> cpu_ptr \<Rightarrow> (stage \<times> hypervisor) option
     \<Rightarrow> (cpu_ptr \<times> (stage \<times> hypervisor) option) res option" where
  "one_time_init P red ls m mb M c st =
     (if c \<noteq> BootCpu \<or> st \<noteq> None then Some (Ok (c, st))
      else
        run_bind (init_hypervisor P ls m mb M) (\<lambda>(S, manifest, params, h).
        run_bind (load_hypervisor P red S manifest params h) (\<lambda>h.
          Some (Ok (ManagedCpu 0, Some (S, h))))))"

text \<open>\<open>cpu_main\<close> returns the vCPU of the primary VM that belongs to the CPU.\<close>

definition cpu_main :: "nat \<Rightarrow> hypervisor \<Rightarrow> vref res \<times> hypervisor" where
  "cpu_main c h =
     (if vms h = [] \<or> length (vcpus (vm_at h get_primary)) \<le> c then (Panic, h)
      else
        let vm = vm_at h get_primary
        in (Ok (get_primary, c),
            update_vcpu_inner (get_primary, c)
              (\<lambda>i. i\<lparr>cpu := Some c,
                     regs := arch_regs_reset (machine h) True (vm_id vm) (cpu_id (cpus h ! c)) (get_ptable_raw vm) (regs i)\<rparr>) h))"

section \<open>The boot sequence establishes the invariant\<close>

definition boot_tables_ok :: "ptable \<Rightarrow> menv \<Rightarrow> bool" where
  "boot_tables_ok t env \<longleftrightarrow> wf_ptable aarch64_stage1 t \<and> env_ok env"

lemma pa_init_addr [simp]: "pa_init (pa_addr q) = q"
  by (simp add: addr_defs)

text \<open>Ranges that \<open>map\<close> and \<open>unmap\<close> accept without wrapping around.\<close>

definition mappable :: "paddr_t \<Rightarrow> paddr_t \<Rightarrow> bool" where
  "mappable b e \<longleftrightarrow> unat (pa_addr b) < 2 ^ 48 \<and> unat (pa_addr e) + 4095 < 2 ^ 64"

lemma boot_map:
  assumes "identity_map aarch64_stage1 b e md t env = (r, t', env')" "boot_tables_ok t env" "mappable b e"
  shows "boot_tables_ok t' env'"
  using map_any [OF hf_stage1_hf, of t env "pa_addr b" "pa_addr e" md r t' env'] assms by (simp add: boot_tables_ok_def mappable_def)

lemma boot_unmap:
  assumes "PageTable_unmap aarch64_stage1 b e t env = (r, t', env')" "boot_tables_ok t env" "mappable b e"
  shows "boot_tables_ok t' env'"
  using unmap_any [OF hf_stage1_hf, of t env "pa_addr b" "pa_addr e" r t' env'] assms by (simp add: boot_tables_ok_def mappable_def)

text \<open>The device tree ends where its 32-bit size says, plus a page while it is patched.\<close>

lemma fdt_mappable:
  assumes "unat (pa_addr a) < 2 ^ 48" "unat n \<le> 2 ^ 33"
  shows "mappable a (pa_add a n)"
proof -
  have "unat (pa_addr a + n) \<le> unat (pa_addr a) + unat n" by (simp add: unat_word_ariths)
  then show ?thesis using assms by (simp add: pa_add_def addr_defs mappable_def)
qed

lemma fdt_size_bound:
  "unat (ucast (s :: u32) :: usize) \<le> 2 ^ 33" "unat (ucast (s :: u32) + PAGE_SIZE :: usize) \<le> 2 ^ 33" "unat size_of_FdtHeader \<le> 2 ^ 33"
proof -
  have "unat s < 2 ^ 32" using unsigned_less [of s] by simp
  moreover have u: "unat (ucast s :: usize) = unat s"
    using calculation by (simp add: unsigned_ucast_eq take_bit_nat_eq_self)
  moreover have "unat (ucast s + PAGE_SIZE :: usize) \<le> unat (ucast s :: usize) + unat PAGE_SIZE"
    by (simp add: unat_word_ariths)
  ultimately show "unat (ucast s :: usize) \<le> 2 ^ 33" "unat (ucast s + PAGE_SIZE :: usize) \<le> 2 ^ 33"
    by (simp_all add: PAGE_SIZE_def PAGE_BITS_def)
qed (simp add: size_of_FdtHeader_def)

lemmas fdt_bounds = fdt_mappable [OF _ fdt_size_bound(1)] fdt_mappable [OF _ fdt_size_bound(2)] fdt_mappable [OF _ fdt_size_bound(3)]

lemma with_unmap_ok:
  assumes "with_unmap b e q t env = (r, t', env')" "boot_tables_ok t env" "mappable b e"
  shows "boot_tables_ok t' env'"
  using assms boot_unmap by (auto simp: with_unmap_def split: prod.splits outcome.splits)

lemma handler_map_ok:
  assumes "handler_map m a t env = (r, t', env')" "boot_tables_ok t env" "unat (pa_addr a) < 2 ^ 48"
  shows "boot_tables_ok t' env'"
  using assms(1,2) fdt_bounds [OF assms(3)]
  by (auto simp: handler_map_def Let_def split: prod.splits outcome.splits option.splits dest!: boot_map with_unmap_ok)

lemma handler_unmap_ok:
  assumes "handler_unmap m (pa_addr a) t env = (r, t', env')" "boot_tables_ok t env" "unat (pa_addr a) < 2 ^ 48"
  shows "boot_tables_ok t' env'"
  using assms(1) boot_unmap [OF _ assms(2) fdt_bounds(1) [OF assms(3)]] by (simp add: handler_unmap_def)

lemma patch_ok:
  assumes "patch lit lay a p m t env = Some (r, m', t', env')" "boot_tables_ok t env" "unat (pa_addr a) < 2 ^ 48"
  shows "boot_tables_ok t' env'"
  using assms(1,2) fdt_bounds [OF assms(3)]
  by (auto simp: patch_def Let_def split: prod.splits outcome.splits option.splits dest!: boot_map boot_unmap with_unmap_ok)

lemma handler_map_root:
  assumes "fst (handler_map m a t env) = Ok (Some fdt_root)"
  shows "new_root m (pa_addr a) = Some fdt_root"
  using assms by (auto simp: handler_map_def with_unmap_def Let_def split: prod.splits outcome.splits option.splits)

lemma boot_flow_init_ok:
  assumes "boot_flow_init flow m lit buf p t env = Some (r, t', env')" "boot_tables_ok t env"
    "unat (pa_addr (plat_get_fdt_addr flow)) < 2 ^ 48"
  shows "boot_tables_ok t' env'"
    "r = Ok (manifest, params) \<Longrightarrow> \<exists>fdt_root. new_root m (pa_addr (plat_get_fdt_addr flow)) = Some fdt_root \<and>
       read_boot_data flow m lit buf fdt_root p = Some (Ok (manifest, params))"
proof -
  let ?a = "plat_get_fdt_addr flow"
  obtain q t1 env1 where m1: "handler_map m ?a t env = (q, t1, env1)" by (metis prod.exhaust)
  obtain q2 t2 env2 where m2: "handler_unmap m (pa_addr ?a) t1 env1 = (q2, t2, env2)" by (metis prod.exhaust)
  note ok1 = handler_map_ok [OF m1 assms(2,3)]
  note ok2 = handler_unmap_ok [OF m2 ok1 assms(3)]
  show "boot_tables_ok t' env'"
    using assms(1) ok1 ok2 by (auto simp: boot_flow_init_def m1 m2 split: outcome.splits option.splits)
  have "q = Ok (Some fdt_root) \<Longrightarrow> new_root m (pa_addr ?a) = Some fdt_root" for fdt_root
    using handler_map_root [of m ?a t env] m1 by simp
  then show "\<exists>fdt_root. new_root m (pa_addr ?a) = Some fdt_root \<and> read_boot_data flow m lit buf fdt_root p = Some (Ok (manifest, params))"
    if "r = Ok (manifest, params)"
    using assms(1) that by (auto simp: boot_flow_init_def m1 m2 split: outcome.splits option.splits)
qed

lemma MemoryManager_new_ok:
  assumes run: "MemoryManager_new aarch64_stage1 lay console arch_ok env = (Ok mm, env')" and ok: "env_ok env" "layout_ok lay"
    and console: "\<And>t env t' env'. console t env = (t', env') \<Longrightarrow> boot_tables_ok t env \<Longrightarrow> boot_tables_ok t' env'"
  shows "boot_tables_ok (hypervisor_ptable mm) env'"
proof -
  obtain t0 env0 where n: "PageTable_new aarch64_stage1 env = (Ok t0, env0)"
    using run by (auto simp: MemoryManager_new_def split: prod.splits outcome.splits)
  obtain t1 env1 where c: "console t0 env0 = (t1, env1)" by (metis prod.exhaust)
  have "boot_tables_ok t0 env0"
    using mm_stage.PageTable_new_spec [OF hf_stage_mm [OF hf_stage1_hf] ok(1) n] by (simp add: boot_tables_ok_def)
  then have "boot_tables_ok t1 env1" by (rule console [OF c])
  moreover have "mappable (text_begin lay) (text_end lay)" "mappable (rodata_begin lay) (rodata_end lay)"
    "mappable (data_begin lay) (data_end lay)"
    using ok(2) by (simp_all add: layout_ok_def mappable_def)
  ultimately show ?thesis
    using run by (auto simp: MemoryManager_new_def n c split: prod.splits outcome.splits if_splits dest!: boot_map)
qed

section \<open>Assumptions on the platform\<close>

text \<open>
  What the boot sequence relies on: the image, the device tree and the pool are in the 48-bit address
  space, and the console driver keeps the table well-formed. The memory ranges of the device tree are
  not checked by the code; they have to be disjoint and in the 48-bit address space.
\<close>

definition platform_ok :: "platform \<Rightarrow> bool" where
  "platform_ok P \<longleftrightarrow>
     layout_ok (pl_layout P) \<and> unat (pa_addr (pl_primary_begin P)) < 2 ^ 48 \<and>
     unat (pa_addr (plat_get_fdt_addr (pl_flow P))) < 2 ^ 48 \<and>
     4096 dvd unat (pl_ptable_buf P) \<and> unat (pl_ptable_buf P) + 60 * 4096 < 2 ^ 48 \<and>
     (\<forall>t env. boot_tables_ok t env \<longrightarrow> (case pl_console P t env of (t', env') \<Rightarrow> boot_tables_ok t' env'))"

definition boot_params_ok :: "boot_params \<Rightarrow> bool" where
  "boot_params_ok params \<longleftrightarrow>
     ranges_ok (take (mem_ranges_count params) (mem_ranges params)) \<and>
     unat (pa_addr (initrd_begin params)) < 2 ^ 48 \<and> unat (pa_addr (initrd_end params)) < 2 ^ 63"

lemma platform_console:
  assumes "platform_ok P" "pl_console P t env = (t', env')" "boot_tables_ok t env"
  shows "boot_tables_ok t' env'"
proof -
  have "\<forall>t env. boot_tables_ok t env \<longrightarrow> (case pl_console P t env of (t', env') \<Rightarrow> boot_tables_ok t' env')"
    using assms(1) by (simp add: platform_ok_def)
  from this [rule_format, OF assms(3)] show ?thesis by (simp add: assms(2))
qed

lemma boot_pool_ok:
  assumes "platform_ok P"
  shows "env_ok \<lparr>mpool = MPool_free_pages MPool_new (pl_ptable_buf P, HEAP_PAGES), stage2_invalidate = False, trace = []\<rparr>"
proof -
  let ?a = "pl_ptable_buf P"
  have a: "4096 dvd unat ?a" "unat ?a + 60 * 4096 < 2 ^ 48" using assms by (simp_all add: platform_ok_def)
  have "frame_at 0 page" if pg: "page \<in> set (chunk_pages ?a 60)" for page
  proof -
    obtain i where i: "i < 60" "page = ?a + of_nat i * 4096"
      using pg by (auto simp: chunk_pages_def PAGE_SIZE_def PAGE_BITS_def)
    then have "unat page = unat ?a + i * 4096"
      using a(2) by (simp add: unat_word_ariths unat_of_nat)
    then show ?thesis using a i(1) by (simp add: frame_at_def esize_0)
  qed
  then show ?thesis
    using a by (simp add: env_ok_def MPool_new_def Pool_new_def chunk_ok_def HEAP_PAGES_def pool_ok_def pool_pages_def)
qed

section \<open>From reset to a running hypervisor\<close>

lemma init_hypervisor_ok:
  assumes "init_hypervisor P ls m mb M = Some (Ok (S, manifest, params, h))" "platform_ok P"
  shows "hf_stage2 S \<and> boot_tables_ok (hyp_ptable h) (henv h) \<and> vms h = [] \<and>
    (\<exists>fdt_root. new_root m (pa_addr (plat_get_fdt_addr (pl_flow P))) = Some fdt_root \<and>
       read_boot_data (pl_flow P) m (pl_literals P) (pl_name_buf P) fdt_root (pl_raw_params P) = Some (Ok (manifest, params)))"
proof -
  let ?env = "\<lparr>mpool = MPool_free_pages MPool_new (pl_ptable_buf P, HEAP_PAGES), stage2_invalidate = False, trace = []\<rparr>"
  let ?flow = "pl_flow P"
  obtain mm env1 t env2 cs ml rc where
    mm: "MemoryManager_new aarch64_stage1 (pl_layout P) (pl_console P) (arch_mm_init (pl_features P) \<noteq> None) ?env = (Ok mm, env1)"
    and bf: "boot_flow_init ?flow m (pl_literals P) (pl_name_buf P) (pl_raw_params P) (hypervisor_ptable mm) env1
      = Some (Ok (manifest, params), t, env2)"
    and S: "the (arch_mm_init (pl_features P)) = (ml, rc)" "S = aarch64_stage2 ml rc"
    and h: "h = Hypervisor_new env2 t cs ls m mb M"
    using assms(1) by (auto simp: init_hypervisor_def Let_def split: prod.splits outcome.splits option.splits)
  have "arch_mm_init (pl_features P) \<noteq> None"
    using mm by (auto simp: MemoryManager_new_def split: prod.splits outcome.splits if_splits)
  then have "arch_mm_init (pl_features P) = Some (ml, rc)" using S(1) by auto
  then have "hf_stage2 S" using S(2) by (auto simp: hf_stage2_def)
  moreover have "boot_tables_ok (hypervisor_ptable mm) env1"
    using assms(2) by (intro MemoryManager_new_ok [OF mm boot_pool_ok [OF assms(2)] _ platform_console [OF assms(2)]]) (simp_all add: platform_ok_def)
  then have "boot_tables_ok t env2" using boot_flow_init_ok(1) [OF bf] assms(2) by (simp add: platform_ok_def)
  moreover have "\<exists>fdt_root. new_root m (pa_addr (plat_get_fdt_addr ?flow)) = Some fdt_root \<and>
      read_boot_data ?flow m (pl_literals P) (pl_name_buf P) fdt_root (pl_raw_params P) = Some (Ok (manifest, params))"
    using boot_flow_init_ok(2) [OF bf] \<open>boot_tables_ok (hypervisor_ptable mm) env1\<close> assms(2) by (simp add: platform_ok_def)
  ultimately show ?thesis by (simp add: h Hypervisor_new_def)
qed

lemma hyp_ok_update:
  assumes "hyp_ok S h" "wf_ptable aarch64_stage1 t" "env_ok env"
  shows "hyp_ok S (h\<lparr>mem := m, hyp_ptable := t, henv := env\<rparr>)"
  using assms by (simp add: hyp_ok_def isolated_def isolated_at_def ptable_of_def vm_at_def)

lemma load_hypervisor_ok:
  assumes run: "load_hypervisor P red S manifest params h = Some (Ok h')"
    and S: "hf_stage2 S" and red: "reduce_law red" and P: "platform_ok P" and params: "boot_params_ok params"
    and h: "boot_tables_ok (hyp_ptable h) (henv h)" "vms h = []"
  shows "hyp_ok S h'"
proof -
  let ?cpio = "MemIter_from_raw (pa_addr (initrd_begin params)) (pa_difference (initrd_begin params) (initrd_end params))"
  obtain u t env it h1 upd h2 m3 t3 env3 t4 env4 where
    mp: "identity_map aarch64_stage1 (initrd_begin params) (initrd_end params) MODE_R (hyp_ptable h) (henv h) = (Ok u, t, env)"
    and lp: "load_primary S (pl_literals P) (pl_trailer P) (pl_layout P) (pl_raw_vm P) (pl_primary_begin P) ?cpio (kernel_arg params)
      (h\<lparr>hyp_ptable := t, henv := env\<rparr>) = Some (Ok it, h1)"
    and ls: "load_secondary S (pl_trailer P) (pl_raw_vm P) (pl_names P) manifest ?cpio params
      (BootParamsUpdate_new (pa_init (it_next it)) (pa_init (it_limit it))) h1 = Some (Ok upd, h2)"
    and pf: "patch (pl_literals P) (pl_layout P) (plat_get_fdt_addr (pl_flow P)) upd (mem h2) (hyp_ptable h2) (henv h2) = Some (Ok (), m3, t3, env3)"
    and df: "PageTable_defrag aarch64_stage1 red t3 env3 = (t4, env4)"
    and h': "h' = h2\<lparr>mem := m3, hyp_ptable := t4, henv := mm_vm_enable_invalidation env4\<rparr>"
    using run by (auto simp: load_hypervisor_def boot_params_patch_fdt_def Let_def split: prod.splits outcome.splits option.splits if_splits)
  have p: "mappable (initrd_begin params) (initrd_end params)" "ranges_ok (take (mem_ranges_count params) (mem_ranges params))"
    "unat (it_limit ?cpio) < 2 ^ 63"
    using params by (simp_all add: boot_params_ok_def mappable_def MemIter_from_raw_def pa_difference_def)
  have "boot_tables_ok t env" by (rule boot_map [OF mp h(1) p(1)])
  then have ok2: "hyp_ok S h2"
    using load_all(1) [OF S _ _ _ _ _ p(3) refl p(2) lp ls] h(2) P by (simp add: boot_tables_ok_def platform_ok_def)
  then have "boot_tables_ok t3 env3"
    using patch_ok [OF pf] P by (simp add: hyp_ok_def boot_tables_ok_def platform_ok_def)
  then have "wf_ptable aarch64_stage1 t4 \<and> env_ok env4"
    using defrag_any [OF hf_stage1_hf red _ _ df] by (simp add: boot_tables_ok_def)
  then show ?thesis
    using hyp_ok_update [OF ok2, of t4 "mm_vm_enable_invalidation env4" m3]
    by (simp add: h' mm_vm_enable_invalidation_def env_ok_def)
qed

text \<open>
  The initialisation, when it completes, leaves the hypervisor in a state in which its tables are
  well-formed and the VMs are isolated, and the CPU that ran it continues as the first CPU.
\<close>

lemma one_time_init_ok:
  assumes "one_time_init P red ls m mb M BootCpu None = Some (Ok (c, st))"
    and "platform_ok P" "reduce_law red"
    and "\<And>fdt_root manifest params. new_root m (pa_addr (plat_get_fdt_addr (pl_flow P))) = Some fdt_root \<Longrightarrow>
         read_boot_data (pl_flow P) m (pl_literals P) (pl_name_buf P) fdt_root (pl_raw_params P)
           = Some (Ok (manifest, params)) \<Longrightarrow> boot_params_ok params"
  shows "c = ManagedCpu 0 \<and> (\<exists>S h. st = Some (S, h) \<and> hf_stage2 S \<and> hyp_ok S h)"
proof -
  obtain S manifest params h h' where
    i: "init_hypervisor P ls m mb M = Some (Ok (S, manifest, params, h))"
    and l: "load_hypervisor P red S manifest params h = Some (Ok h')"
    and c: "c = ManagedCpu 0" "st = Some (S, h')"
    using assms(1) by (auto simp: one_time_init_def run_bind_def run_case_def split: option.splits outcome.splits)
  note ok = init_hypervisor_ok [OF i assms(2)]
  then have "boot_params_ok params" using assms(4) by blast
  then have "hyp_ok S h'" using load_hypervisor_ok [OF l _ assms(3,2)] ok by blast
  with ok c show ?thesis by blast
qed

text \<open>A CPU that starts, or comes back from a suspend, takes its vCPU of the primary VM.\<close>

lemma cpu_main_frame:
  assumes "cpu_main c h = (r, h')"
  shows "mem_frame h h'"
  using assms by (auto simp: cpu_main_def Let_def split: if_splits)

text \<open>From the reset of the machine on: whatever VMs do after the initialisation, they stay isolated.\<close>

lemma boot_to_run_isolated:
  assumes "one_time_init P red ls m mb M BootCpu None = Some (Ok (c, Some (S, h)))"
    and "platform_ok P" "reduce_law red"
    and "\<And>fdt_root manifest params. new_root m (pa_addr (plat_get_fdt_addr (pl_flow P))) = Some fdt_root \<Longrightarrow>
         read_boot_data (pl_flow P) m (pl_literals P) (pl_name_buf P) fdt_root (pl_raw_params P)
           = Some (Ok (manifest, params)) \<Longrightarrow> boot_params_ok params"
    and "(vm_event S red)\<^sup>*\<^sup>* h h'"
  shows "isolated S h'"
proof -
  have "hf_stage2 S \<and> hyp_ok S h" using one_time_init_ok [OF assms(1-4)] by simp
  then show ?thesis using vm_events_ok [OF assms(5) _ assms(3)] by (simp add: hyp_ok_def)
qed

end
