(* ===== verification/Page_Table_Budget.thy ===== *)
theory Page_Table_Budget
  imports Page_Table_Blocks
begin

text \<open>
  How many pages an update of a page table needs (src/hfo2/src/mm.rs). Only the two ends of a range
  can fall inside a block, so at each level at most two entries are split into tables: two pages for
  each level below the root. Entries of level 3 cannot be blocks, so where a table has that level,
  mapping takes one more page for each of them that the range covers. An update succeeds when the pool
  holds that many pages, and takes no more.
\<close>

definition avail :: "menv \<Rightarrow> nat" where
  "avail env = size (env_pages env)"

text \<open>
  The cost of an object of level \<open>L\<close> at \<open>base\<close> for a range from \<open>b\<close> to \<open>e\<close>: \<open>K\<close> for each ragged end,
  and \<open>D\<close> for each entry of level 3 that fits into the range.
\<close>

definition cost :: "nat \<Rightarrow> nat \<Rightarrow> nat \<Rightarrow> nat \<Rightarrow> nat \<Rightarrow> nat \<Rightarrow> nat" where
  "cost K D L e base b =
     (if b = base then 0 else K) + (if base + esize L \<le> e then 0 else K) + D * ((min e (base + esize L) - b) div esize 3)"

text \<open>
  A pass without commit succeeds within its cost; a pass with commit succeeds on an object that is ready,
  and takes nothing.
\<close>

definition budget ::
  "bool \<Rightarrow> usize \<Rightarrow> nat \<Rightarrow> (usize \<Rightarrow> 'a \<Rightarrow> bool) \<Rightarrow> (usize \<Rightarrow> 'a \<Rightarrow> bool) \<Rightarrow> nat \<Rightarrow> nat
   \<Rightarrow> (usize \<Rightarrow> 'a \<Rightarrow> menv \<Rightarrow> unit res \<times> 'a \<times> menv) \<Rightarrow> bool" where
  "budget commit e L W rdy K D f \<longleftrightarrow>
     (\<forall>base b x env. W base x \<longrightarrow> frame_at L base \<longrightarrow> unat base \<le> unat b \<longrightarrow> unat b < unat base + esize L \<longrightarrow>
        4096 dvd unat b \<longrightarrow> b < e \<longrightarrow> env_ok env \<longrightarrow>
        (if commit then rdy b x else cost K D L (unat e) (unat base) (unat b) \<le> avail env) \<longrightarrow>
        (\<exists>x' env'. f b x env = (Ok (), x', env') \<and> env_ok env' \<and>
           avail env \<le> avail env' + (if commit then 0 else cost K D L (unat e) (unat base) (unat b))))"

lemma for_blocks_past: "c \<le> b \<Longrightarrow> for_blocks f b c bs xs env = (Ok (), xs, env)"
  by (cases xs) simp_all

text \<open>The pages that mapping a range takes at most.\<close>

definition map_pages :: "stage \<Rightarrow> nat \<Rightarrow> nat \<Rightarrow> nat \<Rightarrow> nat" where
  "map_pages S D b e = 2 * max_level S + (if max_level S = 3 then D * ((e - b) div esize 3) else 0)"

definition map_needs :: "stage \<Rightarrow> paddr_t \<Rightarrow> paddr_t \<Rightarrow> nat" where
  "map_needs S begin e = map_pages S 1 (unat (pa_addr begin) div 4096 * 4096)
     (min ((unat (pa_addr e) + 4095) div 4096 * 4096) (space S))"

lemma div_add_div_le: "a div m + b div m \<le> (a + b) div m" for a b m :: nat
proof (cases "m = 0")
  case False
  have "(a div m + b div m) * m \<le> a + b"
    unfolding add_mult_distrib by (intro add_le_mono) simp_all
  from div_le_mono [OF this, of m] show ?thesis using False by simp
qed simp

lemma for_blocks_budget:
  assumes f: "budget commit e L W rdy K D f" and L: "L \<le> 4"
    and B: "\<And>j. j < n \<Longrightarrow> unat (B j) = lo + j * esize L \<and> frame_at L (B j)"
    and c: "unat c = min (unat e) (lo + n * esize L)"
  shows "k + length xs = n \<Longrightarrow> (\<And>j. j < length xs \<Longrightarrow> W (B (k + j)) (xs ! j)) \<Longrightarrow>
    (xs \<noteq> [] \<Longrightarrow> unat (B k) \<le> unat b \<and> unat b < unat (B k) + esize L \<and> 4096 dvd unat b) \<Longrightarrow> env_ok env \<Longrightarrow>
    m = (if unat b = unat (B k) then 0 else K) + (if lo + n * esize L \<le> unat e then 0 else K)
      + D * ((min (unat e) (lo + n * esize L) - unat b) div esize 3) \<Longrightarrow>
    (if commit then all_blocks rdy b c (entry_size L) xs else m \<le> avail env) \<Longrightarrow>
    \<exists>xs' env'. for_blocks f b c (entry_size L) xs env = (Ok (), xs', env') \<and> env_ok env' \<and>
      avail env \<le> avail env' + (if commit then 0 else m)"
proof (induction xs arbitrary: k b env m)
  case (Cons x xs)
  note b = Cons.prems(3) [OF list.simps(3)]
  have k: "k < n" using Cons.prems(1) by simp
  show ?case
  proof (cases "b < c")
    case True
    then have be: "b < e" using c by (auto simp: word_less_nat_alt)
    have W0: "W (B k) x" using Cons.prems(2) [of 0] by simp
    let ?q = "cost K D L (unat e) (unat (B k)) (unat b)" and ?b' = "start_of_next_block b (entry_size L)"
    have last: "unat (B k) + esize L \<le> lo + n * esize L"
      using B [OF k] k mult_le_mono1 [of "Suc k" n "esize L"] by simp
    then have qD: "D * ((min (unat e) (unat (B k) + esize L) - unat b) div esize 3)
        \<le> D * ((min (unat e) (lo + n * esize L) - unat b) div esize 3)"
      by (intro mult_le_mono2 div_le_mono diff_le_mono) simp
    then have qm: "?q \<le> m" unfolding cost_def Cons.prems(5) using last by (intro add_le_mono) auto
    have "if commit then rdy b x else ?q \<le> avail env"
      using Cons.prems(6) True qm by (auto split: if_splits)
    then obtain x' env1 where 1: "f b x env = (Ok (), x', env1)" "env_ok env1" "avail env \<le> avail env1 + (if commit then 0 else ?q)"
      using f [unfolded budget_def, rule_format, of "B k" x b env] W0 B [OF k] b be Cons.prems(4) by blast
    have b': "unat ?b' = unat (B k) + esize L" using next_block [of L "B k" b] B [OF k] L b by simp
    show ?thesis
    proof (cases "unat (B k) + esize L \<le> unat e")
      case inside: True
      define m' where "m' = (if lo + n * esize L \<le> unat e then 0 else K)
        + D * ((min (unat e) (lo + n * esize L) - unat ?b') div esize 3)"
      have "min (unat e) (unat (B k) + esize L) - unat b + (min (unat e) (lo + n * esize L) - unat ?b')
          = min (unat e) (lo + n * esize L) - unat b"
        using inside last b b' by (simp add: min_def)
      then have "(min (unat e) (unat (B k) + esize L) - unat b) div esize 3 + (min (unat e) (lo + n * esize L) - unat ?b') div esize 3
          \<le> (min (unat e) (lo + n * esize L) - unat b) div esize 3"
        by (metis div_add_div_le)
      then have "D * ((min (unat e) (unat (B k) + esize L) - unat b) div esize 3) + D * ((min (unat e) (lo + n * esize L) - unat ?b') div esize 3)
          \<le> D * ((min (unat e) (lo + n * esize L) - unat b) div esize 3)"
        by (metis add_mult_distrib2 mult_le_mono2)
      then have mm': "?q + m' \<le> m" using Cons.prems(5) inside by (simp add: cost_def m'_def)
      have Bk': "unat (B (Suc k)) = unat ?b'" if "xs \<noteq> []"
        using that Cons.prems(1) B [of "Suc k"] B [OF k] b' by (cases xs) simp_all
      have "\<exists>xs' env'. for_blocks f ?b' c (entry_size L) xs env1 = (Ok (), xs', env') \<and> env_ok env' \<and>
          avail env1 \<le> avail env' + (if commit then 0 else m')"
      proof (cases "xs = []")
        case False
        have al: "4096 dvd unat ?b'"
          using page_dvd_esize [of L] B [OF k] unfolding b' frame_at_def by (metis dvd_add dvd_refl dvd_trans)
        show ?thesis
        proof (rule Cons.IH [of "Suc k"])
          show "Suc k + length xs = n" using Cons.prems(1) by simp
          show "W (B (Suc k + j)) (xs ! j)" if "j < length xs" for j
            using Cons.prems(2) [of "Suc j"] that by simp
          show "unat (B (Suc k)) \<le> unat ?b' \<and> unat ?b' < unat (B (Suc k)) + esize L \<and> 4096 dvd unat ?b'"
            using Bk' [OF False] al by (simp add: esize_def)
          show "m' = (if unat ?b' = unat (B (Suc k)) then 0 else K) + (if lo + n * esize L \<le> unat e then 0 else K)
              + D * ((min (unat e) (lo + n * esize L) - unat ?b') div esize 3)"
            using Bk' [OF False] by (simp add: m'_def)
          show "if commit then all_blocks rdy ?b' c (entry_size L) xs else m' \<le> avail env1"
            using Cons.prems(6) True 1(3) mm' by (auto split: if_splits)
        qed (rule 1(2))
      qed (simp add: 1(2))
      then show ?thesis using 1 True mm' by (auto simp: not_le)
    next
      case False
      then have "c \<le> ?b'" using b' c by (simp add: word_le_nat_alt)
      then show ?thesis using 1 True qm by (auto simp: for_blocks_past not_le)
    qed
  qed (use Cons.prems(4) in \<open>simp add: for_blocks_past not_less\<close>)
qed simp

context mm_stage
begin

lemma replace_avail:
  assumes "wf_pte S l b p" "l \<le> 3" "env_ok env" "pte_replace S p new beg l env = (p', env')"
  shows "env_ok env'" "avail env \<le> avail env'"
  using replace_env [OF assms] by (auto simp: avail_def)

lemma populate_avail:
  assumes wf: "wf_pte S (Suc l) base p" and l: "l < 3" and fr: "frame_at (Suc l) base" and ok: "env_ok env" and av: "1 \<le> avail env"
  shows "\<exists>p' env'. populate_table S p b (Suc l) env = (Ok (), p', env') \<and> is_table S p' (Suc l) \<and> wf_pte S (Suc l) base p' \<and>
    env_ok env' \<and> avail env \<le> avail env' + 1"
proof -
  obtain r p' env' where pop: "populate_table S p b (Suc l) env = (r, p', env')" by (metis prod.exhaust)
  note spec = populate_table_spec [OF wf l fr ok pop]
  have r: "r = Ok ()" using spec av by (auto simp: avail_def)
  have "avail env \<le> avail env' + 1"
  proof (cases "is_table S p (Suc l)")
    case True
    then show ?thesis using pop by (simp add: populate_table_def)
  next
    case False
    obtain page mp where al: "MPool_alloc (mpool env) = (Ok page, mp)"
      using pop False r by (auto simp: populate_table_def split: prod.splits outcome.splits)
    then have mp: "mpool_ok mp" "mpool_pages (mpool env) = add_mset page (mpool_pages mp)"
      using MPool_alloc_conserves [of "mpool env"] ok by (simp_all add: env_ok_def)
    have "env_ok (env\<lparr>mpool := mp\<rparr>)" using ok mp by (simp add: env_ok_def)
    moreover obtain ts where "pte_replace S p (pte_table S (Suc l) page ts) b (Suc l) (env\<lparr>mpool := mp\<rparr>) = (p', env')"
      using pop False al by (auto simp: populate_table_def Let_def split: prod.splits)
    ultimately have "avail (env\<lparr>mpool := mp\<rparr>) \<le> avail env'"
      using replace_avail(2) [OF wf] l by (meson Suc_leI)
    then show ?thesis using mp(2) by (simp add: avail_def env_pages_def)
  qed
  then show ?thesis using pop spec r by auto
qed

lemma sub_table:
  assumes "wf_pte S (Suc l) base p" "is_table S p (Suc l)" "l < 3"
  shows "wf_table S l base (sub p)"
proof -
  have "Suc l \<le> 3" using assms(3) by simp
  with assms(1) show ?thesis using assms(2) by (cases rule: wf_cases) (auto simp: pte_table_def)
qed

text \<open>The descent into the table of an entry, which has been there before or is new.\<close>

lemma map_entry_descends:
  assumes rec: "budget commit e (Suc l) (wf_table S l) rdy l 0 rec"
    and region: "region_spec S commit unmap at e (Suc l) (wf_table S l) (lookup_table S l) (table_pages S l) rdy rec"
    and flags: "commit = flags_contains flags FLAG_COMMIT" "unmap = flags_contains flags FLAG_UNMAP"
    and l: "l < 3" and wf: "wf_pte S (Suc l) base p1" "is_table S p1 (Suc l)" and fr: "frame_at (Suc l) base"
    and b: "unat base \<le> unat b" "unat b < unat base + esize (Suc l)" "4096 dvd unat b" "b < e"
    and ok: "env_ok env1" and pop: "populate_table S p b (Suc l) env = (Ok (), p1, env1)"
    and pre: "if commit then rdy b (sub p1) else cost l 0 (Suc l) (unat e) (unat base) (unat b) \<le> avail env1"
    and n: "\<not> (unmap \<and> \<not> is_present S p (Suc l))" "\<not> (\<not> unmap \<and> is_block S p (Suc l) \<and> attrs S p (Suc l) = at)"
      "\<not> (e - b \<ge> entry_size (Suc l) \<and> (unmap \<or> is_block_allowed S (Suc l)) \<and> b AND (entry_size (Suc l) - 1) = 0)"
  shows "\<exists>p' env'. map_entry S rec e at (Suc l) flags b p env = (Ok (), p', env') \<and> env_ok env' \<and>
    avail env1 \<le> avail env' + (if commit then 0 else cost l 0 (Suc l) (unat e) (unat base) (unat b))"
proof -
  obtain ts' env2 where r2: "rec b (sub p1) env1 = (Ok (), ts', env2)" "env_ok env2"
    "avail env1 \<le> avail env2 + (if commit then 0 else cost l 0 (Suc l) (unat e) (unat base) (unat b))"
    using rec [unfolded budget_def, rule_format, OF sub_table [OF wf l] fr b ok pre] by blast
  let ?p2 = "PTE (inner p1) ts'"
  have wf2: "wf_pte S (Suc l) base ?p2"
    using map_entry_recurse(1) [OF region l wf fr b ok r2(1)] by (simp add: region_post_def)
  obtain p3 env3 where rp: "pte_replace S ?p2 (pte_absent S (Suc l)) b (Suc l) env2 = (p3, env3)" by fastforce
  have r3: "env_ok env3" "avail env2 \<le> avail env3" using replace_avail [OF wf2 _ r2(2) rp] l by simp_all
  have "map_entry S rec e at (Suc l) flags b p env
      = (if commit \<and> unmap \<and> is_empty S ts' l then (Ok (), p3, env3) else (Ok (), ?p2, env2))"
    using pop r2(1) wf(2) rp n by (auto simp add: map_entry_def flags [symmetric])
  then show ?thesis using r2 r3 by auto
qed

lemma map_entry_budget:
  assumes rec: "\<And>l'. l = Suc l' \<Longrightarrow> budget commit e l (wf_table S l') rdy l' 0 rec"
    and region: "\<And>l'. l = Suc l' \<Longrightarrow>
      region_spec S commit unmap at e l (wf_table S l') (lookup_table S l') (table_pages S l') rdy rec"
    and flags: "commit = flags_contains flags FLAG_COMMIT" "unmap = flags_contains flags FLAG_UNMAP"
    and l: "l \<le> 3" and e: "4096 dvd unat e" and allowed: "unmap \<or> is_block_allowed S l \<or> l = 3 \<and> D = 1"
  shows "budget commit e l (wf_pte S l) (ready_entry S unmap at e l rdy) l D (map_entry S rec e at l flags)"
  unfolding budget_def
proof (intro allI impI)
  fix base b p env
  assume wf: "wf_pte S l base p" and fr: "frame_at l base" and b: "unat base \<le> unat b" "unat b < unat base + esize l"
    and al: "4096 dvd unat b" and be: "b < e" and ok: "env_ok env"
    and pre: "if commit then ready_entry S unmap at e l rdy b p else cost l D l (unat e) (unat base) (unat b) \<le> avail env"
  let ?whole = "e - b \<ge> entry_size l \<and> (unmap \<or> is_block_allowed S l) \<and> b AND (entry_size l - 1) = 0"
  let ?goal = "\<exists>p' env'. map_entry S rec e at l flags b p env = (Ok (), p', env') \<and> env_ok env' \<and>
     avail env \<le> avail env' + (if commit then 0 else cost l D l (unat e) (unat base) (unat b))"
  consider (skip) "(unmap \<and> \<not> is_present S p l) \<or> (\<not> unmap \<and> is_block S p l \<and> attrs S p l = at)"
    | (whole) "\<not> (unmap \<and> \<not> is_present S p l)" "\<not> (\<not> unmap \<and> is_block S p l \<and> attrs S p l = at)" ?whole
    | (down) "\<not> (unmap \<and> \<not> is_present S p l)" "\<not> (\<not> unmap \<and> is_block S p l \<and> attrs S p l = at)" "\<not> ?whole"
    by blast
  then show ?goal
  proof cases
    case skip
    then show ?thesis using ok by (auto simp: map_entry_def flags [symmetric])
  next
    case whole
    obtain p1 env1 where rp: "pte_replace S p (if unmap then pte_absent S l else pte_block S l (pa_init b) at) b l env = (p1, env1)"
      by fastforce
    then show ?thesis
      using whole ok replace_avail [OF wf l ok rp] by (cases commit) (auto simp: map_entry_def flags [symmetric] Let_def split: if_splits)
  next
    case down
    obtain l' where l': "l = Suc l'"
      using down(3) page_level_whole [OF al e be] by (cases l) blast+
    have ragged: "unat b \<noteq> unat base \<or> \<not> unat base + esize l \<le> unat e \<or> l = 3 \<and> D = 1"
    proof (rule ccontr)
      assume c: "\<not> ?thesis"
      then have "esize l dvd unat b" "unat b + esize l \<le> unat e" using fr by (simp_all add: frame_at_def)
      then show False using c down(3) allowed whole_iff [OF be l] by (auto simp add: entry_aligned)
    qed
    have less: "cost l' 0 l (unat e) (unat base) (unat b) + 1 \<le> cost l D l (unat e) (unat base) (unat b)"
    proof (cases "unat b \<noteq> unat base \<or> \<not> unat base + esize l \<le> unat e")
      case True
      then show ?thesis by (auto simp: cost_def l')
    next
      case False
      then have "min (unat e) (unat base + esize l) - unat b = esize 3" "D = 1" using ragged by auto
      moreover have "esize 3 div esize 3 = 1" by (simp add: esize_def)
      ultimately show ?thesis using False by (simp add: cost_def)
    qed
    show ?thesis
    proof (cases commit)
      case True
      then have tab: "is_table S p l" "rdy b (sub p)" using pre down by (auto simp: ready_entry_def)
      then have "populate_table S p b (Suc l') env = (Ok (), p, env)" by (simp add: populate_table_def l')
      from map_entry_descends [OF rec [OF l', unfolded l'] region [OF l', unfolded l'] flags _ wf [unfolded l'] tab(1) [unfolded l']
          fr [unfolded l'] b [unfolded l'] al be ok this _ down [unfolded l']]
      show ?thesis using True tab l l' by auto
    next
      case False
      have "1 \<le> avail env" using pre False less by simp
      then obtain p1 env1 where p1: "populate_table S p b (Suc l') env = (Ok (), p1, env1)" "is_table S p1 (Suc l')"
        "wf_pte S (Suc l') base p1" "env_ok env1" "avail env \<le> avail env1 + 1"
        using populate_avail [OF wf [unfolded l'] _ fr [unfolded l'] ok] l l' by (metis Suc_le_eq)
      have "if commit then rdy b (sub p1) else cost l' 0 (Suc l') (unat e) (unat base) (unat b) \<le> avail env1"
        using pre False less p1(5) by (simp add: l')
      from map_entry_descends [OF rec [OF l', unfolded l'] region [OF l', unfolded l'] flags _ p1(3,2)
          fr [unfolded l'] b [unfolded l'] al be p1(4,1) this down [unfolded l']]
      show ?thesis using False less p1(5) l l' by auto
    qed
  qed
qed

lemma map_table_budget:
  assumes f: "budget commit e l (wf_pte S l) (ready_entry S unmap at e l rdy) l D (map_entry S rec e at l flags)" and l: "l \<le> 3"
  shows "budget commit e (Suc l) (wf_table S l) (ready_table S unmap at e l rdy) l D (map_table S rec e at l flags)"
  unfolding budget_def
proof (intro allI impI)
  fix base b ts env
  assume wf: "wf_table S l base ts" and fr: "frame_at (Suc l) base" and b: "unat base \<le> unat b" "unat b < unat base + esize (Suc l)"
    and al: "4096 dvd unat b" and be: "b < e" and ok: "env_ok env"
    and pre: "if commit then ready_table S unmap at e l rdy b ts else cost l D (Suc l) (unat e) (unat base) (unat b) \<le> avail env"
  define k where "k = unat b div esize l mod 512"
  define B where "B = (\<lambda>j. base + word_of_nat j * entry_size l)"
  define m where "m = (if unat b = unat (B k) then 0 else l) + (if unat base + 512 * esize l \<le> unat e then 0 else l)
    + D * ((min (unat e) (unat base + 512 * esize l) - unat b) div esize 3)"
  let ?c = "min e (level_end b l)"
  have k: "k < 512" "unat (index b l) = k" by (simp_all add: k_def unat_index)
  have dvd: "esize (Suc l) dvd unat base" using fr by (simp add: frame_at_def)
  have B: "unat (B j) = unat base + j * esize l \<and> frame_at l (B j)" if "j < 512" for j
    unfolding B_def using frame_child [OF fr that] l by simp
  have c: "unat ?c = min (unat e) (unat base + 512 * esize l)"
    using level_end_base [OF fr l b] by (simp add: unat_min esize_Suc)
  have bk: "unat (B k) \<le> unat b \<and> unat b < unat (B k) + esize l \<and> 4096 dvd unat b"
    using entry_of [OF dvd b] B [OF k(1)] al by (simp add: k_def)
  have wfB: "length ts = 512" "\<And>j. j < 512 \<Longrightarrow> wf_pte S l (B j) (ts ! j)"
    using wf by (simp_all add: wf_table_def B_def)
  have m: "m \<le> cost l D (Suc l) (unat e) (unat base) (unat b)"
    using bk B [OF k(1)] by (auto simp: m_def cost_def esize_Suc)
  have "\<exists>xs' env'. for_blocks (map_entry S rec e at l flags) b ?c (entry_size l) (drop k ts) env = (Ok (), xs', env') \<and> env_ok env' \<and>
      avail env \<le> avail env' + (if commit then 0 else m)"
  proof (rule for_blocks_budget [OF f _ B c])
    show "if commit then all_blocks (ready_entry S unmap at e l rdy) b ?c (entry_size l) (drop k ts) else m \<le> avail env"
      using pre m k by (auto simp: ready_table_def)
  qed (use l k wfB bk ok in \<open>simp_all add: m_def\<close>)
  then show "\<exists>x' env'. map_table S rec e at l flags b ts env = (Ok (), x', env') \<and> env_ok env' \<and>
      avail env \<le> avail env' + (if commit then 0 else cost l D (Suc l) (unat e) (unat base) (unat b))"
    using m k by (auto simp: map_table_def Let_def)
qed

lemma map_level_budget:
  assumes flags: "commit = flags_contains flags FLAG_COMMIT" "unmap = flags_contains flags FLAG_UNMAP"
    and e: "4096 dvd unat e" and at: "attrs_ok S at" and l: "l \<le> 3"
    and allowed: "\<And>l'. l' \<le> l \<Longrightarrow> unmap \<or> is_block_allowed S l' \<or> l' = 3 \<and> D = 1"
  shows "budget commit e (Suc l) (wf_table S l) (ready_level S unmap at e l) l (if l = 3 then D else 0) (map_level S e at flags l)"
  using l allowed
proof (induction l)
  case 0
  show ?case
    using map_table_budget [OF map_entry_budget [OF _ _ flags _ e]] 0 by simp
next
  case (Suc l)
  have "unmap \<or> is_block_allowed S l' \<or> l' = 3 \<and> D = 1" if "l' \<le> l" for l' using Suc.prems(2) [of l'] that by simp
  then have rec: "budget commit e (Suc l) (wf_table S l) (ready_level S unmap at e l) l 0 (map_level S e at flags l)"
    using Suc.IH Suc.prems(1) by simp
  define D' where "D' = (if Suc l = 3 then D else 0)"
  have "unmap \<or> is_block_allowed S (Suc l) \<or> Suc l = 3 \<and> D' = 1"
    using Suc.prems(2) [of "Suc l"] by (auto simp: D'_def)
  then have "budget commit e (Suc l) (wf_pte S (Suc l)) (ready_entry S unmap at e (Suc l) (ready_level S unmap at e l)) (Suc l) D'
      (map_entry S (map_level S e at flags l) e at (Suc l) flags)"
    using rec Suc.prems(1) map_level_region [OF flags e at, of l] by (intro map_entry_budget [OF _ _ flags _ e]) auto
  from map_table_budget [OF this Suc.prems(1)] show ?case by (simp only: D'_def map_level.simps ready_level.simps)
qed

lemma map_root_budget:
  assumes flags: "commit = flags_contains flags FLAG_COMMIT" "unmap = flags_contains flags FLAG_UNMAP"
    and wf: "wf_ptable S t" and ok: "env_ok env" and at: "attrs_ok S at"
    and b: "4096 dvd unat b" "unat b < space S" and e: "4096 dvd unat e" "unat e \<le> space S"
    and allowed: "\<And>l. l \<le> max_level S \<Longrightarrow> unmap \<or> is_block_allowed S l \<or> l = 3 \<and> D = 1"
    and pre: "if commit then ready_root S unmap at e b t else map_pages S D (unat b) (unat e) \<le> avail env"
  shows "\<exists>t' env'. map_root S b e at (max_level S + 1) flags t env = (Ok (), t', env') \<and>
    avail env \<le> avail env' + (if commit then 0 else map_pages S D (unat b) (unat e))"
proof -
  define R where "R = max_level S + 1"
  define n where "n = root_table_count S"
  define k where "k = unat b div esize R"
  define B :: "nat \<Rightarrow> usize" where "B = (\<lambda>j. word_of_nat j * entry_size R)"
  define D' where "D' = (if max_level S = 3 then D else 0)"
  define m where "m = (if unat b = unat (B k) then 0 else max_level S) + (if 0 + n * esize R \<le> unat e then 0 else max_level S)
    + D' * ((min (unat e) (0 + n * esize R) - unat b) div esize 3)"
  have R: "R \<le> 4" "R - 1 = max_level S" using max_level_le by (simp_all add: R_def)
  have k: "k < n" using b(2) by (simp add: k_def n_def R_def space_def less_mult_imp_div_less)
  then have idx: "unat (index b R) = k" using root_count_le by (simp add: unat_index k_def n_def)
  have wfB: "length (tables t) = n" "\<And>j. j < n \<Longrightarrow> wf_table S (max_level S) (B j) (tables t ! j)"
    using wf by (simp_all add: wf_ptable_def n_def B_def R_def)
  have B: "unat (B j) = 0 + j * esize R \<and> frame_at R (B j)" if "j < n" for j
    using root_frames that by (simp add: B_def R_def n_def)
  have c: "unat e = min (unat e) (0 + n * esize R)" using e(2) by (simp add: space_def n_def R_def)
  have bk: "unat (B k) \<le> unat b \<and> unat b < unat (B k) + esize R \<and> 4096 dvd unat b"
    using B [OF k] b(1) dividend_less_div_times [of "esize R" "unat b"] by (simp add: k_def)
  have f: "budget commit e R (wf_table S (max_level S)) (ready_level S unmap at e (max_level S)) (max_level S) D'
      (map_level S e at flags (max_level S))"
    using map_level_budget [OF flags e(1) at max_level_le allowed] by (simp add: R_def D'_def)
  have m: "m \<le> map_pages S D (unat b) (unat e)" using c by (auto simp: m_def map_pages_def D'_def)
  have "\<exists>xs' env'. for_blocks (map_level S e at flags (max_level S)) b e (entry_size R) (drop k (tables t)) env = (Ok (), xs', env') \<and>
      env_ok env' \<and> avail env \<le> avail env' + (if commit then 0 else m)"
  proof (rule for_blocks_budget [OF f R(1) B c])
    show "if commit then all_blocks (ready_level S unmap at e (max_level S)) b e (entry_size R) (drop k (tables t)) else m \<le> avail env"
      using pre m idx by (auto simp: ready_root_def R_def)
  qed (use k wfB bk ok in \<open>simp_all add: m_def\<close>)
  then show ?thesis
    using m idx k wfB(1) R(2) by (auto simp: map_root_def Let_def R_def)
qed

lemma identity_update_budget:
  assumes flags: "\<not> flags_contains flags FLAG_COMMIT" "unmap = flags_contains flags FLAG_UNMAP"
    and wf: "wf_ptable S t" and ok: "env_ok env" and at: "attrs_ok S at"
    and range: "unat (pa_addr begin) < space S" "unat (pa_addr e) + 4095 < 2 ^ 64"
    and allowed: "\<And>l. l \<le> max_level S \<Longrightarrow> unmap \<or> is_block_allowed S l \<or> l = 3 \<and> D = 1"
    and pages: "map_pages S D (unat (pa_addr begin) div 4096 * 4096) (min ((unat (pa_addr e) + 4095) div 4096 * 4096) (space S)) \<le> avail env"
  shows "\<exists>t' env'. identity_update S begin e at flags t env = (Ok (), t', env') \<and> avail env \<le> avail env' + map_pages S D (unat (pa_addr begin) div 4096 * 4096) (min ((unat (pa_addr e) + 4095) div 4096 * 4096) (space S))"
proof -
  define b where "b = pa_addr (clear_pa S begin)"
  define c where "c = min (round_up_to_page (pa_addr e)) (ptable_addr_space_end S)"
  note bc = identity_update_range [OF range, folded b_def c_def]
  obtain t1 env1 where m1: "map_root S b c at (max_level S + 1) flags t env = (Ok (), t1, env1)"
    "avail env \<le> avail env1 + map_pages S D (unat b) (unat c)"
    using map_root_budget [OF _ flags(2) wf ok at bc(3,2,5,6) allowed, of False] flags(1) pages bc(1,4) by auto
  note s1 = map_root_spec [OF _ flags(2) wf ok at bc(3,2,5,6) m1(1), of False]
  obtain t2 env2 where m2: "map_root S b c at (max_level S + 1) (flags OR FLAG_COMMIT) t1 env1 = (Ok (), t2, env2)"
    "avail env1 \<le> avail env2"
    using map_root_budget [OF _ _ _ _ at bc(3,2,5,6) allowed, of True "flags OR FLAG_COMMIT" t1 env1] s1 flags
    by (auto simp: env_step_def)
  have "identity_update S begin e at flags t env = (Ok (), t2, invalidate_tlb S b c env2)"
    using m1(1) m2(1) by (simp add: identity_update_def Let_def b_def c_def)
  then show ?thesis using m1(2) m2(2) bc(1,4) by (simp add: avail_def)
qed

end

section \<open>Mapping and unmapping\<close>

lemma updates_budget:
  assumes "hf_stage S" "wf_ptable S t" "env_ok env" "unat (pa_addr begin) < space S" "unat (pa_addr e) + 4095 < 2 ^ 64"
  defines "b \<equiv> unat (pa_addr begin) div 4096 * 4096" and "c \<equiv> min ((unat (pa_addr e) + 4095) div 4096 * 4096) (space S)"
  shows "map_pages S 1 b c \<le> avail env \<Longrightarrow>
      \<exists>t' env'. identity_map S begin e m t env = (Ok (), t', env') \<and> avail env \<le> avail env' + map_pages S 1 b c"
    "2 * max_level S \<le> avail env \<Longrightarrow>
      \<exists>t' env'. PageTable_unmap S begin e t env = (Ok (), t', env') \<and> avail env \<le> avail env' + 2 * max_level S"
proof -
  note mm = hf_stage_mm [OF assms(1)]
  have at: "attrs_ok S (mode_to_attrs S m)" for m
    using mm by (simp add: mm_stage_def pte_split_def pte_codec.mode_attrs_ok)
  have bl: "is_block_allowed S l \<longleftrightarrow> l \<le> 2" for l
    using assms(1) by (auto simp: hf_stage_def aarch64_stage1_def aarch64_stage2_def arch_mm_is_block_allowed_def)
  have lev: "is_block_allowed S l \<or> l = 3" if "l \<le> max_level S" for l
    using mm_stage.max_level_le [OF mm] that by (auto simp: bl)
  have fl: "\<not> flags_contains 0 FLAG_COMMIT" "\<not> flags_contains 0 FLAG_UNMAP" "\<not> flags_contains FLAG_UNMAP FLAG_COMMIT"
    "flags_contains FLAG_UNMAP FLAG_UNMAP"
    by (simp_all add: flags_contains_def FLAG_UNMAP_def FLAG_COMMIT_def)
  have mp: "map_pages S 0 b c = 2 * max_level S" by (cases "max_level S = 3") (simp_all add: map_pages_def)
  note up = mm_stage.identity_update_budget [OF mm _ _ assms(2,3) at assms(4,5), folded b_def c_def]
  show "\<exists>t' env'. identity_map S begin e m t env = (Ok (), t', env') \<and> avail env \<le> avail env' + map_pages S 1 b c"
    if "map_pages S 1 b c \<le> avail env"
    unfolding identity_map_def using fl that lev by (intro up [of 0 False]) auto
  show "\<exists>t' env'. PageTable_unmap S begin e t env = (Ok (), t', env') \<and> avail env \<le> avail env' + 2 * max_level S"
    if "2 * max_level S \<le> avail env"
    unfolding PageTable_unmap_def using fl that mp up [of FLAG_UNMAP True 0] by simp
qed

text \<open>
  C9. Updates do not run out of memory as long as a few pages are free. \<open>unmap\<close> succeeds on every
  range when the pool holds two pages for each level of the table below the root, so at most six.
  \<open>identity_map\<close> does so with the same number, and where the table has level 3, whose entries cannot be
  blocks, with one more for each entry of that level that fits into the range. No more pages than
  that leave the pool.
\<close>

theorem updates_succeed:
  assumes "hf_stage S" "wf_ptable S t" "env_ok env" "unat (pa_addr begin) < space S" "unat (pa_addr e) + 4095 < 2 ^ 64"
  shows "(map_needs S begin e \<le> size (env_pages env) \<longrightarrow> (\<exists>t' env'. identity_map S begin e m t env = (Ok (), t', env') \<and>
      size (env_pages env) \<le> size (env_pages env') + map_needs S begin e)) \<and>
    (2 * max_level S \<le> size (env_pages env) \<longrightarrow> (\<exists>t' env'. PageTable_unmap S begin e t env = (Ok (), t', env') \<and>
      size (env_pages env) \<le> size (env_pages env') + 2 * max_level S))"
  using updates_budget [OF assms, unfolded avail_def, folded map_needs_def] by simp

theorem updates_succeed_witness:
  "\<exists>t' env'. identity_map demo_stage (pa_init 0x1234) (pa_init 0x7fffffff) MODE_R demo_table
     (demo_env\<lparr>mpool := MPool_free_pages MPool_new (0x10000, 4)\<rparr>) = (Ok (), t', env')"
proof -
  let ?env = "demo_env\<lparr>mpool := MPool_free_pages MPool_new (0x10000, 4)\<rparr>"
  have p: "env_pages ?env = {#0x10000, 0x11000, 0x12000, 0x13000#}"
    by (simp add: env_pages_def chunk_pages_def PAGE_SIZE_def PAGE_BITS_def upt_rec MPool_new_def Pool_new_def pool_pages_def)
  then have "env_ok ?env"
    by (simp add: env_ok_def env_pages_def chunk_ok_def MPool_new_def Pool_new_def pool_ok_def frame_at_def esize_0)
  then show ?thesis
    using updates_succeed [OF demo_stage_hf demo_wf, of ?env "pa_init 0x1234" "pa_init 0x7fffffff" MODE_R] p
    by (auto simp: demo_space map_needs_def map_pages_def)
qed

end
