(* ===== verification/Spinlock.thy ===== *)
theory Spinlock
  imports Addr "HOL-Library.Product_Lexorder"
begin

text \<open>
  Spin locks (src/hfo2/src/spinlock.rs) and the order in which they are taken (the comment at the top
  of src/hfo2/src/api.rs).

  A lock is its kind and its address; the flag of each lock is a cell of a store that all CPUs share,
  and every access to it is one atomic step. What a CPU does is a program of lock operations; the
  calls of the hypervisor that hold locks are given as such programs. A CPU that spins repeats a
  failing \<open>compare_exchange\<close>. The loop of \<open>lock\<close> may therefore run forever, and the theorems about it
  are that it cannot be stuck: some CPU can always go on, and all programs can be finished.
\<close>

section \<open>Locks\<close>

text \<open>
  The kinds in the order of the comment, preceded by the lock \<open>is_on\<close> of a physical CPU. The comment
  does not mention the locks of the memory pools: they are taken below the page tables, that of a
  local pool before that of the pool of the hypervisor.
\<close>

datatype lock_kind =
  CpuOn | VCpuExecution | VmLock | VCpuInterrupts | MmStage1 | LocalPool | SharedPool | DlogLock

fun kind_rank :: "lock_kind \<Rightarrow> nat" where
  "kind_rank CpuOn = 0"
| "kind_rank VCpuExecution = 1"
| "kind_rank VmLock = 2"
| "kind_rank VCpuInterrupts = 3"
| "kind_rank MmStage1 = 4"
| "kind_rank LocalPool = 5"
| "kind_rank SharedPool = 6"
| "kind_rank DlogLock = 7"

lemma kind_rank_inj: "kind_rank a = kind_rank b \<Longrightarrow> a = b"
  by (cases a; cases b) simp_all

instantiation lock_kind :: linorder
begin

definition less_eq_lock_kind :: "lock_kind \<Rightarrow> lock_kind \<Rightarrow> bool" where
  "a \<le> b \<longleftrightarrow> kind_rank a \<le> kind_rank b"

definition less_lock_kind :: "lock_kind \<Rightarrow> lock_kind \<Rightarrow> bool" where
  "a < b \<longleftrightarrow> kind_rank a < kind_rank b"

instance
  by standard (auto simp: less_eq_lock_kind_def less_lock_kind_def intro: kind_rank_inj)

end

type_synonym lock = "lock_kind \<times> usize"
type_synonym lock_mem = "lock \<Rightarrow> bool"

definition RawSpinLock_new :: bool where "RawSpinLock_new = False"

text \<open>\<open>AtomicBool::compare_exchange\<close>; one round of the loop of \<open>lock\<close> calls it with false and true.\<close>

definition compare_exchange :: "lock \<Rightarrow> bool \<Rightarrow> bool \<Rightarrow> lock_mem \<Rightarrow> (bool, bool) outcome \<times> lock_mem" where
  "compare_exchange l old new m = (if m l = old then (Ok old, m(l := new)) else (Err (m l), m))"

definition lock_round :: "lock \<Rightarrow> lock_mem \<Rightarrow> bool \<times> lock_mem" where
  "lock_round l m = (let (res, m) = compare_exchange l False True m in (is_ok res, m))"

definition try_lock :: "lock \<Rightarrow> lock_mem \<Rightarrow> bool \<times> lock_mem" where
  "try_lock l m = (\<not> m l, m(l := True))"

definition unlock_raw :: "lock \<Rightarrow> lock_mem \<Rightarrow> lock_mem" where
  "unlock_raw l m = m(l := False)"

section \<open>Programs\<close>

datatype program =
    Done
  | Acquire lock program \<comment> \<open>\<open>lock\<close>, and the guard is kept\<close>
  | Release lock program \<comment> \<open>the drop of a guard\<close>
  | Try lock program program \<comment> \<open>\<open>try_lock\<close>: what follows on success, and on failure\<close>

definition lock_both :: "lock \<Rightarrow> lock \<Rightarrow> program \<Rightarrow> program" where
  "lock_both lhs rhs k =
     (if snd lhs < snd rhs then Acquire lhs (Acquire rhs k) else Acquire rhs (Acquire lhs k))"

text \<open>
  Short forms: a lock that is taken and released at once, a part of a program that depends on the
  data, and the lock of the log, of which there is one.
\<close>

definition touch :: "lock \<Rightarrow> program \<Rightarrow> program" where
  "touch l k = Acquire l (Release l k)"

definition only_if :: "bool \<Rightarrow> (program \<Rightarrow> program) \<Rightarrow> program \<Rightarrow> program" where
  "only_if b f k = (if b then f k else k)"

definition WRITER :: lock where "WRITER = (DlogLock, 0)"

text \<open>
  The uses of a local pool while a page table is updated. Each takes the lock of the pool and, when
  there is no page, then the lock of its fallback; a failed allocation is logged. Dropping the pool holds both.
\<close>

datatype pool_use = OwnPage | FallbackPage | NoPage

primrec pool_ops :: "usize \<Rightarrow> usize \<Rightarrow> pool_use list \<Rightarrow> program \<Rightarrow> program" where
  "pool_ops lp pool [] k = k"
| "pool_ops lp pool (u # us) k =
     touch (LocalPool, lp)
       (only_if (u \<noteq> OwnPage) (touch (SharedPool, pool))
         (only_if (u = NoPage) (touch WRITER) (pool_ops lp pool us k)))"

definition pool_drop :: "usize \<Rightarrow> usize \<Rightarrow> program \<Rightarrow> program" where
  "pool_drop lp pool k =
     Acquire (LocalPool, lp) (Acquire (SharedPool, pool) (Release (SharedPool, pool) (Release (LocalPool, lp) k)))"

text \<open>
  The lock operations of the calls, by the addresses of the locks (of VMs, of vCPUs, of their
  interrupts, of the page table of the hypervisor, of the two pools), in the order of the code and
  followed by \<open>k\<close>. What the data decides is an argument: how the pools are used, and how far a call gets
  (\<open>None\<close> where it returns before that part).
\<close>

definition share_memory_locks ::
  "usize \<Rightarrow> usize \<Rightarrow> usize \<Rightarrow> usize \<Rightarrow> usize \<Rightarrow> pool_use list \<Rightarrow> (pool_use list \<times> pool_use list) option \<Rightarrow> program \<Rightarrow> program" where
  "share_memory_locks from to stage1 lp pool us cleared k =
     (let ending = Release (VmLock, to) (Release (VmLock, from) (pool_drop lp pool k))
      in lock_both (VmLock, from) (VmLock, to)
           (pool_ops lp pool us
             (case cleared of
                None \<Rightarrow> ending
              | Some (vs, ws) \<Rightarrow>
                  Acquire (MmStage1, stage1) (pool_ops lp pool vs (Release (MmStage1, stage1) (pool_ops lp pool ws ending))))))"

definition spci_msg_send_locks ::
  "usize \<Rightarrow> usize \<Rightarrow> usize \<Rightarrow> (usize \<times> pool_use list option) option \<Rightarrow> program \<Rightarrow> program" where
  "spci_msg_send_locks from lp pool checked k =
     touch (VmLock, from)
       (case checked of
          None \<Rightarrow> k
        | Some (to, handled) \<Rightarrow>
            let ending = Release (VmLock, from) (Release (VmLock, to) k)
            in lock_both (VmLock, to) (VmLock, from)
                 (case handled of None \<Rightarrow> ending | Some us \<Rightarrow> pool_ops lp pool us (pool_drop lp pool ending)))"

definition vm_configure_locks ::
  "usize \<Rightarrow> usize \<Rightarrow> usize \<Rightarrow> usize \<Rightarrow> (pool_use list \<times> (pool_use list \<times> pool_use list) option) option \<Rightarrow> program \<Rightarrow> program" where
  "vm_configure_locks vm stage1 lp pool checked k =
     Acquire (VmLock, vm)
       (case checked of
          None \<Rightarrow> Release (VmLock, vm) k
        | Some (us, stage1_part) \<Rightarrow>
            let ending = pool_drop lp pool (Release (VmLock, vm) k)
            in pool_ops lp pool us
                 (case stage1_part of
                    None \<Rightarrow> ending
                  | Some (vs, ws) \<Rightarrow>
                      Acquire (MmStage1, stage1) (pool_ops lp pool vs (Release (MmStage1, stage1) (pool_ops lp pool ws ending)))))"

definition spci_msg_recv_locks :: "usize \<Rightarrow> usize \<Rightarrow> bool \<Rightarrow> program \<Rightarrow> program" where
  "spci_msg_recv_locks vm interrupts blocks k =
     Acquire (VmLock, vm) (only_if blocks (touch (VCpuInterrupts, interrupts)) (Release (VmLock, vm) k))"

definition mailbox_waiter_get_locks :: "usize \<Rightarrow> usize option \<Rightarrow> program \<Rightarrow> program" where
  "mailbox_waiter_get_locks vm waiting k =
     touch (VmLock, vm) (case waiting of None \<Rightarrow> k | Some w \<Rightarrow> touch (VmLock, w) k)"

definition mailbox_locks :: "usize \<Rightarrow> program \<Rightarrow> program" where
  "mailbox_locks vm k = touch (VmLock, vm) k"

definition debug_log_locks :: "usize \<Rightarrow> bool \<Rightarrow> program \<Rightarrow> program" where
  "debug_log_locks vm flush k = Acquire (VmLock, vm) (only_if flush (touch WRITER) (Release (VmLock, vm) k))"

definition interrupt_inject_locks :: "usize \<Rightarrow> program \<Rightarrow> program" where
  "interrupt_inject_locks interrupts k = touch WRITER (touch (VCpuInterrupts, interrupts) k)"

definition interrupt_locks :: "usize \<Rightarrow> program \<Rightarrow> program" where
  "interrupt_locks interrupts k = touch (VCpuInterrupts, interrupts) k"

definition page_fault_locks :: "usize \<Rightarrow> bool \<Rightarrow> program \<Rightarrow> program" where
  "page_fault_locks vm legitimate k = Acquire (VmLock, vm) (only_if legitimate (touch WRITER) (Release (VmLock, vm) k))"

definition affinity_info_locks :: "usize \<Rightarrow> program \<Rightarrow> program" where
  "affinity_info_locks vcpu k = Try (VCpuExecution, vcpu) (Release (VCpuExecution, vcpu) k) k"

definition cpu_on_locks :: "usize \<Rightarrow> usize \<Rightarrow> bool \<Rightarrow> program \<Rightarrow> program" where
  "cpu_on_locks is_on vcpu was_off k =
     Acquire (CpuOn, is_on) (only_if was_off (touch (VCpuExecution, vcpu)) (Release (CpuOn, is_on) k))"

definition cpu_off_locks :: "usize \<Rightarrow> program \<Rightarrow> program" where
  "cpu_off_locks is_on k = touch (CpuOn, is_on) k"

text \<open>
  \<open>vcpu_run\<close>, and what follows: the lock of the vCPU is kept while the vCPU runs and makes the calls
  \<open>guest\<close>, until its registers are saved.
\<close>

definition vcpu_run_locks ::
  "usize \<Rightarrow> usize \<Rightarrow> usize \<Rightarrow> bool \<Rightarrow> bool \<Rightarrow> bool \<Rightarrow> bool \<Rightarrow> (program \<Rightarrow> program) \<Rightarrow> program \<Rightarrow> program" where
  "vcpu_run_locks vcpu vm interrupts is_aborting mailbox blocked timer guest k =
     Try (VCpuExecution, vcpu)
       (only_if is_aborting (touch WRITER)
         (only_if mailbox (touch (VmLock, vm))
           (only_if blocked (touch (VCpuInterrupts, interrupts))
             (only_if timer (touch (VCpuInterrupts, interrupts))
               (guest (Release (VCpuExecution, vcpu) k))))))
       k"

text \<open>
  The one call that takes the lock of a vCPU while it holds another one: \<open>PSCI_CPU_ON\<close> of a secondary
  VM, by \<open>vcpu_secondary_reset_and_start\<close>.
\<close>

definition secondary_cpu_on_locks :: "usize \<Rightarrow> program \<Rightarrow> program" where
  "secondary_cpu_on_locks target k = touch (VCpuExecution, target) k"

text \<open>
  The calls with their arguments; a call between two VMs is refused when they are the same. A CPU
  makes a sequence of calls of the primary VM, which holds no vCPU lock, turns CPUs on and off, and runs vCPUs.
\<close>

datatype lock_call =
    ShareMemory usize usize usize usize usize "pool_use list" "(pool_use list \<times> pool_use list) option"
  | SpciMsgSend usize usize usize "(usize \<times> pool_use list option) option"
  | VmConfigure usize usize usize usize "(pool_use list \<times> (pool_use list \<times> pool_use list) option) option"
  | SpciMsgRecv usize usize bool
  | MailboxWaiterGet usize "usize option"
  | MailboxCall usize
  | DebugLog usize bool
  | InterruptInject usize
  | InterruptCall usize
  | PageFault usize bool
  | AffinityInfo usize

primrec call_locks :: "lock_call \<Rightarrow> program \<Rightarrow> program" where
  "call_locks (ShareMemory from to stage1 lp pool us cleared) = share_memory_locks from to stage1 lp pool us cleared"
| "call_locks (SpciMsgSend from lp pool checked) = spci_msg_send_locks from lp pool checked"
| "call_locks (VmConfigure vm stage1 lp pool checked) = vm_configure_locks vm stage1 lp pool checked"
| "call_locks (SpciMsgRecv vm interrupts blocks) = spci_msg_recv_locks vm interrupts blocks"
| "call_locks (MailboxWaiterGet vm waiting) = mailbox_waiter_get_locks vm waiting"
| "call_locks (MailboxCall vm) = mailbox_locks vm"
| "call_locks (DebugLog vm flush) = debug_log_locks vm flush"
| "call_locks (InterruptInject interrupts) = interrupt_inject_locks interrupts"
| "call_locks (InterruptCall interrupts) = interrupt_locks interrupts"
| "call_locks (PageFault vm legitimate) = page_fault_locks vm legitimate"
| "call_locks (AffinityInfo vcpu) = affinity_info_locks vcpu"

fun call_ok :: "lock_call \<Rightarrow> bool" where
  "call_ok (ShareMemory from to stage1 lp pool us cleared) \<longleftrightarrow> from \<noteq> to"
| "call_ok (SpciMsgSend from lp pool (Some (to, handled))) \<longleftrightarrow> from \<noteq> to"
| "call_ok _ \<longleftrightarrow> True"

datatype cpu_task =
    PrimaryCall lock_call
  | CpuOnTask usize usize bool
  | CpuOffTask usize
  | RunVcpu usize usize usize bool bool bool bool "lock_call list"

primrec task_locks :: "cpu_task \<Rightarrow> program \<Rightarrow> program" where
  "task_locks (PrimaryCall c) = call_locks c"
| "task_locks (CpuOnTask is_on vcpu was_off) = cpu_on_locks is_on vcpu was_off"
| "task_locks (CpuOffTask is_on) = cpu_off_locks is_on"
| "task_locks (RunVcpu vcpu vm interrupts is_aborting mailbox blocked timer cs) =
     vcpu_run_locks vcpu vm interrupts is_aborting mailbox blocked timer (foldr call_locks cs)"

primrec task_ok :: "cpu_task \<Rightarrow> bool" where
  "task_ok (PrimaryCall c) \<longleftrightarrow> call_ok c"
| "task_ok (CpuOnTask is_on vcpu was_off) \<longleftrightarrow> True"
| "task_ok (CpuOffTask is_on) \<longleftrightarrow> True"
| "task_ok (RunVcpu vcpu vm interrupts is_aborting mailbox blocked timer cs) \<longleftrightarrow> list_all call_ok cs"

definition cpu_program :: "cpu_task list \<Rightarrow> program" where
  "cpu_program ts = foldr task_locks ts Done"

text \<open>
  The discipline: a blocking acquisition is above every lock that is held, only held locks are
  released, and none is held at the end.
\<close>

primrec ordered :: "lock list \<Rightarrow> program \<Rightarrow> bool" where
  "ordered held Done \<longleftrightarrow> held = []"
| "ordered held (Acquire l k) \<longleftrightarrow> (\<forall>x \<in> set held. x < l) \<and> ordered (l # held) k"
| "ordered held (Release l k) \<longleftrightarrow> l \<in> set held \<and> ordered (remove1 l held) k"
| "ordered held (Try l k k') \<longleftrightarrow> ordered (l # held) k \<and> ordered held k'"

section \<open>CPUs\<close>

text \<open>\<open>held\<close> is a ghost: the locks whose guards the CPU has.\<close>

record lock_state =
  lmem :: lock_mem
  prog :: "nat \<Rightarrow> program"
  held :: "nat \<Rightarrow> lock list"

inductive lock_step :: "lock_state \<Rightarrow> lock_state \<Rightarrow> bool" where
  acquire: "prog s p = Acquire l k \<Longrightarrow> lock_round l (lmem s) = (True, m) \<Longrightarrow>
    lock_step s (s\<lparr>lmem := m, prog := (prog s)(p := k), held := (held s)(p := l # held s p)\<rparr>)"
| spin: "prog s p = Acquire l k \<Longrightarrow> lock_round l (lmem s) = (False, m) \<Longrightarrow> lock_step s (s\<lparr>lmem := m\<rparr>)"
| release: "prog s p = Release l k \<Longrightarrow>
    lock_step s (s\<lparr>lmem := unlock_raw l (lmem s), prog := (prog s)(p := k), held := (held s)(p := remove1 l (held s p))\<rparr>)"
| try_ok: "prog s p = Try l k k' \<Longrightarrow> try_lock l (lmem s) = (True, m) \<Longrightarrow>
    lock_step s (s\<lparr>lmem := m, prog := (prog s)(p := k), held := (held s)(p := l # held s p)\<rparr>)"
| try_fail: "prog s p = Try l k k' \<Longrightarrow> try_lock l (lmem s) = (False, m) \<Longrightarrow>
    lock_step s (s\<lparr>lmem := m, prog := (prog s)(p := k')\<rparr>)"

definition lock_init :: "(nat \<Rightarrow> program) \<Rightarrow> lock_state" where
  "lock_init ps = \<lparr>lmem = (\<lambda>_. RawSpinLock_new), prog = ps, held = (\<lambda>_. [])\<rparr>"

definition lock_inv :: "lock_state \<Rightarrow> bool" where
  "lock_inv s \<longleftrightarrow>
     (\<forall>l. lmem s l \<longleftrightarrow> (\<exists>p. l \<in> set (held s p))) \<and> (\<forall>p. distinct (held s p)) \<and>
     (\<forall>p q l. l \<in> set (held s p) \<longrightarrow> l \<in> set (held s q) \<longrightarrow> p = q) \<and> (\<forall>p. ordered (held s p) (prog s p))"

lemma lock_invD:
  assumes "lock_inv s"
  shows "lmem s l \<longleftrightarrow> (\<exists>p. l \<in> set (held s p))" "distinct (held s p)"
    "l \<in> set (held s p) \<Longrightarrow> l \<in> set (held s q) \<Longrightarrow> p = q" "ordered (held s p) (prog s p)"
  using assms unfolding lock_inv_def by blast+

text \<open>Taking a free lock, and giving one back.\<close>

lemma inv_take:
  assumes I: "lock_inv s" and free: "\<not> lmem s l" and k: "ordered (l # held s p) k"
  shows "lock_inv (s\<lparr>lmem := (lmem s)(l := True), prog := (prog s)(p := k), held := (held s)(p := l # held s p)\<rparr>)"
proof -
  have nl: "l \<notin> set (held s q)" for q using free lock_invD(1) [OF I] by blast
  show ?thesis
    unfolding lock_inv_def using nl k lock_invD [OF I] by auto metis
qed

lemma inv_give:
  assumes I: "lock_inv s" and p: "prog s p = Release l k"
  shows "lock_inv (s\<lparr>lmem := (lmem s)(l := False), prog := (prog s)(p := k), held := (held s)(p := remove1 l (held s p))\<rparr>)"
proof -
  have l: "l \<in> set (held s p)" "ordered (remove1 l (held s p)) k"
    using lock_invD(4) [OF I, of p] p by simp_all
  have ne: "l \<notin> set (held s q)" if "q \<noteq> p" for q using lock_invD(3) [OF I l(1), of q] that by blast
  show ?thesis
    unfolding lock_inv_def using l ne lock_invD [OF I] by (auto simp: set_remove1_eq) metis
qed

lemma lock_step_inv: "lock_step s s' \<Longrightarrow> lock_inv s \<Longrightarrow> lock_inv s'"
proof (induction rule: lock_step.induct)
  case (acquire s p l k m)
  then have "\<not> lmem s l" "m = (lmem s)(l := True)"
    by (auto simp: lock_round_def compare_exchange_def split: if_splits)
  then show ?case using inv_take [OF acquire.prems, of l p k] lock_invD(4) [OF acquire.prems, of p] acquire.hyps(1) by simp
next
  case (spin s p l k m)
  then have "s\<lparr>lmem := m\<rparr> = s" by (auto simp: lock_round_def compare_exchange_def split: if_splits)
  then show ?case using spin.prems by simp
next
  case (release s p l k)
  then show ?case using inv_give by (simp add: unlock_raw_def)
next
  case (try_ok s p l k k' m)
  then have "\<not> lmem s l" "m = (lmem s)(l := True)" by (auto simp: try_lock_def)
  then show ?case using inv_take [OF try_ok.prems, of l p k] lock_invD(4) [OF try_ok.prems, of p] try_ok.hyps(1) by simp
next
  case (try_fail s p l k k' m)
  then have "m = lmem s" by (auto simp: try_lock_def fun_upd_idem)
  moreover have "ordered (held s p) k'" using lock_invD(4) [OF try_fail.prems, of p] try_fail.hyps(1) by simp
  ultimately show ?case using try_fail.prems by (auto simp: lock_inv_def split: if_splits)
qed

lemma lock_steps_inv: "lock_step\<^sup>*\<^sup>* s s' \<Longrightarrow> lock_inv s \<Longrightarrow> lock_inv s'"
  by (induction rule: rtranclp_induct) (auto intro: lock_step_inv)

lemma lock_init_inv: "(\<And>p. ordered [] (ps p)) \<Longrightarrow> lock_inv (lock_init ps)"
  by (simp add: lock_inv_def lock_init_def RawSpinLock_new_def)

section \<open>The calls keep to the order\<close>

lemma below_less: "\<forall>x \<in> set hs. fst x < kd \<Longrightarrow> \<forall>x \<in> set hs. x < (kd, a)" for kd :: lock_kind
  by (auto simp: less_prod_def)

lemma below_up: "\<forall>x \<in> set hs. fst x < kd \<Longrightarrow> kd \<le> kd' \<Longrightarrow> \<forall>x \<in> set hs. fst x < kd'" for kd kd' :: lock_kind
  by (auto intro: less_le_trans)

lemma kinds_less [simp]:
  "CpuOn < VCpuExecution" "VCpuExecution < VmLock" "VmLock < VCpuInterrupts" "VmLock < MmStage1" "VmLock < LocalPool" "VmLock < DlogLock"
  "VCpuExecution < VCpuInterrupts" "VCpuExecution < DlogLock" "MmStage1 < LocalPool" "LocalPool < SharedPool" "LocalPool < DlogLock"
  "MmStage1 < DlogLock" "VmLock \<le> LocalPool" "VmLock \<le> VCpuInterrupts" "VmLock \<le> MmStage1" "VmLock \<le> DlogLock" "LocalPool \<le> SharedPool"
  "LocalPool \<le> DlogLock"
  by (simp_all add: less_lock_kind_def less_eq_lock_kind_def)

lemma touch_ordered: "\<forall>x \<in> set hs. fst x < kd \<Longrightarrow> ordered hs (touch (kd, a) k) \<longleftrightarrow> ordered hs k"
  using below_less [of hs kd a] by (simp add: touch_def)

lemma writer_ordered: "\<forall>x \<in> set hs. fst x < DlogLock \<Longrightarrow> ordered hs (touch WRITER k) \<longleftrightarrow> ordered hs k"
  by (simp add: WRITER_def touch_ordered)

lemma only_if_ordered:
  "\<forall>x \<in> set hs. fst x < kd \<Longrightarrow> ordered hs (only_if b (touch (kd, a)) k) \<longleftrightarrow> ordered hs k"
  "\<forall>x \<in> set hs. fst x < DlogLock \<Longrightarrow> ordered hs (only_if b (touch WRITER) k) \<longleftrightarrow> ordered hs k"
  by (simp_all add: only_if_def touch_ordered writer_ordered)

lemma lock_both_ordered:
  assumes "a \<noteq> b" "\<forall>x \<in> set hs. fst x < kd"
  shows "ordered hs (lock_both (kd, a) (kd, b) k) \<longleftrightarrow>
    ordered (if a < b then (kd, b) # (kd, a) # hs else (kd, a) # (kd, b) # hs) k"
  using assms below_less [OF assms(2)] by (auto simp: lock_both_def less_prod_def)

lemma pool_ops_ordered:
  "\<forall>x \<in> set hs. fst x < LocalPool \<Longrightarrow> ordered hs (pool_ops lp pool us k) \<longleftrightarrow> ordered hs k"
proof (induction us)
  case (Cons u us)
  have "\<forall>x \<in> set hs. fst x < SharedPool" "\<forall>x \<in> set hs. fst x < DlogLock"
    using below_up [OF Cons.prems] by simp_all
  then show ?case using Cons touch_ordered [OF Cons.prems] by (simp add: only_if_ordered)
qed simp

lemma pool_drop_ordered:
  assumes "\<forall>x \<in> set hs. fst x < LocalPool"
  shows "ordered hs (pool_drop lp pool k) \<longleftrightarrow> ordered hs k"
  using below_less [OF assms] below_less [OF below_up [OF assms, of SharedPool]] by (simp add: pool_drop_def less_prod_def)

text \<open>What is held around a call: nothing, or the lock of the vCPU that makes it.\<close>

lemma two_vms_ordered:
  assumes "a \<noteq> b" "\<forall>x \<in> set hs. fst x < VmLock" and k: "\<And>hs'. \<forall>x \<in> set hs'. fst x \<le> VmLock \<Longrightarrow> ordered hs' k = ordered hs' k'"
    and k': "\<And>hs'. ordered ((VmLock, b) # (VmLock, a) # hs') k' = ordered hs' k''" "\<And>hs'. ordered ((VmLock, a) # (VmLock, b) # hs') k' = ordered hs' k''"
  shows "ordered hs (lock_both (VmLock, a) (VmLock, b) k) \<longleftrightarrow> ordered hs k''"
proof -
  have "\<forall>x \<in> set ((VmLock, b) # (VmLock, a) # hs). fst x \<le> VmLock" "\<forall>x \<in> set ((VmLock, a) # (VmLock, b) # hs). fst x \<le> VmLock"
    using assms(2) by auto
  from k [OF this(1)] k [OF this(2)] show ?thesis using lock_both_ordered [OF assms(1,2)] k' by simp
qed

lemma stage1_ordered:
  assumes "\<forall>x \<in> set hs. fst x \<le> VmLock"
  shows "ordered hs (Acquire (MmStage1, a) (pool_ops lp pool vs (Release (MmStage1, a) (pool_ops lp pool ws k)))) \<longleftrightarrow> ordered hs k"
proof -
  have below: "fst x < MmStage1" "fst x < LocalPool" if "x \<in> set hs" for x
    using assms that by (auto intro: le_less_trans)
  have "\<forall>x \<in> set ((MmStage1, a) # hs). fst x < LocalPool" "\<forall>x \<in> set hs. fst x < LocalPool" using below by auto
  note po = pool_ops_ordered [OF this(1)] pool_ops_ordered [OF this(2)]
  have "\<forall>x \<in> set hs. x < (MmStage1, a)" using below by (intro below_less) blast
  then show ?thesis using po by simp
qed

lemma vm_held_pools: "\<forall>x \<in> set hs. fst x \<le> VmLock \<Longrightarrow> \<forall>x \<in> set hs. fst x < LocalPool"
  by (auto intro: le_less_trans)

lemma share_memory_ordered:
  assumes "from \<noteq> to" "\<forall>x \<in> set hs. fst x < VmLock"
  shows "ordered hs (share_memory_locks from to stage1 lp pool us cleared k) \<longleftrightarrow> ordered hs k"
proof -
  let ?e = "Release (VmLock, to) (Release (VmLock, from) (pool_drop lp pool k))"
  have "ordered hs (share_memory_locks from to stage1 lp pool us cleared k) \<longleftrightarrow> ordered hs (pool_drop lp pool k)"
    unfolding share_memory_locks_def Let_def
  proof (rule two_vms_ordered [OF assms, where k' = ?e])
    fix hs' :: "lock list" assume h: "\<forall>x \<in> set hs'. fst x \<le> VmLock"
    show "ordered hs' (pool_ops lp pool us (case cleared of None \<Rightarrow> ?e | Some (vs, ws) \<Rightarrow>
        Acquire (MmStage1, stage1) (pool_ops lp pool vs (Release (MmStage1, stage1) (pool_ops lp pool ws ?e))))) = ordered hs' ?e"
      using pool_ops_ordered [OF vm_held_pools [OF h]] stage1_ordered [OF h] by (simp split: option.split)
  qed (use assms(1) in auto)
  then show ?thesis using pool_drop_ordered [of hs] below_up [OF assms(2)] by simp
qed

lemma spci_msg_send_ordered:
  assumes "\<And>to handled. checked = Some (to, handled) \<Longrightarrow> from \<noteq> to" "\<forall>x \<in> set hs. fst x < VmLock"
  shows "ordered hs (spci_msg_send_locks from lp pool checked k) \<longleftrightarrow> ordered hs k"
proof (cases checked)
  case (Some c)
  obtain to handled where c: "c = (to, handled)" by fastforce
  let ?e = "Release (VmLock, from) (Release (VmLock, to) k)"
  have ne: "to \<noteq> from" using assms(1) Some c by blast
  have "ordered hs (lock_both (VmLock, to) (VmLock, from)
      (case handled of None \<Rightarrow> ?e | Some us \<Rightarrow> pool_ops lp pool us (pool_drop lp pool ?e))) \<longleftrightarrow> ordered hs k"
  proof (rule two_vms_ordered [OF ne assms(2), where k' = ?e])
    fix hs' :: "lock list" assume h: "\<forall>x \<in> set hs'. fst x \<le> VmLock"
    show "ordered hs' (case handled of None \<Rightarrow> ?e | Some us \<Rightarrow> pool_ops lp pool us (pool_drop lp pool ?e)) = ordered hs' ?e"
      using pool_ops_ordered [OF vm_held_pools [OF h]] pool_drop_ordered [OF vm_held_pools [OF h]] by (simp split: option.split)
  qed (use ne in auto)
  then show ?thesis using touch_ordered [OF assms(2)] by (simp add: spci_msg_send_locks_def Some c Let_def)
qed (simp add: spci_msg_send_locks_def touch_ordered [OF assms(2)])

lemma vm_configure_ordered:
  assumes "\<forall>x \<in> set hs. fst x < VmLock"
  shows "ordered hs (vm_configure_locks vm stage1 lp pool checked k) \<longleftrightarrow> ordered hs k"
proof -
  have h: "\<forall>x \<in> set ((VmLock, vm) # hs). fst x \<le> VmLock" using assms by auto
  show ?thesis
    using below_less [OF assms, of vm] pool_ops_ordered [OF vm_held_pools [OF h]] pool_drop_ordered [OF vm_held_pools [OF h]] stage1_ordered [OF h]
    by (auto simp: vm_configure_locks_def Let_def split: option.split)
qed

lemma call_ordered:
  assumes "call_ok c" and hs: "\<forall>x \<in> set hs. fst x < VmLock"
  shows "ordered hs (call_locks c k) \<longleftrightarrow> ordered hs k"
proof -
  have vm: "\<forall>x \<in> set ((VmLock, vm) # hs). fst x < kd" if "VmLock < kd" for vm kd
    using hs that by auto
  have up: "\<forall>x \<in> set hs. fst x < kd" if "VmLock \<le> kd" for kd by (rule below_up [OF hs that])
  note in_vm = below_less [OF hs] only_if_ordered(1) [OF vm] only_if_ordered(2) [OF vm]
  show ?thesis
  proof (cases c)
    case (ShareMemory v w stage1 lp pool us cleared)
    then show ?thesis using assms(1) share_memory_ordered [OF _ hs] by simp
  next
    case (SpciMsgSend v lp pool checked)
    have "v \<noteq> to" if "checked = Some (to, handled)" for to handled using assms(1) SpciMsgSend that by simp
    then show ?thesis using SpciMsgSend spci_msg_send_ordered [OF _ hs] by simp
  next
    case (VmConfigure vm stage1 lp pool checked)
    then show ?thesis using vm_configure_ordered [OF hs] by simp
  next
    case (SpciMsgRecv vm ints blocks)
    then show ?thesis using in_vm by (simp add: spci_msg_recv_locks_def)
  next
    case (MailboxWaiterGet vm waiting)
    then show ?thesis using touch_ordered [OF hs] by (simp add: mailbox_waiter_get_locks_def split: option.split)
  next
    case (AffinityInfo vcpu)
    then show ?thesis by (simp add: affinity_info_locks_def)
  qed (use in_vm touch_ordered [OF hs] touch_ordered [OF up] writer_ordered [OF up] in
      \<open>simp_all add: mailbox_locks_def debug_log_locks_def interrupt_inject_locks_def interrupt_locks_def page_fault_locks_def\<close>)
qed

lemma calls_ordered:
  "list_all call_ok cs \<Longrightarrow> \<forall>x \<in> set hs. fst x < VmLock \<Longrightarrow> ordered hs (foldr call_locks cs k) \<longleftrightarrow> ordered hs k"
  by (induction cs) (simp_all add: call_ordered)

lemma vcpu_run_ordered:
  assumes "list_all call_ok cs"
  shows "ordered [] (vcpu_run_locks vcpu vm ints ab mb bl tm (foldr call_locks cs) k) \<longleftrightarrow> ordered [] k"
proof -
  let ?hs = "[(VCpuExecution, vcpu)]"
  have "\<forall>x \<in> set ?hs. fst x < VmLock" "\<forall>x \<in> set ?hs. fst x < VCpuInterrupts" "\<forall>x \<in> set ?hs. fst x < DlogLock" by simp_all
  note o = only_if_ordered(1) [OF this(1)] only_if_ordered(1) [OF this(2)] only_if_ordered(2) [OF this(3)] calls_ordered [OF assms this(1)]
  show ?thesis by (simp add: vcpu_run_locks_def o)
qed

lemma task_ordered:
  assumes "task_ok t"
  shows "ordered [] (task_locks t k) \<longleftrightarrow> ordered [] k"
proof (cases t)
  case (PrimaryCall c)
  then show ?thesis using assms call_ordered [of c "[]"] by simp
next
  case (CpuOnTask on vcpu was_off)
  then show ?thesis by (simp add: cpu_on_locks_def only_if_def touch_def less_prod_def)
next
  case (CpuOffTask on)
  then show ?thesis by (simp add: cpu_off_locks_def touch_def)
next
  case (RunVcpu vcpu vm ints ab mb bl tm cs)
  then show ?thesis using assms vcpu_run_ordered by simp
qed

lemma cpu_program_ordered: "list_all task_ok ts \<Longrightarrow> ordered [] (cpu_program ts)"
  by (induction ts) (simp_all add: cpu_program_def task_ordered)

section \<open>Progress\<close>

definition finished :: "lock_state \<Rightarrow> bool" where
  "finished s \<longleftrightarrow> (\<forall>p. prog s p = Done)"

text \<open>What is left to do on the first \<open>n\<close> CPUs.\<close>

primrec psize :: "program \<Rightarrow> nat" where
  "psize Done = 0"
| "psize (Acquire l k) = Suc (psize k)"
| "psize (Release l k) = Suc (psize k)"
| "psize (Try l k k') = Suc (psize k + psize k')"

definition remaining :: "nat \<Rightarrow> lock_state \<Rightarrow> nat" where
  "remaining n s = (\<Sum>p < n. psize (prog s p))"

lemma remaining_less:
  assumes "p < n" "psize k < psize (prog s p)" "prog s' = (prog s)(p := k)"
  shows "remaining n s' < remaining n s"
  unfolding remaining_def by (rule sum_strict_mono_ex1) (use assms in auto)

primrec waits_for :: "program \<Rightarrow> lock set" where
  "waits_for Done = {}"
| "waits_for (Acquire l k) = {l}"
| "waits_for (Release l k) = {}"
| "waits_for (Try l k k') = {}"

lemma waits_for_iff: "l \<in> waits_for c \<longleftrightarrow> (\<exists>k. c = Acquire l k)"
  by (cases c) auto

lemma finite_waits: "finite (waits_for c)"
  by (cases c) simp_all

text \<open>A CPU that waits for a held lock waits for a CPU that waits for a higher one, or goes on.\<close>

lemma someone_moves:
  assumes I: "lock_inv s" and fin: "\<And>p. n \<le> p \<Longrightarrow> prog s p = Done" and nf: "\<not> finished s"
  shows "\<exists>s'. lock_step s s' \<and> remaining n s' < remaining n s \<and> (\<forall>p. n \<le> p \<longrightarrow> prog s' p = Done)"
proof (cases "\<exists>p l k. prog s p \<noteq> Done \<and> \<not> (prog s p = Acquire l k \<and> lmem s l) \<and> (prog s p = Acquire l k \<or> (\<nexists>l k. prog s p = Acquire l k))")
  case True
  then obtain p l k where p: "prog s p \<noteq> Done" "\<not> (prog s p = Acquire l k \<and> lmem s l)"
    "prog s p = Acquire l k \<or> (\<nexists>l k. prog s p = Acquire l k)" by blast
  have pn: "p < n" using fin [of p] p(1) by (meson not_le)
  have go: ?thesis if "lock_step s s'" "prog s' = (prog s)(p := k')" "psize k' < psize (prog s p)" for s' k'
    using that remaining_less [OF pn that(3,2)] fin pn by (intro exI [of _ s']) auto
  show ?thesis
  proof (cases "prog s p")
    case (Acquire l' k')
    then have "lock_round l' (lmem s) = (True, (lmem s)(l' := True))"
      using p by (auto simp: lock_round_def compare_exchange_def)
    from go [OF lock_step.acquire [OF Acquire this]] show ?thesis using Acquire by simp
  next
    case (Release l' k')
    from go [OF lock_step.release [OF Release]] show ?thesis using Release by simp
  next
    case (Try l' k' k'')
    show ?thesis
    proof (cases "lmem s l'")
      case True
      then have "try_lock l' (lmem s) = (False, (lmem s)(l' := True))" by (simp add: try_lock_def)
      from go [OF lock_step.try_fail [OF Try this]] show ?thesis using Try by simp
    next
      case False
      then have "try_lock l' (lmem s) = (True, (lmem s)(l' := True))" by (simp add: try_lock_def)
      from go [OF lock_step.try_ok [OF Try this]] show ?thesis using Try by simp
    qed
  qed (use p in simp)
next
  case False
  then have blocked: "\<exists>l k. prog s p = Acquire l k \<and> lmem s l" if "prog s p \<noteq> Done" for p
    using that by (metis program.exhaust)
  define L where "L = (\<Union>p < n. waits_for (prog s p))"
  have L: "l \<in> L \<longleftrightarrow> (\<exists>p k. prog s p = Acquire l k)" for l
  proof -
    have "p < n" if "prog s p = Acquire l k" for p k using fin [of p] that by (metis not_le program.distinct(1))
    then show ?thesis unfolding L_def by (auto simp: waits_for_iff)
  qed
  have finL: "finite L" by (simp add: L_def finite_waits)
  have ne: "L \<noteq> {}"
  proof -
    obtain p where "prog s p \<noteq> Done" using nf by (auto simp: finished_def)
    then show ?thesis using blocked [of p] L by blast
  qed
  obtain p k where p: "prog s p = Acquire (Max L) k" using Max_in [OF finL ne] L by blast
  then have "lmem s (Max L)" using blocked [of p] by auto
  then obtain q where q: "Max L \<in> set (held s q)" using lock_invD(1) [OF I] by blast
  then have "prog s q \<noteq> Done" using lock_invD(4) [OF I, of q] by auto
  then obtain l' k' where q': "prog s q = Acquire l' k'" using blocked by blast
  then have "Max L < l'" using lock_invD(4) [OF I, of q] q by simp
  moreover have "l' \<le> Max L" using q' finL L by (intro Max_ge) blast+
  ultimately show ?thesis by simp
qed

lemma can_finish:
  assumes "lock_inv s" "\<And>p. n \<le> p \<Longrightarrow> prog s p = Done"
  shows "\<exists>s'. lock_step\<^sup>*\<^sup>* s s' \<and> finished s'"
  using assms
proof (induction "remaining n s" arbitrary: s rule: less_induct)
  case less
  show ?case
  proof (cases "finished s")
    case False
    then obtain s1 where s1: "lock_step s s1" "remaining n s1 < remaining n s" "\<forall>p. n \<le> p \<longrightarrow> prog s1 p = Done"
      using someone_moves [OF less.prems] by blast
    then obtain s' where "lock_step\<^sup>*\<^sup>* s1 s'" "finished s'"
      using less.hyps [OF s1(2) lock_step_inv [OF s1(1) less.prems(1)]] by blast
    then show ?thesis using s1(1) by (meson converse_rtranclp_into_rtranclp)
  qed blast
qed

text \<open>
  C14. Mutual exclusion: when every CPU keeps to the order of the locks, then in every reachable state
  a lock is held by at most one CPU, and the flag of a lock is set exactly when a CPU holds it.
\<close>

theorem lock_mutual_exclusion:
  assumes "\<And>p. ordered [] (ps p)" "lock_step\<^sup>*\<^sup>* (lock_init ps) s"
  shows "(l \<in> set (held s p) \<longrightarrow> l \<in> set (held s q) \<longrightarrow> p = q) \<and> (lmem s l \<longleftrightarrow> (\<exists>p. l \<in> set (held s p)))"
  using lock_invD [OF lock_steps_inv [OF assms(2) lock_init_inv [OF assms(1)]]] by blast

theorem lock_mutual_exclusion_witness:
  "\<exists>s. lock_step\<^sup>*\<^sup>* (lock_init (\<lambda>p. cpu_program [RunVcpu 8 16 24 False True True False []])) s
     \<and> (VCpuExecution, 8) \<in> set (held s 0) \<and> (VCpuExecution, 8) \<notin> set (held s 1)"
proof -
  let ?l = "(VCpuExecution, 8 :: usize)" and ?c = "cpu_program [RunVcpu 8 16 24 False True True False []]"
  have ordered: "ordered [] ?c" by (rule cpu_program_ordered) simp
  obtain k where k: "?c = Try ?l k Done" by (simp add: cpu_program_def vcpu_run_locks_def)
  let ?i = "lock_init (\<lambda>p. ?c)"
  let ?s = "?i\<lparr>lmem := (lmem ?i)(?l := True), prog := (prog ?i)(0 := k), held := (held ?i)(0 := ?l # held ?i 0)\<rparr>"
  have "lock_step ?i ?s"
    by (rule lock_step.try_ok) (simp_all add: lock_init_def k try_lock_def RawSpinLock_new_def)
  then have run: "lock_step\<^sup>*\<^sup>* ?i ?s" by (rule r_into_rtranclp)
  have held: "?l \<in> set (held ?s 0)" by simp
  have "?l \<notin> set (held ?s 1)"
    using lock_mutual_exclusion [OF ordered run, of ?l 0 1] held by auto
  then show ?thesis using run held by blast
qed

text \<open>
  C13. The calls do not deadlock: CPUs that make any calls of the primary VM, turn CPUs on and off, and
  run vCPUs which make any calls but \<open>PSCI_CPU_ON\<close>, with the locks taken as the code takes them, never
  reach a stuck state. From every state that they reach, all CPUs can go on to the end of what they do.
\<close>

theorem calls_no_deadlock:
  assumes "\<And>p. list_all task_ok (ts p)" "\<And>p. n \<le> p \<Longrightarrow> ts p = []"
    and "lock_step\<^sup>*\<^sup>* (lock_init (\<lambda>p. cpu_program (ts p))) s"
  shows "\<exists>s'. lock_step\<^sup>*\<^sup>* s s' \<and> finished s'"
proof (rule can_finish)
  let ?i = "lock_init (\<lambda>p. cpu_program (ts p))"
  show "lock_inv s"
    by (rule lock_steps_inv [OF assms(3) lock_init_inv]) (rule cpu_program_ordered [OF assms(1)])
  have ended: "prog s' p = Done" if "lock_step\<^sup>*\<^sup>* ?i s'" "n \<le> p" for s' p
    using that
  proof induction
    case (step s1 s2)
    from step.hyps(2) show ?case by cases (use step.IH step.prems in \<open>auto split: if_splits\<close>)
  qed (simp add: lock_init_def cpu_program_def assms(2))
  show "prog s p = Done" if "n \<le> p" for p by (rule ended [OF assms(3) that])
qed

text \<open>Two VMs that share memory with each other and send each other messages, on two CPUs.\<close>

theorem calls_no_deadlock_witness:
  "\<exists>s'. lock_step\<^sup>*\<^sup>* (lock_init (\<lambda>p. cpu_program
       (if p = 0 then [PrimaryCall (ShareMemory 8 16 24 32 40 [FallbackPage] (Some ([OwnPage], [NoPage])))]
        else if p = 1 then [RunVcpu 64 16 72 False True True False [SpciMsgSend 16 48 40 (Some (8, Some [OwnPage])),
          ShareMemory 16 8 24 48 40 [] None]]
        else []))) s' \<and> finished s'"
proof -
  let ?ts = "\<lambda>p :: nat. if p = 0 then [PrimaryCall (ShareMemory 8 16 24 32 40 [FallbackPage] (Some ([OwnPage], [NoPage])))]
        else if p = 1 then [RunVcpu 64 16 72 False True True False [SpciMsgSend 16 48 40 (Some (8, Some [OwnPage])),
          ShareMemory 16 8 24 48 40 [] None]]
        else []"
  have "list_all task_ok (?ts p)" for p by simp
  moreover have "?ts p = []" if "2 \<le> p" for p using that by simp
  ultimately show ?thesis using calls_no_deadlock [of ?ts 2 "lock_init (\<lambda>p. cpu_program (?ts p))"] by blast
qed

text \<open>
  \<open>PSCI_CPU_ON\<close> of a secondary VM is left out because it does deadlock: two vCPUs that run and turn each
  other on reach a state in which every step is a failing round of \<open>lock\<close>.
\<close>

lemma secondary_cpu_on_deadlocks:
  fixes a b :: usize
  assumes "a \<noteq> b"
  defines "run \<equiv> \<lambda>own other. vcpu_run_locks own 0 0 False False False False (secondary_cpu_on_locks other) Done"
  shows "\<exists>s. lock_step\<^sup>*\<^sup>* (lock_init (\<lambda>p. if p = 0 then run a b else if p = 1 then run b a else Done)) s
    \<and> \<not> finished s \<and> (\<forall>s'. lock_step s s' \<longrightarrow> s' = s)"
proof -
  let ?la = "(VCpuExecution, a)" and ?lb = "(VCpuExecution, b)"
  let ?rest = "\<lambda>own other. Acquire (VCpuExecution, other) (Release (VCpuExecution, other) (Release (VCpuExecution, own) Done))"
  have run: "run x y = Try (VCpuExecution, x) (?rest x y) Done" for x y
    by (simp add: run_def vcpu_run_locks_def secondary_cpu_on_locks_def touch_def only_if_def)
  let ?i = "lock_init (\<lambda>p. if p = 0 then run a b else if p = 1 then run b a else Done)"
  let ?s1 = "?i\<lparr>lmem := (lmem ?i)(?la := True), prog := (prog ?i)(0 := ?rest a b), held := (held ?i)(0 := ?la # held ?i 0)\<rparr>"
  let ?s2 = "?s1\<lparr>lmem := (lmem ?s1)(?lb := True), prog := (prog ?s1)(1 := ?rest b a), held := (held ?s1)(1 := ?lb # held ?s1 1)\<rparr>"
  have "lock_step ?i ?s1"
    by (rule lock_step.try_ok) (simp_all add: lock_init_def run try_lock_def RawSpinLock_new_def)
  moreover have "lock_step ?s1 ?s2"
    by (rule lock_step.try_ok) (use assms(1) in \<open>simp_all add: lock_init_def run try_lock_def RawSpinLock_new_def\<close>)
  ultimately have "lock_step\<^sup>*\<^sup>* ?i ?s2" by (meson converse_rtranclp_into_rtranclp r_into_rtranclp)
  moreover have "\<not> finished ?s2" by (auto simp: finished_def intro!: exI [of _ 0])
  moreover have "s' = ?s2" if st: "lock_step ?s2 s'" for s'
  proof -
    have waiting: "(\<exists>l k. prog ?s2 p = Acquire l k \<and> lmem ?s2 l) \<or> prog ?s2 p = Done" for p
      using assms(1) by (auto simp: lock_init_def)
    from st show ?thesis
    proof cases
      case (acquire p l k m)
      then show ?thesis using waiting [of p] by (auto simp: lock_round_def compare_exchange_def split: if_splits)
    next
      case (spin p l k m)
      then have "m = lmem ?s2" by (auto simp: lock_round_def compare_exchange_def split: if_splits)
      then show ?thesis using spin(1) by simp
    next
      case (release p l k)
      then show ?thesis using waiting [of p] by auto
    next
      case (try_ok p l k k' m)
      then show ?thesis using waiting [of p] by auto
    next
      case (try_fail p l k k' m)
      then show ?thesis using waiting [of p] by auto
    qed
  qed
  ultimately show ?thesis by blast
qed

section \<open>Locks with data\<close>

text \<open>
  \<open>SpinLock<T>\<close> at its address, seen from one CPU while no other CPU runs: a lock that is taken is
  not released, so \<open>lock\<close> does not return on it. A guard is the address of its lock; \<open>into_raw\<close>
  forgets a guard, which leaves the lock taken, and \<open>from_raw\<close> makes a guard of an address.
\<close>

record 'a spin_lock =
  raw_lock :: bool
  lock_data :: 'a

type_synonym 'a spin_store = "usize \<Rightarrow> 'a spin_lock"

definition SpinLock_new :: "'a \<Rightarrow> 'a spin_lock" where
  "SpinLock_new d = \<lparr>raw_lock = RawSpinLock_new, lock_data = d\<rparr>"

definition SpinLock_into_inner :: "'a spin_lock \<Rightarrow> 'a" where
  "SpinLock_into_inner l = lock_data l"

definition sl_init :: "usize \<Rightarrow> 'a spin_store \<Rightarrow> 'a spin_store" where
  "sl_init l st = st(l := (st l)\<lparr>raw_lock := RawSpinLock_new\<rparr>)"

definition sl_lock :: "usize \<Rightarrow> 'a spin_store \<Rightarrow> 'a spin_store option" where
  "sl_lock l st = (if raw_lock (st l) then None else Some (st(l := (st l)\<lparr>raw_lock := True\<rparr>)))"

definition sl_unlock :: "usize \<Rightarrow> 'a spin_store \<Rightarrow> 'a spin_store" where
  "sl_unlock l st = st(l := (st l)\<lparr>raw_lock := False\<rparr>)"

definition SpinLock_lock :: "usize \<Rightarrow> 'a spin_store \<Rightarrow> (usize \<times> 'a spin_store) option" where
  "SpinLock_lock l st = map_option (\<lambda>st. (l, st)) (sl_lock l st)"

definition SpinLock_try_lock :: "usize \<Rightarrow> 'a spin_store \<Rightarrow> usize res \<times> 'a spin_store" where
  "SpinLock_try_lock l st =
     (if raw_lock (st l) then (Err (), st) else (Ok l, st(l := (st l)\<lparr>raw_lock := True\<rparr>)))"

definition SpinLock_lock_both :: "usize \<Rightarrow> usize \<Rightarrow> 'a spin_store \<Rightarrow> ((usize \<times> usize) \<times> 'a spin_store) option" where
  "SpinLock_lock_both lhs rhs st =
     (if lhs < rhs then Option.bind (sl_lock lhs st) (\<lambda>st. map_option (\<lambda>st. ((lhs, rhs), st)) (sl_lock rhs st))
      else Option.bind (sl_lock rhs st) (\<lambda>st. map_option (\<lambda>st. ((lhs, rhs), st)) (sl_lock lhs st)))"

definition SpinLockGuard_drop :: "usize \<Rightarrow> 'a spin_store \<Rightarrow> 'a spin_store" where
  "SpinLockGuard_drop g st = sl_unlock g st"

definition SpinLockGuard_deref :: "usize \<Rightarrow> 'a spin_store \<Rightarrow> 'a" where
  "SpinLockGuard_deref g st = lock_data (st g)"

definition SpinLockGuard_deref_mut :: "usize \<Rightarrow> ('a \<Rightarrow> 'a) \<Rightarrow> 'a spin_store \<Rightarrow> 'a spin_store" where
  "SpinLockGuard_deref_mut g f st = st(g := (st g)\<lparr>lock_data := f (lock_data (st g))\<rparr>)"

text \<open>A critical section on a free lock changes the data and leaves the lock free.\<close>

lemma critical_section:
  assumes "\<not> raw_lock (st l)" "SpinLock_lock l st = Some (g, st1)"
  shows "g = l" "SpinLock_lock l st1 = None" "fst (SpinLock_try_lock l st1) = Err ()"
    "SpinLockGuard_drop g (SpinLockGuard_deref_mut g f st1) = st(l := (st l)\<lparr>lock_data := f (lock_data (st l))\<rparr>)"
  using assms
  by (auto simp: SpinLock_lock_def sl_lock_def SpinLock_try_lock_def SpinLockGuard_drop_def sl_unlock_def SpinLockGuard_deref_mut_def)

text \<open>
  \<open>lock_both\<close> returns the guards in the order of its arguments, whichever it locks first, exactly when both
  locks are free and different.
\<close>

lemma lock_both_returns:
  "SpinLock_lock_both l r st =
     (if l \<noteq> r \<and> \<not> raw_lock (st l) \<and> \<not> raw_lock (st r)
      then Some ((l, r), st(l := (st l)\<lparr>raw_lock := True\<rparr>, r := (st r)\<lparr>raw_lock := True\<rparr>)) else None)"
  by (auto simp: SpinLock_lock_both_def sl_lock_def fun_upd_twist split: bind_splits)

end
