(* ===== verification/Spec2Isabelle.thy ===== *)
theory Spec2Isabelle
  imports Waiters Load_Props Boot Page_Table_Budget Slist Spinlock
begin

text \<open>
  A verification library for the Hafnium hypervisor in Rust (src/hfo2/src, with the C files under
  src/src that it is linked with).

  \<^bold>\<open>The program.\<close> Hafnium runs at EL2 of an AArch64 machine and separates a primary VM, which schedules,
  from secondary VMs. At reset it builds its own stage-1 page table from a pool of pages, reads a manifest
  and the memory of the machine from the device tree, loads the VMs from a RAM disk into memory that it
  maps in their stage-2 tables, and tells the primary VM what is reserved. Afterwards it runs on
  exceptions only: VMs make hypercalls to run vCPUs, to send messages through mailboxes, to share memory
  and to inject interrupts.

  \<^bold>\<open>Conventions.\<close> Machine integers are words of their width, with wrap-around; structures are records,
  enumerations datatypes. A function that can fail returns an \<open>outcome\<close>: \<open>Ok\<close>, \<open>Err\<close>, or \<open>Panic\<close> for an
  assertion, an \<open>unwrap\<close>, an \<open>expect\<close> or an index out of bounds. Where code may not return, the result is an
  option and \<open>None\<close> says that it does not. State is passed explicitly: the pool and the trace of page table
  writes and TLB invalidations (\<open>menv\<close>), bytes of memory as a function on addresses, links of intrusive lists
  as an explicit store, and the whole system as the record \<open>hypervisor\<close>. Log output is left out.

  \<^bold>\<open>Memory management.\<close>
  \<^item> \<open>Prelude\<close>, \<open>Addr\<close>: results, shared lemmas, addresses and rounding (addr.rs, utils.rs).
  \<^item> \<open>Slist\<close>, \<open>Mpool\<close>: the singly linked list and the pools of pages with fallbacks (slist.rs, mpool.rs, page.rs).
    The list refines a sequence; no page of a pool is lost or handed out twice.
  \<^item> \<open>Arch\<close>, \<open>Arch_Aarch64\<close>: what a page table format promises, as the locales \<open>pte_codec\<close>, \<open>pte_split\<close> and
    \<open>mm_stage\<close>, and the formats of both stages (src/src/arch/aarch64/mm.c) as interpretations of them.
  \<^item> \<open>Page_Table\<close>: the page tables of mm.rs. \<open>Page_Table_Correct\<close>, \<open>Page_Table_Query\<close> and \<open>Page_Table_Props\<close>
    prove, inside \<open>mm_stage\<close>, what mapping, unmapping, defragmentation, queries, creation and destruction do to the
    attributes of every address (\<open>lookup_ptable\<close>), and to what the walk of the MMU finds there (\<open>translate\<close>); that a
    failed update changes nothing; that an update breaks valid entries before it makes them, and that defragmentation
    does not; and where pages go. \<open>Page_Table_Blocks\<close> and \<open>Page_Table_Budget\<close> prove how many pages an update needs: none
    for whole blocks, two for each level otherwise, and one more for each entry of level 3 that is mapped whole.

  \<^bold>\<open>Virtual machines and calls.\<close>
  \<^item> \<open>Interrupts\<close>, \<open>Cpu\<close>, \<open>Regs\<close>: virtual interrupts, vCPUs and CPUs (cpu.rs), registers and timers
    (src/src/arch/aarch64/cpu.c, timer.c). The count of deliverable interrupts is exact,
    and they are delivered in the order of their numbers.
  \<^item> \<open>Abi\<close>: encodings (abi.rs, spci.rs). \<open>Ring_List\<close>: the doubly linked list (list.rs) with the locale
    \<open>intrusive_list\<close>. \<open>Vm\<close>: VMs, mailboxes and waiters (vm.rs). \<open>Bytes\<close>: memory functions (std.rs).
    \<open>Spci_Message\<close>: memory sharing messages and their transition tables (spci_architected_message.rs).
  \<^item> \<open>Hypervisor\<close>: every call of hypervisor.rs. \<open>Api\<close>: the entry points of api.rs. \<open>Handler\<close>: the exception
    handlers that decode registers and call them (src/src/arch/aarch64/hypervisor/handler.c, psci_handler.c).
  \<^item> \<open>Isolation\<close>, \<open>Calls\<close>: the invariant \<open>hyp_ok\<close>, that every call keeps it, and isolation and integrity of the
    memory of the VMs for all sequences of calls. \<open>Handler_Props\<close> lifts this to exceptions with arbitrary
    registers, and shows two calls by which a VM stops the machine or a CPU.
  \<^item> \<open>Sharing\<close>: what sharing memory does, and that a vCPU runs on one CPU at a time. \<open>Mailboxes\<close>: the protocol of
    mailbox states. \<open>Waiters\<close>: the waiter lists are first-in first-out queues, and which call does what to them.
  \<^item> \<open>Spinlock\<close>: locks as atomic steps (spinlock.rs), the lock operations of the calls as programs, and the order of
    locks of api.rs. CPUs that make any sequences of these calls exclude each other and are never stuck;
    \<open>PSCI_CPU_ON\<close> of secondary VMs is not among them, and two such calls can block each other.

  \<^bold>\<open>Booting.\<close>
  \<^item> \<open>Memiter\<close>: iterators and the RAM disk (memiter.rs, cpio.rs). \<open>Fdt\<close>, \<open>Fdt_Tree\<close>: the flattened device tree
    (fdt.rs), which refines an abstract tree and stays inside its buffer on any bytes. \<open>Fdt_Handler\<close>: reading and
    patching it (fdt_handler.rs). \<open>Manifest\<close>: manifest.rs.
  \<^item> \<open>Load\<close>, \<open>Load_Correct\<close>, \<open>Load_Props\<close>: the loader (load.rs) establishes \<open>hyp_ok\<close> and reserves the memory of
    secondary VMs.
  \<^item> \<open>Boot\<close>: init.rs, boot_flow.rs and boot_params.rs, composed as \<open>one_time_init\<close> composes them:
    \<open>boot_to_run_isolated\<close> says that from reset on, whatever the VMs do, their memory is isolated.

  \<^bold>\<open>Assumptions.\<close> They are hypotheses of the theorems that need them: \<open>reduce_law\<close> (the function of the crate
  \<open>reduce\<close>), \<open>hf_stage2\<close> (the geometry comes from \<open>arch_mm_init\<close>), addresses in the 48-bit space, memory ranges
  of the device tree that do not overlap (\<open>ranges_ok\<close>; the code does not check it), a console driver that
  keeps the page table well-formed, and literals of the program text that are where the linker puts them. What
  the linker and the firmware provide are arguments of the definitions.

  \<^bold>\<open>Termination.\<close> Loops are structural or have a measure: levels of a table, the rest of a range or of a buffer.
  The search of the RAM disk, the string functions, the draining of a linked list and the loop that turns on a CPU
  through the firmware are partial functions into options, since corrupt memory or the firmware can keep them from
  returning; no fuel is used.

  \<^bold>\<open>Concurrency.\<close> A call of the hypervisor is one step. The locks that it takes and releases itself are modelled
  apart, in \<open>Spinlock\<close>, as programs of lock operations; the lock of a vCPU, which is held across calls, is part of
  the state. Weak memory is not modelled.

  \<^bold>\<open>Memory accesses.\<close> Where the hypervisor maps a range to write to it (\<open>clear_memory\<close>, \<open>copy_to_unmapped\<close>), the
  write is checked against the walk of its own table (\<open>hyp_writable\<close>), and is a panic where it would fault. Other
  accesses, to the message pages and to what the boot code maps once, are not checked again.

  \<^bold>\<open>Not modelled.\<close> Log output and the panic handler (dlog.rs, panic.rs) and the debug dumps of mm.rs and fdt.rs, which
  only print; the stub architecture and the unit tests; pointer conversions for C without an effect; assembly and
  the instructions that access system registers, the TLB and caches, except as events of the trace; the invalidation
  of the TLB of a VM that changes its vCPU on a CPU, trapped accesses to debug registers, and drivers.
\<close>

end
